(* ===== verification/HPrelude.thy ===== *)
theory HPrelude
  imports Main "HOL-Library.Word"
begin

text \<open>
  Prelude of the development: type synonyms, the collections of simplification rules,
  generic facts on folds and on machine words, and the dictionary interface.

  The server keeps several \<^verbatim>\<open>dict\<close>s (src/server/src/dict.c): the table of cluster
  nodes, the black list, and for every hash slot the commands cached for replication and
  the instances that hold a copy of the slot. What the cluster code relies on is the
  observable behaviour of a dictionary: lookup, add, replace, delete, size and iteration
  in some fixed order. That contract is the locale \<open>dictionary\<close>; the operations the model
  calls keep the entries as a list whose order is the order of iteration, and interpret it.
\<close>

unbundle bit_operations_syntax

named_theorems flag_simps "evaluation of node flag tests"
named_theorems frame_simps "fields that an operation leaves alone"

type_synonym u8 = "8 word"
type_synonym u16 = "16 word"
type_synonym u32 = "32 word"
type_synonym u64 = "64 word"
type_synonym mstime_t = int

section \<open>Return codes\<close>

datatype retcode = C_OK | C_ERR

section \<open>Loops over a list of elements\<close>

lemma fold_preserves:
  assumes "P s" and "\<And>x s. x \<in> set xs \<Longrightarrow> P s \<Longrightarrow> P (f x s)"
  shows "P (fold f xs s)"
  using assms by (induction xs arbitrary: s) auto

lemma fold_keeps_field:
  assumes "\<And>x s. x \<in> set xs \<Longrightarrow> g (f x s) = g s"
  shows "g (fold f xs s) = g s"
  using assms by (induction xs arbitrary: s) auto

lemma fold_counts:
  "fold (\<lambda>x n. if P x then n + 1 else n) xs (k :: int) = k + int (length (filter P xs))"
  by (induction xs arbitrary: k) auto

section \<open>Bit flags\<close>

text \<open>\<open>hasFlag f b\<close> is the C test \<^verbatim>\<open>f & b\<close>; set and clear are \<^verbatim>\<open>f |= b\<close> and \<^verbatim>\<open>f &= ~b\<close>.\<close>

definition hasFlag :: "'a::len word \<Rightarrow> 'a word \<Rightarrow> bool" where
  "hasFlag f b \<longleftrightarrow> f AND b \<noteq> 0"

lemma hasFlag_bit: "hasFlag f b \<longleftrightarrow> (\<exists>n. bit f n \<and> bit b n)"
proof -
  have "f AND b = 0 \<longleftrightarrow> (\<forall>n. \<not> (bit f n \<and> bit b n))"
    by (auto simp: bit_eq_iff bit_and_iff dest: bit_imp_le_length)
  then show ?thesis by (simp add: hasFlag_def)
qed

lemma hasFlag_OR: "hasFlag f (a OR b) \<longleftrightarrow> hasFlag f a \<or> hasFlag f b"
  by (auto simp: hasFlag_bit bit_or_iff)

lemma hasFlag_set: "hasFlag (f OR b) c \<longleftrightarrow> hasFlag f c \<or> hasFlag b c"
  by (auto simp: hasFlag_bit bit_or_iff)

lemma hasFlag_clear: "hasFlag (f AND NOT b) c \<longleftrightarrow> hasFlag f (c AND NOT b)"
  by (simp add: hasFlag_def ac_simps)

lemma hasFlag_zero [simp]: "\<not> hasFlag f 0" "\<not> hasFlag 0 f"
  by (simp_all add: hasFlag_def)

lemma hasFlag_numeral:
  "hasFlag (numeral m :: 'a::len word) (numeral n) \<longleftrightarrow> (numeral m AND numeral n :: 'a::len word) \<noteq> 0"
  "hasFlag (1 :: 'a::len word) (numeral n) \<longleftrightarrow> (1 AND numeral n :: 'a::len word) \<noteq> 0"
  "hasFlag (numeral m :: 'a::len word) 1 \<longleftrightarrow> (numeral m AND 1 :: 'a::len word) \<noteq> 0"
  by (simp_all only: hasFlag_def)

lemma hasFlag_one: "hasFlag (1 :: 'a::len word) 1"
  by (simp add: hasFlag_def)

lemmas hasFlag_simps = hasFlag_OR hasFlag_set hasFlag_clear hasFlag_numeral hasFlag_one

section \<open>Dictionaries\<close>

text \<open>
  A dictionary keeps its contract as long as there is room for the entry that \<open>put\<close> may add: the
  entry lists below always have it, the hash table of \<open>DictMap\<close> up to the size of its memory.
\<close>

locale dictionary =
  fixes find :: "'d \<Rightarrow> 'k \<Rightarrow> 'v option"
    and put :: "'d \<Rightarrow> 'k \<Rightarrow> 'v \<Rightarrow> 'd"
    and remove :: "'d \<Rightarrow> 'k \<Rightarrow> 'd"
    and count :: "'d \<Rightarrow> nat"
    and ok :: "'d \<Rightarrow> bool"
    and room :: "nat \<Rightarrow> bool"
  assumes find_put: "ok d \<Longrightarrow> room (count d) \<Longrightarrow> find (put d k v) k' = (if k' = k then Some v else find d k')"
    and find_remove: "ok d \<Longrightarrow> find (remove d k) k' = (if k' = k then None else find d k')"
    and count_put: "ok d \<Longrightarrow> room (count d) \<Longrightarrow>
      count (put d k v) = (if find d k = None then Suc (count d) else count d)"
    and count_remove: "ok d \<Longrightarrow> count (remove d k) = (if find d k = None then count d else count d - 1)"
    and count_zero: "ok d \<Longrightarrow> find d k = Some v \<Longrightarrow> 0 < count d"
    and ok_put: "ok d \<Longrightarrow> room (count d) \<Longrightarrow> ok (put d k v)"
    and ok_remove: "ok d \<Longrightarrow> ok (remove d k)"
    and room_less: "room n \<Longrightarrow> m \<le> n \<Longrightarrow> room m"
begin

lemma put_absent_count: "ok d \<Longrightarrow> room (count d) \<Longrightarrow> find d k = None \<Longrightarrow> count (put d k v) = count d + 1"
  by (simp add: count_put)

lemma put_present_count: "ok d \<Longrightarrow> room (count d) \<Longrightarrow> find d k = Some w \<Longrightarrow> count (put d k v) = count d"
  by (simp add: count_put)

lemma remove_put_count:
  "ok d \<Longrightarrow> room (count d) \<Longrightarrow> find d k = None \<Longrightarrow> count (remove (put d k v) k) = count d"
  by (simp add: count_remove count_put find_put ok_put)

text \<open>Any number of puts for which there is room: the last value of a key stays.\<close>

lemma fold_put:
  "ok d \<Longrightarrow> room (count d + length kvs) \<Longrightarrow>
   ok (fold (\<lambda>(k, v) d. put d k v) kvs d) \<and>
   find (fold (\<lambda>(k, v) d. put d k v) kvs d) = find d ++ map_of (rev kvs) \<and>
   count (fold (\<lambda>(k, v) d. put d k v) kvs d) \<le> count d + length kvs"
proof (induction kvs arbitrary: d)
  case (Cons kv kvs)
  obtain k v where kv: "kv = (k, v)" by force
  have room: "room (count d)" by (rule room_less [OF Cons.prems(2)]) simp
  have ok: "ok (put d k v)" and cnt: "count (put d k v) \<le> Suc (count d)"
    and look: "find (put d k v) = (find d)(k \<mapsto> v)"
    using Cons.prems(1) room by (auto simp: ok_put count_put find_put)
  have "room (count (put d k v) + length kvs)"
    by (rule room_less [OF Cons.prems(2)]) (use cnt in simp)
  from Cons.IH [OF ok this] kv look cnt show ?case
    by (auto simp: map_add_def fun_eq_iff map_of_append split: option.splits)
qed simp

end

type_synonym ('k, 'v) dict = "('k \<times> 'v) list"

definition dictOk :: "('k, 'v) dict \<Rightarrow> bool" where
  "dictOk d \<longleftrightarrow> distinct (map fst d)"

definition dictFind :: "('k, 'v) dict \<Rightarrow> 'k \<Rightarrow> 'v option" where
  "dictFind d k = map_of d k"

fun dictReplace :: "('k, 'v) dict \<Rightarrow> 'k \<Rightarrow> 'v \<Rightarrow> ('k, 'v) dict" where
  "dictReplace [] k v = [(k, v)]"
| "dictReplace ((k', v') # d) k v = (if k' = k then (k, v) # d else (k', v') # dictReplace d k v)"

definition dictDelete :: "('k, 'v) dict \<Rightarrow> 'k \<Rightarrow> ('k, 'v) dict" where
  "dictDelete d k = filter (\<lambda>e. fst e \<noteq> k) d"

definition dictSize :: "('k, 'v) dict \<Rightarrow> nat" where
  "dictSize d = length d"

definition dictVals :: "('k, 'v) dict \<Rightarrow> 'v list" where
  "dictVals d = map snd d"

lemma dictReplace_keys: "fst ` set (dictReplace d k v) = insert k (fst ` set d)"
  by (induction d k v rule: dictReplace.induct) auto

lemma dictReplace_ok: "dictOk d \<Longrightarrow> dictOk (dictReplace d k v)"
  by (induction d k v rule: dictReplace.induct) (auto simp: dictOk_def dictReplace_keys)

lemma dictFind_dictReplace: "dictFind (dictReplace d k v) k' = (if k' = k then Some v else dictFind d k')"
  by (induction d k v rule: dictReplace.induct) (auto simp: dictFind_def)

lemma dictSize_dictReplace:
  "dictSize (dictReplace d k v) = (if dictFind d k = None then Suc (dictSize d) else dictSize d)"
  by (induction d k v rule: dictReplace.induct) (auto simp: dictSize_def dictFind_def)

lemma dictFind_dictDelete: "dictFind (dictDelete d k) k' = (if k' = k then None else dictFind d k')"
  by (induction d) (auto simp: dictFind_def dictDelete_def)

lemma dictDelete_absent: "dictFind d k = None \<Longrightarrow> dictDelete d k = d"
  by (induction d) (auto simp: dictFind_def dictDelete_def split: if_splits)

lemma dictSize_dictDelete:
  "dictOk d \<Longrightarrow>
   dictSize (dictDelete d k) = (if dictFind d k = None then dictSize d else dictSize d - 1)"
proof (induction d)
  case (Cons e d)
  then have IH: "dictSize (dictDelete d k) = (if dictFind d k = None then dictSize d else dictSize d - 1)"
    by (simp add: dictOk_def)
  show ?case
  proof (cases "fst e = k")
    case True
    then have "dictFind d k = None"
      using Cons.prems by (auto simp: dictOk_def dictFind_def map_of_eq_None_iff)
    then have "dictDelete d k = d" by (rule dictDelete_absent)
    with True show ?thesis by (cases e) (simp add: dictDelete_def dictSize_def dictFind_def)
  next
    case False
    have "dictFind d k = Some v \<Longrightarrow> dictSize d \<noteq> 0" for v
      by (cases d) (auto simp: dictFind_def dictSize_def)
    with False IH show ?thesis
      by (cases e) (auto simp: dictDelete_def dictSize_def dictFind_def)
  qed
qed (simp add: dictDelete_def dictSize_def dictFind_def)

lemma dictDelete_ok: "dictOk d \<Longrightarrow> dictOk (dictDelete d k)"
  by (auto simp: dictOk_def dictDelete_def distinct_map inj_on_def)

interpretation alist: dictionary dictFind dictReplace dictDelete dictSize dictOk "\<lambda>_. True"
proof
  fix d :: "('a, 'b) dict" and k v
  assume "dictFind d k = Some v"
  then show "0 < dictSize d" by (cases d) (auto simp: dictFind_def dictSize_def)
qed (simp_all add: dictFind_dictReplace dictFind_dictDelete dictSize_dictReplace
       dictSize_dictDelete dictReplace_ok dictDelete_ok)

lemma dictFind_in: "dictFind d k = Some v \<Longrightarrow> (k, v) \<in> set d"
  by (simp add: dictFind_def map_of_SomeD)

lemma dictFind_vals: "dictFind d k = Some v \<Longrightarrow> v \<in> set (dictVals d)"
  by (force simp: dictVals_def dest: dictFind_in)

lemma dictVals_dictReplace: "set (dictVals (dictReplace d k v)) \<subseteq> insert v (set (dictVals d))"
  by (induction d k v rule: dictReplace.induct) (auto simp: dictVals_def)

lemma dictVals_dictDelete: "set (dictVals (dictDelete d k)) \<subseteq> set (dictVals d)"
  by (auto simp: dictVals_def dictDelete_def)

end
