(* ===== verification/Bitmap.thy ===== *)
theory Bitmap
  imports HPrelude
begin

text \<open>
  The slot bitmaps of src/server/src/cluster.c (\<open>bitmapTestBit\<close>, \<open>bitmapSetBit\<close>,
  \<open>bitmapClearBit\<close>) as arrays of bytes. What the cluster relies on is the locale
  \<open>bit_array\<close>: a set of positions below a fixed length with test, set and clear. Its lemmas
  give how the number of positions changes, which is what \<^verbatim>\<open>numslots\<close> counts.
\<close>

definition CLUSTER_SLOTS :: nat where
  "CLUSTER_SLOTS = 16384"

type_synonym bitmap = "u8 list"

definition bitmapTestBit :: "bitmap \<Rightarrow> nat \<Rightarrow> bool" where
  "bitmapTestBit bm pos = (bm ! (pos div 8) AND push_bit (pos mod 8) 1 \<noteq> 0)"

definition bitmapSetBit :: "bitmap \<Rightarrow> nat \<Rightarrow> bitmap" where
  "bitmapSetBit bm pos = bm[pos div 8 := bm ! (pos div 8) OR push_bit (pos mod 8) 1]"

definition bitmapClearBit :: "bitmap \<Rightarrow> nat \<Rightarrow> bitmap" where
  "bitmapClearBit bm pos = bm[pos div 8 := bm ! (pos div 8) AND NOT (push_bit (pos mod 8) 1)]"

definition bitmapOk :: "bitmap \<Rightarrow> bool" where
  "bitmapOk bm \<longleftrightarrow> length bm = CLUSTER_SLOTS div 8"

definition emptyBitmap :: bitmap where
  "emptyBitmap = replicate (CLUSTER_SLOTS div 8) 0"

section \<open>The contract of a bit array\<close>

locale bit_array =
  fixes test :: "'b \<Rightarrow> nat \<Rightarrow> bool"
    and set_bit_at :: "'b \<Rightarrow> nat \<Rightarrow> 'b"
    and clear :: "'b \<Rightarrow> nat \<Rightarrow> 'b"
    and ok :: "'b \<Rightarrow> bool"
    and len :: nat
  assumes test_set: "ok b \<Longrightarrow> i < len \<Longrightarrow> j < len \<Longrightarrow> test (set_bit_at b i) j \<longleftrightarrow> i = j \<or> test b j"
    and test_clear: "ok b \<Longrightarrow> i < len \<Longrightarrow> j < len \<Longrightarrow> test (clear b i) j \<longleftrightarrow> i \<noteq> j \<and> test b j"
    and ok_set: "ok b \<Longrightarrow> ok (set_bit_at b i)"
    and ok_clear: "ok b \<Longrightarrow> ok (clear b i)"
begin

lemma members_set:
  "ok b \<Longrightarrow> i < len \<Longrightarrow> {j. j < len \<and> test (set_bit_at b i) j} = insert i {j. j < len \<and> test b j}"
  by (auto simp: test_set)

lemma members_clear:
  "ok b \<Longrightarrow> i < len \<Longrightarrow> {j. j < len \<and> test (clear b i) j} = {j. j < len \<and> test b j} - {i}"
  by (auto simp: test_clear)

lemma card_set:
  "ok b \<Longrightarrow> i < len \<Longrightarrow> card {j. j < len \<and> test (set_bit_at b i) j}
     = (if test b i then card {j. j < len \<and> test b j} else Suc (card {j. j < len \<and> test b j}))"
  by (auto simp: members_set insert_absorb)

lemma card_clear:
  "ok b \<Longrightarrow> i < len \<Longrightarrow> card {j. j < len \<and> test (clear b i) j}
     = (if test b i then card {j. j < len \<and> test b j} - 1 else card {j. j < len \<and> test b j})"
  by (simp add: members_clear card_Diff_singleton_if)

lemma set_then_clear:
  "ok b \<Longrightarrow> i < len \<Longrightarrow> \<not> test b i \<Longrightarrow>
   {j. j < len \<and> test (clear (set_bit_at b i) i) j} = {j. j < len \<and> test b j}"
  by (auto simp: members_clear members_set ok_set)

end

section \<open>The byte array implements it\<close>

lemma byte_mask_test: "(x :: u8) AND push_bit n 1 \<noteq> 0 \<longleftrightarrow> bit x n"
proof -
  have "x AND push_bit n 1 = (if bit x n then push_bit n 1 else 0)"
    by (rule bit_word_eqI) (auto simp: bit_simps)
  moreover have "bit x n \<Longrightarrow> push_bit n (1 :: u8) \<noteq> 0"
    by (metis bit_imp_le_length exp_eq_zero_iff push_bit_of_1 not_le)
  ultimately show ?thesis by auto
qed

lemma bitmapTestBit_bit: "bitmapTestBit bm pos \<longleftrightarrow> bit (bm ! (pos div 8)) (pos mod 8)"
  by (simp only: bitmapTestBit_def byte_mask_test)

lemma byte_index: "bitmapOk bm \<Longrightarrow> i < CLUSTER_SLOTS \<Longrightarrow> i div 8 < length bm"
  by (simp add: bitmapOk_def CLUSTER_SLOTS_def less_mult_imp_div_less)

lemma same_position: "i div 8 = j div 8 \<Longrightarrow> i mod 8 = j mod 8 \<Longrightarrow> i = (j :: nat)"
  by (metis div_mult_mod_eq)

lemma testBit_setBit:
  assumes "bitmapOk bm" and "i < CLUSTER_SLOTS"
  shows "bitmapTestBit (bitmapSetBit bm i) j \<longleftrightarrow> i = j \<or> bitmapTestBit bm j"
proof (cases "i div 8 = j div 8")
  case True
  have "j mod 8 < LENGTH(8)" by simp
  then have "bit (push_bit (i mod 8) (1 :: u8)) (j mod 8) \<longleftrightarrow> i mod 8 = j mod 8"
    by (auto simp: bit_simps)
  with True byte_index [OF assms] show ?thesis
    by (auto simp: bitmapTestBit_bit bitmapSetBit_def bit_or_iff dest: same_position)
next
  case False
  then show ?thesis by (auto simp: bitmapTestBit_bit bitmapSetBit_def)
qed

lemma testBit_clearBit:
  assumes "bitmapOk bm" and "i < CLUSTER_SLOTS"
  shows "bitmapTestBit (bitmapClearBit bm i) j \<longleftrightarrow> i \<noteq> j \<and> bitmapTestBit bm j"
proof (cases "i div 8 = j div 8")
  case True
  have "j mod 8 < LENGTH(8)" by simp
  then have "bit (NOT (push_bit (i mod 8) (1 :: u8))) (j mod 8) \<longleftrightarrow> i mod 8 \<noteq> j mod 8"
    by (auto simp: bit_simps)
  with True byte_index [OF assms] show ?thesis
    by (auto simp: bitmapTestBit_bit bitmapClearBit_def bit_and_iff dest: same_position)
next
  case False
  then show ?thesis by (auto simp: bitmapTestBit_bit bitmapClearBit_def)
qed

interpretation slot_bits: bit_array bitmapTestBit bitmapSetBit bitmapClearBit bitmapOk CLUSTER_SLOTS
proof
  show "bitmapOk b \<Longrightarrow> bitmapOk (bitmapSetBit b i)" for b i
    by (simp add: bitmapOk_def bitmapSetBit_def)
  show "bitmapOk b \<Longrightarrow> bitmapOk (bitmapClearBit b i)" for b i
    by (simp add: bitmapOk_def bitmapClearBit_def)
qed (simp_all add: testBit_setBit testBit_clearBit)

lemma emptyBitmap_ok [simp]: "bitmapOk emptyBitmap"
  by (simp add: bitmapOk_def emptyBitmap_def)

lemma emptyBitmap_test [simp]: "j < CLUSTER_SLOTS \<Longrightarrow> \<not> bitmapTestBit emptyBitmap j"
  by (simp add: bitmapTestBit_bit emptyBitmap_def CLUSTER_SLOTS_def less_mult_imp_div_less)

definition slotsOf :: "bitmap \<Rightarrow> nat set" where
  "slotsOf bm = {j. j < CLUSTER_SLOTS \<and> bitmapTestBit bm j}"

lemma finite_slotsOf [simp]: "finite (slotsOf bm)"
  by (simp add: slotsOf_def)

lemma card_slotsOf_le: "card (slotsOf bm) \<le> CLUSTER_SLOTS"
proof -
  have "card (slotsOf bm) \<le> card {..<CLUSTER_SLOTS}"
    by (rule card_mono) (auto simp: slotsOf_def)
  then show ?thesis by simp
qed

end
