(* ===== verification/KeySlot.thy ===== *)
theory KeySlot
  imports Bitmap
begin

text \<open>
  From a key to its hash slot: the table-driven CRC16 of src/server/src/crc16.c and
  \<open>keyHashSlot\<close> of src/server/src/cluster.c, which hashes only what is between the first
  \<^verbatim>\<open>{\<close> and the first \<^verbatim>\<open>}\<close> after it. The table is checked against the polynomial the file's
  comment gives (XMODEM, 0x1021), computed bit by bit.
\<close>

section \<open>CRC16\<close>

definition crc16tab :: "u16 list" where
  "crc16tab = [
    0, 4129, 8258, 12387, 16516, 20645, 24774, 28903,
    33032, 37161, 41290, 45419, 49548, 53677, 57806, 61935,
    4657, 528, 12915, 8786, 21173, 17044, 29431, 25302,
    37689, 33560, 45947, 41818, 54205, 50076, 62463, 58334,
    9314, 13379, 1056, 5121, 25830, 29895, 17572, 21637,
    42346, 46411, 34088, 38153, 58862, 62927, 50604, 54669,
    13907, 9842, 5649, 1584, 30423, 26358, 22165, 18100,
    46939, 42874, 38681, 34616, 63455, 59390, 55197, 51132,
    18628, 22757, 26758, 30887, 2112, 6241, 10242, 14371,
    51660, 55789, 59790, 63919, 35144, 39273, 43274, 47403,
    23285, 19156, 31415, 27286, 6769, 2640, 14899, 10770,
    56317, 52188, 64447, 60318, 39801, 35672, 47931, 43802,
    27814, 31879, 19684, 23749, 11298, 15363, 3168, 7233,
    60846, 64911, 52716, 56781, 44330, 48395, 36200, 40265,
    32407, 28342, 24277, 20212, 15891, 11826, 7761, 3696,
    65439, 61374, 57309, 53244, 48923, 44858, 40793, 36728,
    37256, 33193, 45514, 41451, 53516, 49453, 61774, 57711,
    4224, 161, 12482, 8419, 20484, 16421, 28742, 24679,
    33721, 37784, 41979, 46042, 49981, 54044, 58239, 62302,
    689, 4752, 8947, 13010, 16949, 21012, 25207, 29270,
    46570, 42443, 38312, 34185, 62830, 58703, 54572, 50445,
    13538, 9411, 5280, 1153, 29798, 25671, 21540, 17413,
    42971, 47098, 34713, 38840, 59231, 63358, 50973, 55100,
    9939, 14066, 1681, 5808, 26199, 30326, 17941, 22068,
    55628, 51565, 63758, 59695, 39368, 35305, 47498, 43435,
    22596, 18533, 30726, 26663, 6336, 2273, 14466, 10403,
    52093, 56156, 60223, 64286, 35833, 39896, 43963, 48026,
    19061, 23124, 27191, 31254, 2801, 6864, 10931, 14994,
    64814, 60687, 56684, 52557, 48554, 44427, 40424, 36297,
    31782, 27655, 23652, 19525, 15522, 11395, 7392, 3265,
    61215, 65342, 53085, 57212, 44955, 49082, 36825, 40952,
    28183, 32310, 20053, 24180, 11923, 16050, 3793, 7920]"

definition crc16_step :: "u16 \<Rightarrow> u8 \<Rightarrow> u16" where
  "crc16_step crc c =
     push_bit 8 crc XOR crc16tab ! unat ((drop_bit 8 crc XOR ucast c) AND 0x00FF)"

definition crc16_bytes :: "u8 list \<Rightarrow> u16" where
  "crc16_bytes buf = fold (\<lambda>c crc. crc16_step crc c) buf 0"

definition crc16 :: "string \<Rightarrow> u16" where
  "crc16 buf = crc16_bytes (map of_char buf)"

section \<open>The bit-by-bit definition of the polynomial\<close>

definition poly_shift :: "u16 \<Rightarrow> u16" where
  "poly_shift x = (if bit x 15 then push_bit 1 x XOR 0x1021 else push_bit 1 x)"

definition crc16_step_bitwise :: "u16 \<Rightarrow> u8 \<Rightarrow> u16" where
  "crc16_step_bitwise crc c = (poly_shift ^^ 8) (crc XOR push_bit 8 (ucast c))"

definition crc16_bitwise :: "u8 list \<Rightarrow> u16" where
  "crc16_bitwise buf = fold (\<lambda>c crc. crc16_step_bitwise crc c) buf 0"

lemma poly_shift_XOR: "poly_shift (x XOR y) = poly_shift x XOR poly_shift y"
  by (rule bit_word_eqI) (auto simp: poly_shift_def bit_simps)

lemma poly_shifts_XOR: "(poly_shift ^^ n) (x XOR y) = (poly_shift ^^ n) x XOR (poly_shift ^^ n) y"
  by (induction n) (simp_all add: poly_shift_XOR)

text \<open>Evaluation rules that only fire on literals, so the 256 entries are computed one by one.\<close>

lemma poly_shift_eval:
  "poly_shift 0 = 0"
  "poly_shift 1 = 2"
  "poly_shift (numeral n) =
     (if bit (numeral n :: u16) 15 then push_bit 1 (numeral n) XOR 0x1021 else push_bit 1 (numeral n))"
  by (simp_all add: poly_shift_def)

lemma eight_times: "(f ^^ 8) x = f (f (f (f (f (f (f (f x)))))))"
  by (simp add: numeral_eq_Suc)

lemma upt_bytes: "[0..<256] = 0 # 1 # [2..<256]"
  by (simp add: upt_conv_Cons numeral_2_eq_2)

lemma table_is_polynomial:
  "map (\<lambda>t. (poly_shift ^^ 8) (push_bit 8 (of_nat t))) [0..<256] = crc16tab"
  by (simp add: eight_times poly_shift_eval upt_bytes upt_rec_numeral crc16tab_def)

lemma low_byte_mask: "(0xFF :: u16) = mask 8"
  by (simp add: mask_eq_exp_minus_1)

lemma shifts_of_low_bits:
  "k \<le> 8 \<Longrightarrow> (poly_shift ^^ k) (y AND mask 8) = push_bit k (y AND mask 8)"
proof (induction k)
  case (Suc k)
  then have "\<not> bit (push_bit k (y AND mask 8)) 15" by (auto simp: bit_simps)
  with Suc show ?case by (simp add: poly_shift_def)
qed simp

lemma high_low_split:
  fixes crc :: u16 and c :: u8
  shows "crc XOR push_bit 8 (ucast c) = push_bit 8 (drop_bit 8 crc XOR ucast c) XOR (crc AND 0xFF)"
  unfolding low_byte_mask by (rule bit_word_eqI) (auto simp: bit_simps)

lemma byte_bound: "unat ((y :: u16) AND 0xFF) < 256"
proof -
  have "y AND 0xFF \<le> 0xFF" by (rule word_and_le1)
  then show ?thesis by (simp add: word_le_nat_alt)
qed

lemma shifts_of_table_index: "(poly_shift ^^ 8) (push_bit 8 (y AND 0xFF)) = crc16tab ! unat (y AND 0xFF)"
proof -
  let ?t = "unat (y AND 0xFF)"
  have "map (\<lambda>t. (poly_shift ^^ 8) (push_bit 8 (of_nat t))) [0..<256] ! ?t
      = (poly_shift ^^ 8) (push_bit 8 (of_nat ([0..<256] ! ?t)))"
    by (rule nth_map) (simp add: byte_bound)
  also have "[0..<256] ! ?t = ?t"
    using nth_upt [of 0 ?t 256] byte_bound [of y] by simp
  finally show ?thesis by (simp only: table_is_polynomial of_nat_unat ucast_id)
qed

lemma shifts_of_low_byte: "(poly_shift ^^ 8) (y AND 0xFF) = push_bit 8 (y AND 0xFF)"
  by (simp only: low_byte_mask shifts_of_low_bits)

lemma index_is_byte:
  fixes crc :: u16 and c :: u8
  shows "(drop_bit 8 crc XOR ucast c) AND 0xFF = drop_bit 8 crc XOR ucast c"
  unfolding low_byte_mask
  by (rule bit_word_eqI) (auto simp: bit_simps dest: bit_imp_le_length)

lemma high_byte_only: "push_bit 8 ((crc :: u16) AND 0xFF) = push_bit 8 crc"
  unfolding low_byte_mask by (rule bit_word_eqI) (auto simp: bit_simps)

lemma crc16_step_correct: "crc16_step crc c = crc16_step_bitwise crc c"
proof -
  let ?t = "drop_bit 8 crc XOR ucast c :: u16"
  have "crc16_step_bitwise crc c
      = (poly_shift ^^ 8) (push_bit 8 ?t XOR (crc AND 0xFF))"
    by (simp only: crc16_step_bitwise_def high_low_split)
  then have "crc16_step_bitwise crc c
      = (poly_shift ^^ 8) (push_bit 8 ?t) XOR (poly_shift ^^ 8) (crc AND 0xFF)"
    by (simp only: crc16_step_bitwise_def poly_shifts_XOR)
  also have "(poly_shift ^^ 8) (push_bit 8 ?t) = crc16tab ! unat (?t AND 0xFF)"
    using shifts_of_table_index [of ?t] by (simp only: index_is_byte)
  also have "(poly_shift ^^ 8) (crc AND 0xFF) = push_bit 8 crc"
    by (simp only: shifts_of_low_byte high_byte_only)
  finally show ?thesis by (simp only: crc16_step_def xor.commute)
qed

text \<open>
  C39. The table-driven CRC16 that maps keys to slots computes, for every input, the XMODEM
  CRC with polynomial 0x1021 and zero initial value that its comment promises, including the
  check value 0x31C3 of the string 123456789.
\<close>

theorem crc16_is_xmodem:
  "crc16_bytes buf = crc16_bitwise buf \<and> crc16 ''123456789'' = 0x31C3"
proof
  show equiv: "crc16_bytes buf = crc16_bitwise buf" for buf
    by (simp add: crc16_bytes_def crc16_bitwise_def crc16_step_correct)
  show "crc16 ''123456789'' = 0x31C3"
    by (simp add: crc16_def equiv crc16_bitwise_def crc16_step_bitwise_def eight_times
          poly_shift_eval)
qed

section \<open>Hash tags\<close>

text \<open>The two \<^verbatim>\<open>for\<close> loops of \<open>keyHashSlot\<close>: advance while the character is not the one sought.\<close>

function scanFor :: "char \<Rightarrow> string \<Rightarrow> nat \<Rightarrow> nat" where
  "scanFor ch key i = (if i < length key \<and> key ! i \<noteq> ch then scanFor ch key (Suc i) else i)"
  by pat_completeness auto
termination
  by (relation "measure (\<lambda>(ch, key, i). length key - i)") auto

declare scanFor.simps [simp del]

definition keyHashSlot :: "string \<Rightarrow> nat" where
  "keyHashSlot key = (
     let keylen = length key; s = scanFor (CHR ''{'') key 0 in
     if s = keylen then unat (crc16 key AND 0x3FFF)
     else let e = scanFor (CHR ''}'') key (s + 1) in
       if e = keylen \<or> e = s + 1 then unat (crc16 key AND 0x3FFF)
       else unat (crc16 (take (e - s - 1) (drop (s + 1) key)) AND 0x3FFF))"

lemma scanFor_takeWhile:
  "i \<le> length key \<Longrightarrow> scanFor ch key i = i + length (takeWhile (\<lambda>c. c \<noteq> ch) (drop i key))"
proof (induction ch key i rule: scanFor.induct)
  case (1 ch key i)
  show ?case
  proof (cases "i < length key \<and> key ! i \<noteq> ch")
    case True
    then have "drop i key = key ! i # drop (Suc i) key" by (simp add: Cons_nth_drop_Suc)
    with True "1.IH" show ?thesis by (simp add: scanFor.simps [of ch key i])
  next
    case False
    then show ?thesis
      using "1.prems" scanFor.simps [of ch key i]
      by (cases "i < length key") (auto simp flip: Cons_nth_drop_Suc)
  qed
qed

lemma masked_slot_bound: "unat ((c :: u16) AND 0x3FFF) < CLUSTER_SLOTS"
proof -
  have "c AND 0x3FFF \<le> 0x3FFF" by (rule word_and_le1)
  then show ?thesis by (simp add: word_le_nat_alt CLUSTER_SLOTS_def)
qed

text \<open>
  Every key, whatever its bytes, maps to a slot below 16384, so it is a valid index of the
  slot tables.
\<close>

theorem keyHashSlot_bound: "keyHashSlot key < CLUSTER_SLOTS"
  by (simp add: keyHashSlot_def Let_def masked_slot_bound)

lemma keyHashSlot_lt: "keyHashSlot key < CLUSTER_SLOTS"
  by (simp add: keyHashSlot_def Let_def masked_slot_bound)

lemma keyHashSlot_tagged:
  assumes "CHR ''{'' \<notin> set pre" and "CHR ''}'' \<notin> set tag" and "tag \<noteq> []"
  shows "keyHashSlot (pre @ CHR ''{'' # tag @ CHR ''}'' # post) = unat (crc16 tag AND 0x3FFF)"
proof -
  let ?key = "pre @ CHR ''{'' # tag @ CHR ''}'' # post"
  have pre: "takeWhile (\<lambda>c. c \<noteq> CHR ''{'') ?key = pre"
    using assms(1) by (subst takeWhile_append2) auto
  have tag: "takeWhile (\<lambda>c. c \<noteq> CHR ''}'') (tag @ CHR ''}'' # post) = tag"
    using assms(2) by (subst takeWhile_append2) auto
  have s: "scanFor (CHR ''{'') ?key 0 = length pre"
    using pre by (simp add: scanFor_takeWhile)
  have "scanFor (CHR ''}'') ?key (length pre + 1) = length pre + 1 + length tag"
    using tag by (subst scanFor_takeWhile) auto
  with s assms(3) show ?thesis
    by (simp add: keyHashSlot_def Let_def)
qed

text \<open>
  Hash tags work as the comment says: two keys with the same non-empty tag between the
  first opening brace and the next closing brace go to the same slot, whatever surrounds the
  tag, and that slot is the slot of the bare tag.
\<close>

theorem hash_tags_colocate:
  assumes "CHR ''{'' \<notin> set pre" and "CHR ''{'' \<notin> set pre'"
    and "CHR ''}'' \<notin> set tag" and "CHR ''{'' \<notin> set tag" and "tag \<noteq> []"
  shows "keyHashSlot (pre @ CHR ''{'' # tag @ CHR ''}'' # post)
           = keyHashSlot (pre' @ CHR ''{'' # tag @ CHR ''}'' # post') \<and>
         keyHashSlot (pre @ CHR ''{'' # tag @ CHR ''}'' # post) = keyHashSlot tag"
proof -
  have "takeWhile (\<lambda>c. c \<noteq> CHR ''{'') tag = tag"
    using assms(4) unfolding takeWhile_eq_all_conv by auto
  then have "scanFor (CHR ''{'') tag 0 = length tag"
    by (simp only: scanFor_takeWhile drop_0 add_0 le0)
  then have "keyHashSlot tag = unat (crc16 tag AND 0x3FFF)"
    by (simp add: keyHashSlot_def)
  then show ?thesis by (simp add: keyHashSlot_tagged assms)
qed

theorem hash_tags_colocate_witness:
  "keyHashSlot ''{user1}.following'' = keyHashSlot ''a{user1}b'' \<and>
   keyHashSlot ''{user1}.following'' = keyHashSlot ''user1''"
  using hash_tags_colocate [of "''''" "''a''" "''user1''" "''.following''" "''b''"]
  by simp

end
