(* ===== verification/ClusterTypes.thy ===== *)
theory ClusterTypes
  imports Complex_Main KeySlot
begin

text \<open>
  The data of the cluster bus: src/server/src/cluster.h (\<open>clusterNode\<close>, \<open>clusterLink\<close>,
  \<open>slotState\<close>, \<open>clusterState\<close>, the message header) and the fields of \<open>redisServer\<close>
  (src/server/src/server.h) that the cluster code reads or writes.

  Pointers are addresses. \<open>c_mem\<close> is the memory that holds the \<open>clusterNode\<close> structures;
  an address is allocated exactly while it is in the nodes table (\<open>live\<close>), since the code
  adds every node it creates and frees a node only together with its table entry. Arrays of
  slaves are lists, so \<^verbatim>\<open>numslaves\<close> is their length. Integers that can wrap or that travel in a
  message are words; times, offsets and counters that a run cannot overflow are \<open>int\<close>; the
  three \<^verbatim>\<open>double\<close> hotness values are reals, so their rounding is not modelled. Flags that
  hold only 0 or 1 are booleans. Byte order conversions are not modelled: a message is the
  record of its decoded fields. The random numbers a run draws are the stream \<open>s_rnd\<close>, read from
  position \<open>s_rnd_pos\<close>. \<^verbatim>\<open>s_panic\<close> marks a process that has hit a failed
  \<open>serverAssert\<close>, an \<^verbatim>\<open>exit\<close> or undefined behaviour; nothing is claimed of such a state.
\<close>

section \<open>Constants\<close>

definition CLUSTER_NAMELEN :: nat where "CLUSTER_NAMELEN = 40"
definition NULL_NAME :: string where "NULL_NAME = replicate 40 (CHR 0x00)"

definition CLUSTER_NODE_MASTER :: u32 where [flag_simps]: "CLUSTER_NODE_MASTER = 1"
definition CLUSTER_NODE_SLAVE :: u32 where [flag_simps]: "CLUSTER_NODE_SLAVE = 2"
definition CLUSTER_NODE_PFAIL :: u32 where [flag_simps]: "CLUSTER_NODE_PFAIL = 4"
definition CLUSTER_NODE_FAIL :: u32 where [flag_simps]: "CLUSTER_NODE_FAIL = 8"
definition CLUSTER_NODE_MYSELF :: u32 where [flag_simps]: "CLUSTER_NODE_MYSELF = 16"
definition CLUSTER_NODE_HANDSHAKE :: u32 where [flag_simps]: "CLUSTER_NODE_HANDSHAKE = 32"
definition CLUSTER_NODE_NOADDR :: u32 where [flag_simps]: "CLUSTER_NODE_NOADDR = 64"
definition CLUSTER_NODE_MEET :: u32 where [flag_simps]: "CLUSTER_NODE_MEET = 128"
definition CLUSTER_NODE_MIGRATE_TO :: u32 where [flag_simps]: "CLUSTER_NODE_MIGRATE_TO = 256"
definition CLUSTER_NODE_NOFAILOVER :: u32 where [flag_simps]: "CLUSTER_NODE_NOFAILOVER = 512"
definition CLUSTER_NODE_HG :: u32 where [flag_simps]: "CLUSTER_NODE_HG = 1024"

definition CLUSTER_TODO_HANDLE_FAILOVER :: u32 where [flag_simps]: "CLUSTER_TODO_HANDLE_FAILOVER = 1"
definition CLUSTER_TODO_UPDATE_STATE :: u32 where [flag_simps]: "CLUSTER_TODO_UPDATE_STATE = 2"
definition CLUSTER_TODO_SAVE_CONFIG :: u32 where [flag_simps]: "CLUSTER_TODO_SAVE_CONFIG = 4"
definition CLUSTER_TODO_FSYNC_CONFIG :: u32 where [flag_simps]: "CLUSTER_TODO_FSYNC_CONFIG = 8"
definition CLUSTER_TODO_HANDLE_MANUALFAILOVER :: u32 where
  [flag_simps]: "CLUSTER_TODO_HANDLE_MANUALFAILOVER = 16"

definition CLUSTERMSG_TYPE_PING :: u16 where "CLUSTERMSG_TYPE_PING = 0"
definition CLUSTERMSG_TYPE_PONG :: u16 where "CLUSTERMSG_TYPE_PONG = 1"
definition CLUSTERMSG_TYPE_MEET :: u16 where "CLUSTERMSG_TYPE_MEET = 2"
definition CLUSTERMSG_TYPE_FAIL :: u16 where "CLUSTERMSG_TYPE_FAIL = 3"
definition CLUSTERMSG_TYPE_PUBLISH :: u16 where "CLUSTERMSG_TYPE_PUBLISH = 4"
definition CLUSTERMSG_TYPE_FAILOVER_AUTH_REQUEST :: u16 where
  "CLUSTERMSG_TYPE_FAILOVER_AUTH_REQUEST = 5"
definition CLUSTERMSG_TYPE_FAILOVER_AUTH_ACK :: u16 where "CLUSTERMSG_TYPE_FAILOVER_AUTH_ACK = 6"
definition CLUSTERMSG_TYPE_UPDATE :: u16 where "CLUSTERMSG_TYPE_UPDATE = 7"
definition CLUSTERMSG_TYPE_MFSTART :: u16 where "CLUSTERMSG_TYPE_MFSTART = 8"
definition CLUSTERMSG_TYPE_MODULE :: u16 where "CLUSTERMSG_TYPE_MODULE = 9"
definition CLUSTERMSG_TYPE_HG :: u16 where "CLUSTERMSG_TYPE_HG = 10"
definition CLUSTERMSG_TYPE_COUNT :: u16 where "CLUSTERMSG_TYPE_COUNT = 11"

lemmas msg_types = CLUSTERMSG_TYPE_PING_def CLUSTERMSG_TYPE_PONG_def CLUSTERMSG_TYPE_MEET_def
  CLUSTERMSG_TYPE_FAIL_def CLUSTERMSG_TYPE_PUBLISH_def CLUSTERMSG_TYPE_FAILOVER_AUTH_REQUEST_def
  CLUSTERMSG_TYPE_FAILOVER_AUTH_ACK_def CLUSTERMSG_TYPE_UPDATE_def CLUSTERMSG_TYPE_MFSTART_def
  CLUSTERMSG_TYPE_MODULE_def CLUSTERMSG_TYPE_HG_def CLUSTERMSG_TYPE_COUNT_def

definition CLUSTERMSG_FLAG0_PAUSED :: u8 where [flag_simps]: "CLUSTERMSG_FLAG0_PAUSED = 1"
definition CLUSTERMSG_FLAG0_FORCEACK :: u8 where [flag_simps]: "CLUSTERMSG_FLAG0_FORCEACK = 2"

definition CLUSTER_MODULE_FLAG_NO_FAILOVER :: u32 where
  [flag_simps]: "CLUSTER_MODULE_FLAG_NO_FAILOVER = 2"
definition CLUSTER_MODULE_FLAG_NO_REDIRECTION :: u32 where
  [flag_simps]: "CLUSTER_MODULE_FLAG_NO_REDIRECTION = 4"

datatype cluster_health = CLUSTER_OK | CLUSTER_FAIL

datatype cant_failover = CANT_FAILOVER_NONE | CANT_FAILOVER_DATA_AGE | CANT_FAILOVER_WAITING_DELAY
  | CANT_FAILOVER_EXPIRED | CANT_FAILOVER_WAITING_VOTES

section \<open>Nodes, links and slots\<close>

type_synonym nid = nat
type_synonym lid = nat

record clusterLink =
  l_ctime :: mstime_t
  l_node :: "nid option"
  l_rcvbuf_len :: nat
  l_sockip :: "string option"
  l_peerip :: string

record clusterNode =
  n_ctime :: mstime_t
  n_name :: string
  n_flags :: u32
  n_configEpoch :: u64
  n_slots :: bitmap
  n_numslots :: int
  n_slaves :: "nid list"
  n_slaveof :: "nid option"
  n_ping_sent :: mstime_t
  n_pong_received :: mstime_t
  n_data_received :: mstime_t
  n_fail_time :: mstime_t
  n_voted_time :: mstime_t
  n_repl_offset_time :: mstime_t
  n_orphaned_time :: mstime_t
  n_repl_offset :: int
  n_ip :: string
  n_port :: int
  n_pport :: int
  n_cport :: int
  n_link :: "lid option"
  n_fail_reports :: "(nid \<times> mstime_t) list"
  n_avg_slot_hot :: "nat \<Rightarrow> real"
  n_is_hot_instance :: int
  n_conn :: bool

record cacheOps =
  op_argv :: "string list"

record slotState =
  ss_dealed_ops :: int
  ss_current :: real
  ss_hot :: "nat \<Rightarrow> real"
  ss_hot_tag :: "nat \<Rightarrow> real"
  ss_hotness :: int
  ss_have_copy :: bool
  ss_is_copying :: bool
  ss_is_copied :: bool
  ss_is_synced :: bool
  ss_cached_op :: "(string, cacheOps) dict"
  ss_related_ins :: "(string, nid) dict"
  ss_cache_op_size :: int

definition nodeIsMaster :: "clusterNode \<Rightarrow> bool" where
  "nodeIsMaster n = hasFlag (n_flags n) CLUSTER_NODE_MASTER"
definition nodeIsSlave :: "clusterNode \<Rightarrow> bool" where
  "nodeIsSlave n = hasFlag (n_flags n) CLUSTER_NODE_SLAVE"
definition nodeInHandshake :: "clusterNode \<Rightarrow> bool" where
  "nodeInHandshake n = hasFlag (n_flags n) CLUSTER_NODE_HANDSHAKE"
definition nodeHasAddr :: "clusterNode \<Rightarrow> bool" where
  "nodeHasAddr n = (\<not> hasFlag (n_flags n) CLUSTER_NODE_NOADDR)"
definition nodeTimedOut :: "clusterNode \<Rightarrow> bool" where
  "nodeTimedOut n = hasFlag (n_flags n) CLUSTER_NODE_PFAIL"
definition nodeFailed :: "clusterNode \<Rightarrow> bool" where
  "nodeFailed n = hasFlag (n_flags n) CLUSTER_NODE_FAIL"
definition nodeCantFailover :: "clusterNode \<Rightarrow> bool" where
  "nodeCantFailover n = hasFlag (n_flags n) CLUSTER_NODE_NOFAILOVER"

lemmas node_tests = nodeIsMaster_def nodeIsSlave_def nodeInHandshake_def nodeHasAddr_def
  nodeTimedOut_def nodeFailed_def nodeCantFailover_def

section \<open>Messages\<close>

record clusterMsgDataGossip =
  g_nodename :: string
  g_ping_sent :: u32
  g_pong_received :: u32
  g_ip :: string
  g_port :: u16
  g_cport :: u16
  g_flags :: u16
  g_pport :: u16

text \<open>The header, with one field for each view of the \<^verbatim>\<open>union clusterMsgData\<close> that the code reads.\<close>

record clusterMsg =
  h_totlen :: u32
  h_ver :: u16
  h_port :: u16
  h_type :: u16
  h_count :: u16
  h_currentEpoch :: u64
  h_configEpoch :: u64
  h_offset :: int
  h_sender :: string
  h_myslots :: bitmap
  h_slaveof :: string
  h_myip :: string
  h_pport :: u16
  h_cport :: u16
  h_flags :: u16
  h_state :: cluster_health
  h_mflags0 :: u8
  h_hotness :: "nat \<Rightarrow> real"
  h_is_hot_instance :: u16
  h_gossip :: "clusterMsgDataGossip list"
  h_about :: string
  h_upd_configEpoch :: u64
  h_upd_nodename :: string
  h_upd_slots :: bitmap
  h_hg_status :: u16
  h_hg_slot :: u16
  h_hg_nodename :: string
  h_channel_len :: u32
  h_message_len :: u32
  h_module_len :: u32

section \<open>What the server does besides changing its state\<close>

datatype panic = AssertFailed | NullDeref | OutOfBounds | UseAfterFree | ProcessExit

datatype event =
    EvSend lid clusterMsg
  | EvSaveConfig bool
  | EvReplicationSetMaster string int
  | EvReplicationUnsetMaster
  | EvEmptyDb
  | EvPauseClients mstime_t
  | EvConnect nid
  | EvCommand nid "string list"
  | EvPublish
  | EvModule

section \<open>The server\<close>

record clusterState =
  c_myself :: nid
  c_currentEpoch :: u64
  c_state :: cluster_health
  c_size :: int
  c_nodes :: "(string, nid) dict"
  c_nodes_black_list :: "(string, int) dict"
  c_migrating_slots_to :: "nat \<Rightarrow> nid option"
  c_importing_slots_from :: "nat \<Rightarrow> nid option"
  c_slots :: "nat \<Rightarrow> nid option"
  c_failover_auth_time :: mstime_t
  c_failover_auth_count :: int
  c_failover_auth_sent :: bool
  c_failover_auth_rank :: int
  c_failover_auth_epoch :: u64
  c_cant_failover_reason :: cant_failover
  c_mf_end :: mstime_t
  c_mf_slave :: "nid option"
  c_mf_master_offset :: int
  c_mf_can_start :: bool
  c_lastVoteEpoch :: u64
  c_todo_before_sleep :: u32
  c_stats_sent :: "nat \<Rightarrow> int"
  c_stats_received :: "nat \<Rightarrow> int"
  c_stats_pfail_nodes :: int
  c_slot_status :: "nat \<Rightarrow> slotState"
  c_avg_hot_point :: "nat \<Rightarrow> real"
  c_is_sync :: bool
  c_sync_time :: bool
  c_forward_time :: bool
  c_mem :: "nid \<Rightarrow> clusterNode"
  c_links :: "lid \<Rightarrow> clusterLink"
  c_next :: nat

record redisServer = clusterState +
  s_mstime :: mstime_t
  s_unixtime :: int
  s_ustime :: int
  s_node_timeout :: mstime_t
  s_slave_no_failover :: bool
  s_slave_validity_factor :: int
  s_migration_barrier :: int
  s_allow_replica_migration :: bool
  s_require_full_coverage :: bool
  s_allow_reads_when_down :: bool
  s_module_flags :: u32
  s_masterhost :: "string option"
  s_repl_connected :: bool
  s_master_lastinteraction :: int
  s_repl_down_since :: int
  s_repl_ping_slave_period :: int
  s_master_repl_offset :: int
  s_slave_repl_offset :: int
  s_announce_ip :: "string option"
  s_tls_cluster :: bool
  s_port :: int
  s_tls_port :: int
  s_announce_port :: int
  s_announce_tls_port :: int
  s_announce_bus_port :: int
  s_hotness :: int
  s_db0 :: "string list"
  s_other_dbs :: "nat list"
  s_pubsub :: bool
  s_prev_ip :: "string option"
  s_iteration :: nat
  s_rnd :: "nat \<Rightarrow> nat"
  s_rnd_pos :: nat
  s_first_call_time :: mstime_t
  s_among_minority_time :: mstime_t
  s_panic :: "panic option"
  s_out :: "event list"

section \<open>The zeroed structures a process starts from\<close>

text \<open>
  Static memory is zeroed; \<open>zeroServer\<close> adds the defaults of the configuration
  (src/server/src/config.c) that the cluster code reads: a node timeout of 15000 ms, a validity
  factor of 10, a migration barrier of 1, full coverage required, port 6379.
\<close>

definition zeroNode :: clusterNode where
  "zeroNode = \<lparr>n_ctime = 0, n_name = NULL_NAME, n_flags = 0, n_configEpoch = 0,
     n_slots = emptyBitmap, n_numslots = 0, n_slaves = [], n_slaveof = None,
     n_ping_sent = 0, n_pong_received = 0, n_data_received = 0, n_fail_time = 0,
     n_voted_time = 0, n_repl_offset_time = 0, n_orphaned_time = 0, n_repl_offset = 0,
     n_ip = [], n_port = 0, n_pport = 0, n_cport = 0, n_link = None, n_fail_reports = [],
     n_avg_slot_hot = (\<lambda>_. 0), n_is_hot_instance = 0, n_conn = False\<rparr>"

definition zeroSlot :: slotState where
  "zeroSlot = \<lparr>ss_dealed_ops = 0, ss_current = 0, ss_hot = (\<lambda>_. 0), ss_hot_tag = (\<lambda>_. 0),
     ss_hotness = 0, ss_have_copy = False, ss_is_copying = False, ss_is_copied = False,
     ss_is_synced = False, ss_cached_op = [], ss_related_ins = [], ss_cache_op_size = 0\<rparr>"

definition zeroServer :: redisServer where
  "zeroServer = \<lparr>
     c_myself = 0, c_currentEpoch = 0, c_state = CLUSTER_FAIL, c_size = 1, c_nodes = [],
     c_nodes_black_list = [], c_migrating_slots_to = (\<lambda>_. None),
     c_importing_slots_from = (\<lambda>_. None), c_slots = (\<lambda>_. None), c_failover_auth_time = 0,
     c_failover_auth_count = 0, c_failover_auth_sent = False, c_failover_auth_rank = 0,
     c_failover_auth_epoch = 0, c_cant_failover_reason = CANT_FAILOVER_NONE, c_mf_end = 0,
     c_mf_slave = None, c_mf_master_offset = 0, c_mf_can_start = False, c_lastVoteEpoch = 0,
     c_todo_before_sleep = 0, c_stats_sent = (\<lambda>_. 0), c_stats_received = (\<lambda>_. 0),
     c_stats_pfail_nodes = 0, c_slot_status = (\<lambda>_. zeroSlot), c_avg_hot_point = (\<lambda>_. 0),
     c_is_sync = False, c_sync_time = False, c_forward_time = False, c_mem = (\<lambda>_. zeroNode),
     c_links = (\<lambda>_. \<lparr>l_ctime = 0, l_node = None, l_rcvbuf_len = 0,
       l_sockip = None, l_peerip = []\<rparr>), c_next = 0,
     s_mstime = 0, s_unixtime = 0, s_ustime = 0, s_node_timeout = 15000,
     s_slave_no_failover = False, s_slave_validity_factor = 10, s_migration_barrier = 1,
     s_allow_replica_migration = True, s_require_full_coverage = True,
     s_allow_reads_when_down = False, s_module_flags = 0, s_masterhost = None,
     s_repl_connected = False, s_master_lastinteraction = 0, s_repl_down_since = 0,
     s_repl_ping_slave_period = 10, s_master_repl_offset = 0, s_slave_repl_offset = 0,
     s_announce_ip = None, s_tls_cluster = False, s_port = 6379, s_tls_port = 0,
     s_announce_port = 0, s_announce_tls_port = 0, s_announce_bus_port = 0, s_hotness = 0,
     s_db0 = [], s_other_dbs = [], s_pubsub = False, s_prev_ip = None, s_iteration = 0, s_rnd = (\<lambda>_. 0), s_rnd_pos = 0, s_first_call_time = 0,
     s_among_minority_time = 0, s_panic = None, s_out = []\<rparr>"

end
