(* ===== verification/ClusterNodes.thy ===== *)
theory ClusterNodes
  imports ClusterTypes
begin

text \<open>
  The node table and the slot table of src/server/src/cluster.c: creation, lookup, renaming
  and deletion of nodes, the slave lists, the failure reports, and the assignment of hash
  slots. The invariant \<open>slots_ok\<close> says that the slot table, the bitmaps of the nodes and
  their slot counters agree; every operation of this theory keeps it.
\<close>

section \<open>Access to memory, failure and output\<close>

definition nd :: "redisServer \<Rightarrow> nid \<Rightarrow> clusterNode" where
  "nd s p = c_mem s p"

definition upd_node :: "nid \<Rightarrow> (clusterNode \<Rightarrow> clusterNode) \<Rightarrow> redisServer \<Rightarrow> redisServer" where
  "upd_node p f s = s\<lparr>c_mem := (c_mem s)(p := f (c_mem s p))\<rparr>"

definition live :: "redisServer \<Rightarrow> nid set" where
  "live s = set (dictVals (c_nodes s))"

definition panic_with :: "panic \<Rightarrow> redisServer \<Rightarrow> redisServer" where
  "panic_with r s = (if s_panic s = None then s\<lparr>s_panic := Some r\<rparr> else s)"

definition serverAssert :: "bool \<Rightarrow> redisServer \<Rightarrow> redisServer" where
  "serverAssert b s = (if b then s else panic_with AssertFailed s)"

definition emit :: "event \<Rightarrow> redisServer \<Rightarrow> redisServer" where
  "emit e s = s\<lparr>s_out := s_out s @ [e]\<rparr>"

definition clusterDoBeforeSleep :: "u32 \<Rightarrow> redisServer \<Rightarrow> redisServer" where
  "clusterDoBeforeSleep flags s = s\<lparr>c_todo_before_sleep := c_todo_before_sleep s OR flags\<rparr>"

definition setFlag :: "u32 \<Rightarrow> clusterNode \<Rightarrow> clusterNode" where
  "setFlag b n = n\<lparr>n_flags := n_flags n OR b\<rparr>"

definition clearFlag :: "u32 \<Rightarrow> clusterNode \<Rightarrow> clusterNode" where
  "clearFlag b n = n\<lparr>n_flags := n_flags n AND NOT b\<rparr>"

section \<open>Random choices\<close>

text \<open>The next random number of the run.\<close>

definition random_num :: "redisServer \<Rightarrow> nat \<times> redisServer" where
  "random_num s = (s_rnd s (s_rnd_pos s), s\<lparr>s_rnd_pos := Suc (s_rnd_pos s)\<rparr>)"

definition hexDigit :: "nat \<Rightarrow> char" where
  "hexDigit r = ''0123456789abcdef'' ! (r mod 16)"

fun getRandomHexChars :: "nat \<Rightarrow> redisServer \<Rightarrow> string \<times> redisServer" where
  "getRandomHexChars 0 s = ([], s)"
| "getRandomHexChars (Suc k) s =
     (let (r, s1) = random_num s; (cs, s2) = getRandomHexChars k s1 in (hexDigit r # cs, s2))"

section \<open>Creating nodes\<close>

definition newClusterNode :: "string \<Rightarrow> u32 \<Rightarrow> redisServer \<Rightarrow> clusterNode" where
  "newClusterNode name flags s = \<lparr>
     n_ctime = s_mstime s, n_name = name, n_flags = flags, n_configEpoch = 0,
     n_slots = emptyBitmap, n_numslots = 0, n_slaves = [], n_slaveof = None,
     n_ping_sent = 0, n_pong_received = 0, n_data_received = 0, n_fail_time = 0,
     n_voted_time = 0, n_repl_offset_time = 0, n_orphaned_time = 0, n_repl_offset = 0,
     n_ip = [], n_port = 0, n_pport = 0, n_cport = 0, n_link = None, n_fail_reports = [],
     n_avg_slot_hot = (\<lambda>_. 0), n_is_hot_instance = 0, n_conn = False\<rparr>"

text \<open>Allocation: the new structure goes to an address that was never used.\<close>

definition allocNode :: "clusterNode \<Rightarrow> redisServer \<Rightarrow> nid \<times> redisServer" where
  "allocNode n s = (c_next s, s\<lparr>c_mem := (c_mem s)(c_next s := n), c_next := Suc (c_next s)\<rparr>)"

text \<open>The name is the given one, or 40 random hexadecimal characters when the code passes NULL.\<close>

definition createClusterNode :: "string option \<Rightarrow> u32 \<Rightarrow> redisServer \<Rightarrow> nid \<times> redisServer" where
  "createClusterNode nodename flags s =
     (let (name, s1) = (case nodename of
            Some name \<Rightarrow> (take CLUSTER_NAMELEN name, s)
          | None \<Rightarrow> getRandomHexChars CLUSTER_NAMELEN s)
      in allocNode (newClusterNode name flags s1) s1)"

text \<open>Add a node structure, stored at address \<open>p\<close>, to the nodes table.\<close>

definition clusterAddNode :: "nid \<Rightarrow> redisServer \<Rightarrow> redisServer" where
  "clusterAddNode p s =
     (let name = n_name (nd s p) in
      if dictFind (c_nodes s) name = None
      then s\<lparr>c_nodes := dictReplace (c_nodes s) name p\<rparr>
      else panic_with AssertFailed s)"

definition clusterLookupNode :: "string \<Rightarrow> redisServer \<Rightarrow> nid option" where
  "clusterLookupNode name s = dictFind (c_nodes s) (take CLUSTER_NAMELEN name)"

definition clusterRenameNode :: "nid \<Rightarrow> string \<Rightarrow> redisServer \<Rightarrow> redisServer" where
  "clusterRenameNode p newname s =
     (let old = n_name (nd s p);
          s1 = serverAssert (dictFind (c_nodes s) old \<noteq> None) s;
          s2 = s1\<lparr>c_nodes := dictDelete (c_nodes s1) old\<rparr>;
          s3 = upd_node p (\<lambda>n. n\<lparr>n_name := take CLUSTER_NAMELEN newname\<rparr>) s2
      in clusterAddNode p s3)"

section \<open>Failure reports\<close>

fun refreshReport :: "nid \<Rightarrow> mstime_t \<Rightarrow> (nid \<times> mstime_t) list \<Rightarrow> (nid \<times> mstime_t) list option" where
  "refreshReport sender t [] = None"
| "refreshReport sender t ((n, t') # l) =
     (if n = sender then Some ((n, t) # l)
      else map_option (\<lambda>l'. (n, t') # l') (refreshReport sender t l))"

definition clusterNodeAddFailureReport :: "nid \<Rightarrow> nid \<Rightarrow> redisServer \<Rightarrow> bool \<times> redisServer" where
  "clusterNodeAddFailureReport failing sender s =
     (case refreshReport sender (s_mstime s) (n_fail_reports (nd s failing)) of
        Some l \<Rightarrow> (False, upd_node failing (\<lambda>n. n\<lparr>n_fail_reports := l\<rparr>) s)
      | None \<Rightarrow> (True, upd_node failing
           (\<lambda>n. n\<lparr>n_fail_reports := n_fail_reports n @ [(sender, s_mstime s)]\<rparr>) s))"

definition CLUSTER_FAIL_REPORT_VALIDITY_MULT :: int where "CLUSTER_FAIL_REPORT_VALIDITY_MULT = 2"

definition clusterNodeCleanupFailureReports :: "nid \<Rightarrow> redisServer \<Rightarrow> redisServer" where
  "clusterNodeCleanupFailureReports p s =
     (let maxtime = s_node_timeout s * CLUSTER_FAIL_REPORT_VALIDITY_MULT; now = s_mstime s in
      upd_node p (\<lambda>n. n\<lparr>n_fail_reports :=
        filter (\<lambda>(r, t). \<not> now - t > maxtime) (n_fail_reports n)\<rparr>) s)"

fun removeReport :: "nid \<Rightarrow> (nid \<times> mstime_t) list \<Rightarrow> (nid \<times> mstime_t) list option" where
  "removeReport sender [] = None"
| "removeReport sender ((n, t) # l) =
     (if n = sender then Some l else map_option (\<lambda>l'. (n, t) # l') (removeReport sender l))"

definition clusterNodeDelFailureReport :: "nid \<Rightarrow> nid \<Rightarrow> redisServer \<Rightarrow> bool \<times> redisServer" where
  "clusterNodeDelFailureReport p sender s =
     (case removeReport sender (n_fail_reports (nd s p)) of
        None \<Rightarrow> (False, s)
      | Some l \<Rightarrow> (True, clusterNodeCleanupFailureReports p
                          (upd_node p (\<lambda>n. n\<lparr>n_fail_reports := l\<rparr>) s)))"

definition clusterNodeFailureReportsCount :: "nid \<Rightarrow> redisServer \<Rightarrow> int \<times> redisServer" where
  "clusterNodeFailureReportsCount p s =
     (let s1 = clusterNodeCleanupFailureReports p s in (int (length (n_fail_reports (nd s1 p))), s1))"

section \<open>Masters and their slaves\<close>

definition clusterNodeRemoveSlave :: "nid \<Rightarrow> nid \<Rightarrow> redisServer \<Rightarrow> retcode \<times> redisServer" where
  "clusterNodeRemoveSlave master slave s =
     (if slave \<in> set (n_slaves (nd s master))
      then (C_OK, upd_node master (\<lambda>n.
             let n1 = n\<lparr>n_slaves := remove1 slave (n_slaves n)\<rparr> in
             if n_slaves n1 = [] then clearFlag CLUSTER_NODE_MIGRATE_TO n1 else n1) s)
      else (C_ERR, s))"

definition clusterNodeAddSlave :: "nid \<Rightarrow> nid \<Rightarrow> redisServer \<Rightarrow> retcode \<times> redisServer" where
  "clusterNodeAddSlave master slave s =
     (if slave \<in> set (n_slaves (nd s master)) then (C_ERR, s)
      else (C_OK, upd_node master (\<lambda>n.
             setFlag CLUSTER_NODE_MIGRATE_TO (n\<lparr>n_slaves := n_slaves n @ [slave]\<rparr>)) s))"

definition clusterCountNonFailingSlaves :: "nid \<Rightarrow> redisServer \<Rightarrow> int" where
  "clusterCountNonFailingSlaves p s =
     int (length (filter (\<lambda>q. \<not> nodeFailed (nd s q)) (n_slaves (nd s p))))"

definition clusterMastersHaveSlaves :: "redisServer \<Rightarrow> bool" where
  "clusterMastersHaveSlaves s =
     (fold (\<lambda>p slaves. if nodeIsSlave (nd s p) then slaves
                       else slaves + length (n_slaves (nd s p))) (dictVals (c_nodes s)) 0 \<noteq> 0)"

section \<open>Slots\<close>

definition clusterNodeSetSlotBit :: "nid \<Rightarrow> nat \<Rightarrow> redisServer \<Rightarrow> bool \<times> redisServer" where
  "clusterNodeSetSlotBit p slot s =
     (let old = bitmapTestBit (n_slots (nd s p)) slot;
          s1 = upd_node p (\<lambda>n. n\<lparr>n_slots := bitmapSetBit (n_slots n) slot\<rparr>) s
      in if old then (old, s1)
         else let s2 = upd_node p (\<lambda>n. n\<lparr>n_numslots := n_numslots n + 1\<rparr>) s1 in
           if n_numslots (nd s2 p) = 1 \<and> clusterMastersHaveSlaves s2
           then (old, upd_node p (setFlag CLUSTER_NODE_MIGRATE_TO) s2) else (old, s2))"

definition clusterNodeClearSlotBit :: "nid \<Rightarrow> nat \<Rightarrow> redisServer \<Rightarrow> bool \<times> redisServer" where
  "clusterNodeClearSlotBit p slot s =
     (let old = bitmapTestBit (n_slots (nd s p)) slot;
          s1 = upd_node p (\<lambda>n. n\<lparr>n_slots := bitmapClearBit (n_slots n) slot\<rparr>) s
      in (old, if old then upd_node p (\<lambda>n. n\<lparr>n_numslots := n_numslots n - 1\<rparr>) s1 else s1))"

definition clusterNodeGetSlotBit :: "nid \<Rightarrow> nat \<Rightarrow> redisServer \<Rightarrow> bool" where
  "clusterNodeGetSlotBit p slot s = bitmapTestBit (n_slots (nd s p)) slot"

definition clusterAddSlot :: "nid \<Rightarrow> nat \<Rightarrow> redisServer \<Rightarrow> retcode \<times> redisServer" where
  "clusterAddSlot p slot s =
     (if c_slots s slot \<noteq> None then (C_ERR, s)
      else let s1 = snd (clusterNodeSetSlotBit p slot s)
           in (C_OK, s1\<lparr>c_slots := (c_slots s1)(slot := Some p)\<rparr>))"

definition clusterDelSlot :: "nat \<Rightarrow> redisServer \<Rightarrow> retcode \<times> redisServer" where
  "clusterDelSlot slot s =
     (case c_slots s slot of
        None \<Rightarrow> (C_ERR, s)
      | Some p \<Rightarrow>
          let (old, s1) = clusterNodeClearSlotBit p slot s;
              s2 = serverAssert old s1
          in (C_OK, s2\<lparr>c_slots := (c_slots s2)(slot := None)\<rparr>))"

definition clusterDelNodeSlots :: "nid \<Rightarrow> redisServer \<Rightarrow> int \<times> redisServer" where
  "clusterDelNodeSlots p s =
     fold (\<lambda>j (deleted, s). if clusterNodeGetSlotBit p j s
                            then (deleted + 1, snd (clusterDelSlot j s)) else (deleted, s))
       [0..<CLUSTER_SLOTS] (0, s)"

definition clusterCloseAllSlots :: "redisServer \<Rightarrow> redisServer" where
  "clusterCloseAllSlots s =
     s\<lparr>c_migrating_slots_to := (\<lambda>_. None), c_importing_slots_from := (\<lambda>_. None)\<rparr>"

section \<open>Deleting nodes\<close>

definition freeClusterLink :: "lid \<Rightarrow> redisServer \<Rightarrow> redisServer" where
  "freeClusterLink l s =
     (case l_node (c_links s l) of
        None \<Rightarrow> s
      | Some p \<Rightarrow> upd_node p (\<lambda>n. n\<lparr>n_link := None\<rparr>) s)"

definition freeClusterNode :: "nid \<Rightarrow> redisServer \<Rightarrow> redisServer" where
  "freeClusterNode p s =
     (let s1 = fold (\<lambda>q. upd_node q (\<lambda>n. n\<lparr>n_slaveof := None\<rparr>)) (n_slaves (nd s p)) s;
          s2 = (case n_slaveof (nd s1 p) of
                  Some m \<Rightarrow> if nodeIsSlave (nd s1 p) then snd (clusterNodeRemoveSlave m p s1) else s1
                | None \<Rightarrow> s1);
          s3 = serverAssert (dictFind (c_nodes s2) (n_name (nd s2 p)) \<noteq> None) s2;
          s4 = s3\<lparr>c_nodes := dictDelete (c_nodes s3) (n_name (nd s3 p))\<rparr>
      in case n_link (nd s4 p) of Some l \<Rightarrow> freeClusterLink l s4 | None \<Rightarrow> s4)"

definition forgetSlotsOf :: "nid \<Rightarrow> nat \<Rightarrow> redisServer \<Rightarrow> redisServer" where
  "forgetSlotsOf p j s =
     (let s1 = (if c_importing_slots_from s j = Some p
                then s\<lparr>c_importing_slots_from := (c_importing_slots_from s)(j := None)\<rparr> else s);
          s2 = (if c_migrating_slots_to s1 j = Some p
                then s1\<lparr>c_migrating_slots_to := (c_migrating_slots_to s1)(j := None)\<rparr> else s1)
      in if c_slots s2 j = Some p then snd (clusterDelSlot j s2) else s2)"

definition clusterDelNode :: "nid \<Rightarrow> redisServer \<Rightarrow> redisServer" where
  "clusterDelNode p s =
     (let s1 = fold (forgetSlotsOf p) [0..<CLUSTER_SLOTS] s;
          s2 = fold (\<lambda>q s. if q = p then s else snd (clusterNodeDelFailureReport q p s))
                 (dictVals (c_nodes s1)) s1
      in freeClusterNode p s2)"


section \<open>What the operations leave alone\<close>

text \<open>
  The part of the state that the invariant of the node and slot tables speaks about. An
  operation that leaves \<open>core\<close> alone keeps the invariant, so each operation has one frame lemma.
\<close>

definition core :: "redisServer \<Rightarrow> _" where
  "core s = (c_nodes s, c_next s, c_myself s, c_slots s,
             \<lambda>p. n_name (c_mem s p), \<lambda>p. n_slots (c_mem s p), \<lambda>p. n_numslots (c_mem s p))"

lemma core_frames [frame_simps]:
  "core (s\<lparr>c_currentEpoch := e\<rparr>) = core s" "core (s\<lparr>c_state := st\<rparr>) = core s"
  "core (s\<lparr>c_size := z\<rparr>) = core s" "core (s\<lparr>c_nodes_black_list := bl\<rparr>) = core s"
  "core (s\<lparr>c_migrating_slots_to := ms\<rparr>) = core s" "core (s\<lparr>c_importing_slots_from := ms\<rparr>) = core s"
  "core (s\<lparr>c_failover_auth_time := t\<rparr>) = core s" "core (s\<lparr>c_failover_auth_count := z\<rparr>) = core s"
  "core (s\<lparr>c_failover_auth_sent := b\<rparr>) = core s" "core (s\<lparr>c_failover_auth_rank := z\<rparr>) = core s"
  "core (s\<lparr>c_failover_auth_epoch := e\<rparr>) = core s" "core (s\<lparr>c_cant_failover_reason := cf\<rparr>) = core s"
  "core (s\<lparr>c_mf_end := t\<rparr>) = core s" "core (s\<lparr>c_mf_slave := sl\<rparr>) = core s"
  "core (s\<lparr>c_mf_master_offset := z\<rparr>) = core s" "core (s\<lparr>c_mf_can_start := b\<rparr>) = core s"
  "core (s\<lparr>c_lastVoteEpoch := e\<rparr>) = core s" "core (s\<lparr>c_todo_before_sleep := w\<rparr>) = core s"
  "core (s\<lparr>c_stats_sent := st1\<rparr>) = core s" "core (s\<lparr>c_stats_received := st1\<rparr>) = core s"
  "core (s\<lparr>c_stats_pfail_nodes := z\<rparr>) = core s" "core (s\<lparr>c_slot_status := ss\<rparr>) = core s"
  "core (s\<lparr>c_avg_hot_point := av\<rparr>) = core s" "core (s\<lparr>c_is_sync := b\<rparr>) = core s"
  "core (s\<lparr>c_sync_time := b\<rparr>) = core s" "core (s\<lparr>c_forward_time := b\<rparr>) = core s"
  "core (s\<lparr>c_links := lks\<rparr>) = core s" "core (s\<lparr>s_hotness := z\<rparr>) = core s"
  "core (s\<lparr>s_masterhost := mh\<rparr>) = core s" "core (s\<lparr>s_iteration := it\<rparr>) = core s"
  "core (s\<lparr>s_rnd_pos := it\<rparr>) = core s" "core (s\<lparr>s_prev_ip := ipo\<rparr>) = core s"
  "core (s\<lparr>s_first_call_time := t\<rparr>) = core s" "core (s\<lparr>s_among_minority_time := t\<rparr>) = core s"
  "core (s\<lparr>s_panic := pn\<rparr>) = core s" "core (s\<lparr>s_out := ev\<rparr>) = core s"
  "core (s\<lparr>s_db0 := db\<rparr>) = core s" "core (s\<lparr>s_repl_connected := b\<rparr>) = core s"
  "core (s\<lparr>s_master_repl_offset := z\<rparr>) = core s" "core (s\<lparr>s_slave_repl_offset := z\<rparr>) = core s"
  by (simp_all add: core_def)

lemma core_upd_node [frame_simps]:
  "(\<And>n. n_name (f n) = n_name n) \<Longrightarrow> (\<And>n. n_slots (f n) = n_slots n) \<Longrightarrow>
   (\<And>n. n_numslots (f n) = n_numslots n) \<Longrightarrow> core (upd_node p f s) = core s"
  by (auto simp: core_def upd_node_def)

lemma node_flag_updates [simp]:
  "n_name (setFlag b n) = n_name n" "n_slots (setFlag b n) = n_slots n"
  "n_numslots (setFlag b n) = n_numslots n" "n_flags (setFlag b n) = n_flags n OR b"
  "n_slaves (setFlag b n) = n_slaves n" "n_slaveof (setFlag b n) = n_slaveof n"
  "n_configEpoch (setFlag b n) = n_configEpoch n" "n_link (setFlag b n) = n_link n"
  "n_fail_reports (setFlag b n) = n_fail_reports n"
  "n_name (clearFlag b n) = n_name n" "n_slots (clearFlag b n) = n_slots n"
  "n_numslots (clearFlag b n) = n_numslots n" "n_flags (clearFlag b n) = n_flags n AND NOT b"
  "n_slaves (clearFlag b n) = n_slaves n" "n_slaveof (clearFlag b n) = n_slaveof n"
  "n_configEpoch (clearFlag b n) = n_configEpoch n" "n_link (clearFlag b n) = n_link n"
  "n_fail_reports (clearFlag b n) = n_fail_reports n"
  by (simp_all add: setFlag_def clearFlag_def)

lemma nd_upd_node: "nd (upd_node p f s) q = (if q = p then f (nd s p) else nd s q)"
  by (simp add: nd_def upd_node_def)

lemma upd_node_fields [simp]:
  "c_nodes (upd_node p f s) = c_nodes s" "c_slots (upd_node p f s) = c_slots s"
  "c_next (upd_node p f s) = c_next s" "c_myself (upd_node p f s) = c_myself s"
  "c_currentEpoch (upd_node p f s) = c_currentEpoch s" "s_panic (upd_node p f s) = s_panic s"
  "c_lastVoteEpoch (upd_node p f s) = c_lastVoteEpoch s" "s_out (upd_node p f s) = s_out s"
  "s_mstime (upd_node p f s) = s_mstime s" "s_node_timeout (upd_node p f s) = s_node_timeout s"
  "c_links (upd_node p f s) = c_links s" "c_mem (upd_node p f s) = (c_mem s)(p := f (c_mem s p))"
  "c_migrating_slots_to (upd_node p f s) = c_migrating_slots_to s"
  "c_importing_slots_from (upd_node p f s) = c_importing_slots_from s"
  "c_todo_before_sleep (upd_node p f s) = c_todo_before_sleep s"
  "c_slot_status (upd_node p f s) = c_slot_status s" "c_size (upd_node p f s) = c_size s"
  "c_state (upd_node p f s) = c_state s" "c_nodes_black_list (upd_node p f s) = c_nodes_black_list s"
  by (simp_all add: upd_node_def)

lemma basic_frames [frame_simps]:
  "core (panic_with r s) = core s" "core (serverAssert b s) = core s" "core (emit e s) = core s"
  "core (clusterDoBeforeSleep w s) = core s"
  by (simp_all add: panic_with_def serverAssert_def emit_def clusterDoBeforeSleep_def frame_simps)

lemma serverAssert_True [simp]: "serverAssert True s = s"
  by (simp add: serverAssert_def)

lemma live_core: "core s' = core s \<Longrightarrow> live s' = live s"
  by (simp add: core_def live_def)

lemma report_frames [frame_simps]:
  "core (snd (clusterNodeAddFailureReport f p s)) = core s"
  "core (clusterNodeCleanupFailureReports p s) = core s"
  "core (snd (clusterNodeDelFailureReport p q s)) = core s"
  "core (snd (clusterNodeFailureReportsCount p s)) = core s"
  by (simp_all add: clusterNodeAddFailureReport_def clusterNodeCleanupFailureReports_def
      clusterNodeDelFailureReport_def clusterNodeFailureReportsCount_def frame_simps Let_def
      split: option.splits)

lemma slave_frames [frame_simps]:
  "core (snd (clusterNodeRemoveSlave m p s)) = core s"
  "core (snd (clusterNodeAddSlave m p s)) = core s"
  by (simp_all add: clusterNodeRemoveSlave_def clusterNodeAddSlave_def frame_simps Let_def)

lemma link_frames [frame_simps]: "core (freeClusterLink l s) = core s"
  by (simp add: freeClusterLink_def frame_simps split: option.splits)

lemma closeAllSlots_frames [frame_simps]: "core (clusterCloseAllSlots s) = core s"
  by (simp add: clusterCloseAllSlots_def core_def)

section \<open>The invariant\<close>

definition names_ok :: "redisServer \<Rightarrow> bool" where
  "names_ok s \<longleftrightarrow> dictOk (c_nodes s) \<and> c_myself s \<in> live s \<and> (\<forall>p \<in> live s. p < c_next s) \<and>
     (\<forall>(name, p) \<in> set (c_nodes s). n_name (nd s p) = name)"

definition slots_ok :: "redisServer \<Rightarrow> bool" where
  "slots_ok s \<longleftrightarrow>
     (\<forall>p \<in> live s. bitmapOk (n_slots (nd s p)) \<and>
        n_numslots (nd s p) = int (card (slotsOf (n_slots (nd s p)))) \<and>
        (\<forall>j < CLUSTER_SLOTS. bitmapTestBit (n_slots (nd s p)) j \<longleftrightarrow> c_slots s j = Some p)) \<and>
     (\<forall>j < CLUSTER_SLOTS. \<forall>p. c_slots s j = Some p \<longrightarrow> p \<in> live s)"

definition cluster_ok :: "redisServer \<Rightarrow> bool" where
  "cluster_ok s \<longleftrightarrow> names_ok s \<and> slots_ok s"

lemma cluster_ok_core:
  assumes "core s' = core s" shows "cluster_ok s' = cluster_ok s"
proof -
  have "c_nodes s' = c_nodes s" "c_next s' = c_next s" "c_myself s' = c_myself s"
    "c_slots s' = c_slots s" "\<And>p. n_name (nd s' p) = n_name (nd s p)"
    "\<And>p. n_slots (nd s' p) = n_slots (nd s p)" "\<And>p. n_numslots (nd s' p) = n_numslots (nd s p)"
    using assms by (simp_all add: core_def nd_def fun_eq_iff)
  then show ?thesis
    unfolding cluster_ok_def names_ok_def slots_ok_def live_def by simp
qed

lemma cluster_ok_keep: "cluster_ok s \<Longrightarrow> core s' = core s \<Longrightarrow> cluster_ok s'"
  using cluster_ok_core by blast

lemma liveD:
  assumes "names_ok s" and "p \<in> live s"
  shows "dictFind (c_nodes s) (n_name (nd s p)) = Some p"
proof -
  obtain name where n: "(name, p) \<in> set (c_nodes s)"
    using assms(2) by (auto simp: live_def dictVals_def)
  moreover have "n_name (nd s p) = name" using assms(1) n by (auto simp: names_ok_def)
  ultimately show ?thesis
    using assms(1) by (auto simp: names_ok_def dictOk_def dictFind_def)
qed

lemma lookup_live: "clusterLookupNode name s = Some p \<Longrightarrow> p \<in> live s"
  by (simp add: clusterLookupNode_def live_def dictFind_vals)

lemma slots_okD:
  assumes "slots_ok s" and "p \<in> live s"
  shows "bitmapOk (n_slots (nd s p))"
    and "n_numslots (nd s p) = int (card (slotsOf (n_slots (nd s p))))"
    and "j < CLUSTER_SLOTS \<Longrightarrow> bitmapTestBit (n_slots (nd s p)) j \<longleftrightarrow> c_slots s j = Some p"
  using assms by (auto simp: slots_ok_def)

lemma slot_owner_live: "slots_ok s \<Longrightarrow> j < CLUSTER_SLOTS \<Longrightarrow> c_slots s j = Some p \<Longrightarrow> p \<in> live s"
  by (simp add: slots_ok_def)

section \<open>Assigning and freeing slots\<close>

text \<open>The effect on the tables of \<open>clusterAddSlot\<close> and \<open>clusterDelSlot\<close>, up to \<open>core\<close>.\<close>

definition bind_slot :: "nid \<Rightarrow> nat \<Rightarrow> redisServer \<Rightarrow> redisServer" where
  "bind_slot p j s = (upd_node p (\<lambda>n. n\<lparr>n_slots := bitmapSetBit (n_slots n) j,
      n_numslots := n_numslots n + (if bitmapTestBit (n_slots n) j then 0 else 1)\<rparr>) s)
      \<lparr>c_slots := (c_slots s)(j := Some p)\<rparr>"

definition unbind_slot :: "nid \<Rightarrow> nat \<Rightarrow> redisServer \<Rightarrow> redisServer" where
  "unbind_slot p j s = (upd_node p (\<lambda>n. n\<lparr>n_slots := bitmapClearBit (n_slots n) j,
      n_numslots := n_numslots n - (if bitmapTestBit (n_slots n) j then 1 else 0)\<rparr>) s)
      \<lparr>c_slots := (c_slots s)(j := None)\<rparr>"

lemma core_clusterAddSlot:
  "c_slots s j = None \<Longrightarrow> core (snd (clusterAddSlot p j s)) = core (bind_slot p j s)"
  by (auto simp: clusterAddSlot_def clusterNodeSetSlotBit_def bind_slot_def core_def upd_node_def
      Let_def nd_def setFlag_def)

lemma core_clusterDelSlot:
  "c_slots s j = Some p \<Longrightarrow> core (snd (clusterDelSlot j s)) = core (unbind_slot p j s)"
  by (auto simp: clusterDelSlot_def clusterNodeClearSlotBit_def unbind_slot_def core_def upd_node_def
      Let_def nd_def serverAssert_def panic_with_def split: prod.splits)

lemma bind_slot_fields [simp]:
  "live (bind_slot p j s) = live s" "c_slots (bind_slot p j s) = (c_slots s)(j := Some p)"
  "n_slots (nd (bind_slot p j s) q)
     = (if q = p then bitmapSetBit (n_slots (nd s p)) j else n_slots (nd s q))"
  "n_numslots (nd (bind_slot p j s) q)
     = n_numslots (nd s q) + (if q = p \<and> \<not> bitmapTestBit (n_slots (nd s p)) j then 1 else 0)"
  by (simp_all add: bind_slot_def upd_node_def nd_def live_def)

lemma unbind_slot_fields [simp]:
  "live (unbind_slot p j s) = live s" "c_slots (unbind_slot p j s) = (c_slots s)(j := None)"
  "n_slots (nd (unbind_slot p j s) q)
     = (if q = p then bitmapClearBit (n_slots (nd s p)) j else n_slots (nd s q))"
  "n_numslots (nd (unbind_slot p j s) q)
     = n_numslots (nd s q) - (if q = p \<and> bitmapTestBit (n_slots (nd s p)) j then 1 else 0)"
  by (simp_all add: unbind_slot_def upd_node_def nd_def live_def)

lemma names_ok_bind [simp]:
  "names_ok (bind_slot p j s) = names_ok s" "names_ok (unbind_slot p j s) = names_ok s"
  by (auto simp: names_ok_def bind_slot_def unbind_slot_def upd_node_def nd_def live_def
      split: prod.splits)

lemma slotsOf_setBit: "bitmapOk b \<Longrightarrow> i < CLUSTER_SLOTS \<Longrightarrow> slotsOf (bitmapSetBit b i) = insert i (slotsOf b)"
  unfolding slotsOf_def by (rule slot_bits.members_set)

lemma slotsOf_clearBit: "bitmapOk b \<Longrightarrow> i < CLUSTER_SLOTS \<Longrightarrow> slotsOf (bitmapClearBit b i) = slotsOf b - {i}"
  unfolding slotsOf_def by (rule slot_bits.members_clear)

lemma in_slotsOf: "i < CLUSTER_SLOTS \<Longrightarrow> i \<in> slotsOf b \<longleftrightarrow> bitmapTestBit b i"
  by (simp add: slotsOf_def)

lemma slots_ok_bind:
  assumes "slots_ok s" and "p \<in> live s" and "j < CLUSTER_SLOTS" and "c_slots s j = None"
  shows "slots_ok (bind_slot p j s)"
  unfolding slots_ok_def bind_slot_fields
proof (intro conjI ballI allI impI)
  fix q assume q: "q \<in> live s"
  note ok = slots_okD [OF assms(1) q]
  show "bitmapOk (if q = p then bitmapSetBit (n_slots (nd s p)) j else n_slots (nd s q))"
    using ok by (auto simp: slot_bits.ok_set)
  have free: "\<not> bitmapTestBit (n_slots (nd s p)) j"
    using slots_okD(3) [OF assms(1-3)] assms(4) by simp
  show "n_numslots (nd s q) + (if q = p \<and> \<not> bitmapTestBit (n_slots (nd s p)) j then 1 else 0) =
    int (card (slotsOf (if q = p then bitmapSetBit (n_slots (nd s p)) j else n_slots (nd s q))))"
    using ok free assms(3) by (auto simp: slotsOf_setBit in_slotsOf)
  show "bitmapTestBit (if q = p then bitmapSetBit (n_slots (nd s p)) j else n_slots (nd s q)) i
      = (((c_slots s)(j := Some p)) i = Some q)" if "i < CLUSTER_SLOTS" for i
    using ok ok(3) [OF that] assms(3,4) by (auto simp: testBit_setBit)
qed (use assms in \<open>auto simp: slots_ok_def split: if_splits\<close>)

lemma slots_ok_unbind:
  assumes "slots_ok s" and "c_slots s j = Some p" and "j < CLUSTER_SLOTS"
  shows "slots_ok (unbind_slot p j s)"
  unfolding slots_ok_def unbind_slot_fields
proof (intro conjI ballI allI impI)
  have p: "p \<in> live s" using slot_owner_live assms by blast
  fix q assume q: "q \<in> live s"
  note ok = slots_okD [OF assms(1) q]
  show "bitmapOk (if q = p then bitmapClearBit (n_slots (nd s p)) j else n_slots (nd s q))"
    using ok by (auto simp: slot_bits.ok_clear)
  have owned: "bitmapTestBit (n_slots (nd s p)) j"
    using slots_okD(3) [OF assms(1) p assms(3)] assms(2) by simp
  then have "0 < card (slotsOf (n_slots (nd s p)))"
    using assms(3) by (auto simp: card_gt_0_iff in_slotsOf [symmetric])
  then show "n_numslots (nd s q) - (if q = p \<and> bitmapTestBit (n_slots (nd s p)) j then 1 else 0) =
    int (card (slotsOf (if q = p then bitmapClearBit (n_slots (nd s p)) j else n_slots (nd s q))))"
    using ok owned assms(3) by (auto simp: slotsOf_clearBit in_slotsOf of_nat_diff)
  show "bitmapTestBit (if q = p then bitmapClearBit (n_slots (nd s p)) j else n_slots (nd s q)) i
      = (((c_slots s)(j := None)) i = Some q)" if "i < CLUSTER_SLOTS" for i
    using ok ok(3) [OF that] assms(2,3) by (auto simp: testBit_clearBit)
qed (use assms in \<open>auto simp: slots_ok_def split: if_splits\<close>)

lemma clusterAddSlot_ok:
  assumes "cluster_ok s" and "p \<in> live s" and "j < CLUSTER_SLOTS"
  shows "cluster_ok (snd (clusterAddSlot p j s))"
proof (cases "c_slots s j")
  case None
  then have "cluster_ok (bind_slot p j s)"
    using assms by (simp add: cluster_ok_def slots_ok_bind)
  then show ?thesis by (rule cluster_ok_keep) (rule core_clusterAddSlot [OF None])
next
  case (Some q)
  then show ?thesis using assms(1) by (simp add: clusterAddSlot_def)
qed

lemma clusterDelSlot_ok:
  assumes "cluster_ok s" and "j < CLUSTER_SLOTS"
  shows "cluster_ok (snd (clusterDelSlot j s))"
proof (cases "c_slots s j")
  case None
  then show ?thesis using assms(1) by (simp add: clusterDelSlot_def)
next
  case (Some q)
  then have "cluster_ok (unbind_slot q j s)"
    using assms by (simp add: cluster_ok_def slots_ok_unbind)
  then show ?thesis by (rule cluster_ok_keep) (rule core_clusterDelSlot [OF Some])
qed

lemma clusterSlot_live [simp]:
  "live (snd (clusterAddSlot p j s)) = live s" "live (snd (clusterDelSlot j s)) = live s"
  by (simp_all add: clusterAddSlot_def clusterNodeSetSlotBit_def clusterDelSlot_def live_def
      clusterNodeClearSlotBit_def serverAssert_def panic_with_def Let_def
      split: option.splits prod.splits if_splits)

lemma clusterSlot_owner [simp]:
  "c_slots (snd (clusterAddSlot p j s)) = (if c_slots s j = None then (c_slots s)(j := Some p) else c_slots s)"
  "c_slots (snd (clusterDelSlot j s)) = (c_slots s)(j := None)"
  by (auto simp: clusterAddSlot_def clusterNodeSetSlotBit_def clusterDelSlot_def
      clusterNodeClearSlotBit_def serverAssert_def panic_with_def Let_def fun_eq_iff
      split: option.splits prod.splits if_splits)

lemma clusterSlot_fields [simp]:
  "c_myself (snd (clusterAddSlot p j s)) = c_myself s" "c_myself (snd (clusterDelSlot j s)) = c_myself s"
  "c_nodes (snd (clusterAddSlot p j s)) = c_nodes s" "c_nodes (snd (clusterDelSlot j s)) = c_nodes s"
  "c_currentEpoch (snd (clusterAddSlot p j s)) = c_currentEpoch s"
  "c_currentEpoch (snd (clusterDelSlot j s)) = c_currentEpoch s"
  "c_lastVoteEpoch (snd (clusterAddSlot p j s)) = c_lastVoteEpoch s"
  "c_lastVoteEpoch (snd (clusterDelSlot j s)) = c_lastVoteEpoch s"
  "c_importing_slots_from (snd (clusterAddSlot p j s)) = c_importing_slots_from s"
  "n_configEpoch (nd (snd (clusterAddSlot p j s)) q) = n_configEpoch (nd s q)"
  "n_configEpoch (nd (snd (clusterDelSlot j s)) q) = n_configEpoch (nd s q)"
  by (simp_all add: clusterAddSlot_def clusterNodeSetSlotBit_def clusterDelSlot_def nd_upd_node
      clusterNodeClearSlotBit_def serverAssert_def panic_with_def Let_def nd_def
      split: option.splits prod.splits if_splits)

lemma clusterSlot_panic:
  "s_panic (snd (clusterAddSlot p j s)) = s_panic s"
  "slots_ok s \<Longrightarrow> j < CLUSTER_SLOTS \<Longrightarrow> s_panic (snd (clusterDelSlot j s)) = s_panic s"
proof -
  show "s_panic (snd (clusterAddSlot p j s)) = s_panic s"
    by (simp add: clusterAddSlot_def clusterNodeSetSlotBit_def Let_def split: prod.splits)
  assume ok: "slots_ok s" and j: "j < CLUSTER_SLOTS"
  then show "s_panic (snd (clusterDelSlot j s)) = s_panic s"
    using slots_okD(3) [OF ok slot_owner_live [OF ok j] j]
    by (auto simp: clusterDelSlot_def clusterNodeClearSlotBit_def serverAssert_def Let_def
        split: option.splits)
qed

lemma clusterDelNodeSlots_ok:
  assumes "cluster_ok s" shows "cluster_ok (snd (clusterDelNodeSlots p s))"
proof -
  let ?f = "\<lambda>j (deleted, s). if clusterNodeGetSlotBit p j s
              then (deleted + 1 :: int, snd (clusterDelSlot j s)) else (deleted, s)"
  have "cluster_ok (snd (fold ?f xs (k, s)))" if "\<forall>j \<in> set xs. j < CLUSTER_SLOTS" for xs k
    using that assms
    by (induction xs arbitrary: k s) (auto simp: clusterDelSlot_ok)
  then show ?thesis by (simp add: clusterDelNodeSlots_def)
qed

section \<open>Adding, renaming and deleting nodes\<close>

definition fresh_node :: "nid \<Rightarrow> redisServer \<Rightarrow> bool" where
  "fresh_node p s \<longleftrightarrow> p < c_next s \<and> p \<notin> live s \<and> n_slots (nd s p) = emptyBitmap \<and> n_numslots (nd s p) = 0"

lemma fresh_node_core: "core s' = core s \<Longrightarrow> fresh_node p s' \<longleftrightarrow> fresh_node p s"
  by (auto simp: core_def fresh_node_def live_def nd_def fun_eq_iff)

lemma slotsOf_empty [simp]: "slotsOf emptyBitmap = {}"
  by (auto simp: slotsOf_def)

lemma allocNode_ok:
  assumes "cluster_ok s"
  shows "cluster_ok (snd (allocNode n s))"
proof -
  have p: "\<And>p. p \<in> live s \<Longrightarrow> p < c_next s"
    using assms by (simp add: cluster_ok_def names_ok_def)
  have nd: "nd (snd (allocNode n s)) p = nd s p" if "p \<in> live s" for p
    using p [OF that] by (simp add: nd_def allocNode_def)
  have [simp]: "live (snd (allocNode n s)) = live s" by (simp add: live_def allocNode_def)
  have entry: "(name, p) \<in> set (c_nodes s) \<Longrightarrow> p \<in> live s" for name p
    by (force simp: live_def dictVals_def)
  have [simp]: "c_nodes (snd (allocNode n s)) = c_nodes s" "c_slots (snd (allocNode n s)) = c_slots s"
    "c_myself (snd (allocNode n s)) = c_myself s" "c_next (snd (allocNode n s)) = Suc (c_next s)"
    by (simp_all add: allocNode_def)
  have "names_ok (snd (allocNode n s))"
    using assms by (auto simp: cluster_ok_def names_ok_def nd entry less_Suc_eq)
  moreover have "slots_ok (snd (allocNode n s))"
    using assms by (auto simp: cluster_ok_def slots_ok_def nd)
  ultimately show ?thesis by (simp add: cluster_ok_def)
qed

lemma allocNode_fresh:
  "cluster_ok s \<Longrightarrow> n_slots n = emptyBitmap \<Longrightarrow> n_numslots n = 0 \<Longrightarrow>
   allocNode n s = (p, s') \<Longrightarrow> fresh_node p s'"
  by (auto simp: allocNode_def fresh_node_def nd_def live_def cluster_ok_def names_ok_def)

lemma random_core [frame_simps]:
  "core (snd (random_num s)) = core s" "core (snd (getRandomHexChars k s)) = core s"
proof -
  show one: "core (snd (random_num s)) = core s" for s by (simp add: random_num_def frame_simps)
  show "core (snd (getRandomHexChars k s)) = core s"
  proof (induction k s rule: getRandomHexChars.induct)
    case (2 k s)
    then show ?case using one [of s] by (auto simp: Let_def split: prod.splits)
  qed simp
qed

lemma createClusterNode_ok:
  assumes ok: "cluster_ok s" and c: "createClusterNode nodename flags s = (p, s')"
  shows "cluster_ok s'" and "fresh_node p s'" and "live s' = live s" and "c_myself s' = c_myself s"
    and "n_flags (nd s' p) = flags"
proof -
  define r where "r = (case nodename of
            Some name \<Rightarrow> (take CLUSTER_NAMELEN name, s) | None \<Rightarrow> getRandomHexChars CLUSTER_NAMELEN s)"
  have c1: "core (snd r) = core s" by (simp add: r_def frame_simps split: option.split)
  have a: "allocNode (newClusterNode (fst r) flags (snd r)) (snd r) = (p, s')"
    using c by (simp add: createClusterNode_def r_def [symmetric] case_prod_beta)
  have ok1: "cluster_ok (snd r)" by (rule cluster_ok_keep [OF ok c1])
  show "cluster_ok s'"
    using allocNode_ok [OF ok1, of "newClusterNode (fst r) flags (snd r)"] a by simp
  show "fresh_node p s'"
    by (rule allocNode_fresh [OF ok1 _ _ a]) (simp_all add: newClusterNode_def)
  have "live (snd r) = live s" "c_myself (snd r) = c_myself s"
    using live_core [OF c1] c1 by (simp_all add: core_def)
  moreover have "live s' = live (snd r)" "c_myself s' = c_myself (snd r)"
    using a by (auto simp: allocNode_def live_def)
  ultimately show "live s' = live s" "c_myself s' = c_myself s" by simp_all
  show "n_flags (nd s' p) = flags"
    using a by (auto simp: allocNode_def nd_def newClusterNode_def)
qed

lemma live_dictReplace:
  "dictOk d \<Longrightarrow> dictFind d k = None \<Longrightarrow> set (dictVals (dictReplace d k v)) = insert v (set (dictVals d))"
  by (induction d k v rule: dictReplace.induct)
    (auto simp: dictVals_def dictFind_def dictOk_def split: if_splits)

lemma set_dictReplace:
  "dictFind d k = None \<Longrightarrow> set (dictReplace d k v) = insert (k, v) (set d)"
  by (induction d k v rule: dictReplace.induct) (auto simp: dictFind_def split: if_splits)

lemma clusterAddNode_ok:
  assumes ok: "cluster_ok s" and fresh: "fresh_node p s"
  shows "cluster_ok (clusterAddNode p s)"
proof (cases "dictFind (c_nodes s) (n_name (nd s p))")
  case None
  let ?s = "clusterAddNode p s"
  have s': "?s = s\<lparr>c_nodes := dictReplace (c_nodes s) (n_name (nd s p)) p\<rparr>"
    using None by (simp add: clusterAddNode_def)
  have d: "dictOk (c_nodes s)" using ok by (simp add: cluster_ok_def names_ok_def)
  have live: "live ?s = insert p (live s)"
    unfolding s' live_def using live_dictReplace [OF d None] by simp
  have nd [simp]: "nd ?s q = nd s q" "c_slots ?s = c_slots s" "c_next ?s = c_next s"
    "c_myself ?s = c_myself s" for q
    by (simp_all add: s' nd_def)
  have "names_ok ?s"
    using ok fresh d unfolding names_ok_def live nd cluster_ok_def
    by (auto simp: s' set_dictReplace [OF None] dictReplace_ok fresh_node_def)
  moreover have "slots_ok ?s"
    using ok fresh unfolding slots_ok_def live nd cluster_ok_def
    by (auto simp: fresh_node_def)
  ultimately show ?thesis by (simp add: cluster_ok_def)
next
  case (Some q)
  then show ?thesis using ok
    by (simp add: clusterAddNode_def) (rule cluster_ok_keep, assumption, simp add: frame_simps)
qed

lemma set_dictDelete: "set (dictDelete d k) = {e \<in> set d. fst e \<noteq> k}"
  by (auto simp: dictDelete_def)

lemma entry_iff:
  assumes "names_ok s" and "p \<in> live s" and "e \<in> set (c_nodes s)"
  shows "fst e = n_name (nd s p) \<longleftrightarrow> snd e = p"
proof
  assume "fst e = n_name (nd s p)"
  then have "dictFind (c_nodes s) (n_name (nd s p)) = Some (snd e)"
    using assms(1,3) by (cases e) (auto simp: dictFind_def dictOk_def names_ok_def)
  with liveD [OF assms(1,2)] show "snd e = p" by simp
next
  assume "snd e = p"
  then show "fst e = n_name (nd s p)" using assms(1,3) by (cases e) (auto simp: names_ok_def)
qed

lemma clusterRenameNode_ok:
  assumes ok: "cluster_ok s" and p: "p \<in> live s"
    and new: "clusterLookupNode newname s = None"
  shows "cluster_ok (clusterRenameNode p newname s)"
proof -
  have names: "names_ok s" and slots: "slots_ok s" using ok by (simp_all add: cluster_ok_def)
  have old: "dictFind (c_nodes s) (n_name (nd s p)) = Some p" by (rule liveD [OF names p])
  let ?d = "dictDelete (c_nodes s) (n_name (nd s p))" and ?n = "take CLUSTER_NAMELEN newname"
  have none: "dictFind ?d ?n = None"
    using new by (simp add: dictFind_dictDelete clusterLookupNode_def)
  have d: "dictOk (c_nodes s)" using names by (simp add: names_ok_def)
  let ?s = "clusterRenameNode p newname s"
  have s': "?s = (upd_node p (\<lambda>n. n\<lparr>n_name := ?n\<rparr>) s)\<lparr>c_nodes := dictReplace ?d ?n p\<rparr>"
    using old none by (simp add: clusterRenameNode_def clusterAddNode_def Let_def upd_node_def nd_def)
  have entries: "set (c_nodes ?s) = insert (?n, p) {e \<in> set (c_nodes s). snd e \<noteq> p}"
    using entry_iff [OF names p] unfolding s' by (auto simp: set_dictReplace [OF none] set_dictDelete)
  have live: "live ?s = live s"
    unfolding live_def dictVals_def set_map entries using p by (force simp: live_def dictVals_def)
  have "names_ok ?s"
    using names entries dictReplace_ok [OF dictDelete_ok [OF d]]
    unfolding names_ok_def live by (auto simp: s' nd_def upd_node_def)
  moreover have "slots_ok ?s"
    using slots unfolding slots_ok_def live by (auto simp: s' nd_def upd_node_def)
  ultimately show ?thesis by (simp add: cluster_ok_def)
qed

lemma freeClusterNode_core:
  assumes "names_ok s" and "p \<in> live s"
  shows "core (freeClusterNode p s) = core (s\<lparr>c_nodes := dictDelete (c_nodes s) (n_name (nd s p))\<rparr>)"
proof -
  define s1 where "s1 = fold (\<lambda>q. upd_node q (\<lambda>n. n\<lparr>n_slaveof := None\<rparr>)) (n_slaves (nd s p)) s"
  define s2 where "s2 = (case n_slaveof (nd s1 p) of
                  Some m \<Rightarrow> if nodeIsSlave (nd s1 p) then snd (clusterNodeRemoveSlave m p s1) else s1
                | None \<Rightarrow> s1)"
  have "core s1 = core s"
    unfolding s1_def by (rule fold_keeps_field) (simp add: frame_simps)
  moreover have "core s2 = core s1"
    by (simp add: s2_def frame_simps split: option.splits)
  ultimately have c2: "core s2 = core s" by simp
  then have n2: "n_name (nd s2 p) = n_name (nd s p)" "c_nodes s2 = c_nodes s"
    by (simp_all add: core_def nd_def fun_eq_iff)
  define s3 where "s3 = serverAssert (dictFind (c_nodes s2) (n_name (nd s2 p)) \<noteq> None) s2"
  have "s3 = s2" unfolding s3_def n2 using liveD [OF assms] by simp
  define s4 where "s4 = s3\<lparr>c_nodes := dictDelete (c_nodes s3) (n_name (nd s3 p))\<rparr>"
  have c4: "core s4 = core (s\<lparr>c_nodes := dictDelete (c_nodes s) (n_name (nd s p))\<rparr>)"
    using c2 n2 unfolding s4_def \<open>s3 = s2\<close> by (simp add: core_def)
  have "freeClusterNode p s = (case n_link (nd s4 p) of Some l \<Rightarrow> freeClusterLink l s4 | None \<Rightarrow> s4)"
    unfolding freeClusterNode_def Let_def s1_def s2_def s3_def s4_def ..
  then show ?thesis by (simp add: c4 frame_simps split: option.splits)
qed

lemma freeClusterNode_ok:
  assumes ok: "cluster_ok s" and p: "p \<in> live s" "p \<noteq> c_myself s"
    and none: "\<And>j. j < CLUSTER_SLOTS \<Longrightarrow> c_slots s j \<noteq> Some p"
  shows "cluster_ok (freeClusterNode p s)" and "live (freeClusterNode p s) = live s - {p}"
proof -
  have names: "names_ok s" and slots: "slots_ok s" using ok by (simp_all add: cluster_ok_def)
  let ?s = "s\<lparr>c_nodes := dictDelete (c_nodes s) (n_name (nd s p))\<rparr>"
  have c: "core (freeClusterNode p s) = core ?s"
    by (rule freeClusterNode_core [OF names p(1)])
  have d: "dictOk (c_nodes s)" using names by (simp add: names_ok_def)
  note e = entry_iff [OF names p(1)]
  have live: "live ?s = live s - {p}"
    using e by (force simp: live_def dictVals_def set_dictDelete image_iff)
  show "live (freeClusterNode p s) = live s - {p}"
    using live_core [OF c] live by simp
  have [simp]: "nd ?s q = nd s q" for q by (simp add: nd_def)
  have "names_ok ?s"
    using names p dictDelete_ok [OF d] unfolding names_ok_def live
    by (auto simp: set_dictDelete)
  moreover have "slots_ok ?s"
    using slots none unfolding slots_ok_def live by auto
  ultimately show "cluster_ok (freeClusterNode p s)"
    using cluster_ok_core [OF c] by (simp add: cluster_ok_def)
qed

lemma forgetSlotsOf_ok:
  assumes "cluster_ok s" and "j < CLUSTER_SLOTS"
  shows "cluster_ok (forgetSlotsOf p j s)" and "live (forgetSlotsOf p j s) = live s"
    and "c_myself (forgetSlotsOf p j s) = c_myself s"
    and "c_slots (forgetSlotsOf p j s) = (if c_slots s j = Some p then (c_slots s)(j := None) else c_slots s)"
proof -
  define s1 where "s1 = (if c_importing_slots_from s j = Some p
      then s\<lparr>c_importing_slots_from := (c_importing_slots_from s)(j := None)\<rparr> else s)"
  define s2 where "s2 = (if c_migrating_slots_to s1 j = Some p
      then s1\<lparr>c_migrating_slots_to := (c_migrating_slots_to s1)(j := None)\<rparr> else s1)"
  have f: "forgetSlotsOf p j s = (if c_slots s2 j = Some p then snd (clusterDelSlot j s2) else s2)"
    by (simp add: forgetSlotsOf_def s1_def s2_def Let_def)
  have c: "core s2 = core s" by (simp add: s1_def s2_def frame_simps)
  then have ok2: "cluster_ok s2" and live2: "live s2 = live s" "c_slots s2 = c_slots s" "c_myself s2 = c_myself s"
    using cluster_ok_core [OF c] live_core [OF c] assms(1) by (simp_all add: core_def)
  have my: "c_myself (snd (clusterDelSlot j s2)) = c_myself s2"
    by (simp add: clusterDelSlot_def clusterNodeClearSlotBit_def serverAssert_def panic_with_def
        Let_def split: option.splits prod.splits)
  show "cluster_ok (forgetSlotsOf p j s)"
    unfolding f using ok2 clusterDelSlot_ok [OF ok2 assms(2)] by simp
  show "live (forgetSlotsOf p j s) = live s"
    "c_slots (forgetSlotsOf p j s) = (if c_slots s j = Some p then (c_slots s)(j := None) else c_slots s)"
    "c_myself (forgetSlotsOf p j s) = c_myself s"
    unfolding f using live2 my by auto
qed

lemma forgetSlots_ok:
  assumes "cluster_ok s" and "\<forall>j \<in> set js. j < CLUSTER_SLOTS"
  shows "cluster_ok (fold (forgetSlotsOf p) js s) \<and> live (fold (forgetSlotsOf p) js s) = live s \<and>
    c_myself (fold (forgetSlotsOf p) js s) = c_myself s \<and>
    c_slots (fold (forgetSlotsOf p) js s) =
      (\<lambda>j. if j \<in> set js \<and> c_slots s j = Some p then None else c_slots s j)"
  using assms
  by (induction js arbitrary: s) (auto simp: forgetSlotsOf_ok fun_eq_iff)

text \<open>
  What \<open>clusterDelNode\<close> does to the tables: the node is gone, its slots are unassigned, every
  other slot keeps its owner, and the invariant holds.
\<close>

lemma clusterDelNode_ok:
  assumes ok: "cluster_ok s" and p: "p \<in> live s" "p \<noteq> c_myself s"
  shows "cluster_ok (clusterDelNode p s)" and "live (clusterDelNode p s) = live s - {p}"
proof -
  define s1 where "s1 = fold (forgetSlotsOf p) [0..<CLUSTER_SLOTS] s"
  define s2 where "s2 = fold (\<lambda>q s. if q = p then s else snd (clusterNodeDelFailureReport q p s))
                 (dictVals (c_nodes s1)) s1"
  have 1: "cluster_ok s1 \<and> live s1 = live s \<and> c_myself s1 = c_myself s \<and>
    c_slots s1 = (\<lambda>j. if j \<in> set [0..<CLUSTER_SLOTS] \<and> c_slots s j = Some p then None else c_slots s j)"
    unfolding s1_def by (rule forgetSlots_ok [OF ok]) simp
  have c2: "core s2 = core s1"
    unfolding s2_def by (rule fold_keeps_field) (simp add: frame_simps)
  then have 2: "cluster_ok s2" "live s2 = live s" "c_myself s2 = c_myself s" "c_slots s2 = c_slots s1"
    using 1 cluster_ok_core [OF c2] live_core [OF c2] by (simp_all add: core_def)
  have "c_slots s2 j \<noteq> Some p" if "j < CLUSTER_SLOTS" for j
    using 1 2(4) that by auto
  note free = freeClusterNode_ok [OF 2(1) _ _ this]
  have d: "clusterDelNode p s = freeClusterNode p s2"
    by (simp add: clusterDelNode_def s1_def s2_def Let_def)
  show "cluster_ok (clusterDelNode p s)" "live (clusterDelNode p s) = live s - {p}"
    unfolding d using free p 2 by auto
qed

section \<open>A small cluster\<close>

text \<open>
  States that instantiate the lemmas: a server that knows itself (address 0, name \<^verbatim>\<open>a\<close>...)
  and a second node (address 1, name \<^verbatim>\<open>b\<close>...), without slots.
\<close>

definition nameA :: string where "nameA = replicate 40 (CHR ''a'')"
definition nameB :: string where "nameB = replicate 40 (CHR ''b'')"

definition node_a :: clusterNode where
  "node_a = zeroNode\<lparr>n_name := nameA, n_flags := CLUSTER_NODE_MYSELF OR CLUSTER_NODE_MASTER\<rparr>"

definition pair_cluster :: "clusterNode \<Rightarrow> clusterNode \<Rightarrow> redisServer" where
  "pair_cluster na nb = zeroServer\<lparr>c_mem := (\<lambda>_. zeroNode)(0 := na\<lparr>n_name := nameA\<rparr>, 1 := nb\<lparr>n_name := nameB\<rparr>),
     c_nodes := [(nameA, 0), (nameB, 1)], c_myself := 0, c_next := 2\<rparr>"

lemma names_differ [simp]: "nameA \<noteq> nameB" "nameB \<noteq> nameA"
  by (simp_all add: nameA_def nameB_def)

lemma name_lengths [simp]: "length nameA = 40" "length nameB = 40"
  by (simp_all add: nameA_def nameB_def)

lemma pair_cluster_fields [simp]:
  "c_nodes (pair_cluster na nb) = [(nameA, 0), (nameB, 1)]" "c_myself (pair_cluster na nb) = 0"
  "nd (pair_cluster na nb) 0 = na\<lparr>n_name := nameA\<rparr>"
  "nd (pair_cluster na nb) (Suc 0) = nb\<lparr>n_name := nameB\<rparr>"
  "c_slots (pair_cluster na nb) = (\<lambda>_. None)" "s_panic (pair_cluster na nb) = None"
  "live (pair_cluster na nb) = {0, 1}" "c_stats_pfail_nodes (pair_cluster na nb) = 0"
  "c_next (pair_cluster na nb) = 2" "s_mstime (pair_cluster na nb) = 0"
  "dictVals (c_nodes (pair_cluster na nb)) = [0, 1]"
  by (simp_all add: pair_cluster_def zeroServer_def nd_def live_def dictVals_def)

lemma pair_cluster_ok:
  assumes "n_slots na = emptyBitmap" "n_numslots na = 0" "n_slots nb = emptyBitmap" "n_numslots nb = 0"
  shows "cluster_ok (pair_cluster na nb)"
  using assms by (simp add: cluster_ok_def names_ok_def slots_ok_def dictOk_def)

section \<open>Failure reports as a finite map\<close>

text \<open>
  The list of failure reports of a node stands for the map from the reporting node to the time
  of its last report; the operations implement update, deletion and expiry of that map.
\<close>

definition reportsOf :: "nid \<Rightarrow> redisServer \<Rightarrow> nid \<rightharpoonup> mstime_t" where
  "reportsOf p s = map_of (n_fail_reports (nd s p))"

definition reports_ok :: "nid \<Rightarrow> redisServer \<Rightarrow> bool" where
  "reports_ok p s \<longleftrightarrow> distinct (map fst (n_fail_reports (nd s p)))"

lemma refreshReport_None: "refreshReport r t l = None \<longleftrightarrow> r \<notin> fst ` set l"
  by (induction r t l rule: refreshReport.induct) auto

lemma refreshReport_Some:
  "refreshReport r t l = Some l' \<Longrightarrow> map fst l' = map fst l \<and> map_of l' = (map_of l)(r \<mapsto> t)"
  by (induction r t l arbitrary: l' rule: refreshReport.induct)
    (auto simp: fun_upd_twist split: if_splits)

lemma removeReport_None: "removeReport r l = None \<longleftrightarrow> r \<notin> fst ` set l"
  by (induction r l rule: removeReport.induct) auto

lemma removeReport_Some:
  "removeReport r l = Some l' \<Longrightarrow> distinct (map fst l) \<Longrightarrow>
   distinct (map fst l') \<and> map_of l' = (map_of l)(r := None) \<and> set l' \<subseteq> set l"
proof (induction r l arbitrary: l' rule: removeReport.induct)
  case (2 r n t l)
  show ?case
  proof (cases "n = r")
    case True
    then show ?thesis using "2.prems" map_of_eq_None_iff [of l r]
      by (auto simp: fun_eq_iff)
  next
    case False
    then obtain l0 where l0: "removeReport r l = Some l0" "l' = (n, t) # l0"
      using "2.prems"(1) by auto
    then have IH: "distinct (map fst l0) \<and> map_of l0 = (map_of l)(r := None) \<and> set l0 \<subseteq> set l"
      by (intro "2.IH" [OF False]) (use "2.prems"(2) in simp_all)
    then have "n \<notin> fst ` set l0" using "2.prems"(2) by auto
    moreover have "map_of ((n, t) # l0) = (map_of ((n, t) # l))(r := None)"
      using IH False by (simp add: fun_upd_twist [of n r])
    ultimately show ?thesis using IH by (simp only: l0(2)) auto
  qed
qed simp

lemma map_of_filter_distinct:
  "distinct (map fst l) \<Longrightarrow>
   map_of (filter (\<lambda>(r, t). P t) l) r = (case map_of l r of Some t \<Rightarrow> if P t then Some t else None | None \<Rightarrow> None)"
proof (induction l)
  case (Cons e l)
  then have "fst e \<notin> fst ` set l" by simp
  then have "map_of l (fst e) = None" "map_of (filter (\<lambda>(r, t). P t) l) (fst e) = None"
    by (force simp: map_of_eq_None_iff)+
  with Cons show ?case by (cases e) (auto split: option.splits)
qed simp

definition reportExpired :: "redisServer \<Rightarrow> mstime_t \<Rightarrow> bool" where
  "reportExpired s t \<longleftrightarrow> s_mstime s - t > s_node_timeout s * CLUSTER_FAIL_REPORT_VALIDITY_MULT"

lemma reports_add:
  assumes "reports_ok p s"
  shows "reportsOf p (snd (clusterNodeAddFailureReport p r s)) = (reportsOf p s)(r \<mapsto> s_mstime s)"
    and "fst (clusterNodeAddFailureReport p r s) \<longleftrightarrow> reportsOf p s r = None"
    and "reports_ok p (snd (clusterNodeAddFailureReport p r s))"
proof -
  let ?l = "n_fail_reports (nd s p)"
  have "reportsOf p (snd (clusterNodeAddFailureReport p r s)) = (reportsOf p s)(r \<mapsto> s_mstime s) \<and>
    (fst (clusterNodeAddFailureReport p r s) \<longleftrightarrow> reportsOf p s r = None) \<and>
    reports_ok p (snd (clusterNodeAddFailureReport p r s))"
  proof (cases "refreshReport r (s_mstime s) ?l")
    case None
    then have new: "r \<notin> fst ` set ?l" by (simp add: refreshReport_None)
    then have "map_of (?l @ [(r, s_mstime s)]) = (map_of ?l)(r \<mapsto> s_mstime s)"
      by (auto simp: map_add_def map_of_eq_None_iff [symmetric] split: option.splits)
    with new None assms show ?thesis
      by (auto simp: clusterNodeAddFailureReport_def nd_upd_node reportsOf_def reports_ok_def
          map_of_eq_None_iff)
  next
    case (Some l)
    then have "r \<in> fst ` set ?l" using refreshReport_None by (metis option.distinct(1))
    then show ?thesis
      using Some refreshReport_Some [OF Some] assms
      by (simp add: clusterNodeAddFailureReport_def nd_upd_node reportsOf_def reports_ok_def
          map_of_eq_None_iff)
  qed
  then show "reportsOf p (snd (clusterNodeAddFailureReport p r s)) = (reportsOf p s)(r \<mapsto> s_mstime s)"
    and "fst (clusterNodeAddFailureReport p r s) \<longleftrightarrow> reportsOf p s r = None"
    and "reports_ok p (snd (clusterNodeAddFailureReport p r s))" by auto
qed

lemma reports_cleanup:
  assumes "reports_ok p s"
  shows "reportsOf p (clusterNodeCleanupFailureReports p s) =
      (\<lambda>r. case reportsOf p s r of
             Some t \<Rightarrow> if reportExpired s t then None else Some t | None \<Rightarrow> None)"
    and "reports_ok p (clusterNodeCleanupFailureReports p s)"
  using assms map_of_filter_distinct [of "n_fail_reports (nd s p)" "\<lambda>t. \<not> reportExpired s t"]
  by (auto simp: reportsOf_def reports_ok_def clusterNodeCleanupFailureReports_def nd_upd_node Let_def
      reportExpired_def fun_eq_iff distinct_map inj_on_def split: option.splits)

text \<open>
  C37. The failure reports of a node behave as a map from reporters to report times: adding
  records the present time under the reporter and tells whether it is new, deleting removes the
  reporter (and says so) and drops expired entries only when there was something to remove,
  and counting gives the number of reporters whose report is at most twice the node timeout old.
\<close>

theorem failure_reports_are_a_map:
  assumes "reports_ok p s"
  shows "reportsOf p (snd (clusterNodeAddFailureReport p r s)) = (reportsOf p s)(r \<mapsto> s_mstime s) \<and>
         (fst (clusterNodeAddFailureReport p r s) \<longleftrightarrow> reportsOf p s r = None) \<and>
         reports_ok p (snd (clusterNodeAddFailureReport p r s)) \<and>
         (fst (clusterNodeDelFailureReport p r s) \<longleftrightarrow> reportsOf p s r \<noteq> None) \<and>
         (reportsOf p (snd (clusterNodeDelFailureReport p r s)) q =
           (if reportsOf p s r = None then reportsOf p s q
            else if q = r then None
            else case reportsOf p s q of Some t \<Rightarrow> if reportExpired s t then None else Some t
                                      | None \<Rightarrow> None)) \<and>
         reports_ok p (snd (clusterNodeDelFailureReport p r s)) \<and>
         (fst (clusterNodeFailureReportsCount p s) =
           int (card {q. \<exists>t. reportsOf p s q = Some t \<and> \<not> reportExpired s t}))"
proof (intro conjI)
  show "reportsOf p (snd (clusterNodeAddFailureReport p r s)) = (reportsOf p s)(r \<mapsto> s_mstime s)"
    and "fst (clusterNodeAddFailureReport p r s) \<longleftrightarrow> reportsOf p s r = None"
    and "reports_ok p (snd (clusterNodeAddFailureReport p r s))"
    by (rule reports_add [OF assms])+
  let ?l = "n_fail_reports (nd s p)"
  have "fst (clusterNodeDelFailureReport p r s) = (reportsOf p s r \<noteq> None) \<and>
    reportsOf p (snd (clusterNodeDelFailureReport p r s)) q =
           (if reportsOf p s r = None then reportsOf p s q else if q = r then None
            else case reportsOf p s q of Some t \<Rightarrow> if reportExpired s t then None else Some t
                                      | None \<Rightarrow> None) \<and>
    reports_ok p (snd (clusterNodeDelFailureReport p r s))"
  proof (cases "removeReport r ?l")
    case None
    then show ?thesis using removeReport_None [of r ?l] assms
      by (simp add: clusterNodeDelFailureReport_def reportsOf_def map_of_eq_None_iff)
  next
    case (Some l)
    let ?s = "upd_node p (\<lambda>n. n\<lparr>n_fail_reports := l\<rparr>) s"
    have l: "reports_ok p ?s" "reportsOf p ?s = (reportsOf p s)(r := None)"
      using removeReport_Some [OF Some] assms
      by (simp_all add: reports_ok_def reportsOf_def nd_upd_node)
    have "reportsOf p s r \<noteq> None"
      using Some removeReport_None [of r ?l] by (auto simp: reportsOf_def map_of_eq_None_iff)
    then show ?thesis
      using reports_cleanup [OF l(1)] Some
      by (auto simp: clusterNodeDelFailureReport_def l(2) reportExpired_def split: option.splits)
  qed
  then show "fst (clusterNodeDelFailureReport p r s) \<longleftrightarrow> reportsOf p s r \<noteq> None"
    and "reportsOf p (snd (clusterNodeDelFailureReport p r s)) q =
           (if reportsOf p s r = None then reportsOf p s q
            else if q = r then None
            else case reportsOf p s q of Some t \<Rightarrow> if reportExpired s t then None else Some t
                                      | None \<Rightarrow> None)"
    and "reports_ok p (snd (clusterNodeDelFailureReport p r s))" by auto
  let ?s = "clusterNodeCleanupFailureReports p s"
  have "distinct (map fst (n_fail_reports (nd ?s p)))"
    using reports_cleanup(2) [OF assms] by (simp add: reports_ok_def)
  then have "length (n_fail_reports (nd ?s p)) = card (dom (reportsOf p ?s))"
    by (metis distinct_card dom_map_of_conv_image_fst length_map list.set_map reportsOf_def)
  moreover have "dom (reportsOf p ?s) = {q. \<exists>t. reportsOf p s q = Some t \<and> \<not> reportExpired s t}"
    by (auto simp: reports_cleanup(1) [OF assms] dom_def split: option.splits if_splits)
  ultimately show "fst (clusterNodeFailureReportsCount p s) =
      int (card {q. \<exists>t. reportsOf p s q = Some t \<and> \<not> reportExpired s t})"
    by (simp add: clusterNodeFailureReportsCount_def Let_def)
qed

text \<open>The second node has one report, from this node, and gets another one from itself.\<close>

theorem failure_reports_are_a_map_witness:
  "let s = (pair_cluster node_a (zeroNode\<lparr>n_fail_reports := [(0, 5)]\<rparr>))\<lparr>s_mstime := 7\<rparr>
   in reportsOf 1 (snd (clusterNodeAddFailureReport 1 1 s)) = [0 \<mapsto> 5, 1 \<mapsto> 7] \<and>
      fst (clusterNodeFailureReportsCount 1 s) = 1"
proof -
  let ?s = "(pair_cluster node_a (zeroNode\<lparr>n_fail_reports := [(0, 5)]\<rparr>))\<lparr>s_mstime := 7\<rparr>"
  have l: "n_fail_reports (nd ?s 1) = [(0, 5)]"
    by (simp add: nd_def pair_cluster_def)
  have ok: "reports_ok 1 ?s" by (simp only: reports_ok_def l) simp
  have m: "reportsOf 1 ?s = [0 \<mapsto> 5]" by (simp only: reportsOf_def l) simp
  have "{q. \<exists>t. ([0 \<mapsto> 5] :: nid \<rightharpoonup> mstime_t) q = Some t \<and> \<not> reportExpired ?s t} = {0}"
    by (auto simp: reportExpired_def pair_cluster_def zeroServer_def
        CLUSTER_FAIL_REPORT_VALIDITY_MULT_def split: if_splits)
  then show ?thesis
    using failure_reports_are_a_map [OF ok, of 1]
    unfolding m by (simp add: Let_def)
qed

section \<open>Deleting a node\<close>

lemma other_panics [simp]:
  "s_panic (clusterNodeCleanupFailureReports p s) = s_panic s"
  "s_panic (snd (clusterNodeDelFailureReport p q s)) = s_panic s"
  "s_panic (snd (clusterNodeRemoveSlave m p s)) = s_panic s"
  "s_panic (freeClusterLink l s) = s_panic s"
  by (simp_all add: clusterNodeCleanupFailureReports_def clusterNodeDelFailureReport_def
      clusterNodeRemoveSlave_def freeClusterLink_def Let_def split: option.splits)

lemma forgetSlotsOf_panic:
  assumes "cluster_ok s" and "j < CLUSTER_SLOTS"
  shows "s_panic (forgetSlotsOf p j s) = s_panic s"
proof -
  define s1 where "s1 = (if c_importing_slots_from s j = Some p
      then s\<lparr>c_importing_slots_from := (c_importing_slots_from s)(j := None)\<rparr> else s)"
  define s2 where "s2 = (if c_migrating_slots_to s1 j = Some p
      then s1\<lparr>c_migrating_slots_to := (c_migrating_slots_to s1)(j := None)\<rparr> else s1)"
  have f: "forgetSlotsOf p j s = (if c_slots s2 j = Some p then snd (clusterDelSlot j s2) else s2)"
    by (simp add: forgetSlotsOf_def s1_def s2_def Let_def)
  have "core s2 = core s" "s_panic s2 = s_panic s" by (simp_all add: s1_def s2_def frame_simps)
  then show ?thesis
    using assms cluster_ok_core [of s2 s] clusterSlot_panic(2) [of s2 j] by (simp add: f cluster_ok_def)
qed

lemma forgetSlots_panic:
  "cluster_ok s \<Longrightarrow> \<forall>j \<in> set js. j < CLUSTER_SLOTS \<Longrightarrow>
   s_panic (fold (forgetSlotsOf p) js s) = s_panic s"
  by (induction js arbitrary: s) (auto simp: forgetSlotsOf_ok forgetSlotsOf_panic)

text \<open>The slots being migrated or imported.\<close>

definition openSlots :: "redisServer \<Rightarrow> (nat \<Rightarrow> nid option) \<times> (nat \<Rightarrow> nid option)" where
  "openSlots s = (c_importing_slots_from s, c_migrating_slots_to s)"

lemma openSlots_frames [simp]:
  "openSlots (upd_node p f s) = openSlots s" "openSlots (s\<lparr>c_slots := sl\<rparr>) = openSlots s"
  "openSlots (s\<lparr>c_nodes := ns\<rparr>) = openSlots s" "openSlots (serverAssert b s) = openSlots s"
  by (simp_all add: openSlots_def serverAssert_def panic_with_def)

lemma openSlots_ops [simp]:
  "openSlots (snd (clusterDelSlot j s)) = openSlots s"
  "openSlots (snd (clusterNodeDelFailureReport p q s)) = openSlots s"
  "openSlots (snd (clusterNodeRemoveSlave m p s)) = openSlots s"
  "openSlots (freeClusterLink l s) = openSlots s"
proof -
  show "openSlots (snd (clusterDelSlot j s)) = openSlots s"
    by (simp add: clusterDelSlot_def clusterNodeClearSlotBit_def Let_def split: option.split)
  show "openSlots (snd (clusterNodeDelFailureReport p q s)) = openSlots s"
    by (simp add: clusterNodeDelFailureReport_def clusterNodeCleanupFailureReports_def Let_def
        split: option.split)
  show "openSlots (snd (clusterNodeRemoveSlave m p s)) = openSlots s"
    by (simp add: clusterNodeRemoveSlave_def)
  show "openSlots (freeClusterLink l s) = openSlots s"
    by (simp add: freeClusterLink_def split: option.split)
qed

lemma clusterDelSlot_open [simp]:
  "c_importing_slots_from (snd (clusterDelSlot j s)) = c_importing_slots_from s"
  "c_migrating_slots_to (snd (clusterDelSlot j s)) = c_migrating_slots_to s"
  using openSlots_ops(1) [of j s] by (simp_all add: openSlots_def)

lemma forgetSlotsOf_open:
  "openSlots (forgetSlotsOf p j s) =
     ((if c_importing_slots_from s j = Some p then (c_importing_slots_from s)(j := None)
       else c_importing_slots_from s),
      (if c_migrating_slots_to s j = Some p then (c_migrating_slots_to s)(j := None)
       else c_migrating_slots_to s))"
  by (simp add: forgetSlotsOf_def Let_def) (simp add: openSlots_def)

lemma forgetSlots_open:
  "openSlots (fold (forgetSlotsOf p) js s) =
     (\<lambda>j. if j \<in> set js \<and> c_importing_slots_from s j = Some p then None else c_importing_slots_from s j,
      \<lambda>j. if j \<in> set js \<and> c_migrating_slots_to s j = Some p then None else c_migrating_slots_to s j)"
proof (induction js arbitrary: s)
  case (Cons j js)
  have "c_importing_slots_from (forgetSlotsOf p j s) = fst (openSlots (forgetSlotsOf p j s))"
    "c_migrating_slots_to (forgetSlotsOf p j s) = snd (openSlots (forgetSlotsOf p j s))"
    by (simp_all add: openSlots_def)
  then show ?case using Cons [of "forgetSlotsOf p j s"] by (auto simp: forgetSlotsOf_open fun_eq_iff)
qed (simp add: openSlots_def)

lemma freeClusterNode_open: "openSlots (freeClusterNode p s) = openSlots s"
proof -
  define s1 where "s1 = fold (\<lambda>q. upd_node q (\<lambda>n. n\<lparr>n_slaveof := None\<rparr>)) (n_slaves (nd s p)) s"
  have "openSlots s1 = openSlots s"
    unfolding s1_def by (rule fold_keeps_field) simp
  then show ?thesis
    unfolding freeClusterNode_def Let_def s1_def [symmetric] by (simp split: option.split)
qed

lemma freeClusterNode_panic:
  assumes "names_ok s" and "p \<in> live s"
  shows "s_panic (freeClusterNode p s) = s_panic s"
proof -
  define s1 where "s1 = fold (\<lambda>q. upd_node q (\<lambda>n. n\<lparr>n_slaveof := None\<rparr>)) (n_slaves (nd s p)) s"
  define s2 where "s2 = (case n_slaveof (nd s1 p) of
                  Some m \<Rightarrow> if nodeIsSlave (nd s1 p) then snd (clusterNodeRemoveSlave m p s1) else s1
                | None \<Rightarrow> s1)"
  have "core s1 = core s"
    unfolding s1_def by (rule fold_keeps_field) (simp add: frame_simps)
  then have "core s2 = core s" by (simp add: s2_def frame_simps split: option.splits)
  then have n2: "n_name (nd s2 p) = n_name (nd s p)" "c_nodes s2 = c_nodes s"
    by (simp_all add: core_def nd_def fun_eq_iff)
  have "s_panic s1 = s_panic s" unfolding s1_def by (rule fold_keeps_field) simp
  then have p2: "s_panic s2 = s_panic s" by (simp add: s2_def split: option.splits)
  have "serverAssert (dictFind (c_nodes s2) (n_name (nd s2 p)) \<noteq> None) s2 = s2"
    unfolding n2 using liveD [OF assms] by simp
  then show ?thesis
    unfolding freeClusterNode_def Let_def s1_def [symmetric] s2_def [symmetric]
    by (simp add: p2 split: option.splits)
qed

lemma clusterDelNode_effect:
  assumes ok: "cluster_ok s" and p: "p \<in> live s" "p \<noteq> c_myself s"
  shows "cluster_ok (clusterDelNode p s)"
    and "live (clusterDelNode p s) = live s - {p}"
    and "\<forall>j < CLUSTER_SLOTS. c_slots (clusterDelNode p s) j =
           (if c_slots s j = Some p then None else c_slots s j)"
    and "\<forall>j < CLUSTER_SLOTS. c_importing_slots_from (clusterDelNode p s) j \<noteq> Some p \<and>
           c_migrating_slots_to (clusterDelNode p s) j \<noteq> Some p"
    and "s_panic (clusterDelNode p s) = s_panic s"
proof -
  show "cluster_ok (clusterDelNode p s)" "live (clusterDelNode p s) = live s - {p}"
    by (rule clusterDelNode_ok [OF assms])+
  define s1 where "s1 = fold (forgetSlotsOf p) [0..<CLUSTER_SLOTS] s"
  define s2 where "s2 = fold (\<lambda>q s. if q = p then s else snd (clusterNodeDelFailureReport q p s))
                 (dictVals (c_nodes s1)) s1"
  have 1: "cluster_ok s1 \<and> live s1 = live s \<and> c_myself s1 = c_myself s \<and>
    c_slots s1 = (\<lambda>j. if j \<in> set [0..<CLUSTER_SLOTS] \<and> c_slots s j = Some p then None else c_slots s j)"
    unfolding s1_def by (rule forgetSlots_ok [OF ok]) simp
  have c2: "core s2 = core s1"
    unfolding s2_def by (rule fold_keeps_field) (simp add: frame_simps)
  have p2: "s_panic s2 = s_panic s1"
    unfolding s2_def by (rule fold_keeps_field) simp
  have n2: "names_ok s2" "p \<in> live s2"
    using 1 cluster_ok_core [OF c2] live_core [OF c2] p by (simp_all add: cluster_ok_def)
  have free: "clusterDelNode p s = freeClusterNode p s2"
    by (simp add: clusterDelNode_def s1_def s2_def Let_def)
  have "openSlots s2 = openSlots s1"
    unfolding s2_def by (rule fold_keeps_field) simp
  then have "openSlots (clusterDelNode p s) = openSlots s1" by (simp add: free freeClusterNode_open)
  also have "\<dots> = (\<lambda>j. if j \<in> set [0..<CLUSTER_SLOTS] \<and> c_importing_slots_from s j = Some p then None
        else c_importing_slots_from s j,
      \<lambda>j. if j \<in> set [0..<CLUSTER_SLOTS] \<and> c_migrating_slots_to s j = Some p then None
        else c_migrating_slots_to s j)"
    unfolding s1_def by (rule forgetSlots_open)
  finally show "\<forall>j < CLUSTER_SLOTS. c_importing_slots_from (clusterDelNode p s) j \<noteq> Some p \<and>
      c_migrating_slots_to (clusterDelNode p s) j \<noteq> Some p"
    unfolding openSlots_def prod.inject by simp
  note free
  moreover have "core (freeClusterNode p s2) = core (s2\<lparr>c_nodes := dictDelete (c_nodes s2) (n_name (nd s2 p))\<rparr>)"
    by (rule freeClusterNode_core [OF n2])
  ultimately have "c_slots (clusterDelNode p s) = c_slots s1" "s_panic (clusterDelNode p s) = s_panic s1"
    using c2 freeClusterNode_panic [OF n2] p2 by (simp_all add: core_def)
  then show "\<forall>j < CLUSTER_SLOTS. c_slots (clusterDelNode p s) j =
           (if c_slots s j = Some p then None else c_slots s j)"
    and "s_panic (clusterDelNode p s) = s_panic s"
    using 1 forgetSlots_panic [OF ok, of "[0..<CLUSTER_SLOTS]" p] by (simp_all add: s1_def)
qed

lemma clusterDelNode_myself [simp]:
  assumes "cluster_ok s" and "p \<in> live s" and "p \<noteq> c_myself s"
  shows "c_myself (clusterDelNode p s) = c_myself s"
proof -
  define s1 where "s1 = fold (forgetSlotsOf p) [0..<CLUSTER_SLOTS] s"
  define s2 where "s2 = fold (\<lambda>q s. if q = p then s else snd (clusterNodeDelFailureReport q p s))
                 (dictVals (c_nodes s1)) s1"
  have 1: "cluster_ok s1 \<and> live s1 = live s \<and> c_myself s1 = c_myself s"
    using forgetSlots_ok [OF assms(1), of "[0..<CLUSTER_SLOTS]" p] by (simp add: s1_def)
  have c2: "core s2 = core s1"
    unfolding s2_def by (rule fold_keeps_field) (simp add: frame_simps)
  have n2: "names_ok s2" "p \<in> live s2" "c_myself s2 = c_myself s1"
    using 1 cluster_ok_core [OF c2] live_core [OF c2] c2 assms by (simp_all add: cluster_ok_def core_def)
  have "clusterDelNode p s = freeClusterNode p s2"
    by (simp add: clusterDelNode_def s1_def s2_def Let_def)
  then show ?thesis using freeClusterNode_core [OF n2(1,2)] n2 1 by (simp add: core_def)
qed

text \<open>
  Deleting a node that is not this one: it leaves the nodes table and every other node
  stays; its slots become unassigned and every other slot keeps its owner; the tables stay
  consistent, no assertion fails on the way, and no slot is left migrating to or importing
  from it.
\<close>

theorem clusterDelNode_correct:
  assumes ok: "cluster_ok s" and p: "p \<in> live s" "p \<noteq> c_myself s"
  shows "cluster_ok (clusterDelNode p s) \<and>
         live (clusterDelNode p s) = live s - {p} \<and>
         (\<forall>j < CLUSTER_SLOTS. c_slots (clusterDelNode p s) j =
           (if c_slots s j = Some p then None else c_slots s j)) \<and>
         (\<forall>j < CLUSTER_SLOTS. c_importing_slots_from (clusterDelNode p s) j \<noteq> Some p \<and>
           c_migrating_slots_to (clusterDelNode p s) j \<noteq> Some p) \<and>
         s_panic (clusterDelNode p s) = s_panic s"
  by (intro conjI; rule clusterDelNode_effect [OF assms])

text \<open>The second node of the small cluster owns slot 5 and is deleted.\<close>

theorem clusterDelNode_correct_witness:
  "let s = snd (clusterAddSlot 1 5 (pair_cluster node_a zeroNode)) in
   c_slots s 5 = Some 1 \<and> c_slots (clusterDelNode 1 s) 5 = None \<and>
   live (clusterDelNode 1 s) = {0} \<and> cluster_ok (clusterDelNode 1 s) \<and>
   s_panic (clusterDelNode 1 s) = s_panic s"
proof -
  let ?s = "snd (clusterAddSlot 1 5 (pair_cluster node_a zeroNode))"
  have ok: "cluster_ok ?s"
    by (rule clusterAddSlot_ok) (auto simp: CLUSTER_SLOTS_def node_a_def zeroNode_def intro!: pair_cluster_ok)
  have p: "1 \<in> live ?s" "1 \<noteq> c_myself ?s" "5 < CLUSTER_SLOTS" "c_slots ?s 5 = Some 1"
    by (simp_all add: CLUSTER_SLOTS_def)
  have "live ?s = {0, 1}" by simp
  then show ?thesis
    using clusterDelNode_correct [OF ok p(1,2)] p(3,4) unfolding Let_def by auto
qed

section \<open>Deleting changes no role\<close>

text \<open>The flags of the nodes, without the one that says a master is eligible for migration.\<close>

definition roles :: "redisServer \<Rightarrow> nid \<Rightarrow> u32" where
  "roles s = (\<lambda>p. n_flags (nd s p) AND NOT CLUSTER_NODE_MIGRATE_TO)"

lemma roles_hasFlag:
  assumes "roles s' = roles s" and "b AND CLUSTER_NODE_MIGRATE_TO = 0"
  shows "hasFlag (n_flags (nd s' p)) b = hasFlag (n_flags (nd s p)) b"
proof -
  have b: "\<not> (bit b n \<and> bit CLUSTER_NODE_MIGRATE_TO n)" for n
    using assms(2) by (metis bit_0_eq bit_and_iff bot_apply bot_bool_def)
  have "bit (n_flags (nd s' p)) n = bit (n_flags (nd s p)) n" if "bit b n" for n
  proof -
    have "bit (roles s' p) n = bit (roles s p) n" by (simp add: assms(1))
    moreover have "\<not> bit CLUSTER_NODE_MIGRATE_TO n" "n < LENGTH(32)"
      using b that by (auto dest: bit_imp_le_length)
    ultimately show ?thesis by (simp add: roles_def bit_and_iff bit_not_iff)
  qed
  then show ?thesis by (auto simp: hasFlag_bit)
qed

lemma roles_upd_node:
  "(\<And>n. n_flags (f n) AND NOT CLUSTER_NODE_MIGRATE_TO = n_flags n AND NOT CLUSTER_NODE_MIGRATE_TO) \<Longrightarrow>
   roles (upd_node p f s) = roles s"
  by (auto simp: roles_def nd_upd_node fun_eq_iff)

lemma roles_simple [simp]:
  "roles (s\<lparr>c_slots := sl\<rparr>) = roles s" "roles (s\<lparr>c_nodes := ns\<rparr>) = roles s"
  "roles (s\<lparr>c_importing_slots_from := sf\<rparr>) = roles s" "roles (s\<lparr>c_migrating_slots_to := sf\<rparr>) = roles s"
  "roles (serverAssert b s) = roles s" "roles (s\<lparr>c_mf_end := t\<rparr>) = roles s"
  "roles (clusterDoBeforeSleep w s) = roles s"
  by (simp_all add: roles_def nd_def serverAssert_def panic_with_def clusterDoBeforeSleep_def)

lemma roles_ops [simp]:
  "roles (snd (clusterDelSlot j s)) = roles s"
  "roles (snd (clusterNodeDelFailureReport p q s)) = roles s"
  "roles (snd (clusterNodeRemoveSlave m p s)) = roles s"
  "roles (freeClusterLink l s) = roles s"
proof -
  have "(f AND NOT CLUSTER_NODE_MIGRATE_TO) AND NOT CLUSTER_NODE_MIGRATE_TO
      = f AND NOT CLUSTER_NODE_MIGRATE_TO" for f :: u32
    by (simp add: and.assoc)
  then show "roles (snd (clusterNodeRemoveSlave m p s)) = roles s"
    by (simp add: clusterNodeRemoveSlave_def roles_upd_node Let_def)
  show "roles (freeClusterLink l s) = roles s"
    by (simp add: freeClusterLink_def roles_upd_node split: option.split)
  show "roles (snd (clusterDelSlot j s)) = roles s"
    by (simp add: clusterDelSlot_def clusterNodeClearSlotBit_def roles_upd_node Let_def
        split: option.split)
  show "roles (snd (clusterNodeDelFailureReport p q s)) = roles s"
    by (simp add: clusterNodeDelFailureReport_def clusterNodeCleanupFailureReports_def Let_def
        roles_upd_node split: option.split)
qed

lemma roles_forgetSlotsOf: "roles (forgetSlotsOf p j s) = roles s"
  by (simp add: forgetSlotsOf_def Let_def)

lemma roles_freeClusterNode: "roles (freeClusterNode p s) = roles s"
proof -
  define s1 where "s1 = fold (\<lambda>q. upd_node q (\<lambda>n. n\<lparr>n_slaveof := None\<rparr>)) (n_slaves (nd s p)) s"
  have "roles s1 = roles s"
    unfolding s1_def by (rule fold_keeps_field) (simp add: roles_upd_node)
  then show ?thesis
    unfolding freeClusterNode_def Let_def s1_def [symmetric] by (simp split: option.split)
qed

lemma roles_clusterDelNode [simp]: "roles (clusterDelNode p s) = roles s"
proof -
  define s1 where "s1 = fold (forgetSlotsOf p) [0..<CLUSTER_SLOTS] s"
  define s2 where "s2 = fold (\<lambda>q s. if q = p then s else snd (clusterNodeDelFailureReport q p s))
                 (dictVals (c_nodes s1)) s1"
  have "roles s1 = roles s"
    unfolding s1_def by (rule fold_keeps_field) (rule roles_forgetSlotsOf)
  moreover have "roles s2 = roles s1" unfolding s2_def by (rule fold_keeps_field) simp
  moreover have "clusterDelNode p s = freeClusterNode p s2"
    by (simp add: clusterDelNode_def s1_def s2_def Let_def)
  ultimately show ?thesis by (simp add: roles_freeClusterNode)
qed

section \<open>Deleting several nodes\<close>

lemma clusterDelNodes:
  assumes "cluster_ok s" and "set ps \<subseteq> live s" and "distinct ps"
  defines "s' \<equiv> fold (\<lambda>p s. if p = c_myself s then s else clusterDelNode p s) ps s"
  shows "cluster_ok s'" and "live s' = live s - (set ps - {c_myself s})" and "c_myself s' = c_myself s"
    and "s_panic s' = s_panic s" and "roles s' = roles s"
    and "\<forall>j < CLUSTER_SLOTS. c_slots s j = None \<longrightarrow> c_slots s' j = None"
proof -
  have "cluster_ok s' \<and> live s' = live s - (set ps - {c_myself s}) \<and> c_myself s' = c_myself s \<and>
    s_panic s' = s_panic s \<and> roles s' = roles s \<and>
    (\<forall>j < CLUSTER_SLOTS. c_slots s j = None \<longrightarrow> c_slots s' j = None)"
    using assms(1-3) unfolding s'_def
  proof (induction ps arbitrary: s)
    case (Cons p ps)
    show ?case
    proof (cases "p = c_myself s")
      case True
      then show ?thesis using Cons.IH [of s] Cons.prems by auto
    next
      case False
      note d = clusterDelNode_effect [OF Cons.prems(1) _ False]
      have "p \<in> live s" using Cons.prems by simp
      note d = d [OF this] clusterDelNode_myself [OF Cons.prems(1) this False]
      have "set ps \<subseteq> live (clusterDelNode p s)" using Cons.prems d(2) by auto
      note IH = Cons.IH [OF d(1) this] d roles_clusterDelNode [of p s]
      then show ?thesis using False Cons.prems by auto
    qed
  qed simp
  then show "cluster_ok s'" and "live s' = live s - (set ps - {c_myself s})" and "c_myself s' = c_myself s"
    and "s_panic s' = s_panic s" and "roles s' = roles s"
    and "\<forall>j < CLUSTER_SLOTS. c_slots s j = None \<longrightarrow> c_slots s' j = None" by blast+
qed

end
