(* ===== verification/ClusterSend.thy ===== *)
theory ClusterSend
  imports ClusterNodes
begin

text \<open>
  Building and sending messages (src/server/src/cluster.c, from \<open>clusterSendMessage\<close> to
  \<open>clusterSendUpdate\<close>, and the small senders of the election). A message that is queued on a
  link is the event \<open>EvSend\<close> of its record. The sizes of the C structures are those of the
  LP64 layout: the header without the union takes 2288 bytes, the whole \<^verbatim>\<open>clusterMsg\<close> 4384
  and a gossip entry 104.
\<close>

section \<open>Structure sizes\<close>

definition SIZE_HDR :: int where "SIZE_HDR = 2288"
definition SIZE_MSG :: int where "SIZE_MSG = 4384"
definition SIZE_GOSSIP :: int where "SIZE_GOSSIP = 104"
definition SIZE_FAIL :: int where "SIZE_FAIL = 40"
definition SIZE_PUBLISH :: int where "SIZE_PUBLISH = 16"
definition SIZE_UPDATE :: int where "SIZE_UPDATE = 2096"
definition SIZE_HG :: int where "SIZE_HG = 44"
definition SIZE_MODULE :: int where "SIZE_MODULE = 16"

lemmas sizes = SIZE_HDR_def SIZE_MSG_def SIZE_GOSSIP_def SIZE_FAIL_def SIZE_PUBLISH_def
  SIZE_UPDATE_def SIZE_HG_def SIZE_MODULE_def

section \<open>Random choices\<close>

text \<open>\<open>dictGetRandomKey\<close> on the nodes table; every entry can be the result.\<close>

definition randomNode :: "redisServer \<Rightarrow> nid option \<times> redisServer" where
  "randomNode s = (let vs = dictVals (c_nodes s); (r, s1) = random_num s in
     (if vs = [] then None else Some (vs ! (r mod length vs)), s1))"

section \<open>Message header\<close>

definition CLUSTER_PORT_INCR :: int where "CLUSTER_PORT_INCR = 10000"
definition CLUSTER_PROTO_VER :: u16 where "CLUSTER_PROTO_VER = 1"

definition me :: "redisServer \<Rightarrow> clusterNode" where
  "me s = nd s (c_myself s)"

definition deriveAnnouncedPorts :: "redisServer \<Rightarrow> int \<times> int \<times> int" where
  "deriveAnnouncedPorts s =
     (let port = (if s_tls_cluster s then s_tls_port s else s_port s);
          aport = (if s_tls_cluster s \<and> s_announce_tls_port s \<noteq> 0 then s_announce_tls_port s
                   else if s_announce_port s \<noteq> 0 then s_announce_port s else port);
          apport = (if s_tls_cluster s \<and> s_announce_tls_port s \<noteq> 0 then s_announce_port s
                    else if s_tls_cluster s then s_port s else 0);
          acport = (if s_announce_bus_port s \<noteq> 0 then s_announce_bus_port s
                    else port + CLUSTER_PORT_INCR)
      in (aport, apport, acport))"

definition emptyMsg :: clusterMsg where
  "emptyMsg = \<lparr>h_totlen = 0, h_ver = 0, h_port = 0, h_type = 0, h_count = 0, h_currentEpoch = 0,
     h_configEpoch = 0, h_offset = 0, h_sender = NULL_NAME, h_myslots = emptyBitmap,
     h_slaveof = NULL_NAME, h_myip = [], h_pport = 0, h_cport = 0, h_flags = 0,
     h_state = CLUSTER_OK, h_mflags0 = 0, h_hotness = (\<lambda>_. 0), h_is_hot_instance = 0,
     h_gossip = [], h_about = NULL_NAME, h_upd_configEpoch = 0, h_upd_nodename = NULL_NAME,
     h_upd_slots = emptyBitmap, h_hg_status = 0, h_hg_slot = 0, h_hg_nodename = NULL_NAME,
     h_channel_len = 0, h_message_len = 0, h_module_len = 0\<rparr>"

definition hdrLength :: "u16 \<Rightarrow> int" where
  "hdrLength type =
     (if type = CLUSTERMSG_TYPE_FAIL then SIZE_HDR + SIZE_FAIL
      else if type = CLUSTERMSG_TYPE_UPDATE then SIZE_HDR + SIZE_UPDATE
      else if type = CLUSTERMSG_TYPE_HG then SIZE_HDR + SIZE_HG else 0)"

definition NET_IP_STR_LEN :: nat where "NET_IP_STR_LEN = 46"

definition clusterBuildMessageHdr :: "u16 \<Rightarrow> redisServer \<Rightarrow> clusterMsg" where
  "clusterBuildMessageHdr type s =
     (let m = me s;
          master = (case n_slaveof m of Some p \<Rightarrow> if nodeIsSlave m then nd s p else m | None \<Rightarrow> m);
          (port, pport, cport) = deriveAnnouncedPorts s
      in emptyMsg\<lparr>
           h_ver := CLUSTER_PROTO_VER, h_type := type, h_sender := n_name m,
           h_myip := (case s_announce_ip s of Some ip \<Rightarrow> take (NET_IP_STR_LEN - 1) ip | None \<Rightarrow> []),
           h_myslots := n_slots master,
           h_slaveof := (case n_slaveof m of Some p \<Rightarrow> n_name (nd s p) | None \<Rightarrow> NULL_NAME),
           h_port := word_of_int port, h_pport := word_of_int pport, h_cport := word_of_int cport,
           h_flags := ucast (n_flags m), h_state := c_state s,
           h_currentEpoch := c_currentEpoch s, h_configEpoch := n_configEpoch master,
           h_offset := (if nodeIsSlave m then s_slave_repl_offset s else s_master_repl_offset s),
           h_mflags0 := (if nodeIsMaster m \<and> c_mf_end s \<noteq> 0 then CLUSTERMSG_FLAG0_PAUSED else 0),
           h_hotness := (\<lambda>i. if i < 3 then n_avg_slot_hot m i else 0),
           h_is_hot_instance := word_of_int (n_is_hot_instance m),
           h_totlen := word_of_int (hdrLength type)\<rparr>)"

section \<open>Sending\<close>

definition clusterSendMessage :: "lid \<Rightarrow> clusterMsg \<Rightarrow> redisServer \<Rightarrow> redisServer" where
  "clusterSendMessage l m s =
     (let s1 = emit (EvSend l m) s; t = unat (h_type m) in
      if h_type m < CLUSTERMSG_TYPE_COUNT
      then s1\<lparr>c_stats_sent := (c_stats_sent s1)(t := c_stats_sent s1 t + 1)\<rparr> else s1)"

definition broadcastTarget :: "clusterNode \<Rightarrow> bool" where
  "broadcastTarget n \<longleftrightarrow> n_link n \<noteq> None \<and>
     \<not> hasFlag (n_flags n) (CLUSTER_NODE_MYSELF OR CLUSTER_NODE_HANDSHAKE)"

definition clusterBroadcastMessage :: "clusterMsg \<Rightarrow> redisServer \<Rightarrow> redisServer" where
  "clusterBroadcastMessage m s =
     fold (\<lambda>p s. case n_link (nd s p) of
                   None \<Rightarrow> s
                 | Some l \<Rightarrow> if broadcastTarget (nd s p) then clusterSendMessage l m s else s)
       (dictVals (c_nodes s)) s"

section \<open>PING and PONG\<close>

definition gossipEntry :: "clusterNode \<Rightarrow> clusterMsgDataGossip" where
  "gossipEntry n = \<lparr>g_nodename = n_name n, g_ping_sent = word_of_int (n_ping_sent n div 1000),
     g_pong_received = word_of_int (n_pong_received n div 1000), g_ip = n_ip n,
     g_port = word_of_int (n_port n), g_cport = word_of_int (n_cport n),
     g_flags = ucast (n_flags n), g_pport = word_of_int (n_pport n)\<rparr>"

definition clusterSetGossipEntry ::
  "clusterMsgDataGossip list \<Rightarrow> nat \<Rightarrow> clusterNode \<Rightarrow> clusterMsgDataGossip list" where
  "clusterSetGossipEntry gs i n = take i gs @ gossipEntry n # drop (Suc i) gs"

definition clusterNodeIsInGossipSection :: "clusterMsgDataGossip list \<Rightarrow> nat \<Rightarrow> clusterNode \<Rightarrow> bool" where
  "clusterNodeIsInGossipSection gs count n = list_ex (\<lambda>g. g_nodename g = n_name n) (take count gs)"

text \<open>The loop that adds random nodes; the first argument is \<^verbatim>\<open>maxiterations\<close>.\<close>

fun gossipLoop :: "nat \<Rightarrow> int \<Rightarrow> int \<Rightarrow> clusterMsgDataGossip list \<Rightarrow> redisServer
    \<Rightarrow> clusterMsgDataGossip list \<times> redisServer" where
  "gossipLoop 0 wanted freshnodes gs s = (gs, s)"
| "gossipLoop (Suc k) wanted freshnodes gs s =
     (if freshnodes > 0 \<and> int (length gs) < wanted then
        case randomNode s of
          (None, s1) \<Rightarrow> (gs, panic_with NullDeref s1)
        | (Some p, s1) \<Rightarrow>
            let this = nd s1 p in
            if p = c_myself s1 then gossipLoop k wanted freshnodes gs s1
            else if hasFlag (n_flags this) CLUSTER_NODE_PFAIL then gossipLoop k wanted freshnodes gs s1
            else if hasFlag (n_flags this) (CLUSTER_NODE_HANDSHAKE OR CLUSTER_NODE_NOADDR) \<or>
                    (n_link this = None \<and> n_numslots this = 0)
            then gossipLoop k wanted (freshnodes - 1) gs s1
            else if clusterNodeIsInGossipSection gs (length gs) this
            then gossipLoop k wanted freshnodes gs s1
            else gossipLoop k wanted (freshnodes - 1) (clusterSetGossipEntry gs (length gs) this) s1
      else (gs, s))"

fun gossipPfail :: "nid list \<Rightarrow> int \<Rightarrow> clusterMsgDataGossip list \<Rightarrow> redisServer
    \<Rightarrow> clusterMsgDataGossip list" where
  "gossipPfail [] pfail_wanted gs s = gs"
| "gossipPfail (p # ps) pfail_wanted gs s =
     (if pfail_wanted > 0 then
        let n = nd s p in
        if hasFlag (n_flags n) CLUSTER_NODE_HANDSHAKE then gossipPfail ps pfail_wanted gs s
        else if hasFlag (n_flags n) CLUSTER_NODE_NOADDR then gossipPfail ps pfail_wanted gs s
        else if \<not> hasFlag (n_flags n) CLUSTER_NODE_PFAIL then gossipPfail ps pfail_wanted gs s
        else gossipPfail ps (pfail_wanted - 1) (clusterSetGossipEntry gs (length gs) n) s
      else gs)"

definition gossipWanted :: "redisServer \<Rightarrow> int" where
  "gossipWanted s =
     (let freshnodes = int (dictSize (c_nodes s)) - 2;
          w = int (dictSize (c_nodes s) div 10);
          w1 = (if w < 3 then 3 else w)
      in if w1 > freshnodes then freshnodes else w1)"

text \<open>The size of the buffer that \<open>clusterSendPing\<close> allocates.\<close>

definition pingBufferSize :: "redisServer \<Rightarrow> int" where
  "pingBufferSize s =
     (let totlen = SIZE_HDR + SIZE_GOSSIP * (gossipWanted s + c_stats_pfail_nodes s)
      in if totlen < SIZE_MSG then SIZE_MSG else totlen)"

definition buildPing :: "u16 \<Rightarrow> redisServer \<Rightarrow> clusterMsg \<times> redisServer" where
  "buildPing type s =
     (let freshnodes = int (dictSize (c_nodes s)) - 2;
          wanted = gossipWanted s;
          hdr = clusterBuildMessageHdr type s;
          (gs1, s1) = gossipLoop (nat (wanted * 3)) wanted freshnodes [] s;
          gs2 = gossipPfail (dictVals (c_nodes s1)) (c_stats_pfail_nodes s1) gs1 s1
      in (hdr\<lparr>h_gossip := gs2, h_count := of_nat (length gs2),
              h_totlen := word_of_int (SIZE_HDR + SIZE_GOSSIP * int (length gs2))\<rparr>, s1))"

definition clusterSendPing :: "lid \<Rightarrow> u16 \<Rightarrow> redisServer \<Rightarrow> redisServer" where
  "clusterSendPing l type s =
     (let s1 = (case l_node (c_links s l) of
                  Some p \<Rightarrow> if type = CLUSTERMSG_TYPE_PING
                            then upd_node p (\<lambda>n. n\<lparr>n_ping_sent := s_mstime s\<rparr>) s else s
                | None \<Rightarrow> s);
          (m, s2) = buildPing type s1
      in clusterSendMessage l m s2)"

definition pongTarget :: "bool \<Rightarrow> nid \<Rightarrow> redisServer \<Rightarrow> bool" where
  "pongTarget local_slaves p s \<longleftrightarrow>
     (let n = nd s p in p \<noteq> c_myself s \<and> \<not> nodeInHandshake n \<and>
      (local_slaves \<longrightarrow> nodeIsSlave n \<and> n_slaveof n \<noteq> None \<and>
         (n_slaveof n = Some (c_myself s) \<or> n_slaveof n = n_slaveof (me s))))"

definition clusterBroadcastPong :: "bool \<Rightarrow> redisServer \<Rightarrow> redisServer" where
  "clusterBroadcastPong local_slaves s =
     fold (\<lambda>p s. case n_link (nd s p) of
                   None \<Rightarrow> s
                 | Some l \<Rightarrow> if pongTarget local_slaves p s
                             then clusterSendPing l CLUSTERMSG_TYPE_PONG s else s)
       (dictVals (c_nodes s)) s"

section \<open>Other messages\<close>

definition clusterSendPublish :: "lid option \<Rightarrow> string \<Rightarrow> string \<Rightarrow> redisServer \<Rightarrow> redisServer" where
  "clusterSendPublish link channel message s =
     (let m = (clusterBuildMessageHdr CLUSTERMSG_TYPE_PUBLISH s)\<lparr>
            h_channel_len := of_nat (length channel), h_message_len := of_nat (length message),
            h_totlen := word_of_int (SIZE_HDR + SIZE_PUBLISH - 8 + int (length channel)
                          + int (length message))\<rparr>
      in case link of Some l \<Rightarrow> clusterSendMessage l m s | None \<Rightarrow> clusterBroadcastMessage m s)"

definition clusterBroadcastOwnAsHotInstance :: "int \<Rightarrow> u16 \<Rightarrow> redisServer \<Rightarrow> redisServer" where
  "clusterBroadcastOwnAsHotInstance slot status s =
     clusterBroadcastMessage ((clusterBuildMessageHdr CLUSTERMSG_TYPE_HG s)\<lparr>
       h_hg_slot := word_of_int slot, h_hg_status := status, h_hg_nodename := n_name (me s)\<rparr>) s"

definition clusterSendFail :: "string \<Rightarrow> redisServer \<Rightarrow> redisServer" where
  "clusterSendFail nodename s =
     clusterBroadcastMessage ((clusterBuildMessageHdr CLUSTERMSG_TYPE_FAIL s)\<lparr>h_about := nodename\<rparr>) s"

definition clusterSendUpdate :: "lid option \<Rightarrow> nid \<Rightarrow> redisServer \<Rightarrow> redisServer" where
  "clusterSendUpdate link p s =
     (case link of
        None \<Rightarrow> s
      | Some l \<Rightarrow> clusterSendMessage l ((clusterBuildMessageHdr CLUSTERMSG_TYPE_UPDATE s)\<lparr>
          h_upd_nodename := n_name (nd s p), h_upd_configEpoch := n_configEpoch (nd s p),
          h_upd_slots := n_slots (nd s p)\<rparr>) s)"

definition clusterRequestFailoverAuth :: "redisServer \<Rightarrow> redisServer" where
  "clusterRequestFailoverAuth s =
     (let hdr = clusterBuildMessageHdr CLUSTERMSG_TYPE_FAILOVER_AUTH_REQUEST s;
          hdr1 = (if c_mf_end s \<noteq> 0
                  then hdr\<lparr>h_mflags0 := h_mflags0 hdr OR CLUSTERMSG_FLAG0_FORCEACK\<rparr> else hdr)
      in clusterBroadcastMessage (hdr1\<lparr>h_totlen := word_of_int SIZE_HDR\<rparr>) s)"

definition clusterSendFailoverAuth :: "nid \<Rightarrow> redisServer \<Rightarrow> redisServer" where
  "clusterSendFailoverAuth p s =
     (case n_link (nd s p) of
        None \<Rightarrow> s
      | Some l \<Rightarrow> clusterSendMessage l ((clusterBuildMessageHdr CLUSTERMSG_TYPE_FAILOVER_AUTH_ACK s)\<lparr>
                    h_totlen := word_of_int SIZE_HDR\<rparr>) s)"

definition clusterSendMFStart :: "nid \<Rightarrow> redisServer \<Rightarrow> redisServer" where
  "clusterSendMFStart p s =
     (case n_link (nd s p) of
        None \<Rightarrow> s
      | Some l \<Rightarrow> clusterSendMessage l ((clusterBuildMessageHdr CLUSTERMSG_TYPE_MFSTART s)\<lparr>
                    h_totlen := word_of_int SIZE_HDR\<rparr>) s)"

definition clusterSendModule :: "lid option \<Rightarrow> nat \<Rightarrow> redisServer \<Rightarrow> redisServer" where
  "clusterSendModule link len s =
     (let m = (clusterBuildMessageHdr CLUSTERMSG_TYPE_MODULE s)\<lparr>
            h_module_len := of_nat len,
            h_totlen := word_of_int (SIZE_HDR + SIZE_MODULE - 3 + int len)\<rparr>
      in case link of Some l \<Rightarrow> clusterSendMessage l m s | None \<Rightarrow> clusterBroadcastMessage m s)"

definition clusterSendModuleMessageToTarget ::
  "string option \<Rightarrow> nat \<Rightarrow> redisServer \<Rightarrow> retcode \<times> redisServer" where
  "clusterSendModuleMessageToTarget target len s =
     (case target of
        None \<Rightarrow> (C_OK, clusterSendModule None len s)
      | Some name \<Rightarrow>
          (case clusterLookupNode name s of
             None \<Rightarrow> (C_ERR, s)
           | Some p \<Rightarrow> (case n_link (nd s p) of
                          None \<Rightarrow> (C_ERR, s)
                        | Some l \<Rightarrow> (C_OK, clusterSendModule (Some l) len s))))"

definition clusterPropagatePublish :: "string \<Rightarrow> string \<Rightarrow> redisServer \<Rightarrow> redisServer" where
  "clusterPropagatePublish channel message s = clusterSendPublish None channel message s"

section \<open>What sending changes\<close>

text \<open>
  Sending only queues bytes: up to the output, the counters of sent messages, the position in
  the random stream, the time of the last ping and an abort, the state is the same.
\<close>

definition erase :: "redisServer \<Rightarrow> redisServer" where
  "erase s = s\<lparr>s_out := [], c_stats_sent := (\<lambda>_. 0), s_rnd_pos := 0, s_panic := None,
               c_mem := (\<lambda>p. (c_mem s p)\<lparr>n_ping_sent := 0\<rparr>)\<rparr>"

lemma erase_reads [simp]:
  "core (erase s) = core s" "c_nodes (erase s) = c_nodes s" "c_slots (erase s) = c_slots s"
  "c_myself (erase s) = c_myself s" "c_next (erase s) = c_next s" "live (erase s) = live s"
  "c_currentEpoch (erase s) = c_currentEpoch s" "c_lastVoteEpoch (erase s) = c_lastVoteEpoch s"
  "c_state (erase s) = c_state s" "c_size (erase s) = c_size s" "c_links (erase s) = c_links s"
  "c_slot_status (erase s) = c_slot_status s"
  "c_todo_before_sleep (erase s) = c_todo_before_sleep s" "s_mstime (erase s) = s_mstime s"
  "s_node_timeout (erase s) = s_node_timeout s"
  "c_failover_auth_epoch (erase s) = c_failover_auth_epoch s"
  "c_failover_auth_count (erase s) = c_failover_auth_count s"
  "c_failover_auth_sent (erase s) = c_failover_auth_sent s" "c_mf_end (erase s) = c_mf_end s"
  "n_flags (nd (erase s) p) = n_flags (nd s p)" "n_slots (nd (erase s) p) = n_slots (nd s p)"
  "n_name (nd (erase s) p) = n_name (nd s p)" "n_numslots (nd (erase s) p) = n_numslots (nd s p)"
  "n_configEpoch (nd (erase s) p) = n_configEpoch (nd s p)"
  "n_slaveof (nd (erase s) p) = n_slaveof (nd s p)"
  "n_slaves (nd (erase s) p) = n_slaves (nd s p)" "n_link (nd (erase s) p) = n_link (nd s p)"
  "n_fail_reports (nd (erase s) p) = n_fail_reports (nd s p)"
  "n_voted_time (nd (erase s) p) = n_voted_time (nd s p)"
  by (simp_all add: erase_def core_def live_def nd_def)

lemma erase_fields:
  assumes "erase s' = erase s"
  shows "core s' = core s \<and> c_nodes s' = c_nodes s \<and> c_slots s' = c_slots s \<and>
    c_myself s' = c_myself s \<and> c_next s' = c_next s \<and> live s' = live s \<and>
    c_currentEpoch s' = c_currentEpoch s \<and> c_lastVoteEpoch s' = c_lastVoteEpoch s \<and>
    c_state s' = c_state s \<and> c_size s' = c_size s \<and> c_links s' = c_links s \<and>
    c_slot_status s' = c_slot_status s \<and> c_todo_before_sleep s' = c_todo_before_sleep s \<and>
    s_mstime s' = s_mstime s \<and> s_node_timeout s' = s_node_timeout s \<and>
    c_failover_auth_epoch s' = c_failover_auth_epoch s \<and>
    c_failover_auth_count s' = c_failover_auth_count s \<and>
    c_failover_auth_sent s' = c_failover_auth_sent s \<and> c_mf_end s' = c_mf_end s \<and>
    (\<forall>p. n_flags (nd s' p) = n_flags (nd s p)) \<and> (\<forall>p. n_slots (nd s' p) = n_slots (nd s p)) \<and>
    (\<forall>p. n_name (nd s' p) = n_name (nd s p)) \<and> (\<forall>p. n_numslots (nd s' p) = n_numslots (nd s p)) \<and>
    (\<forall>p. n_configEpoch (nd s' p) = n_configEpoch (nd s p)) \<and>
    (\<forall>p. n_slaveof (nd s' p) = n_slaveof (nd s p)) \<and> (\<forall>p. n_slaves (nd s' p) = n_slaves (nd s p)) \<and>
    (\<forall>p. n_link (nd s' p) = n_link (nd s p)) \<and>
    (\<forall>p. n_fail_reports (nd s' p) = n_fail_reports (nd s p)) \<and>
    (\<forall>p. n_voted_time (nd s' p) = n_voted_time (nd s p))"
proof -
  note a = arg_cong [OF assms]
  show ?thesis
    using a [of core] a [of c_nodes] a [of c_slots] a [of c_myself] a [of c_next] a [of live]
      a [of c_currentEpoch] a [of c_lastVoteEpoch] a [of c_state] a [of c_size] a [of c_links]
      a [of c_slot_status] a [of c_todo_before_sleep] a [of s_mstime] a [of s_node_timeout]
      a [of c_failover_auth_epoch] a [of c_failover_auth_count] a [of c_failover_auth_sent]
      a [of c_mf_end] a [of "\<lambda>s p. n_flags (nd s p)"]
      a [of "\<lambda>s p. n_slots (nd s p)"] a [of "\<lambda>s p. n_name (nd s p)"]
      a [of "\<lambda>s p. n_numslots (nd s p)"] a [of "\<lambda>s p. n_configEpoch (nd s p)"]
      a [of "\<lambda>s p. n_slaveof (nd s p)"] a [of "\<lambda>s p. n_slaves (nd s p)"]
      a [of "\<lambda>s p. n_link (nd s p)"] a [of "\<lambda>s p. n_fail_reports (nd s p)"]
      a [of "\<lambda>s p. n_voted_time (nd s p)"]
    by (simp add: fun_eq_iff)
qed

lemma erase_simple [simp]:
  "erase (emit e s) = erase s" "erase (s\<lparr>c_stats_sent := st\<rparr>) = erase s"
  "erase (s\<lparr>s_rnd_pos := k\<rparr>) = erase s" "erase (panic_with r s) = erase s"
  "erase (upd_node p (\<lambda>n. n\<lparr>n_ping_sent := t\<rparr>) s) = erase s"
proof -
  have "(\<lambda>q. (if q = p then c_mem s p\<lparr>n_ping_sent := t\<rparr> else c_mem s q)\<lparr>n_ping_sent := 0\<rparr>)
      = (\<lambda>q. (c_mem s q)\<lparr>n_ping_sent := 0\<rparr>)" by auto
  then show "erase (upd_node p (\<lambda>n. n\<lparr>n_ping_sent := t\<rparr>) s) = erase s"
    by (simp add: erase_def upd_node_def fun_upd_def)
qed (simp_all add: erase_def emit_def panic_with_def)

lemma clusterSendMessage_erase: "erase (clusterSendMessage l m s) = erase s"
  by (simp add: clusterSendMessage_def Let_def)

lemma clusterBroadcastMessage_erase: "erase (clusterBroadcastMessage m s) = erase s"
  unfolding clusterBroadcastMessage_def
  by (rule fold_keeps_field) (simp add: clusterSendMessage_erase split: option.split)

lemma random_num_erase: "erase (snd (random_num s)) = erase s"
  by (simp add: random_num_def)

lemma randomNode_erase: "erase (snd (randomNode s)) = erase s"
  by (simp add: randomNode_def random_num_def Let_def)

lemma getRandomHexChars_erase: "erase (snd (getRandomHexChars k s)) = erase s"
  by (induction k s rule: getRandomHexChars.induct)
    (auto simp: random_num_def Let_def split: prod.splits)

lemma gossipLoop_erase: "erase (snd (gossipLoop k w f gs s)) = erase s"
proof (induction k w f gs s rule: gossipLoop.induct)
  case (2 k w f gs s)
  obtain po s1 where r: "randomNode s = (po, s1)" by force
  then have "erase s1 = erase s" using randomNode_erase [of s] by simp
  then show ?case
    using 2 r by (cases po) (auto simp: Let_def)
qed simp

lemma buildPing_erase: "erase (snd (buildPing t s)) = erase s"
  by (simp add: buildPing_def Let_def case_prod_beta gossipLoop_erase)

lemma clusterSendPing_erase: "erase (clusterSendPing l t s) = erase s"
  by (simp add: clusterSendPing_def Let_def case_prod_beta clusterSendMessage_erase buildPing_erase
      split: option.split)

lemma clusterBroadcastPong_erase: "erase (clusterBroadcastPong b s) = erase s"
  unfolding clusterBroadcastPong_def
  by (rule fold_keeps_field) (simp add: clusterSendPing_erase split: option.split)

lemma senders_erase:
  "erase (clusterSendPublish lo ch msg s) = erase s"
  "erase (clusterBroadcastOwnAsHotInstance sl st s) = erase s"
  "erase (clusterSendFail name s) = erase s"
  "erase (clusterSendUpdate lo p s) = erase s"
  "erase (clusterRequestFailoverAuth s) = erase s"
  "erase (clusterSendFailoverAuth p s) = erase s"
  "erase (clusterSendMFStart p s) = erase s"
  "erase (clusterSendModule lo len s) = erase s"
  by (simp_all add: clusterSendPublish_def clusterBroadcastOwnAsHotInstance_def clusterSendFail_def
      clusterSendUpdate_def clusterRequestFailoverAuth_def clusterSendFailoverAuth_def
      clusterSendMFStart_def clusterSendModule_def clusterSendMessage_erase
      clusterBroadcastMessage_erase Let_def split: option.split)

lemmas send_erase = clusterSendMessage_erase clusterBroadcastMessage_erase random_num_erase
  randomNode_erase getRandomHexChars_erase gossipLoop_erase buildPing_erase clusterSendPing_erase
  clusterBroadcastPong_erase senders_erase

lemmas send_frames [frame_simps] = send_erase [THEN erase_fields]

section \<open>Who receives a broadcast\<close>

lemma clusterSendMessage_fields [simp]:
  "c_nodes (clusterSendMessage l m s) = c_nodes s" "nd (clusterSendMessage l m s) = nd s"
  "s_out (clusterSendMessage l m s) = s_out s @ [EvSend l m]"
  "s_panic (clusterSendMessage l m s) = s_panic s"
  by (auto simp: clusterSendMessage_def emit_def Let_def nd_def)

lemma broadcast_fold_out:
  assumes "nd s' = nd s"
  shows "s_out (fold (\<lambda>p s. case n_link (nd s p) of None \<Rightarrow> s
      | Some l \<Rightarrow> if broadcastTarget (nd s p) then clusterSendMessage l m s else s) ps s')
    = s_out s' @ map (\<lambda>p. EvSend (the (n_link (nd s p))) m) (filter (\<lambda>p. broadcastTarget (nd s p)) ps)"
  using assms
  by (induction ps arbitrary: s') (auto simp: broadcastTarget_def split: option.splits)

text \<open>
  A broadcast reaches exactly the nodes of the table that have a link and are neither this
  node nor in handshake: one copy of the message on each such link, in the order of the table,
  and the counters of the tables stay as they are.
\<close>

theorem broadcast_recipients:
  "s_out (clusterBroadcastMessage m s) = s_out s @
     map (\<lambda>p. EvSend (the (n_link (nd s p))) m)
       (filter (\<lambda>p. n_link (nd s p) \<noteq> None \<and> \<not> hasFlag (n_flags (nd s p)) CLUSTER_NODE_MYSELF \<and>
                    \<not> nodeInHandshake (nd s p)) (dictVals (c_nodes s))) \<and>
   erase (clusterBroadcastMessage m s) = erase s"
proof -
  have "(\<lambda>p. broadcastTarget (nd s p)) = (\<lambda>p. n_link (nd s p) \<noteq> None \<and>
      \<not> hasFlag (n_flags (nd s p)) CLUSTER_NODE_MYSELF \<and> \<not> nodeInHandshake (nd s p))"
    by (auto simp: broadcastTarget_def hasFlag_OR nodeInHandshake_def)
  then show ?thesis
    using broadcast_fold_out [OF refl, where m = m and ps = "dictVals (c_nodes s)" and s = s]
    by (simp add: clusterBroadcastMessage_def clusterBroadcastMessage_erase
        [unfolded clusterBroadcastMessage_def])
qed

section \<open>The gossip section\<close>

lemma randomNode_SomeD:
  assumes "randomNode s = (Some p, s1)"
  shows "p \<in> live s" and "nd s1 = nd s" and "c_nodes s1 = c_nodes s" and "c_myself s1 = c_myself s"
    and "c_stats_pfail_nodes s1 = c_stats_pfail_nodes s" and "s_panic s1 = s_panic s"
  using assms
  by (auto simp: randomNode_def random_num_def Let_def live_def nd_def split: if_splits)

lemma randomNode_live:
  "live s \<noteq> {} \<Longrightarrow> \<exists>p s1. randomNode s = (Some p, s1)"
  by (auto simp: randomNode_def random_num_def Let_def live_def)

definition gossipable :: "redisServer \<Rightarrow> clusterMsgDataGossip \<Rightarrow> bool" where
  "gossipable s g \<longleftrightarrow> (\<exists>p \<in> live s. g = gossipEntry (nd s p) \<and> p \<noteq> c_myself s \<and>
     \<not> nodeInHandshake (nd s p) \<and> nodeHasAddr (nd s p) \<and> \<not> nodeTimedOut (nd s p))"

text \<open>What holds of the entries collected so far, and of the state while they are collected.\<close>

definition gossip_inv :: "redisServer \<Rightarrow> int \<Rightarrow> clusterMsgDataGossip list \<Rightarrow> redisServer \<Rightarrow> bool" where
  "gossip_inv s0 w gs s \<longleftrightarrow> live s \<noteq> {} \<and> nd s = nd s0 \<and> c_nodes s = c_nodes s0 \<and>
     c_myself s = c_myself s0 \<and> c_stats_pfail_nodes s = c_stats_pfail_nodes s0 \<and>
     s_panic s = s_panic s0 \<and> (\<forall>g \<in> set gs. gossipable s0 g) \<and> distinct (map g_nodename gs) \<and>
     int (length gs) \<le> max 0 w"

lemma gossip_inv_random:
  assumes "gossip_inv s0 w gs s" and "randomNode s = (Some p, s1)"
  shows "gossip_inv s0 w gs s1"
  using assms(1) randomNode_SomeD [OF assms(2)] unfolding gossip_inv_def live_def by auto

lemma gossip_inv_add:
  assumes inv: "gossip_inv s0 w gs s" and p: "p \<in> live s" "p \<noteq> c_myself s"
    and flags: "\<not> hasFlag (n_flags (nd s p)) CLUSTER_NODE_PFAIL"
      "\<not> hasFlag (n_flags (nd s p)) (CLUSTER_NODE_HANDSHAKE OR CLUSTER_NODE_NOADDR)"
    and new: "\<not> clusterNodeIsInGossipSection gs (length gs) (nd s p)"
    and room: "int (length gs) < w"
  shows "gossip_inv s0 w (clusterSetGossipEntry gs (length gs) (nd s p)) s"
proof -
  have "gossipable s0 (gossipEntry (nd s p))"
    using inv p flags unfolding gossipable_def gossip_inv_def live_def
    by (intro bexI [of _ p]) (auto simp: node_tests hasFlag_OR)
  moreover have "n_name (nd s p) \<notin> g_nodename ` set gs"
    using new by (force simp: clusterNodeIsInGossipSection_def list_ex_iff)
  ultimately show ?thesis
    using inv room by (simp add: gossip_inv_def clusterSetGossipEntry_def gossipEntry_def)
qed

lemma gossipLoop_inv: "gossip_inv s0 w gs s \<Longrightarrow> case_prod (gossip_inv s0 w) (gossipLoop k w f gs s)"
proof (induction k w f gs s rule: gossipLoop.induct)
  case (2 k w f gs s)
  have "live s \<noteq> {}" using "2.prems" by (simp add: gossip_inv_def)
  then obtain p s1 where r: "randomNode s = (Some p, s1)" using randomNode_live by blast
  have inv: "gossip_inv s0 w gs s1" by (rule gossip_inv_random [OF "2.prems" r])
  have "p \<in> live s1" using randomNode_SomeD [OF r] by (simp add: live_def)
  note add = gossip_inv_add [OF inv this]
  show ?case
  proof (cases "f > 0 \<and> int (length gs) < w")
    case True
    note IH = "2.IH" [OF True r [symmetric] refl refl]
    have eq: "gossipLoop (Suc k) w f gs s =
      (if p = c_myself s1 then gossipLoop k w f gs s1
       else if hasFlag (n_flags (nd s1 p)) CLUSTER_NODE_PFAIL then gossipLoop k w f gs s1
       else if hasFlag (n_flags (nd s1 p)) (CLUSTER_NODE_HANDSHAKE OR CLUSTER_NODE_NOADDR) \<or>
               (n_link (nd s1 p) = None \<and> n_numslots (nd s1 p) = 0)
       then gossipLoop k w (f - 1) gs s1
       else if clusterNodeIsInGossipSection gs (length gs) (nd s1 p) then gossipLoop k w f gs s1
       else gossipLoop k w (f - 1) (clusterSetGossipEntry gs (length gs) (nd s1 p)) s1)"
      (is "_ = (if ?a then _ else if ?b then _ else if ?c then _ else if ?d then _ else _)")
      using True r by (simp only: gossipLoop.simps Let_def if_True simp_thms prod.case option.case)
    consider ?a | "\<not> ?a" ?b | "\<not> ?a" "\<not> ?b" ?c | "\<not> ?a" "\<not> ?b" "\<not> ?c" ?d
      | "\<not> ?a" "\<not> ?b" "\<not> ?c" "\<not> ?d" by blast
    then show ?thesis
    proof cases
      case 1
      show ?thesis unfolding eq if_P [OF 1] by (rule IH(1) [OF 1 inv])
    next
      case 2
      show ?thesis unfolding eq if_not_P [OF 2(1)] if_P [OF 2(2)] by (rule IH(2) [OF 2 inv])
    next
      case 3
      show ?thesis unfolding eq if_not_P [OF 3(1)] if_not_P [OF 3(2)] if_P [OF 3(3)] by (rule IH(3) [OF 3 inv])
    next
      case 4
      show ?thesis unfolding eq if_not_P [OF 4(1)] if_not_P [OF 4(2)] if_not_P [OF 4(3)] if_P [OF 4(4)] by (rule IH(4) [OF 4 inv])
    next
      case 5
      then have "gossip_inv s0 w (clusterSetGossipEntry gs (length gs) (nd s1 p)) s1"
        using add True by blast
      then show ?thesis unfolding eq if_not_P [OF 5(1)] if_not_P [OF 5(2)] if_not_P [OF 5(3)] if_not_P [OF 5(4)] by (rule IH(5) [OF 5])
    qed
  next
    case False
    then show ?thesis using "2.prems" by auto
  qed
qed simp

definition gossipableDown :: "redisServer \<Rightarrow> nid \<Rightarrow> bool" where
  "gossipableDown s p \<longleftrightarrow> \<not> nodeInHandshake (nd s p) \<and> nodeHasAddr (nd s p) \<and> nodeTimedOut (nd s p)"

lemma gossipPfail_append:
  "\<exists>qs. gossipPfail ps k gs s = gs @ map (\<lambda>p. gossipEntry (nd s p)) qs \<and>
     qs = take (nat k) (filter (gossipableDown s) ps)"
proof (induction ps k gs s rule: gossipPfail.induct)
  case (2 p ps k gs s)
  show ?case
  proof (cases "k > 0")
    case True
    then have k: "nat k = Suc (nat (k - 1))" by simp
    show ?thesis
    proof (cases "gossipableDown s p")
      case down: True
      then have "gossipPfail (p # ps) k gs s
          = gossipPfail ps (k - 1) (clusterSetGossipEntry gs (length gs) (nd s p)) s"
        using True by (simp add: gossipableDown_def node_tests)
      then show ?thesis
        using 2(4) [OF True refl] down k
        by (auto simp: gossipableDown_def node_tests clusterSetGossipEntry_def)
    next
      case up: False
      then have "gossipPfail (p # ps) k gs s = gossipPfail ps k gs s"
        using True by (auto simp: gossipableDown_def node_tests Let_def)
      then show ?thesis
        using 2(1-3) [OF True refl] up by (auto simp: gossipableDown_def node_tests)
    qed
  qed simp
qed simp

lemma names_ok_distinct:
  assumes "names_ok s" shows "distinct (dictVals (c_nodes s))"
proof -
  have "fst e = n_name (nd s (snd e))" if "e \<in> set (c_nodes s)" for e
    using assms that by (auto simp: names_ok_def)
  then have "inj_on snd (set (c_nodes s))"
    by (metis (no_types, lifting) inj_onI prod_eqI)
  moreover have "distinct (c_nodes s)"
    using assms by (simp add: names_ok_def dictOk_def distinct_map)
  ultimately show ?thesis by (simp add: dictVals_def distinct_map)
qed

lemma live_names_inj: "names_ok s \<Longrightarrow> inj_on (\<lambda>p. n_name (nd s p)) (live s)"
  by (metis (no_types, lifting) inj_onI liveD option.inject)

lemma gossip_room:
  assumes "int k1 \<le> max 0 (gossipWanted s)" and "k2 \<le> nat (c_stats_pfail_nodes s)"
    and "k2 \<le> dictSize (c_nodes s)" and "dictSize (c_nodes s) \<noteq> 0"
    and "0 \<le> c_stats_pfail_nodes s"
  shows "SIZE_HDR + SIZE_GOSSIP * int (k1 + k2) \<le> pingBufferSize s"
proof (cases "gossipWanted s \<ge> 0")
  case True
  then show ?thesis
    using assms by (auto simp: pingBufferSize_def sizes)
next
  case False
  then have "int (dictSize (c_nodes s)) - 2 < 0"
    unfolding gossipWanted_def Let_def by (auto split: if_splits)
  then have "k2 \<le> 1" "k1 = 0" using assms(1,3,4) False by auto
  then show ?thesis by (auto simp: pingBufferSize_def sizes)
qed

text \<open>
  C30. The gossip section of a PING or PONG, whatever the random choices: no node appears twice,
  every entry describes a node of the table that has an address and is not in handshake, this
  node is among them only if it is itself flagged as timing out, the count and the length of the
  header fit the entries, and the entries fit the buffer that was allocated before they were
  known.
\<close>

theorem gossip_section_ok:
  assumes ok: "names_ok s" and "0 \<le> c_stats_pfail_nodes s" and "buildPing type s = (m, s')"
  shows "distinct (map g_nodename (h_gossip m)) \<and>
         (\<forall>g \<in> set (h_gossip m). \<exists>p \<in> live s. g = gossipEntry (nd s p) \<and>
           \<not> nodeInHandshake (nd s p) \<and> nodeHasAddr (nd s p) \<and>
           (p = c_myself s \<longrightarrow> nodeTimedOut (nd s p))) \<and>
         SIZE_HDR + SIZE_GOSSIP * int (length (h_gossip m)) \<le> pingBufferSize s \<and>
         h_count m = of_nat (length (h_gossip m)) \<and>
         s_panic s' = s_panic s"
proof (intro conjI)
  let ?w = "gossipWanted s" and ?f = "int (dictSize (c_nodes s)) - 2"
  obtain gs1 where loop: "gossipLoop (nat (?w * 3)) ?w ?f [] s = (gs1, s')"
    and m: "h_gossip m = gossipPfail (dictVals (c_nodes s')) (c_stats_pfail_nodes s') gs1 s'"
      "h_count m = of_nat (length (h_gossip m))"
    using assms(3) by (auto simp: buildPing_def Let_def split: prod.splits)
  have "live s \<noteq> {}" using ok by (auto simp: names_ok_def)
  then have "gossip_inv s ?w [] s" by (simp add: gossip_inv_def)
  from gossipLoop_inv [OF this, of "nat (?w * 3)" ?f] have inv: "gossip_inv s ?w gs1 s'"
    by (simp add: loop)
  then have s': "nd s' = nd s" "c_nodes s' = c_nodes s"
      "c_stats_pfail_nodes s' = c_stats_pfail_nodes s" "gossipableDown s' = gossipableDown s"
    by (simp_all add: gossip_inv_def gossipableDown_def fun_eq_iff)
  define qs where "qs = take (nat (c_stats_pfail_nodes s))
      (filter (gossipableDown s) (dictVals (c_nodes s)))"
  have gs: "h_gossip m = gs1 @ map (\<lambda>p. gossipEntry (nd s p)) qs"
    using gossipPfail_append [of "dictVals (c_nodes s')" "c_stats_pfail_nodes s'" gs1 s']
    by (simp add: m s' qs_def)
  have q: "set qs \<subseteq> live s" "\<forall>p \<in> set qs. gossipableDown s p" "distinct qs"
    using names_ok_distinct [OF ok] by (auto simp: qs_def live_def dest: in_set_takeD)
  have "\<forall>g \<in> set gs1. \<forall>p \<in> set qs. g_nodename g \<noteq> n_name (nd s p)"
  proof (intro ballI notI)
    fix g p assume "g \<in> set gs1" "p \<in> set qs" and same: "g_nodename g = n_name (nd s p)"
    then obtain p' where p': "p' \<in> live s" "g = gossipEntry (nd s p')" "\<not> nodeTimedOut (nd s p')"
      using inv by (auto simp: gossip_inv_def gossipable_def)
    then have "n_name (nd s p') = n_name (nd s p)" using same by (simp add: gossipEntry_def)
    then have "p' = p" using live_names_inj [OF ok] p' q \<open>p \<in> set qs\<close> by (auto dest: inj_onD)
    then show False using p' q \<open>p \<in> set qs\<close> by (auto simp: gossipableDown_def)
  qed
  moreover have "distinct (map (\<lambda>p. n_name (nd s p)) qs)"
    using q inj_on_subset [OF live_names_inj [OF ok]] by (simp add: distinct_map)
  ultimately show "distinct (map g_nodename (h_gossip m))"
    using inv by (auto simp: gs gossip_inv_def gossipEntry_def comp_def)
  show "\<forall>g \<in> set (h_gossip m). \<exists>p \<in> live s. g = gossipEntry (nd s p) \<and>
      \<not> nodeInHandshake (nd s p) \<and> nodeHasAddr (nd s p) \<and> (p = c_myself s \<longrightarrow> nodeTimedOut (nd s p))"
    using inv q by (auto simp: gs gossip_inv_def gossipable_def gossipableDown_def)
  have "length qs \<le> dictSize (c_nodes s)"
    by (auto simp: qs_def dictSize_def dictVals_def min_def intro: le_trans [OF length_filter_le])
  moreover have "dictSize (c_nodes s) \<noteq> 0"
    using \<open>live s \<noteq> {}\<close> by (auto simp: live_def dictSize_def dictVals_def)
  ultimately show "SIZE_HDR + SIZE_GOSSIP * int (length (h_gossip m)) \<le> pingBufferSize s"
    using gossip_room [of "length gs1" s "length qs"] inv assms(2) by (simp add: gs gossip_inv_def qs_def)
  show "h_count m = of_nat (length (h_gossip m))" by (rule m(2))
  show "s_panic s' = s_panic s" using inv by (simp add: gossip_inv_def)
qed

definition node_pfail :: clusterNode where
  "node_pfail = zeroNode\<lparr>n_flags := CLUSTER_NODE_MASTER OR CLUSTER_NODE_PFAIL\<rparr>"

text \<open>A second node flagged as timing out is gossiped about although no random entry is wanted.\<close>

theorem gossip_section_ok_witness:
  "let s = (pair_cluster node_a node_pfail)\<lparr>c_stats_pfail_nodes := 1\<rparr>;
       m = fst (buildPing CLUSTERMSG_TYPE_PING s)
   in h_gossip m = [gossipEntry (nd s 1)] \<and>
      SIZE_HDR + SIZE_GOSSIP * int (length (h_gossip m)) \<le> pingBufferSize s"
proof -
  let ?s = "(pair_cluster node_a node_pfail)\<lparr>c_stats_pfail_nodes := 1\<rparr>"
  have ok: "names_ok ?s"
    by (simp add: names_ok_def live_def nd_def pair_cluster_def zeroServer_def dictVals_def dictOk_def)
  have "h_gossip (fst (buildPing CLUSTERMSG_TYPE_PING ?s)) = [gossipEntry (nd ?s 1)]"
    by (simp add: buildPing_def gossipWanted_def Let_def dictSize_def pair_cluster_def zeroServer_def
        dictVals_def nd_def node_a_def node_pfail_def zeroNode_def clusterSetGossipEntry_def
        flag_simps hasFlag_simps)
  then show ?thesis
    using gossip_section_ok [OF ok _ prod.collapse [symmetric], of CLUSTERMSG_TYPE_PING]
    by (simp add: Let_def)
qed

end
