(* ===== verification/ClusterConfig.thy ===== *)
theory ClusterConfig
  imports ClusterSend
begin

text \<open>
  The configuration of the cluster as one node sees it (src/server/src/cluster.c):
  configuration epochs and their collisions, the black list, the FAIL state of nodes, the
  handshake with new nodes, promotion to master, the rebinding of slots by a received
  configuration, start and reset. Replication, the data set and the configuration file
  are reached through the events \<open>EvReplicationSetMaster\<close>, \<open>EvReplicationUnsetMaster\<close>,
  \<open>EvEmptyDb\<close> and \<open>EvSaveConfig\<close>; the keys of database 0 are the list \<open>s_db0\<close>.
\<close>

section \<open>Saving and replication\<close>

definition clusterSaveConfigOrDie :: "bool \<Rightarrow> redisServer \<Rightarrow> redisServer" where
  "clusterSaveConfigOrDie do_fsync s =
     (let s1 = s\<lparr>c_todo_before_sleep := c_todo_before_sleep s AND NOT CLUSTER_TODO_SAVE_CONFIG\<rparr>;
          s2 = (if do_fsync
                then s1\<lparr>c_todo_before_sleep := c_todo_before_sleep s1 AND NOT CLUSTER_TODO_FSYNC_CONFIG\<rparr>
                else s1)
      in emit (EvSaveConfig do_fsync) s2)"

definition replicationSetMaster :: "string \<Rightarrow> int \<Rightarrow> redisServer \<Rightarrow> redisServer" where
  "replicationSetMaster ip port s =
     emit (EvReplicationSetMaster ip port) (s\<lparr>s_masterhost := Some ip, s_repl_connected := False\<rparr>)"

definition replicationUnsetMaster :: "redisServer \<Rightarrow> redisServer" where
  "replicationUnsetMaster s =
     (if s_masterhost s = None then s
      else emit EvReplicationUnsetMaster (s\<lparr>s_masterhost := None, s_repl_connected := False\<rparr>))"

definition resetManualFailover :: "redisServer \<Rightarrow> redisServer" where
  "resetManualFailover s =
     s\<lparr>c_mf_end := 0, c_mf_can_start := False, c_mf_slave := None, c_mf_master_offset := -1\<rparr>"

definition countKeysInSlot :: "nat \<Rightarrow> redisServer \<Rightarrow> nat" where
  "countKeysInSlot slot s = length (filter (\<lambda>k. keyHashSlot k = slot) (s_db0 s))"

definition delKeysInSlot :: "nat \<Rightarrow> redisServer \<Rightarrow> redisServer" where
  "delKeysInSlot slot s = s\<lparr>s_db0 := filter (\<lambda>k. keyHashSlot k \<noteq> slot) (s_db0 s)\<rparr>"

section \<open>Configuration epochs\<close>

definition clusterGetMaxEpoch :: "redisServer \<Rightarrow> u64" where
  "clusterGetMaxEpoch s =
     (let m = fold (\<lambda>p max. if n_configEpoch (nd s p) > max then n_configEpoch (nd s p) else max)
                (dictVals (c_nodes s)) 0
      in if m < c_currentEpoch s then c_currentEpoch s else m)"

definition set_my_epoch :: "u64 \<Rightarrow> redisServer \<Rightarrow> redisServer" where
  "set_my_epoch e s = upd_node (c_myself s) (\<lambda>n. n\<lparr>n_configEpoch := e\<rparr>) s"

definition clusterBumpConfigEpochWithoutConsensus :: "redisServer \<Rightarrow> retcode \<times> redisServer" where
  "clusterBumpConfigEpochWithoutConsensus s =
     (let maxEpoch = clusterGetMaxEpoch s in
      if n_configEpoch (me s) = 0 \<or> n_configEpoch (me s) \<noteq> maxEpoch
      then let s1 = s\<lparr>c_currentEpoch := c_currentEpoch s + 1\<rparr>;
               s2 = set_my_epoch (c_currentEpoch s1) s1
           in (C_OK, clusterDoBeforeSleep (CLUSTER_TODO_SAVE_CONFIG OR CLUSTER_TODO_FSYNC_CONFIG) s2)
      else (C_ERR, s))"

text \<open>\<^verbatim>\<open>memcmp\<close> on byte strings: negative, zero or positive.\<close>

fun memcmp :: "string \<Rightarrow> string \<Rightarrow> int" where
  "memcmp (a # as) (b # bs) =
     (if a = b then memcmp as bs else if (of_char a :: nat) < of_char b then -1 else 1)"
| "memcmp [] (b # bs) = -1"
| "memcmp (a # as) [] = 1"
| "memcmp [] [] = 0"

definition clusterHandleConfigEpochCollision :: "nid \<Rightarrow> redisServer \<Rightarrow> redisServer" where
  "clusterHandleConfigEpochCollision sender s =
     (if n_configEpoch (nd s sender) \<noteq> n_configEpoch (me s) \<or> \<not> nodeIsMaster (nd s sender) \<or>
         \<not> nodeIsMaster (me s) then s
      else if memcmp (n_name (nd s sender)) (n_name (me s)) \<le> 0 then s
      else let s1 = s\<lparr>c_currentEpoch := c_currentEpoch s + 1\<rparr>;
               s2 = set_my_epoch (c_currentEpoch s1) s1
           in clusterSaveConfigOrDie True s2)"

section \<open>The black list\<close>

definition CLUSTER_BLACKLIST_TTL :: int where "CLUSTER_BLACKLIST_TTL = 60"

definition clusterBlacklistCleanup :: "redisServer \<Rightarrow> redisServer" where
  "clusterBlacklistCleanup s =
     fold (\<lambda>(name, expire) s. if expire < s_unixtime s
             then s\<lparr>c_nodes_black_list := dictDelete (c_nodes_black_list s) name\<rparr> else s)
       (c_nodes_black_list s) s"

definition clusterBlacklistAddNode :: "nid \<Rightarrow> redisServer \<Rightarrow> redisServer" where
  "clusterBlacklistAddNode p s =
     (let s1 = clusterBlacklistCleanup s in
      s1\<lparr>c_nodes_black_list :=
           dictReplace (c_nodes_black_list s1) (n_name (nd s1 p)) (s_unixtime s1 + CLUSTER_BLACKLIST_TTL)\<rparr>)"

definition clusterBlacklistExists :: "string \<Rightarrow> redisServer \<Rightarrow> bool \<times> redisServer" where
  "clusterBlacklistExists nodeid s =
     (let s1 = clusterBlacklistCleanup s in
      (dictFind (c_nodes_black_list s1) (take CLUSTER_NAMELEN nodeid) \<noteq> None, s1))"

section \<open>The FAIL state\<close>

definition markNodeAsFailingIfNeeded :: "nid \<Rightarrow> redisServer \<Rightarrow> redisServer" where
  "markNodeAsFailingIfNeeded p s =
     (let needed_quorum = c_size s div 2 + 1 in
      if \<not> nodeTimedOut (nd s p) then s
      else if nodeFailed (nd s p) then s
      else
        let (failures, s1) = clusterNodeFailureReportsCount p s;
            failures1 = (if nodeIsMaster (me s1) then failures + 1 else failures)
        in if failures1 < needed_quorum then s1
           else
             let s2 = upd_node p (clearFlag CLUSTER_NODE_PFAIL) s1;
                 s3 = upd_node p (setFlag CLUSTER_NODE_FAIL) s2;
                 s4 = upd_node p (\<lambda>n. n\<lparr>n_fail_time := s_mstime s3\<rparr>) s3;
                 s5 = clusterSendFail (n_name (nd s4 p)) s4
             in clusterDoBeforeSleep (CLUSTER_TODO_UPDATE_STATE OR CLUSTER_TODO_SAVE_CONFIG) s5)"

definition CLUSTER_FAIL_UNDO_TIME_MULT :: int where "CLUSTER_FAIL_UNDO_TIME_MULT = 2"

definition clearNodeFailureIfNeeded :: "nid \<Rightarrow> redisServer \<Rightarrow> redisServer" where
  "clearNodeFailureIfNeeded p s =
     (let now = s_mstime s;
          todo = CLUSTER_TODO_UPDATE_STATE OR CLUSTER_TODO_SAVE_CONFIG;
          s1 = serverAssert (nodeFailed (nd s p)) s;
          s2 = (if nodeIsSlave (nd s1 p) \<or> n_numslots (nd s1 p) = 0
                then clusterDoBeforeSleep todo (upd_node p (clearFlag CLUSTER_NODE_FAIL) s1) else s1)
      in if nodeIsMaster (nd s2 p) \<and> n_numslots (nd s2 p) > 0 \<and>
            now - n_fail_time (nd s2 p) > s_node_timeout s2 * CLUSTER_FAIL_UNDO_TIME_MULT
         then clusterDoBeforeSleep todo (upd_node p (clearFlag CLUSTER_NODE_FAIL) s2) else s2)"

section \<open>Handshake\<close>

definition tolowerc :: "char \<Rightarrow> char" where
  "tolowerc c = (let n = of_char c :: nat in if 65 \<le> n \<and> n \<le> 90 then char_of (n + 32) else c)"

definition strcaseeq :: "string \<Rightarrow> string \<Rightarrow> bool" where
  "strcaseeq a b = (map tolowerc a = map tolowerc b)"

definition clusterHandshakeInProgress :: "string \<Rightarrow> int \<Rightarrow> int \<Rightarrow> redisServer \<Rightarrow> bool" where
  "clusterHandshakeInProgress ip port cport s =
     list_ex (\<lambda>p. nodeInHandshake (nd s p) \<and> strcaseeq (n_ip (nd s p)) ip \<and>
                  n_port (nd s p) = port \<and> n_cport (nd s p) = cport) (dictVals (c_nodes s))"

datatype errno = EAGAIN | EINVAL

text \<open>
  \<open>norm_ip\<close> stands for \<^verbatim>\<open>inet_pton\<close> followed by \<^verbatim>\<open>inet_ntop\<close> of the C library: None for a
  string that is no address, otherwise its normal form.
\<close>

definition clusterStartHandshake ::
  "(string \<Rightarrow> string option) \<Rightarrow> string \<Rightarrow> int \<Rightarrow> int \<Rightarrow> redisServer \<Rightarrow> (errno + unit) \<times> redisServer" where
  "clusterStartHandshake norm_ip ip port cport s =
     (case norm_ip ip of
        None \<Rightarrow> (Inl EINVAL, s)
      | Some nip \<Rightarrow>
          if port \<le> 0 \<or> port > 65535 \<or> cport \<le> 0 \<or> cport > 65535 then (Inl EINVAL, s)
          else if clusterHandshakeInProgress nip port cport s then (Inl EAGAIN, s)
          else let (p, s1) = createClusterNode None (CLUSTER_NODE_HANDSHAKE OR CLUSTER_NODE_MEET) s;
                   s2 = upd_node p (\<lambda>n. n\<lparr>n_ip := nip, n_port := port, n_cport := cport\<rparr>) s1
               in (Inr (), clusterAddNode p s2))"

section \<open>Masters\<close>

definition clusterSetNodeAsMaster :: "nid \<Rightarrow> redisServer \<Rightarrow> redisServer" where
  "clusterSetNodeAsMaster p s =
     (if nodeIsMaster (nd s p) then s
      else
        let s1 = (case n_slaveof (nd s p) of
                    None \<Rightarrow> s
                  | Some m \<Rightarrow>
                      let s0 = snd (clusterNodeRemoveSlave m p s)
                      in if p \<noteq> c_myself s0 then upd_node p (setFlag CLUSTER_NODE_MIGRATE_TO) s0 else s0);
            s2 = upd_node p (clearFlag CLUSTER_NODE_SLAVE) s1;
            s3 = upd_node p (setFlag CLUSTER_NODE_MASTER) s2;
            s4 = upd_node p (\<lambda>n. n\<lparr>n_slaveof := None\<rparr>) s3
        in clusterDoBeforeSleep (CLUSTER_TODO_SAVE_CONFIG OR CLUSTER_TODO_UPDATE_STATE) s4)"

definition clusterSetMaster :: "nid \<Rightarrow> redisServer \<Rightarrow> redisServer" where
  "clusterSetMaster p s =
     (let s1 = serverAssert (n_numslots (me s) = 0) (serverAssert (p \<noteq> c_myself s) s);
          s2 = (if nodeIsMaster (me s1)
                then clusterCloseAllSlots
                       (upd_node (c_myself s1) (setFlag CLUSTER_NODE_SLAVE)
                         (upd_node (c_myself s1)
                           (clearFlag (CLUSTER_NODE_MASTER OR CLUSTER_NODE_MIGRATE_TO)) s1))
                else case n_slaveof (me s1) of
                       None \<Rightarrow> s1
                     | Some m \<Rightarrow> snd (clusterNodeRemoveSlave m (c_myself s1) s1));
          s3 = upd_node (c_myself s2) (\<lambda>n. n\<lparr>n_slaveof := Some p\<rparr>) s2;
          s4 = snd (clusterNodeAddSlave p (c_myself s3) s3);
          s5 = replicationSetMaster (n_ip (nd s4 p)) (n_port (nd s4 p)) s4
      in resetManualFailover s5)"

section \<open>Slots claimed by a received configuration\<close>

text \<open>The local variables of \<open>clusterUpdateSlotsConfigWith\<close>, with the state.\<close>

record slotsUpdate =
  u_sender_slots :: nat
  u_migrated_our_slots :: nat
  u_newmaster :: "nid option"
  u_dirty_slots :: "nat list"
  u_server :: redisServer

definition updateSlot :: "nid \<Rightarrow> u64 \<Rightarrow> nid option \<Rightarrow> bitmap \<Rightarrow> nat \<Rightarrow> slotsUpdate \<Rightarrow> slotsUpdate" where
  "updateSlot sender senderConfigEpoch curmaster slots j u =
     (if \<not> bitmapTestBit slots j then u
      else
        let u1 = u\<lparr>u_sender_slots := Suc (u_sender_slots u)\<rparr>; s = u_server u1 in
        if c_slots s j = Some sender then u1
        else if c_importing_slots_from s j \<noteq> None then u1
        else if (case c_slots s j of None \<Rightarrow> True
                                   | Some p \<Rightarrow> n_configEpoch (nd s p) < senderConfigEpoch)
        then
          let u2 = (if c_slots s j = Some (c_myself s) \<and> countKeysInSlot j s \<noteq> 0 \<and> sender \<noteq> c_myself s
                    then u1\<lparr>u_dirty_slots := u_dirty_slots u1 @ [j]\<rparr> else u1);
              u3 = (if c_slots s j = curmaster
                    then u2\<lparr>u_newmaster := Some sender,
                            u_migrated_our_slots := Suc (u_migrated_our_slots u2)\<rparr> else u2);
              s1 = snd (clusterDelSlot j s);
              s2 = snd (clusterAddSlot sender j s1)
          in u3\<lparr>u_server := clusterDoBeforeSleep
                 (CLUSTER_TODO_SAVE_CONFIG OR CLUSTER_TODO_UPDATE_STATE OR CLUSTER_TODO_FSYNC_CONFIG) s2\<rparr>
        else u1)"

definition clusterUpdateSlotsConfigWith :: "nid \<Rightarrow> u64 \<Rightarrow> bitmap \<Rightarrow> redisServer \<Rightarrow> redisServer" where
  "clusterUpdateSlotsConfigWith sender senderConfigEpoch slots s =
     (let curmaster = (if nodeIsMaster (me s) then Some (c_myself s) else n_slaveof (me s)) in
      if sender = c_myself s then s
      else
        let u = fold (updateSlot sender senderConfigEpoch curmaster slots) [0..<CLUSTER_SLOTS]
                  \<lparr>u_sender_slots = 0, u_migrated_our_slots = 0, u_newmaster = None,
                   u_dirty_slots = [], u_server = s\<rparr>;
            s1 = u_server u
        in if hasFlag (s_module_flags s1) CLUSTER_MODULE_FLAG_NO_REDIRECTION then s1
           else if u_newmaster u \<noteq> None \<and> curmaster = None then panic_with NullDeref s1
           else if u_newmaster u \<noteq> None \<and> n_numslots (nd s1 (the curmaster)) = 0 \<and>
                   (s_allow_replica_migration s1 \<or> u_sender_slots u = u_migrated_our_slots u)
           then s1
           else if u_dirty_slots u \<noteq> [] then fold delKeysInSlot (u_dirty_slots u) s1
           else s1)"

section \<open>Start and reset\<close>

definition clusterUpdateMyselfFlags :: "redisServer \<Rightarrow> redisServer" where
  "clusterUpdateMyselfFlags s =
     (let oldflags = n_flags (me s);
          nofailover = (if s_slave_no_failover s then CLUSTER_NODE_NOFAILOVER else 0);
          s1 = upd_node (c_myself s) (clearFlag CLUSTER_NODE_NOFAILOVER) s;
          s2 = upd_node (c_myself s) (setFlag nofailover) s1
      in if n_flags (me s2) \<noteq> oldflags
         then clusterDoBeforeSleep (CLUSTER_TODO_SAVE_CONFIG OR CLUSTER_TODO_UPDATE_STATE) s2 else s2)"

text \<open>
  \<open>loadConfig\<close> stands for \<open>clusterLoadConfig\<close> (theory \<open>NodesConf\<close>), which reads the configuration
  file: None when there is none (\<^verbatim>\<open>C_ERR\<close>). Locking the file and opening the port are not modelled, except that a
  port above 55535 ends the process.
\<close>

definition clusterInit :: "(redisServer \<Rightarrow> redisServer option) \<Rightarrow> redisServer \<Rightarrow> redisServer" where
  "clusterInit loadConfig s =
     (let s1 = s\<lparr>c_currentEpoch := 0, c_state := CLUSTER_FAIL, c_size := 1, c_todo_before_sleep := 0,
            c_nodes := [], c_nodes_black_list := [], c_failover_auth_time := 0,
            c_failover_auth_count := 0, c_failover_auth_rank := 0, c_failover_auth_epoch := 0,
            c_cant_failover_reason := CANT_FAILOVER_NONE, c_lastVoteEpoch := 0,
            c_stats_sent := (\<lambda>_. 0), c_stats_received := (\<lambda>_. 0), c_stats_pfail_nodes := 0,
            c_slots := (\<lambda>_. None), c_slot_status := (\<lambda>_. zeroSlot), c_avg_hot_point := (\<lambda>_. 0),
            c_is_sync := True, c_sync_time := False, c_forward_time := False\<rparr>;
          s2 = clusterCloseAllSlots s1;
          s3 = (case loadConfig s2 of
                  Some s' \<Rightarrow> s'
                | None \<Rightarrow>
                    let (p, sa) = createClusterNode None (CLUSTER_NODE_MYSELF OR CLUSTER_NODE_MASTER) s2;
                        sb = clusterAddNode p (sa\<lparr>c_myself := p\<rparr>)
                    in clusterSaveConfigOrDie True sb);
          port = (if s_tls_cluster s3 then s_tls_port s3 else s_port s3)
      in if port > 65535 - CLUSTER_PORT_INCR then panic_with ProcessExit s3
         else
           let (aport, apport, acport) = deriveAnnouncedPorts s3;
               s4 = upd_node (c_myself s3)
                      (\<lambda>n. n\<lparr>n_port := aport, n_pport := apport, n_cport := acport\<rparr>) s3
           in clusterUpdateMyselfFlags (resetManualFailover (s4\<lparr>c_mf_end := 0\<rparr>)))"

definition clusterReset :: "bool \<Rightarrow> redisServer \<Rightarrow> redisServer" where
  "clusterReset hard s =
     (let s1 = (if nodeIsSlave (me s)
                then emit EvEmptyDb ((replicationUnsetMaster (clusterSetNodeAsMaster (c_myself s) s))
                       \<lparr>s_db0 := []\<rparr>)
                else s);
          s2 = resetManualFailover (clusterCloseAllSlots s1);
          s3 = fold (\<lambda>j s. snd (clusterDelSlot j s)) [0..<CLUSTER_SLOTS] s2;
          s4 = fold (\<lambda>p s. if p = c_myself s then s else clusterDelNode p s) (dictVals (c_nodes s3)) s3;
          s5 = (if hard
                then
                  let sa = s4\<lparr>c_currentEpoch := 0, c_lastVoteEpoch := 0\<rparr>;
                      sb = set_my_epoch 0 sa;
                      sc = sb\<lparr>c_nodes := dictDelete (c_nodes sb) (n_name (me sb))\<rparr>;
                      (name, sd) = getRandomHexChars CLUSTER_NAMELEN sc;
                      se = upd_node (c_myself sd) (\<lambda>n. n\<lparr>n_name := name\<rparr>) sd
                  in clusterAddNode (c_myself se) se
                else s4)
      in clusterDoBeforeSleep
           (CLUSTER_TODO_SAVE_CONFIG OR CLUSTER_TODO_UPDATE_STATE OR CLUSTER_TODO_FSYNC_CONFIG) s5)"

section \<open>What the operations leave alone\<close>

lemma save_frames [frame_simps]:
  "core (clusterSaveConfigOrDie b s) = core s" "core (replicationSetMaster ip port s) = core s"
  "core (replicationUnsetMaster s) = core s" "core (resetManualFailover s) = core s"
  "core (delKeysInSlot j s) = core s" "core (set_my_epoch e s) = core s"
  by (simp_all add: clusterSaveConfigOrDie_def replicationSetMaster_def replicationUnsetMaster_def
      resetManualFailover_def delKeysInSlot_def set_my_epoch_def frame_simps Let_def)

definition expire_entries :: "int \<Rightarrow> (string, int) dict \<Rightarrow> (string, int) dict \<Rightarrow> (string, int) dict" where
  "expire_entries now es d =
     fold (\<lambda>(name, expire) d. if expire < now then dictDelete d name else d) es d"

lemma blacklist_fold:
  "fold (\<lambda>(name, expire) s. if expire < s_unixtime s
             then s\<lparr>c_nodes_black_list := dictDelete (c_nodes_black_list s) name\<rparr> else s) es
     (s\<lparr>c_nodes_black_list := d\<rparr>)
   = s\<lparr>c_nodes_black_list := expire_entries (s_unixtime s) es d\<rparr>"
  by (induction es arbitrary: d) (auto simp: expire_entries_def)

lemma blacklist_cleanup_shape:
  "clusterBlacklistCleanup s = s\<lparr>c_nodes_black_list :=
     expire_entries (s_unixtime s) (c_nodes_black_list s) (c_nodes_black_list s)\<rparr>"
  using blacklist_fold [of "c_nodes_black_list s" "c_nodes_black_list s" s]
  by (simp add: clusterBlacklistCleanup_def)

lemma config_frames [frame_simps]:
  "core (clusterHandleConfigEpochCollision p s) = core s"
  "core (snd (clusterBumpConfigEpochWithoutConsensus s)) = core s"
  "core (clusterBlacklistCleanup s) = core s" "core (clusterBlacklistAddNode p s) = core s"
  "core (snd (clusterBlacklistExists name s)) = core s"
  "core (markNodeAsFailingIfNeeded p s) = core s" "core (clearNodeFailureIfNeeded p s) = core s"
  "core (clusterSetNodeAsMaster p s) = core s" "core (clusterSetMaster p s) = core s"
  "core (clusterUpdateMyselfFlags s) = core s"
proof -
  show "core (clusterHandleConfigEpochCollision p s) = core s"
    by (simp add: clusterHandleConfigEpochCollision_def frame_simps Let_def)
  show "core (snd (clusterBumpConfigEpochWithoutConsensus s)) = core s"
    by (simp add: clusterBumpConfigEpochWithoutConsensus_def frame_simps Let_def)
  show c: "core (clusterBlacklistCleanup s) = core s" for s
    by (subst blacklist_cleanup_shape) (rule core_frames)
  show "core (clusterBlacklistAddNode p s) = core s"
    by (simp add: clusterBlacklistAddNode_def c frame_simps Let_def)
  show "core (snd (clusterBlacklistExists name s)) = core s"
    by (simp add: clusterBlacklistExists_def c Let_def)
  show "core (markNodeAsFailingIfNeeded p s) = core s"
    by (simp add: markNodeAsFailingIfNeeded_def frame_simps Let_def case_prod_beta)
  show "core (clearNodeFailureIfNeeded p s) = core s"
    by (simp add: clearNodeFailureIfNeeded_def frame_simps Let_def)
  show "core (clusterSetNodeAsMaster p s) = core s"
    by (simp add: clusterSetNodeAsMaster_def frame_simps Let_def split: option.split)
  show "core (clusterSetMaster p s) = core s"
    by (simp add: clusterSetMaster_def frame_simps Let_def split: option.split)
  show "core (clusterUpdateMyselfFlags s) = core s"
    by (simp add: clusterUpdateMyselfFlags_def frame_simps Let_def)
qed

lemma clusterStartHandshake_ok:
  assumes "cluster_ok s"
  shows "cluster_ok (snd (clusterStartHandshake nip ip port cport s))"
proof -
  have add: "cluster_ok (clusterAddNode p (upd_node p f s1))"
    if c: "createClusterNode None fl s = (p, s1)" and f: "core (upd_node p f s1) = core s1" for fl p f s1
  proof (rule clusterAddNode_ok)
    note ok = createClusterNode_ok [OF assms c]
    show "cluster_ok (upd_node p f s1)" by (rule cluster_ok_keep [OF ok(1) f])
    show "fresh_node p (upd_node p f s1)" using fresh_node_core [OF f] ok(2) by simp
  qed
  show ?thesis
    using assms
    by (auto simp: clusterStartHandshake_def Let_def frame_simps add split: option.split prod.split)
qed

section \<open>Rebinding slots\<close>

definition rebinds :: "nid \<Rightarrow> u64 \<Rightarrow> bitmap \<Rightarrow> redisServer \<Rightarrow> nat \<Rightarrow> bool" where
  "rebinds sender e slots s j \<longleftrightarrow> bitmapTestBit slots j \<and> c_slots s j \<noteq> Some sender \<and>
     c_importing_slots_from s j = None \<and>
     (case c_slots s j of None \<Rightarrow> True | Some p \<Rightarrow> n_configEpoch (nd s p) < e)"

lemma beforeSleep_fields [simp]:
  "c_slots (clusterDoBeforeSleep w s) = c_slots s" "live (clusterDoBeforeSleep w s) = live s"
  "c_importing_slots_from (clusterDoBeforeSleep w s) = c_importing_slots_from s"
  "c_myself (clusterDoBeforeSleep w s) = c_myself s" "nd (clusterDoBeforeSleep w s) = nd s"
  "s_panic (clusterDoBeforeSleep w s) = s_panic s" "s_db0 (clusterDoBeforeSleep w s) = s_db0 s"
  "s_module_flags (clusterDoBeforeSleep w s) = s_module_flags s"
  by (simp_all add: clusterDoBeforeSleep_def live_def nd_def fun_eq_iff)

lemma clusterSlot_fields2 [simp]:
  "s_db0 (snd (clusterAddSlot p j s)) = s_db0 s" "s_db0 (snd (clusterDelSlot j s)) = s_db0 s"
  "s_module_flags (snd (clusterAddSlot p j s)) = s_module_flags s"
  "s_module_flags (snd (clusterDelSlot j s)) = s_module_flags s"
  by (auto simp: clusterAddSlot_def clusterNodeSetSlotBit_def clusterDelSlot_def upd_node_def
      clusterNodeClearSlotBit_def serverAssert_def panic_with_def Let_def
      split: option.splits prod.splits if_splits)

lemma updateSlot_server:
  "u_server (updateSlot sender e cm slots j u) =
     (if rebinds sender e slots (u_server u) j
      then clusterDoBeforeSleep
             (CLUSTER_TODO_SAVE_CONFIG OR CLUSTER_TODO_UPDATE_STATE OR CLUSTER_TODO_FSYNC_CONFIG)
             (snd (clusterAddSlot sender j (snd (clusterDelSlot j (u_server u)))))
      else u_server u)"
  by (simp add: updateSlot_def rebinds_def Let_def split: option.split)

text \<open>The fields that the loop reads and does not change.\<close>

lemma updateSlot_fields [simp]:
  "live (u_server (updateSlot sender e cm slots j u)) = live (u_server u)"
  "c_importing_slots_from (u_server (updateSlot sender e cm slots j u)) = c_importing_slots_from (u_server u)"
  "c_myself (u_server (updateSlot sender e cm slots j u)) = c_myself (u_server u)"
  "n_configEpoch (nd (u_server (updateSlot sender e cm slots j u)) p) = n_configEpoch (nd (u_server u) p)"
  "s_db0 (u_server (updateSlot sender e cm slots j u)) = s_db0 (u_server u)"
  "s_module_flags (u_server (updateSlot sender e cm slots j u)) = s_module_flags (u_server u)"
  by (simp_all add: updateSlot_server)

lemma updateSlot_slots:
  "c_slots (u_server (updateSlot sender e cm slots j u)) =
     (if rebinds sender e slots (u_server u) j then (c_slots (u_server u))(j := Some sender)
      else c_slots (u_server u))"
  by (simp add: updateSlot_server)

lemma updateSlot_ok:
  assumes "cluster_ok (u_server u)" and "sender \<in> live (u_server u)" and "j < CLUSTER_SLOTS"
  shows "cluster_ok (u_server (updateSlot sender e cm slots j u))"
    and "s_panic (u_server (updateSlot sender e cm slots j u)) = s_panic (u_server u)"
proof -
  let ?s = "snd (clusterAddSlot sender j (snd (clusterDelSlot j (u_server u))))"
  have "cluster_ok ?s" by (rule clusterAddSlot_ok) (use assms in \<open>simp_all add: clusterDelSlot_ok\<close>)
  then have "cluster_ok (clusterDoBeforeSleep w ?s)" for w
    by (rule cluster_ok_keep) (simp add: frame_simps)
  then show "cluster_ok (u_server (updateSlot sender e cm slots j u))"
    using assms by (simp add: updateSlot_server)
  have "s_panic ?s = s_panic (u_server u)"
    using assms clusterSlot_panic(2) [of "u_server u" j] by (simp add: clusterSlot_panic(1) cluster_ok_def)
  then show "s_panic (u_server (updateSlot sender e cm slots j u)) = s_panic (u_server u)"
    by (simp add: updateSlot_server)
qed

lemma updateSlots_fold:
  fixes e :: u64 and cm :: "nid option" and slots :: bitmap
  assumes "cluster_ok (u_server u)" and "sender \<in> live (u_server u)"
    and "\<forall>j \<in> set js. j < CLUSTER_SLOTS" and "distinct js"
  defines "u' \<equiv> fold (updateSlot sender e cm slots) js u"
  shows "cluster_ok (u_server u')" and "s_panic (u_server u') = s_panic (u_server u)"
    and "live (u_server u') = live (u_server u)" and "c_myself (u_server u') = c_myself (u_server u)"
    and "s_db0 (u_server u') = s_db0 (u_server u)"
    and "s_module_flags (u_server u') = s_module_flags (u_server u)"
    and "c_slots (u_server u') = (\<lambda>j. if j \<in> set js \<and> rebinds sender e slots (u_server u) j
                                     then Some sender else c_slots (u_server u) j)"
proof -
  have "cluster_ok (u_server u') \<and> s_panic (u_server u') = s_panic (u_server u) \<and>
    live (u_server u') = live (u_server u) \<and> c_myself (u_server u') = c_myself (u_server u) \<and>
    s_db0 (u_server u') = s_db0 (u_server u) \<and>
    s_module_flags (u_server u') = s_module_flags (u_server u) \<and>
    c_slots (u_server u') = (\<lambda>j. if j \<in> set js \<and> rebinds sender e slots (u_server u) j
                                     then Some sender else c_slots (u_server u) j)"
    using assms(1-4) unfolding u'_def
  proof (induction js arbitrary: u)
    case (Cons j js)
    let ?u = "updateSlot sender e cm slots j u"
    have same: "rebinds sender e slots (u_server ?u) i = rebinds sender e slots (u_server u) i"
      if "i \<in> set js" for i
      using that Cons.prems(4) by (auto simp: rebinds_def updateSlot_slots split: option.split)
    have "j < CLUSTER_SLOTS" using Cons.prems by simp
    note step = updateSlot_ok [OF Cons.prems(1,2) this, of e cm slots]
    show ?case
      using Cons.IH [of ?u] Cons.prems step same by (auto simp: updateSlot_slots fun_eq_iff)
  qed simp
  then show "cluster_ok (u_server u')" and "s_panic (u_server u') = s_panic (u_server u)"
    and "live (u_server u') = live (u_server u)" and "c_myself (u_server u') = c_myself (u_server u)"
    and "s_db0 (u_server u') = s_db0 (u_server u)"
    and "s_module_flags (u_server u') = s_module_flags (u_server u)"
    and "c_slots (u_server u') = (\<lambda>j. if j \<in> set js \<and> rebinds sender e slots (u_server u) j
                                     then Some sender else c_slots (u_server u) j)"
    by blast+
qed

lemma updateSlot_locals:
  "set (u_dirty_slots (updateSlot sender e cm slots j u)) \<subseteq> set (u_dirty_slots u) \<union>
     {i. i = j \<and> rebinds sender e slots (u_server u) j \<and> c_slots (u_server u) j = Some (c_myself (u_server u))}"
  "u_newmaster (updateSlot sender e cm slots j u) =
     (if rebinds sender e slots (u_server u) j \<and> c_slots (u_server u) j = cm then Some sender
      else u_newmaster u)"
  by (auto simp: updateSlot_def rebinds_def Let_def split: option.splits if_splits)

lemma updateSlots_locals:
  fixes e :: u64 and cm :: "nid option" and slots :: bitmap and u :: slotsUpdate and sender :: nid
  assumes "distinct js"
  defines "u' \<equiv> fold (updateSlot sender e cm slots) js u"
  shows "set (u_dirty_slots u') \<subseteq> set (u_dirty_slots u) \<union>
      {j. rebinds sender e slots (u_server u) j \<and> c_slots (u_server u) j = Some (c_myself (u_server u))}"
    and "u_newmaster u' \<noteq> None \<longleftrightarrow> u_newmaster u \<noteq> None \<or>
      (\<exists>j \<in> set js. rebinds sender e slots (u_server u) j \<and> c_slots (u_server u) j = cm)"
proof -
  have "set (u_dirty_slots u') \<subseteq> set (u_dirty_slots u) \<union>
      {j. j \<in> set js \<and> rebinds sender e slots (u_server u) j \<and> c_slots (u_server u) j = Some (c_myself (u_server u))} \<and>
    (u_newmaster u' \<noteq> None \<longleftrightarrow> u_newmaster u \<noteq> None \<or>
      (\<exists>j \<in> set js. rebinds sender e slots (u_server u) j \<and> c_slots (u_server u) j = cm))"
    using assms(1) unfolding u'_def
  proof (induction js arbitrary: u)
    case (Cons j js)
    let ?u = "updateSlot sender e cm slots j u"
    have same: "rebinds sender e slots (u_server ?u) i = rebinds sender e slots (u_server u) i"
      "c_slots (u_server ?u) i = c_slots (u_server u) i" if "i \<in> set js" for i
      using that Cons.prems by (auto simp: rebinds_def updateSlot_slots split: option.split)
    have "distinct js" using Cons.prems by simp
    note IH = Cons.IH [OF this, of ?u]
    have d: "set (u_dirty_slots (fold (updateSlot sender e cm slots) js ?u)) \<subseteq> set (u_dirty_slots ?u) \<union>
      {j \<in> set js. rebinds sender e slots (u_server u) j \<and> c_slots (u_server u) j = Some (c_myself (u_server u))}"
      using IH same by auto
    have n: "u_newmaster (fold (updateSlot sender e cm slots) js ?u) \<noteq> None \<longleftrightarrow> u_newmaster ?u \<noteq> None \<or>
      (\<exists>j \<in> set js. rebinds sender e slots (u_server u) j \<and> c_slots (u_server u) j = cm)"
      using IH same by auto
    show ?case
      using d n updateSlot_locals(1) [of sender e cm slots j u] updateSlot_locals(2) [of sender e cm slots j u]
      by auto
  qed simp
  then show "set (u_dirty_slots u') \<subseteq> set (u_dirty_slots u) \<union>
      {j. rebinds sender e slots (u_server u) j \<and> c_slots (u_server u) j = Some (c_myself (u_server u))}"
    and "u_newmaster u' \<noteq> None \<longleftrightarrow> u_newmaster u \<noteq> None \<or>
      (\<exists>j \<in> set js. rebinds sender e slots (u_server u) j \<and> c_slots (u_server u) j = cm)" by auto
qed

lemma delKeys_fold:
  "set (s_db0 (fold delKeysInSlot js s)) = {k \<in> set (s_db0 s). keyHashSlot k \<notin> set js}"
  "c_slots (fold delKeysInSlot js s) = c_slots s"
  "s_panic (fold delKeysInSlot js s) = s_panic s" "core (fold delKeysInSlot js s) = core s"
  by (induction js arbitrary: s) (auto simp: delKeysInSlot_def frame_simps)

definition curMaster :: "redisServer \<Rightarrow> nid option" where
  "curMaster s = (if nodeIsMaster (me s) then Some (c_myself s) else n_slaveof (me s))"

text \<open>The result of the whole function in terms of the state after the loop.\<close>

lemma clusterUpdateSlotsConfigWith_shape:
  assumes ok: "cluster_ok s" and sender: "sender \<in> live s" "sender \<noteq> c_myself s"
  obtains s1 js where
    "cluster_ok s1" "s_panic s1 = s_panic s" "live s1 = live s" "s_db0 s1 = s_db0 s"
    "c_slots s1 = (\<lambda>j. if j < CLUSTER_SLOTS \<and> rebinds sender e slots s j then Some sender else c_slots s j)"
    "\<forall>j \<in> set js. rebinds sender e slots s j \<and> c_slots s j = Some (c_myself s)"
    "clusterUpdateSlotsConfigWith sender e slots s =
       (if \<not> hasFlag (s_module_flags s) CLUSTER_MODULE_FLAG_NO_REDIRECTION \<and> curMaster s = None \<and>
           (\<exists>j < CLUSTER_SLOTS. rebinds sender e slots s j \<and> c_slots s j = None)
        then panic_with NullDeref s1 else fold delKeysInSlot js s1)"
proof -
  define u0 where "u0 = \<lparr>u_sender_slots = 0, u_migrated_our_slots = 0, u_newmaster = None,
      u_dirty_slots = [], u_server = s\<rparr>"
  define u where "u = fold (updateSlot sender e (curMaster s) slots) [0..<CLUSTER_SLOTS] u0"
  have u0: "u_server u0 = s" "u_dirty_slots u0 = []" "u_newmaster u0 = None" by (simp_all add: u0_def)
  note f = updateSlots_fold [where u = u0 and js = "[0..<CLUSTER_SLOTS]", unfolded u0, OF ok sender(1) _ _,
      simplified, where e = e and cm = "curMaster s" and slots = slots, folded u_def]
  note l = updateSlots_locals [where u = u0 and js = "[0..<CLUSTER_SLOTS]", unfolded u0, OF distinct_upt,
      where sender = sender and e = e and cm = "curMaster s" and slots = slots, folded u_def, simplified]
  define js where "js = (if hasFlag (s_module_flags s) CLUSTER_MODULE_FLAG_NO_REDIRECTION \<or>
      u_newmaster u \<noteq> None \<and> n_numslots (nd (u_server u) (the (curMaster s))) = 0 \<and>
      (s_allow_replica_migration (u_server u) \<or> u_sender_slots u = u_migrated_our_slots u)
      then [] else u_dirty_slots u)"
  let ?crash = "\<not> hasFlag (s_module_flags s) CLUSTER_MODULE_FLAG_NO_REDIRECTION \<and> curMaster s = None \<and>
      (\<exists>j < CLUSTER_SLOTS. rebinds sender e slots s j \<and> c_slots s j = None)"
  have shape: "clusterUpdateSlotsConfigWith sender e slots s =
      (if hasFlag (s_module_flags s) CLUSTER_MODULE_FLAG_NO_REDIRECTION then u_server u
       else if u_newmaster u \<noteq> None \<and> curMaster s = None then panic_with NullDeref (u_server u)
       else fold delKeysInSlot js (u_server u))"
    unfolding clusterUpdateSlotsConfigWith_def Let_def curMaster_def [symmetric] u0_def [symmetric]
      u_def [symmetric] f(6) if_not_P [OF sender(2)]
    by (intro if_cong refl) (auto simp: js_def)
  have "u_newmaster u \<noteq> None \<longleftrightarrow>
      (\<exists>j < CLUSTER_SLOTS. rebinds sender e slots s j \<and> c_slots s j = curMaster s)"
    using l(2) by auto
  then have crash: "?crash \<longleftrightarrow> \<not> hasFlag (s_module_flags s) CLUSTER_MODULE_FLAG_NO_REDIRECTION \<and>
      u_newmaster u \<noteq> None \<and> curMaster s = None" by auto
  have "clusterUpdateSlotsConfigWith sender e slots s =
      (if ?crash then panic_with NullDeref (u_server u) else fold delKeysInSlot js (u_server u))"
  proof (cases "hasFlag (s_module_flags s) CLUSTER_MODULE_FLAG_NO_REDIRECTION")
    case True
    then have "js = []" by (simp add: js_def)
    with True shape crash show ?thesis by simp
  next
    case False
    then show ?thesis unfolding shape crash by (simp only: if_False simp_thms)
  qed
  moreover have "\<forall>j \<in> set js. rebinds sender e slots s j \<and> c_slots s j = Some (c_myself s)"
    using l(1) by (auto simp: js_def)
  ultimately show ?thesis by (intro that [OF f(1-3,5) _ _, of js]) (simp_all add: f(7))
qed

lemma clusterUpdateSlotsConfigWith_ok:
  assumes ok: "cluster_ok s" and sender: "sender \<in> live s"
  shows "cluster_ok (clusterUpdateSlotsConfigWith sender e slots s)"
    and "live (clusterUpdateSlotsConfigWith sender e slots s) = live s"
proof -
  have "cluster_ok (clusterUpdateSlotsConfigWith sender e slots s) \<and>
    live (clusterUpdateSlotsConfigWith sender e slots s) = live s"
  proof (cases "sender = c_myself s")
    case True
    then show ?thesis using ok by (simp add: clusterUpdateSlotsConfigWith_def)
  next
    case False
    obtain s1 js where s1: "cluster_ok s1" "live s1 = live s"
      and eq: "clusterUpdateSlotsConfigWith sender e slots s =
       (if \<not> hasFlag (s_module_flags s) CLUSTER_MODULE_FLAG_NO_REDIRECTION \<and> curMaster s = None \<and>
           (\<exists>j < CLUSTER_SLOTS. rebinds sender e slots s j \<and> c_slots s j = None)
        then panic_with NullDeref s1 else fold delKeysInSlot js s1)"
      by (rule clusterUpdateSlotsConfigWith_shape [OF ok sender False]) blast
    have c: "core (clusterUpdateSlotsConfigWith sender e slots s) = core s1"
      unfolding eq by (simp add: frame_simps delKeys_fold)
    show ?thesis using cluster_ok_core [OF c] live_core [OF c] s1 by simp
  qed
  then show "cluster_ok (clusterUpdateSlotsConfigWith sender e slots s)"
    and "live (clusterUpdateSlotsConfigWith sender e slots s) = live s" by auto
qed

text \<open>
  C7. What a received configuration does to the slot table. A slot passes to the sender exactly
  when the sender is another node that claims it, the slot is not being imported, and it was
  unassigned or its owner has a smaller configuration epoch; every other slot keeps its owner.
  The tables stay consistent, and a key disappears only if its slot passed from this node to the
  sender.
\<close>

theorem slots_pass_to_greater_epoch:
  fixes e :: u64 and slots :: bitmap
  assumes ok: "cluster_ok s" and sender: "sender \<in> live s"
  defines "s' \<equiv> clusterUpdateSlotsConfigWith sender e slots s"
  shows "(\<forall>j < CLUSTER_SLOTS. c_slots s' j =
           (if sender \<noteq> c_myself s \<and> bitmapTestBit slots j \<and> c_importing_slots_from s j = None \<and>
               (case c_slots s j of None \<Rightarrow> True | Some p \<Rightarrow> n_configEpoch (nd s p) < e)
            then Some sender else c_slots s j)) \<and>
         cluster_ok s' \<and>
         (\<forall>k \<in> set (s_db0 s). k \<notin> set (s_db0 s') \<longrightarrow>
           c_slots s (keyHashSlot k) = Some (c_myself s) \<and> c_slots s' (keyHashSlot k) = Some sender)"
proof (intro conjI)
  show "cluster_ok s'" unfolding s'_def by (rule clusterUpdateSlotsConfigWith_ok [OF ok sender])
  have "(\<forall>j < CLUSTER_SLOTS. c_slots s' j =
           (if sender \<noteq> c_myself s \<and> bitmapTestBit slots j \<and> c_importing_slots_from s j = None \<and>
               (case c_slots s j of None \<Rightarrow> True | Some p \<Rightarrow> n_configEpoch (nd s p) < e)
            then Some sender else c_slots s j)) \<and>
    (\<forall>k \<in> set (s_db0 s). k \<notin> set (s_db0 s') \<longrightarrow>
      c_slots s (keyHashSlot k) = Some (c_myself s) \<and> c_slots s' (keyHashSlot k) = Some sender)"
  proof (cases "sender = c_myself s")
    case True
    then show ?thesis by (simp add: s'_def clusterUpdateSlotsConfigWith_def)
  next
    case False
    obtain s1 js where s1: "s_db0 s1 = s_db0 s"
      "c_slots s1 = (\<lambda>j. if j < CLUSTER_SLOTS \<and> rebinds sender e slots s j then Some sender else c_slots s j)"
      and js: "\<forall>j \<in> set js. rebinds sender e slots s j \<and> c_slots s j = Some (c_myself s)"
      and eq: "s' = (if \<not> hasFlag (s_module_flags s) CLUSTER_MODULE_FLAG_NO_REDIRECTION \<and> curMaster s = None \<and>
           (\<exists>j < CLUSTER_SLOTS. rebinds sender e slots s j \<and> c_slots s j = None)
        then panic_with NullDeref s1 else fold delKeysInSlot js s1)"
      unfolding s'_def by (rule clusterUpdateSlotsConfigWith_shape [OF ok sender False]) blast
    have sl: "c_slots s' = c_slots s1"
      unfolding eq by (simp add: delKeys_fold panic_with_def)
    have db: "k \<in> set (s_db0 s) \<Longrightarrow> k \<notin> set (s_db0 s') \<Longrightarrow> keyHashSlot k \<in> set js" for k
      unfolding eq by (auto simp: delKeys_fold panic_with_def s1 split: if_splits)
    have keys: "c_slots s (keyHashSlot k) = Some (c_myself s) \<and> c_slots s' (keyHashSlot k) = Some sender"
      if "k \<in> set (s_db0 s)" "k \<notin> set (s_db0 s')" for k
      using db [OF that] js keyHashSlot_lt [of k] by (simp add: sl s1)
    have "c_slots s' j = (if sender \<noteq> c_myself s \<and> bitmapTestBit slots j \<and> c_importing_slots_from s j = None \<and>
               (case c_slots s j of None \<Rightarrow> True | Some p \<Rightarrow> n_configEpoch (nd s p) < e)
            then Some sender else c_slots s j)" if "j < CLUSTER_SLOTS" for j
      using that False by (auto simp: sl s1 rebinds_def)
    with keys show ?thesis by blast
  qed
  then show "\<forall>j < CLUSTER_SLOTS. c_slots s' j =
           (if sender \<noteq> c_myself s \<and> bitmapTestBit slots j \<and> c_importing_slots_from s j = None \<and>
               (case c_slots s j of None \<Rightarrow> True | Some p \<Rightarrow> n_configEpoch (nd s p) < e)
            then Some sender else c_slots s j)"
    and "\<forall>k \<in> set (s_db0 s). k \<notin> set (s_db0 s') \<longrightarrow>
           c_slots s (keyHashSlot k) = Some (c_myself s) \<and> c_slots s' (keyHashSlot k) = Some sender"
    by blast+
qed

definition bitmap_5 :: bitmap where
  "bitmap_5 = bitmapSetBit emptyBitmap 5"

lemma bitmap_5_test: "j < CLUSTER_SLOTS \<Longrightarrow> bitmapTestBit bitmap_5 j \<longleftrightarrow> j = 5"
  by (auto simp: bitmap_5_def testBit_setBit CLUSTER_SLOTS_def)

lemma pair_zero_ok: "cluster_ok (pair_cluster node_a zeroNode)"
  by (rule pair_cluster_ok) (simp_all add: node_a_def zeroNode_def)

text \<open>The second node claims slot 5, unassigned, with epoch 1.\<close>

theorem slots_pass_to_greater_epoch_witness:
  "let s = pair_cluster node_a zeroNode; s' = clusterUpdateSlotsConfigWith 1 1 bitmap_5 s in
   c_slots s 5 = None \<and> c_slots s' 5 = Some 1 \<and> c_slots s' 6 = None \<and> cluster_ok s'"
proof -
  have *: "(5::nat) < CLUSTER_SLOTS" "(6::nat) < CLUSTER_SLOTS" by (simp_all add: CLUSTER_SLOTS_def)
  have i: "c_importing_slots_from (pair_cluster node_a zeroNode) = (\<lambda>_. None)"
    by (simp add: pair_cluster_def zeroServer_def)
  have l: "1 \<in> live (pair_cluster node_a zeroNode)" by simp
  note r = slots_pass_to_greater_epoch [OF pair_zero_ok l, of 1 bitmap_5]
  note p = r [THEN conjunct1] r [THEN conjunct2, THEN conjunct1]
  show ?thesis
    unfolding Let_def using p(1) [THEN spec, of 5] p(1) [THEN spec, of 6] p(2) * i
    by (simp add: bitmap_5_test)
qed

text \<open>
  A finding: a replica that does not know its master (its \<^verbatim>\<open>slaveof\<close> is NULL) and receives a
  configuration in which another node claims an unassigned slot dereferences a null pointer,
  since NULL equals NULL in the comparison of the owner with \<^verbatim>\<open>curmaster\<close>. In every other case
  the function returns normally.
\<close>

theorem update_slots_crash_iff:
  assumes ok: "cluster_ok s" and sender: "sender \<in> live s" and alive: "s_panic s = None"
  shows "s_panic (clusterUpdateSlotsConfigWith sender e slots s) =
    (if sender \<noteq> c_myself s \<and> \<not> hasFlag (s_module_flags s) CLUSTER_MODULE_FLAG_NO_REDIRECTION \<and>
        \<not> nodeIsMaster (me s) \<and> n_slaveof (me s) = None \<and>
        (\<exists>j < CLUSTER_SLOTS. bitmapTestBit slots j \<and> c_slots s j = None \<and> c_importing_slots_from s j = None)
     then Some NullDeref else None)"
proof (cases "sender = c_myself s")
  case True
  then show ?thesis using alive by (simp add: clusterUpdateSlotsConfigWith_def)
next
  case False
  obtain s1 js where s1: "s_panic s1 = s_panic s"
    and eq: "clusterUpdateSlotsConfigWith sender e slots s =
       (if \<not> hasFlag (s_module_flags s) CLUSTER_MODULE_FLAG_NO_REDIRECTION \<and> curMaster s = None \<and>
           (\<exists>j < CLUSTER_SLOTS. rebinds sender e slots s j \<and> c_slots s j = None)
        then panic_with NullDeref s1 else fold delKeysInSlot js s1)"
    by (rule clusterUpdateSlotsConfigWith_shape [OF ok sender False]) blast
  have "curMaster s = None \<longleftrightarrow> \<not> nodeIsMaster (me s) \<and> n_slaveof (me s) = None"
    by (simp add: curMaster_def)
  moreover have "(\<exists>j < CLUSTER_SLOTS. rebinds sender e slots s j \<and> c_slots s j = None) \<longleftrightarrow>
      (\<exists>j < CLUSTER_SLOTS. bitmapTestBit slots j \<and> c_slots s j = None \<and> c_importing_slots_from s j = None)"
    by (auto simp: rebinds_def)
  ultimately show ?thesis
    using False s1 alive unfolding eq by (auto simp: delKeys_fold panic_with_def)
qed

text \<open>The replica without a known master.\<close>

theorem update_slots_crash_iff_witness:
  "s_panic (clusterUpdateSlotsConfigWith 1 1 bitmap_5 (pair_cluster zeroNode zeroNode)) = Some NullDeref"
proof -
  let ?s = "pair_cluster zeroNode zeroNode"
  have ok: "cluster_ok ?s" by (rule pair_cluster_ok) (simp_all add: zeroNode_def)
  have "(5::nat) < CLUSTER_SLOTS" by (simp add: CLUSTER_SLOTS_def)
  moreover have "c_importing_slots_from ?s = (\<lambda>_. None)" "s_module_flags ?s = 0"
    by (simp_all add: pair_cluster_def zeroServer_def)
  moreover have "n_flags (me ?s) = 0" "n_slaveof (me ?s) = None"
    by (simp_all add: me_def zeroNode_def)
  moreover have "1 \<in> live ?s" by simp
  ultimately show ?thesis
    using update_slots_crash_iff [OF ok, of 1 1 bitmap_5]
    by (auto simp: node_tests bitmap_5_test)
qed

section \<open>Epochs\<close>

lemma fold_max_u64:
  fixes k :: u64 and f :: "nid \<Rightarrow> u64"
  defines "m \<equiv> \<lambda>ps k. fold (\<lambda>p m. if f p > m then f p else m) ps k"
  shows "k \<le> m ps k \<and> (\<forall>p \<in> set ps. f p \<le> m ps k) \<and> m ps k \<in> insert k (f ` set ps)"
  unfolding m_def
proof (induction ps arbitrary: k)
  case (Cons p ps)
  let ?k = "if f p > k then f p else k"
  have "k \<le> ?k" "f p \<le> ?k" by auto
  then show ?case using Cons [of ?k] by (auto intro: order_trans)
qed simp

text \<open>\<open>clusterGetMaxEpoch\<close> is the greatest of the current epoch and the epochs of the nodes.\<close>

lemma clusterGetMaxEpoch_max:
  "clusterGetMaxEpoch s = Max (insert (c_currentEpoch s) ((\<lambda>p. n_configEpoch (nd s p)) ` live s))"
proof (rule sym, rule Max_eqI)
  let ?f = "\<lambda>p. n_configEpoch (nd s p)"
  have *: "fold (\<lambda>p max. if n_configEpoch (nd s p) > max then n_configEpoch (nd s p) else max)
      (dictVals (c_nodes s)) 0 = fold (\<lambda>p m. if ?f p > m then ?f p else m) (dictVals (c_nodes s)) 0" ..
  note m = fold_max_u64 [of 0 ?f "dictVals (c_nodes s)"]
  show "finite (insert (c_currentEpoch s) (?f ` live s))" by (simp add: live_def)
  show "y \<le> clusterGetMaxEpoch s" if "y \<in> insert (c_currentEpoch s) (?f ` live s)" for y
    using that m unfolding clusterGetMaxEpoch_def Let_def live_def
    by (auto intro: order_trans less_imp_le simp: not_less)
  have "(0::u64) < c_currentEpoch s \<or> c_currentEpoch s = 0" by (auto simp: word_gt_0)
  then show "clusterGetMaxEpoch s \<in> insert (c_currentEpoch s) (?f ` live s)"
    using m unfolding clusterGetMaxEpoch_def Let_def live_def by auto
qed

lemma me_set_my_epoch: "me (set_my_epoch e s) = (me s)\<lparr>n_configEpoch := e\<rparr>"
  by (simp add: me_def set_my_epoch_def nd_upd_node)

lemma memcmp_eq: "memcmp a b = 0 \<longleftrightarrow> a = b"
  by (induction a b rule: memcmp.induct) auto

lemma memcmp_anti: "length a = length b \<Longrightarrow> memcmp a b = - memcmp b a"
proof (induction a b rule: memcmp.induct)
  case (1 a as b bs)
  have "(of_char a :: nat) \<noteq> of_char b" if "a \<noteq> b" using that by simp
  with 1 show ?case by (auto dest: linorder_neqE_nat)
qed auto

lemma save_me [simp]: "me (clusterSaveConfigOrDie b s) = me s" "nd (clusterSaveConfigOrDie b s) = nd s"
  "c_currentEpoch (clusterSaveConfigOrDie b s) = c_currentEpoch s"
  by (simp_all add: clusterSaveConfigOrDie_def me_def nd_def emit_def Let_def fun_eq_iff)

lemma less_next_epoch:
  fixes e c :: u64
  assumes "e \<le> c" and "c \<noteq> - 1"
  shows "e < c + 1"
proof -
  have "1 + c \<noteq> 0" using assms(2) by (simp add: add_eq_0_iff)
  then have "unat (1 + c) = Suc (unat c)" by (rule unatSuc)
  then show ?thesis using assms(1) by (simp add: word_less_nat_alt word_le_nat_alt add.commute)
qed

definition collides :: "nid \<Rightarrow> redisServer \<Rightarrow> bool" where
  "collides p s \<longleftrightarrow> n_configEpoch (nd s p) = n_configEpoch (me s) \<and> nodeIsMaster (nd s p) \<and> nodeIsMaster (me s)"

lemma collision_effect:
  assumes "p \<noteq> c_myself s"
  shows "n_configEpoch (me (clusterHandleConfigEpochCollision p s)) =
      (if collides p s \<and> memcmp (n_name (nd s p)) (n_name (me s)) > 0 then c_currentEpoch s + 1
       else n_configEpoch (me s))"
  by (auto simp: clusterHandleConfigEpochCollision_def collides_def Let_def me_set_my_epoch)

text \<open>
  C34. When two masters with the same configuration epoch hear of each other, exactly one of
  them takes a new epoch: the one with the smaller name. If each knows the other's name, epoch
  and role and no current epoch is behind the common configuration epoch or about to wrap, the
  two epochs differ afterwards.
\<close>

theorem collision_moves_exactly_one:
  assumes A: "q \<noteq> c_myself sA" "n_name (nd sA q) = n_name (me sB)" "collides q sA"
    and B: "p \<noteq> c_myself sB" "n_name (nd sB p) = n_name (me sA)" "collides p sB"
    and names: "n_name (me sA) \<noteq> n_name (me sB)" "length (n_name (me sA)) = CLUSTER_NAMELEN"
      "length (n_name (me sB)) = CLUSTER_NAMELEN"
    and same: "n_configEpoch (me sA) = n_configEpoch (me sB)"
    and current: "n_configEpoch (me sA) \<le> c_currentEpoch sA" "n_configEpoch (me sB) \<le> c_currentEpoch sB"
      "c_currentEpoch sA \<noteq> - 1" "c_currentEpoch sB \<noteq> - 1"
  shows "(n_configEpoch (me (clusterHandleConfigEpochCollision q sA)) \<noteq> n_configEpoch (me sA)) \<noteq>
         (n_configEpoch (me (clusterHandleConfigEpochCollision p sB)) \<noteq> n_configEpoch (me sB)) \<and>
         n_configEpoch (me (clusterHandleConfigEpochCollision q sA)) \<noteq>
         n_configEpoch (me (clusterHandleConfigEpochCollision p sB))"
proof (intro conjI)
  let ?a = "n_name (me sA)" and ?b = "n_name (me sB)"
  note up = less_next_epoch
  have anti: "memcmp ?b ?a = - memcmp ?a ?b" using names by (intro memcmp_anti) simp
  have "memcmp ?a ?b \<noteq> 0" using names by (simp add: memcmp_eq)
  then consider "memcmp ?a ?b > 0" | "memcmp ?a ?b < 0" by linarith
  then have "(n_configEpoch (me (clusterHandleConfigEpochCollision q sA)) = c_currentEpoch sA + 1 \<and>
        n_configEpoch (me (clusterHandleConfigEpochCollision p sB)) = n_configEpoch (me sB)) \<or>
      (n_configEpoch (me (clusterHandleConfigEpochCollision q sA)) = n_configEpoch (me sA) \<and>
        n_configEpoch (me (clusterHandleConfigEpochCollision p sB)) = c_currentEpoch sB + 1)"
    using anti by cases (use A B in \<open>simp_all add: collision_effect\<close>)
  then show "(n_configEpoch (me (clusterHandleConfigEpochCollision q sA)) \<noteq> n_configEpoch (me sA)) \<noteq>
         (n_configEpoch (me (clusterHandleConfigEpochCollision p sB)) \<noteq> n_configEpoch (me sB))"
    and "n_configEpoch (me (clusterHandleConfigEpochCollision q sA)) \<noteq>
         n_configEpoch (me (clusterHandleConfigEpochCollision p sB))"
    using up [OF current(1,3)] up [OF current(2,4)] same by auto
qed

definition node_b_master :: clusterNode where
  "node_b_master = zeroNode\<lparr>n_flags := CLUSTER_NODE_MASTER\<rparr>"

text \<open>Two masters with epoch 0, seen from either side.\<close>

theorem collision_moves_exactly_one_witness:
  "let sA = pair_cluster node_a node_b_master; sB = sA\<lparr>c_myself := 1\<rparr> in
   n_configEpoch (me (clusterHandleConfigEpochCollision 1 sA)) \<noteq>
   n_configEpoch (me (clusterHandleConfigEpochCollision 0 sB))"
proof -
  let ?sA = "pair_cluster node_a node_b_master" and ?sB = "(pair_cluster node_a node_b_master)\<lparr>c_myself := 1\<rparr>"
  have nd: "nd ?sB = nd ?sA" by (simp add: nd_def fun_eq_iff)
  have meA: "me ?sA = node_a\<lparr>n_name := nameA\<rparr>" by (simp add: me_def)
  have meB: "me ?sB = node_b_master\<lparr>n_name := nameB\<rparr>" unfolding me_def nd by simp
  have B: "nd ?sA 1 = node_b_master\<lparr>n_name := nameB\<rparr>" by simp
  have A: "nd ?sA 0 = node_a\<lparr>n_name := nameA\<rparr>" by simp
  have e: "c_currentEpoch ?sA = 0" "c_currentEpoch ?sB = 0" "c_myself ?sB = 1"
    by (simp_all add: pair_cluster_def zeroServer_def)
  have f: "n_flags node_a = 17" "n_flags node_b_master = 1" "n_configEpoch node_a = 0"
    "n_configEpoch node_b_master = 0"
    by (simp_all add: node_a_def node_b_master_def zeroNode_def flag_simps)
  show ?thesis
    unfolding Let_def
    by (rule collision_moves_exactly_one [THEN conjunct2])
      (simp_all add: nd meA meB A B e f collides_def node_tests flag_simps hasFlag_simps
        CLUSTER_NAMELEN_def del: One_nat_def)
qed

text \<open>
  Taking a configuration epoch without consensus. If this node already has the greatest
  epoch and it is not zero, nothing happens. Otherwise, if no known epoch is above the current
  epoch and the counter does not wrap, the node gets an epoch strictly above that of every other
  node, which is the new current epoch, no other epoch changes, and asking again is refused.
\<close>

theorem bump_gives_unique_greatest_epoch:
  assumes known: "\<forall>p \<in> live s. n_configEpoch (nd s p) \<le> c_currentEpoch s" and wrap: "c_currentEpoch s \<noteq> - 1"
    and my: "c_myself s \<in> live s"
  defines "r \<equiv> clusterBumpConfigEpochWithoutConsensus s"
  shows "(fst r = C_ERR \<longleftrightarrow> n_configEpoch (me s) \<noteq> 0 \<and>
           n_configEpoch (me s) = Max (insert (c_currentEpoch s) ((\<lambda>p. n_configEpoch (nd s p)) ` live s))) \<and>
         (fst r = C_ERR \<longrightarrow> snd r = s) \<and>
         (fst r = C_OK \<longrightarrow> n_configEpoch (me (snd r)) = c_currentEpoch (snd r) \<and>
           c_currentEpoch (snd r) = c_currentEpoch s + 1 \<and>
           (\<forall>p \<in> live s. p \<noteq> c_myself s \<longrightarrow> n_configEpoch (nd (snd r) p) = n_configEpoch (nd s p) \<and>
              n_configEpoch (nd (snd r) p) < n_configEpoch (me (snd r))) \<and>
           fst (clusterBumpConfigEpochWithoutConsensus (snd r)) = C_ERR)"
proof (intro conjI)
  show "fst r = C_ERR \<longleftrightarrow> n_configEpoch (me s) \<noteq> 0 \<and>
           n_configEpoch (me s) = Max (insert (c_currentEpoch s) ((\<lambda>p. n_configEpoch (nd s p)) ` live s))"
    and "fst r = C_ERR \<longrightarrow> snd r = s"
    by (auto simp: r_def clusterBumpConfigEpochWithoutConsensus_def Let_def clusterGetMaxEpoch_max)
  show "fst r = C_OK \<longrightarrow> n_configEpoch (me (snd r)) = c_currentEpoch (snd r) \<and>
           c_currentEpoch (snd r) = c_currentEpoch s + 1 \<and>
           (\<forall>p \<in> live s. p \<noteq> c_myself s \<longrightarrow> n_configEpoch (nd (snd r) p) = n_configEpoch (nd s p) \<and>
              n_configEpoch (nd (snd r) p) < n_configEpoch (me (snd r))) \<and>
           fst (clusterBumpConfigEpochWithoutConsensus (snd r)) = C_ERR"
  proof (intro impI)
    assume "fst r = C_OK"
    then have r: "snd r = clusterDoBeforeSleep (CLUSTER_TODO_SAVE_CONFIG OR CLUSTER_TODO_FSYNC_CONFIG)
        (set_my_epoch (c_currentEpoch s + 1) (s\<lparr>c_currentEpoch := c_currentEpoch s + 1\<rparr>))"
      by (auto simp: r_def clusterBumpConfigEpochWithoutConsensus_def Let_def split: if_splits)
    have nd: "nd (snd r) p = (if p = c_myself s then (nd s p)\<lparr>n_configEpoch := c_currentEpoch s + 1\<rparr> else nd s p)" for p
      by (simp add: r set_my_epoch_def nd_upd_node) (simp add: nd_def)
    have f: "c_currentEpoch (snd r) = c_currentEpoch s + 1" "live (snd r) = live s" "c_myself (snd r) = c_myself s"
      by (simp_all add: r clusterDoBeforeSleep_def set_my_epoch_def live_def)
    then have me: "n_configEpoch (me (snd r)) = c_currentEpoch s + 1" by (simp add: me_def nd)
    have less: "n_configEpoch (nd s p) < c_currentEpoch s + 1" if "p \<in> live s" for p
      using known wrap that by (intro less_next_epoch) auto
    have "clusterGetMaxEpoch (snd r) = c_currentEpoch s + 1"
      unfolding clusterGetMaxEpoch_max f
    proof (rule Max_eqI)
      show "finite (insert (c_currentEpoch s + 1) ((\<lambda>p. n_configEpoch (nd (snd r) p)) ` live s))"
        by (simp add: live_def)
    qed (auto simp: nd intro: less_imp_le [OF less])
    moreover have "1 + c_currentEpoch s \<noteq> 0" using wrap by (simp add: add_eq_0_iff)
    ultimately have "fst (clusterBumpConfigEpochWithoutConsensus (snd r)) = C_ERR"
      by (simp add: clusterBumpConfigEpochWithoutConsensus_def me add.commute)
    then show "n_configEpoch (me (snd r)) = c_currentEpoch (snd r) \<and>
           c_currentEpoch (snd r) = c_currentEpoch s + 1 \<and>
           (\<forall>p \<in> live s. p \<noteq> c_myself s \<longrightarrow> n_configEpoch (nd (snd r) p) = n_configEpoch (nd s p) \<and>
              n_configEpoch (nd (snd r) p) < n_configEpoch (me (snd r))) \<and>
           fst (clusterBumpConfigEpochWithoutConsensus (snd r)) = C_ERR"
      using me f(1) less by (simp add: nd)
  qed
qed

text \<open>A new master with epoch 0.\<close>

theorem bump_gives_unique_greatest_epoch_witness:
  "let r = clusterBumpConfigEpochWithoutConsensus (pair_cluster node_a node_b_master) in
   fst r = C_OK \<and> n_configEpoch (nd (snd r) 1) < n_configEpoch (me (snd r)) \<and>
   fst (clusterBumpConfigEpochWithoutConsensus (snd r)) = C_ERR"
proof -
  let ?s = "pair_cluster node_a node_b_master"
  have z: "n_configEpoch (me ?s) = 0" "c_currentEpoch ?s = 0"
    by (simp_all add: me_def node_a_def zeroNode_def) (simp add: pair_cluster_def zeroServer_def)
  have known: "\<forall>p \<in> live ?s. n_configEpoch (nd ?s p) \<le> c_currentEpoch ?s"
    by (simp add: node_a_def node_b_master_def zeroNode_def)
  have my: "c_myself ?s \<in> live ?s" and w: "c_currentEpoch ?s \<noteq> - 1" by (simp_all add: z)
  note r = bump_gives_unique_greatest_epoch [OF known w my]
  note b = r [THEN conjunct1] r [THEN conjunct2, THEN conjunct2]
  have "fst (clusterBumpConfigEpochWithoutConsensus ?s) \<noteq> C_ERR" using b(1) z by simp
  then have ok: "fst (clusterBumpConfigEpochWithoutConsensus ?s) = C_OK" by (metis retcode.exhaust)
  then have "n_configEpoch (nd (snd (clusterBumpConfigEpochWithoutConsensus ?s)) 1) <
      n_configEpoch (me (snd (clusterBumpConfigEpochWithoutConsensus ?s)))"
    using b(2) by auto
  then show ?thesis using b(2) ok by (simp add: Let_def)
qed

section \<open>The black list keeps a forgotten node out for its time\<close>

lemma expire_entries_find:
  "dictFind (expire_entries now es d) k = (if \<exists>x. (k, x) \<in> set es \<and> x < now then None else dictFind d k)"
  unfolding expire_entries_def
  by (induction es arbitrary: d) (auto simp: dictFind_dictDelete)

lemma expire_entries_ok: "dictOk d \<Longrightarrow> dictOk (expire_entries now es d)"
  unfolding expire_entries_def by (induction es arbitrary: d) (auto simp: dictDelete_ok)

lemma cleanup_find:
  assumes "dictOk (c_nodes_black_list s)"
  shows "dictFind (c_nodes_black_list (clusterBlacklistCleanup s)) k =
    (case dictFind (c_nodes_black_list s) k of
       Some x \<Rightarrow> if x < s_unixtime s then None else Some x | None \<Rightarrow> None)"
proof -
  have "(k, x) \<in> set (c_nodes_black_list s) \<longleftrightarrow> dictFind (c_nodes_black_list s) k = Some x" for x
    using assms by (simp add: dictFind_def dictOk_def map_of_eq_Some_iff)
  then show ?thesis
    by (subst blacklist_cleanup_shape) (auto simp: expire_entries_find split: option.split)
qed

text \<open>
  Black listing a node: at any later time the name is found exactly until 60 seconds have
  passed since it was (last) added, whether it was listed before or not; every other name that
  was listed and had not expired keeps its own time.
\<close>

theorem blacklist_expires_after_ttl:
  assumes ok: "dictOk (c_nodes_black_list s)" and later: "s_unixtime s \<le> t"
  shows "fst (clusterBlacklistExists nodeid ((clusterBlacklistAddNode p s)\<lparr>s_unixtime := t\<rparr>)) \<longleftrightarrow>
    (if take CLUSTER_NAMELEN nodeid = n_name (nd s p) then t \<le> s_unixtime s + CLUSTER_BLACKLIST_TTL
     else \<exists>x. dictFind (c_nodes_black_list s) (take CLUSTER_NAMELEN nodeid) = Some x \<and> t \<le> x)"
proof -
  let ?c = "clusterBlacklistCleanup s"
  let ?bl = "dictReplace (c_nodes_black_list ?c) (n_name (nd s p)) (s_unixtime s + CLUSTER_BLACKLIST_TTL)"
  have c: "nd ?c = nd s" "s_unixtime ?c = s_unixtime s"
    by (subst blacklist_cleanup_shape, simp add: nd_def fun_eq_iff)+
  have "dictOk (c_nodes_black_list ?c)"
    by (subst blacklist_cleanup_shape) (simp add: expire_entries_ok ok)
  then have bl: "dictOk ?bl" by (rule dictReplace_ok)
  have s': "clusterBlacklistAddNode p s = ?c\<lparr>c_nodes_black_list := ?bl\<rparr>"
    by (simp add: clusterBlacklistAddNode_def Let_def c)
  have "c_nodes_black_list ((clusterBlacklistAddNode p s)\<lparr>s_unixtime := t\<rparr>) = ?bl"
    "s_unixtime ((clusterBlacklistAddNode p s)\<lparr>s_unixtime := t\<rparr>) = t"
    by (simp_all add: s')
  then show ?thesis
    using later bl
    by (auto simp: clusterBlacklistExists_def Let_def cleanup_find dictFind_dictReplace
        cleanup_find [OF ok] CLUSTER_BLACKLIST_TTL_def split: option.splits if_splits)
qed

text \<open>After 60 seconds the second node is still black listed, after 61 it is not.\<close>

theorem blacklist_expires_after_ttl_witness:
  "let s = pair_cluster node_a zeroNode; s' = clusterBlacklistAddNode 1 s in
   fst (clusterBlacklistExists nameB (s'\<lparr>s_unixtime := 60\<rparr>)) \<and>
   \<not> fst (clusterBlacklistExists nameB (s'\<lparr>s_unixtime := 61\<rparr>))"
proof -
  let ?s = "pair_cluster node_a zeroNode"
  have s: "dictOk (c_nodes_black_list ?s)" "s_unixtime ?s = 0" "take CLUSTER_NAMELEN nameB = n_name (nd ?s 1)"
    by (simp_all add: CLUSTER_NAMELEN_def) (simp_all add: pair_cluster_def zeroServer_def dictOk_def)
  show ?thesis
    using blacklist_expires_after_ttl [OF s(1), of 60 nameB 1]
      blacklist_expires_after_ttl [OF s(1), of 61 nameB 1]
    by (simp add: Let_def s CLUSTER_BLACKLIST_TTL_def del: One_nat_def)
qed

section \<open>A node is marked as failing only by a majority\<close>

lemma cleanup_reports_fields [simp]:
  "n_flags (nd (clusterNodeCleanupFailureReports p s) q) = n_flags (nd s q)"
  "c_myself (clusterNodeCleanupFailureReports p s) = c_myself s"
  "c_size (clusterNodeCleanupFailureReports p s) = c_size s"
  by (simp_all add: clusterNodeCleanupFailureReports_def nd_upd_node Let_def)

lemma failed_after_marking:
  "hasFlag (f AND NOT CLUSTER_NODE_PFAIL OR CLUSTER_NODE_FAIL) CLUSTER_NODE_FAIL"
  "\<not> hasFlag (f AND NOT CLUSTER_NODE_PFAIL OR CLUSTER_NODE_FAIL) CLUSTER_NODE_PFAIL"
  by (simp_all only: hasFlag_set hasFlag_clear) (simp_all add: flag_simps hasFlag_simps)

lemma beforeSleep_flags [simp]: "n_flags (nd (clusterDoBeforeSleep w s) p) = n_flags (nd s p)"
  by simp



section \<open>Start\<close>

text \<open>What \<open>clusterInit\<close> assigns before it looks for a configuration.\<close>

definition initFields :: "redisServer \<Rightarrow> redisServer" where
  "initFields s = clusterCloseAllSlots (s\<lparr>c_currentEpoch := 0, c_state := CLUSTER_FAIL, c_size := 1,
      c_todo_before_sleep := 0, c_nodes := [], c_nodes_black_list := [], c_failover_auth_time := 0,
      c_failover_auth_count := 0, c_failover_auth_rank := 0, c_failover_auth_epoch := 0,
      c_cant_failover_reason := CANT_FAILOVER_NONE, c_lastVoteEpoch := 0,
      c_stats_sent := (\<lambda>_. 0), c_stats_received := (\<lambda>_. 0), c_stats_pfail_nodes := 0,
      c_slots := (\<lambda>_. None), c_slot_status := (\<lambda>_. zeroSlot), c_avg_hot_point := (\<lambda>_. 0),
      c_is_sync := True, c_sync_time := False, c_forward_time := False\<rparr>)"

lemma random_name:
  "getRandomHexChars k s = (name, s') \<Longrightarrow>
   length name = k \<and> s' = s\<lparr>s_rnd_pos := s_rnd_pos s'\<rparr>"
proof (induction k s arbitrary: name s' rule: getRandomHexChars.induct)
  case (2 k s)
  obtain r s1 where r: "random_num s = (r, s1)" by force
  obtain cs s2 where cs: "getRandomHexChars k s1 = (cs, s2)" by force
  have "length cs = k \<and> s2 = s1\<lparr>s_rnd_pos := s_rnd_pos s2\<rparr>" by (rule "2.IH" [OF r [symmetric] refl cs])
  moreover have "s1 = s\<lparr>s_rnd_pos := Suc (s_rnd_pos s)\<rparr>" using r by (simp add: random_num_def)
  ultimately show ?case using "2.prems" r cs by (auto simp: Let_def)
qed auto

lemma myselfFlags_fields [simp]:
  "c_nodes (clusterUpdateMyselfFlags s) = c_nodes s" "c_slots (clusterUpdateMyselfFlags s) = c_slots s"
  "c_currentEpoch (clusterUpdateMyselfFlags s) = c_currentEpoch s"
  "c_lastVoteEpoch (clusterUpdateMyselfFlags s) = c_lastVoteEpoch s"
  "c_state (clusterUpdateMyselfFlags s) = c_state s" "s_panic (clusterUpdateMyselfFlags s) = s_panic s"
  "c_myself (clusterUpdateMyselfFlags s) = c_myself s" "c_next (clusterUpdateMyselfFlags s) = c_next s"
  "s_out (clusterUpdateMyselfFlags s) = s_out s"
  "nd (clusterUpdateMyselfFlags s) q =
     (if q = c_myself s
      then setFlag (if s_slave_no_failover s then CLUSTER_NODE_NOFAILOVER else 0)
             (clearFlag CLUSTER_NODE_NOFAILOVER (nd s q))
      else nd s q)"
  by (simp_all add: clusterUpdateMyselfFlags_def clusterDoBeforeSleep_def nd_def Let_def)

lemma upd_config:
  "s_slave_no_failover (upd_node p f s) = s_slave_no_failover s" "nd (s\<lparr>c_mf_end := t\<rparr>) p = nd s p"
  by (simp_all add: upd_node_def nd_def)

lemma resetManualFailover_fields [simp]:
  "c_nodes (resetManualFailover s) = c_nodes s" "c_slots (resetManualFailover s) = c_slots s"
  "c_currentEpoch (resetManualFailover s) = c_currentEpoch s"
  "c_lastVoteEpoch (resetManualFailover s) = c_lastVoteEpoch s"
  "c_state (resetManualFailover s) = c_state s" "s_panic (resetManualFailover s) = s_panic s"
  "c_myself (resetManualFailover s) = c_myself s" "c_next (resetManualFailover s) = c_next s"
  "s_out (resetManualFailover s) = s_out s" "nd (resetManualFailover s) q = nd s q"
  "s_slave_no_failover (resetManualFailover s) = s_slave_no_failover s"
  "s_db0 (resetManualFailover s) = s_db0 s"
  by (simp_all add: resetManualFailover_def nd_def)

text \<open>
  A first start (no configuration file, a port that leaves room for the bus port): the
  tables are consistent and hold this node alone, a master without slots, in handshake with
  nobody, with a name of 40 characters, all epochs zero and the configuration saved; the cluster
  is down until it is checked.
\<close>

theorem first_start:
  assumes new: "loadConfig (initFields s) = None"
    and port: "(if s_tls_cluster s then s_tls_port s else s_port s) \<le> 55535"
  defines "s' \<equiv> clusterInit loadConfig s"
  shows "cluster_ok s' \<and>
         live s' = {c_myself s'} \<and>
         nodeIsMaster (me s') \<and>
         \<not> nodeIsSlave (me s') \<and>
         \<not> nodeInHandshake (me s') \<and>
         length (n_name (me s')) = CLUSTER_NAMELEN \<and>
         c_slots s' = (\<lambda>_. None) \<and>
         n_numslots (me s') = 0 \<and>
         n_configEpoch (me s') = 0 \<and>
         c_currentEpoch s' = 0 \<and>
         c_lastVoteEpoch s' = 0 \<and>
         c_state s' = CLUSTER_FAIL \<and>
         s_panic s' = s_panic s \<and>
         EvSaveConfig True \<in> set (s_out s')"
proof (intro conjI)
  obtain name sr where rn: "getRandomHexChars CLUSTER_NAMELEN (initFields s) = (name, sr)" by force
  note name = random_name [OF rn]
  define p where "p = c_next sr"
  define n where "n = newClusterNode name (CLUSTER_NODE_MYSELF OR CLUSTER_NODE_MASTER) sr"
  define sa where "sa = sr\<lparr>c_mem := (c_mem sr)(p := n), c_next := Suc p, c_myself := p\<rparr>"
  define s3 where "s3 = clusterSaveConfigOrDie True (sa\<lparr>c_nodes := [(name, p)]\<rparr>)"
  have empty: "c_nodes sr = []" "c_slots sr = (\<lambda>_. None)" "c_currentEpoch sr = 0" "c_lastVoteEpoch sr = 0"
    "c_state sr = CLUSTER_FAIL" "s_panic sr = s_panic s" "s_tls_cluster sr = s_tls_cluster s"
    "s_tls_port sr = s_tls_port s" "s_port sr = s_port s"
    by (subst name [THEN conjunct2], simp add: initFields_def clusterCloseAllSlots_def)+
  have add: "clusterAddNode p sa = sa\<lparr>c_nodes := [(name, p)]\<rparr>"
    by (simp add: clusterAddNode_def sa_def nd_def n_def newClusterNode_def empty dictFind_def)
  define ports where "ports = deriveAnnouncedPorts s3"
  define f where "f = (\<lambda>n. setFlag (if s_slave_no_failover s3 then CLUSTER_NODE_NOFAILOVER else 0)
      (clearFlag CLUSTER_NODE_NOFAILOVER
        (n\<lparr>n_port := fst ports, n_pport := fst (snd ports), n_cport := snd (snd ports)\<rparr>)))"
  have s3: "c_nodes s3 = [(name, p)]" "c_slots s3 = (\<lambda>_. None)" "c_currentEpoch s3 = 0"
    "c_lastVoteEpoch s3 = 0" "c_state s3 = CLUSTER_FAIL" "s_panic s3 = s_panic s" "c_myself s3 = p"
    "c_next s3 = Suc p" "nd s3 p = n" "EvSaveConfig True \<in> set (s_out s3)"
    "s_tls_cluster s3 = s_tls_cluster s" "s_tls_port s3 = s_tls_port s" "s_port s3 = s_port s"
    by (simp_all add: s3_def sa_def clusterSaveConfigOrDie_def emit_def empty nd_def)
  have "clusterInit loadConfig s = clusterUpdateMyselfFlags (resetManualFailover
      ((upd_node p (\<lambda>n. n\<lparr>n_port := fst ports, n_pport := fst (snd ports), n_cport := snd (snd ports)\<rparr>) s3)
        \<lparr>c_mf_end := 0\<rparr>))"
  proof -
    have c: "createClusterNode None (CLUSTER_NODE_MYSELF OR CLUSTER_NODE_MASTER) (initFields s)
        = (p, sr\<lparr>c_mem := (c_mem sr)(p := n), c_next := Suc p\<rparr>)"
      by (simp add: createClusterNode_def rn allocNode_def n_def p_def)
    have "\<not> (if s_tls_cluster s3 then s_tls_port s3 else s_port s3) > 65535 - CLUSTER_PORT_INCR"
      using port by (simp add: s3 CLUSTER_PORT_INCR_def split: if_splits)
    moreover have "clusterInit loadConfig s =
      (if (if s_tls_cluster s3 then s_tls_port s3 else s_port s3) > 65535 - CLUSTER_PORT_INCR
       then panic_with ProcessExit s3
       else case deriveAnnouncedPorts s3 of (aport, apport, acport) \<Rightarrow>
         clusterUpdateMyselfFlags (resetManualFailover
           ((upd_node (c_myself s3) (\<lambda>n. n\<lparr>n_port := aport, n_pport := apport, n_cport := acport\<rparr>) s3)
             \<lparr>c_mf_end := 0\<rparr>)))"
      unfolding clusterInit_def Let_def initFields_def [symmetric]
      by (simp add: new c add [unfolded sa_def] s3_def sa_def)
    ultimately show ?thesis by (simp only: if_False s3(7) ports_def case_prod_beta)
  qed
  then have nodes: "c_nodes s' = [(name, p)]" "c_slots s' = (\<lambda>_. None)" "c_currentEpoch s' = 0"
    "c_lastVoteEpoch s' = 0" "c_state s' = CLUSTER_FAIL" "s_panic s' = s_panic s" "c_myself s' = p"
    "c_next s' = Suc p" "nd s' p = f n" "EvSaveConfig True \<in> set (s_out s')"
    unfolding s'_def using s3(9,10)
    by (simp_all add: s3 f_def nd_upd_node upd_config)
  have f: "n_name (f n) = name" "n_slots (f n) = emptyBitmap" "n_numslots (f n) = 0" "n_configEpoch (f n) = 0"
    "n_flags (f n) = (if s_slave_no_failover s3 then 0x211 else 0x11)"
    by (simp_all add: f_def n_def newClusterNode_def flag_simps)
  show live: "live s' = {c_myself s'}" by (simp add: live_def dictVals_def nodes)
  show "cluster_ok s'"
    by (simp add: cluster_ok_def names_ok_def slots_ok_def live nodes f dictOk_def)
  have me: "me s' = f n" by (simp add: me_def nodes)
  show "nodeIsMaster (me s')" "\<not> nodeIsSlave (me s')" "\<not> nodeInHandshake (me s')"
    unfolding node_tests me f by (simp_all add: flag_simps hasFlag_simps)
  show "length (n_name (me s')) = CLUSTER_NAMELEN" "n_numslots (me s') = 0" "n_configEpoch (me s') = 0"
    by (simp_all add: me f name)
  show "c_slots s' = (\<lambda>_. None)" "c_currentEpoch s' = 0" "c_lastVoteEpoch s' = 0" "c_state s' = CLUSTER_FAIL"
    "s_panic s' = s_panic s" "EvSaveConfig True \<in> set (s_out s')"
    by (simp_all add: nodes)
qed

text \<open>The default configuration starts.\<close>

theorem first_start_witness:
  "let s = clusterInit (\<lambda>_. None) zeroServer in
   cluster_ok s \<and> live s = {c_myself s} \<and> nodeIsMaster (me s) \<and> s_panic s = None"
  using first_start [of "\<lambda>_. None" zeroServer]
  by (simp add: Let_def zeroServer_def)

section \<open>Reset\<close>

lemma delSlots_all:
  assumes "cluster_ok s" and "\<forall>j \<in> set js. j < CLUSTER_SLOTS"
  defines "s' \<equiv> fold (\<lambda>j s. snd (clusterDelSlot j s)) js s"
  shows "cluster_ok s'" and "live s' = live s" and "c_myself s' = c_myself s" and "c_nodes s' = c_nodes s"
    and "c_slots s' = (\<lambda>j. if j \<in> set js then None else c_slots s j)" and "s_panic s' = s_panic s"
    and "roles s' = roles s"
proof -
  have "cluster_ok s' \<and> live s' = live s \<and> c_myself s' = c_myself s \<and> c_nodes s' = c_nodes s \<and>
    c_slots s' = (\<lambda>j. if j \<in> set js then None else c_slots s j) \<and> s_panic s' = s_panic s \<and> roles s' = roles s"
    using assms(1,2) unfolding s'_def
  proof (induction js arbitrary: s)
    case (Cons j js)
    have j: "j < CLUSTER_SLOTS" and js: "\<forall>j \<in> set js. j < CLUSTER_SLOTS" using Cons.prems by auto
    have "slots_ok s" using Cons.prems by (simp add: cluster_ok_def)
    note step = clusterDelSlot_ok [OF Cons.prems(1) j] clusterSlot_panic(2) [OF this j]
    show ?case using Cons.IH [OF step(1) js] step(2) by (auto simp: fun_eq_iff)
  qed simp
  then show "cluster_ok s'" and "live s' = live s" and "c_myself s' = c_myself s" and "c_nodes s' = c_nodes s"
    and "c_slots s' = (\<lambda>j. if j \<in> set js then None else c_slots s j)" and "s_panic s' = s_panic s"
    and "roles s' = roles s" by blast+
qed

text \<open>The part of a reset that makes this node a master.\<close>

definition turnMaster :: "redisServer \<Rightarrow> redisServer" where
  "turnMaster s = (if nodeIsSlave (me s)
     then emit EvEmptyDb ((replicationUnsetMaster (clusterSetNodeAsMaster (c_myself s) s))\<lparr>s_db0 := []\<rparr>)
     else s)"

lemma turnMaster_core: "core (turnMaster s) = core s"
  by (simp add: turnMaster_def frame_simps)

lemma setNodeAsMaster_master: "nodeIsMaster (nd (clusterSetNodeAsMaster p s) p)"
proof -
  have "nodeIsMaster (nd (clusterDoBeforeSleep w (upd_node p (\<lambda>n. n\<lparr>n_slaveof := None\<rparr>)
      (upd_node p (setFlag CLUSTER_NODE_MASTER) s'))) p)" for w s'
    by (simp add: nd_upd_node nodeIsMaster_def hasFlag_set flag_simps hasFlag_simps)
  then show ?thesis by (auto simp: clusterSetNodeAsMaster_def Let_def)
qed

lemma nd_replication [simp]:
  "nd (replicationUnsetMaster s) = nd s" "nd (s\<lparr>s_db0 := d\<rparr>) = nd s" "nd (emit e s) = nd s"
  "c_myself (replicationUnsetMaster s) = c_myself s" "s_panic (replicationUnsetMaster s) = s_panic s"
  by (auto simp: replicationUnsetMaster_def emit_def nd_def fun_eq_iff)

lemma setNodeAsMaster_panic [simp]:
  "s_panic (clusterSetNodeAsMaster p s) = s_panic s" "c_myself (clusterSetNodeAsMaster p s) = c_myself s"
  by (simp_all add: clusterSetNodeAsMaster_def clusterNodeRemoveSlave_def clusterDoBeforeSleep_def Let_def
      split: option.split)

lemma closeAllSlots_fields:
  "nd (clusterCloseAllSlots s) = nd s" "c_myself (clusterCloseAllSlots s) = c_myself s"
  "s_panic (clusterCloseAllSlots s) = s_panic s" "c_nodes (clusterCloseAllSlots s) = c_nodes s"
  by (simp_all add: clusterCloseAllSlots_def nd_def fun_eq_iff)

lemma turnMaster_effect:
  assumes "nodeIsMaster (me s) \<or> nodeIsSlave (me s)"
  shows "nodeIsMaster (me (turnMaster s))" and "s_panic (turnMaster s) = s_panic s"
    and "nodeIsSlave (me s) \<Longrightarrow> s_db0 (turnMaster s) = []"
    and "\<not> nodeIsSlave (me s) \<Longrightarrow> turnMaster s = s"
  using assms setNodeAsMaster_master [of "c_myself s" s]
  by (auto simp: turnMaster_def me_def) (simp_all add: emit_def)

text \<open>The table of a node that knows only itself, renamed by a hard reset.\<close>

definition rekeyMyself :: "redisServer \<Rightarrow> redisServer" where
  "rekeyMyself s =
     (let sc = s\<lparr>c_nodes := dictDelete (c_nodes s) (n_name (me s))\<rparr>;
          (name, sd) = getRandomHexChars CLUSTER_NAMELEN sc;
          se = upd_node (c_myself sd) (\<lambda>n. n\<lparr>n_name := name\<rparr>) sd
      in clusterAddNode (c_myself se) se)"

lemma rekeyMyself_effect:
  assumes ok: "cluster_ok s" and alone: "live s = {c_myself s}"
  shows "cluster_ok (rekeyMyself s)" and "live (rekeyMyself s) = {c_myself s}"
    and "c_myself (rekeyMyself s) = c_myself s" and "c_slots (rekeyMyself s) = c_slots s"
    and "s_panic (rekeyMyself s) = s_panic s" and "n_flags (me (rekeyMyself s)) = n_flags (me s)"
    and "c_currentEpoch (rekeyMyself s) = c_currentEpoch s"
    and "c_lastVoteEpoch (rekeyMyself s) = c_lastVoteEpoch s"
    and "n_configEpoch (me (rekeyMyself s)) = n_configEpoch (me s)"
    and "length (n_name (me (rekeyMyself s))) = CLUSTER_NAMELEN" and "s_db0 (rekeyMyself s) = s_db0 s"
proof -
  have names: "names_ok s" using ok by (simp add: cluster_ok_def)
  let ?sc = "s\<lparr>c_nodes := dictDelete (c_nodes s) (n_name (me s))\<rparr>"
  obtain name sd where r: "getRandomHexChars CLUSTER_NAMELEN ?sc = (name, sd)" by force
  note name = random_name [OF r]
  have "e \<notin> set (dictDelete (c_nodes s) (n_name (me s)))" for e
  proof
    assume "e \<in> set (dictDelete (c_nodes s) (n_name (me s)))"
    then have e: "e \<in> set (c_nodes s)" "fst e \<noteq> n_name (me s)" by (auto simp: set_dictDelete)
    then have "snd e \<in> live s" by (auto simp: live_def dictVals_def)
    then have "snd e = c_myself s" using alone by simp
    then show False using entry_iff [OF names _ e(1), of "c_myself s"] e(2) alone by (simp add: me_def)
  qed
  then have none: "dictDelete (c_nodes s) (n_name (me s)) = []" by (metis list.set_sel(1))
  have sd: "sd = s\<lparr>c_nodes := [], s_rnd_pos := s_rnd_pos sd\<rparr>"
    using name none by simp
  define se where "se = upd_node (c_myself sd) (\<lambda>n. n\<lparr>n_name := name\<rparr>) sd"
  have se: "se = s\<lparr>c_nodes := [], s_rnd_pos := s_rnd_pos sd,
      c_mem := (c_mem s)(c_myself s := (c_mem s (c_myself s))\<lparr>n_name := name\<rparr>)\<rparr>"
    unfolding se_def by (subst sd, subst (2) sd, subst (3) sd) (simp add: upd_node_def)
  have my: "c_myself sd = c_myself s" by (subst sd) simp
  have s': "rekeyMyself s = se\<lparr>c_nodes := [(name, c_myself s)]\<rparr>"
    by (simp add: rekeyMyself_def r Let_def se_def [symmetric])
      (simp add: clusterAddNode_def se nd_def dictFind_def Let_def my)
  have f: "c_nodes (rekeyMyself s) = [(name, c_myself s)]" "c_slots (rekeyMyself s) = c_slots s"
    "c_myself (rekeyMyself s) = c_myself s" "s_panic (rekeyMyself s) = s_panic s"
    "c_next (rekeyMyself s) = c_next s" "c_currentEpoch (rekeyMyself s) = c_currentEpoch s"
    "c_lastVoteEpoch (rekeyMyself s) = c_lastVoteEpoch s" "s_db0 (rekeyMyself s) = s_db0 s"
    "nd (rekeyMyself s) (c_myself s) = (nd s (c_myself s))\<lparr>n_name := name\<rparr>"
    by (simp_all add: s' se nd_def)
  show live: "live (rekeyMyself s) = {c_myself s}" by (simp add: live_def dictVals_def f)
  show "cluster_ok (rekeyMyself s)"
    using ok alone unfolding cluster_ok_def names_ok_def slots_ok_def live
    by (simp add: f dictOk_def)
  show "c_slots (rekeyMyself s) = c_slots s" "c_myself (rekeyMyself s) = c_myself s"
    "s_panic (rekeyMyself s) = s_panic s" "c_currentEpoch (rekeyMyself s) = c_currentEpoch s"
    "c_lastVoteEpoch (rekeyMyself s) = c_lastVoteEpoch s" "s_db0 (rekeyMyself s) = s_db0 s"
    "n_flags (me (rekeyMyself s)) = n_flags (me s)" "n_configEpoch (me (rekeyMyself s)) = n_configEpoch (me s)"
    "length (n_name (me (rekeyMyself s))) = CLUSTER_NAMELEN"
    using name by (simp_all add: f me_def)
qed

lemma hard_reset_prepare:
  assumes "cluster_ok s"
  defines "s' \<equiv> set_my_epoch 0 (s\<lparr>c_currentEpoch := 0, c_lastVoteEpoch := 0\<rparr>)"
  shows "cluster_ok s'" and "live s' = live s" and "c_myself s' = c_myself s" and "c_slots s' = c_slots s"
    and "s_panic s' = s_panic s" and "n_flags (me s') = n_flags (me s)" and "c_currentEpoch s' = 0"
    and "c_lastVoteEpoch s' = 0" and "n_configEpoch (me s') = 0"
proof -
  have c: "core s' = core s" by (simp add: s'_def frame_simps)
  show "cluster_ok s'" by (rule cluster_ok_keep [OF assms(1) c])
  show "live s' = live s" by (rule live_core [OF c])
qed (simp_all add: s'_def set_my_epoch_def me_def nd_upd_node nd_def)



end
