(* ===== verification/ClusterHealth.thy ===== *)
theory ClusterHealth
  imports ClusterConfig
begin

text \<open>
  The state of the cluster as this node judges it (src/server/src/cluster.c,
  \<open>clusterUpdateState\<close>) and the check of the loaded data against the slot table
  (\<open>verifyClusterConfigWithData\<close>). The two static variables of \<open>clusterUpdateState\<close> are
  \<open>s_first_call_time\<close> and \<open>s_among_minority_time\<close>.
\<close>

section \<open>The state of the cluster\<close>

definition CLUSTER_MAX_REJOIN_DELAY :: int where "CLUSTER_MAX_REJOIN_DELAY = 5000"
definition CLUSTER_MIN_REJOIN_DELAY :: int where "CLUSTER_MIN_REJOIN_DELAY = 500"
definition CLUSTER_WRITABLE_DELAY :: int where "CLUSTER_WRITABLE_DELAY = 2000"

definition slotUncovered :: "redisServer \<Rightarrow> nat \<Rightarrow> bool" where
  "slotUncovered s j =
     (case c_slots s j of None \<Rightarrow> True | Some p \<Rightarrow> hasFlag (n_flags (nd s p)) CLUSTER_NODE_FAIL)"

definition servingMaster :: "clusterNode \<Rightarrow> bool" where
  "servingMaster n \<longleftrightarrow> nodeIsMaster n \<and> n_numslots n \<noteq> 0"

text \<open>The loop over the nodes: the cluster size and the number of reachable masters.\<close>

definition countMasters :: "redisServer \<Rightarrow> int \<times> int" where
  "countMasters s =
     fold (\<lambda>p (size, reachable).
             if servingMaster (nd s p)
             then (size + 1, if \<not> hasFlag (n_flags (nd s p)) (CLUSTER_NODE_FAIL OR CLUSTER_NODE_PFAIL)
                             then reachable + 1 else reachable)
             else (size, reachable))
       (dictVals (c_nodes s)) (0, 0)"

text \<open>The end of \<open>clusterUpdateState\<close>: adopt the new state, or not yet.\<close>

definition changeState :: "cluster_health \<Rightarrow> redisServer \<Rightarrow> redisServer" where
  "changeState new_state s =
     (if new_state \<noteq> c_state s
      then
        let d1 = s_node_timeout s;
            d2 = (if d1 > CLUSTER_MAX_REJOIN_DELAY then CLUSTER_MAX_REJOIN_DELAY else d1);
            rejoin_delay = (if d2 < CLUSTER_MIN_REJOIN_DELAY then CLUSTER_MIN_REJOIN_DELAY else d2)
        in if new_state = CLUSTER_OK \<and> nodeIsMaster (me s) \<and>
              s_mstime s - s_among_minority_time s < rejoin_delay
           then s else s\<lparr>c_state := new_state\<rparr>
      else s)"

definition clusterUpdateState :: "redisServer \<Rightarrow> redisServer" where
  "clusterUpdateState s =
     (let s1 = s\<lparr>c_todo_before_sleep := c_todo_before_sleep s AND NOT CLUSTER_TODO_UPDATE_STATE\<rparr>;
          s2 = (if s_first_call_time s1 = 0 then s1\<lparr>s_first_call_time := s_mstime s1\<rparr> else s1)
      in if nodeIsMaster (me s2) \<and> c_state s2 = CLUSTER_FAIL \<and>
            s_mstime s2 - s_first_call_time s2 < CLUSTER_WRITABLE_DELAY then s2
         else
           let st1 = (if s_require_full_coverage s2 \<and> list_ex (slotUncovered s2) [0..<CLUSTER_SLOTS]
                      then CLUSTER_FAIL else CLUSTER_OK);
               (size, reachable_masters) = countMasters s2;
               s3 = s2\<lparr>c_size := size\<rparr>;
               needed_quorum = c_size s3 div 2 + 1
           in if reachable_masters < needed_quorum
              then changeState CLUSTER_FAIL (s3\<lparr>s_among_minority_time := s_mstime s3\<rparr>)
              else changeState st1 s3)"

section \<open>Data and configuration\<close>

definition verifySlot :: "nat \<Rightarrow> nat \<times> redisServer \<Rightarrow> nat \<times> redisServer" where
  "verifySlot j = (\<lambda>(update_config, s).
     if countKeysInSlot j s = 0 then (update_config, s)
     else if c_slots s j = Some (c_myself s) \<or> c_importing_slots_from s j \<noteq> None then (update_config, s)
     else case c_slots s j of
            None \<Rightarrow> (Suc update_config, snd (clusterAddSlot (c_myself s) j s))
          | Some p \<Rightarrow> (Suc update_config,
              s\<lparr>c_importing_slots_from := (c_importing_slots_from s)(j := Some p)\<rparr>))"

definition verifyClusterConfigWithData :: "redisServer \<Rightarrow> retcode \<times> redisServer" where
  "verifyClusterConfigWithData s =
     (if hasFlag (s_module_flags s) CLUSTER_MODULE_FLAG_NO_REDIRECTION then (C_OK, s)
      else if nodeIsSlave (me s) then (C_OK, s)
      else if list_ex (\<lambda>n. n \<noteq> 0) (s_other_dbs s) then (C_ERR, s)
      else
        let (update_config, s1) = fold verifySlot [0..<CLUSTER_SLOTS] (0, s)
        in (C_OK, if update_config \<noteq> 0 then clusterSaveConfigOrDie True s1 else s1))"

section \<open>The judgement as a function of the tables\<close>

text \<open>
  The number of masters that serve slots, and of those that are reachable, without a loop:
  they do not depend on the order in which the table is walked.
\<close>

definition masters :: "redisServer \<Rightarrow> nid set" where
  "masters s = {p \<in> live s. servingMaster (nd s p)}"

definition reachableMasters :: "redisServer \<Rightarrow> nid set" where
  "reachableMasters s = {p \<in> masters s. \<not> nodeFailed (nd s p) \<and> \<not> nodeTimedOut (nd s p)}"

lemma countMasters_fold:
  "fold (\<lambda>p (size, reachable).
       if P p then (size + 1, if Q p then reachable + 1 else reachable) else (size, reachable))
     ps (a :: int, b :: int)
   = (a + int (length (filter P ps)), b + int (length (filter (\<lambda>p. P p \<and> Q p) ps)))"
  by (induction ps arbitrary: a b) auto

lemma countMasters_card:
  assumes "names_ok s"
  shows "countMasters s = (int (card (masters s)), int (card (reachableMasters s)))"
proof -
  let ?d = "dictVals (c_nodes s)"
  have len: "length (filter P ?d) = card {p \<in> live s. P p}" for P
    using names_ok_distinct [OF assms] by (simp add: live_def distinct_length_filter Int_def conj_commute)
  have "(\<lambda>p. servingMaster (nd s p) \<and> \<not> hasFlag (n_flags (nd s p)) (CLUSTER_NODE_FAIL OR CLUSTER_NODE_PFAIL))
      = (\<lambda>p. servingMaster (nd s p) \<and> \<not> nodeFailed (nd s p) \<and> \<not> nodeTimedOut (nd s p))"
    by (auto simp: node_tests hasFlag_OR)
  moreover have "{p \<in> live s. servingMaster (nd s p) \<and> \<not> nodeFailed (nd s p) \<and> \<not> nodeTimedOut (nd s p)}
      = reachableMasters s"
    by (auto simp: reachableMasters_def masters_def)
  ultimately show ?thesis
    unfolding countMasters_def countMasters_fold by (simp add: len masters_def [symmetric])
qed

definition coverage :: "redisServer \<Rightarrow> bool" where
  "coverage s \<longleftrightarrow> (\<forall>j < CLUSTER_SLOTS. \<exists>p. c_slots s j = Some p \<and> \<not> nodeFailed (nd s p))"

lemma coverage_iff: "coverage s \<longleftrightarrow> \<not> list_ex (slotUncovered s) [0..<CLUSTER_SLOTS]"
proof -
  have "\<not> slotUncovered s j \<longleftrightarrow> (\<exists>p. c_slots s j = Some p \<and> \<not> nodeFailed (nd s p))" for j
    by (auto simp: slotUncovered_def nodeFailed_def split: option.splits)
  then show ?thesis unfolding coverage_def list_ex_iff by auto
qed

definition majorityUp :: "redisServer \<Rightarrow> bool" where
  "majorityUp s \<longleftrightarrow> 2 * card (reachableMasters s) > card (masters s)"

lemma majority_quorum: "majorityUp s \<longleftrightarrow> \<not> int (card (reachableMasters s)) < int (card (masters s)) div 2 + 1"
  unfolding majorityUp_def by linarith

definition rejoinDelay :: "redisServer \<Rightarrow> int" where
  "rejoinDelay s = max CLUSTER_MIN_REJOIN_DELAY (min CLUSTER_MAX_REJOIN_DELAY (s_node_timeout s))"

lemma updateState_core [frame_simps]: "core (clusterUpdateState s) = core s"
  by (simp add: clusterUpdateState_def changeState_def frame_simps Let_def case_prod_beta)

lemma updateState_panic [simp]: "s_panic (clusterUpdateState s) = s_panic s"
  by (simp add: clusterUpdateState_def changeState_def Let_def case_prod_beta)

text \<open>The conditions of \<open>clusterUpdateState\<close> in the terms above.\<close>

definition stateWaits :: "redisServer \<Rightarrow> bool" where
  "stateWaits s \<longleftrightarrow> nodeIsMaster (me s) \<and> c_state s = CLUSTER_FAIL \<and>
     (if s_first_call_time s = 0 then 0 < CLUSTER_WRITABLE_DELAY
      else s_mstime s - s_first_call_time s < CLUSTER_WRITABLE_DELAY)"

definition stateGood :: "redisServer \<Rightarrow> bool" where
  "stateGood s \<longleftrightarrow> (s_require_full_coverage s \<longrightarrow> coverage s) \<and> majorityUp s"

text \<open>
  C31. How a node judges the cluster. A master that has just started keeps its state for two
  seconds. Otherwise the cluster size becomes the number of masters that serve slots, whatever
  the order of the node table, and the cluster is up exactly when a majority of those masters is
  reachable and, if full coverage is required, every slot is served by a node that is not
  failing; only a master that was down and saw a minority less than the rejoin delay ago stays
  down. No other part of the tables changes.
\<close>

theorem cluster_state_judgement:
  assumes ok: "names_ok s"
  defines "s' \<equiv> clusterUpdateState s"
  shows "(c_state s' =
      (if stateWaits s then c_state s
       else if \<not> stateGood s then CLUSTER_FAIL
       else if c_state s = CLUSTER_FAIL \<and> nodeIsMaster (me s) \<and>
               s_mstime s - s_among_minority_time s < rejoinDelay s then CLUSTER_FAIL
       else CLUSTER_OK)) \<and>
         (c_size s' = (if stateWaits s then c_size s else int (card (masters s)))) \<and>
         core s' = core s"
proof (intro conjI)
  define s2 where "s2 = (let s1 = s\<lparr>c_todo_before_sleep := c_todo_before_sleep s AND NOT CLUSTER_TODO_UPDATE_STATE\<rparr>
      in if s_first_call_time s1 = 0 then s1\<lparr>s_first_call_time := s_mstime s1\<rparr> else s1)"
  have s2: "nd s2 = nd s" "live s2 = live s" "c_slots s2 = c_slots s" "c_state s2 = c_state s"
    "c_size s2 = c_size s" "c_myself s2 = c_myself s" "s_mstime s2 = s_mstime s" "c_nodes s2 = c_nodes s"
    "s_node_timeout s2 = s_node_timeout s" "s_among_minority_time s2 = s_among_minority_time s"
    "s_require_full_coverage s2 = s_require_full_coverage s" "me s2 = me s"
    by (simp_all add: s2_def Let_def nd_def live_def me_def fun_eq_iff)
  have "stateWaits s \<longleftrightarrow> nodeIsMaster (me s2) \<and> c_state s2 = CLUSTER_FAIL \<and>
      s_mstime s2 - s_first_call_time s2 < CLUSTER_WRITABLE_DELAY"
    unfolding stateWaits_def s2(4,7,12) by (simp add: s2_def Let_def)
  note waits = this [symmetric]
  have count: "countMasters s2 = (int (card (masters s)), int (card (reachableMasters s)))"
    using countMasters_card [OF ok] by (simp only: countMasters_def s2)
  have cover: "list_ex (slotUncovered s2) [0..<CLUSTER_SLOTS] \<longleftrightarrow> \<not> coverage s"
  proof -
    have "slotUncovered s2 = slotUncovered s"
      by (auto simp: slotUncovered_def fun_eq_iff s2 split: option.split)
    then show ?thesis using coverage_iff [of s] by simp
  qed
  let ?s3 = "s2\<lparr>c_size := int (card (masters s))\<rparr>"
  have s': "s' = (if stateWaits s then s2
      else if majorityUp s
      then changeState (if s_require_full_coverage s \<and> \<not> coverage s then CLUSTER_FAIL else CLUSTER_OK) ?s3
      else changeState CLUSTER_FAIL (?s3\<lparr>s_among_minority_time := s_mstime s2\<rparr>))"
  proof -
    have "\<not> majorityUp s \<longleftrightarrow> int (card (reachableMasters s)) < int (card (masters s)) div 2 + 1"
      by (simp add: majority_quorum)
    note q = this [symmetric]
    have "s' = (if nodeIsMaster (me s2) \<and> c_state s2 = CLUSTER_FAIL \<and>
          s_mstime s2 - s_first_call_time s2 < CLUSTER_WRITABLE_DELAY then s2
      else if int (card (reachableMasters s)) < int (card (masters s)) div 2 + 1
      then changeState CLUSTER_FAIL (?s3\<lparr>s_among_minority_time := s_mstime s2\<rparr>)
      else changeState (if s_require_full_coverage s2 \<and> list_ex (slotUncovered s2) [0..<CLUSTER_SLOTS]
                      then CLUSTER_FAIL else CLUSTER_OK) ?s3)"
      unfolding s'_def clusterUpdateState_def
      by (simp only: Let_def s2_def [unfolded Let_def, symmetric] count prod.case) simp
    then show ?thesis unfolding waits q cover s2(11) by simp
  qed
  have ch: "c_size (changeState st t) = c_size t"
    "c_state (changeState st t) = (if c_state t = CLUSTER_FAIL \<and> st = CLUSTER_OK \<and> nodeIsMaster (me t) \<and>
        s_mstime t - s_among_minority_time t < rejoinDelay t then CLUSTER_FAIL else st)" for st t
    by (cases st; cases "c_state t"; simp add: changeState_def rejoinDelay_def Let_def min_def max_def)+
  have m: "me (s2\<lparr>c_size := z\<rparr>) = me s" "rejoinDelay (s2\<lparr>c_size := z\<rparr>) = rejoinDelay s" for z
    using s2(9,12) by (simp_all add: me_def nd_def rejoinDelay_def)
  show "c_state s' =
      (if stateWaits s then c_state s
       else if \<not> stateGood s then CLUSTER_FAIL
       else if c_state s = CLUSTER_FAIL \<and> nodeIsMaster (me s) \<and>
               s_mstime s - s_among_minority_time s < rejoinDelay s then CLUSTER_FAIL
       else CLUSTER_OK)"
    unfolding s'
    by (cases "s_require_full_coverage s"; cases "coverage s"; simp add: ch m s2 stateGood_def)
  show "c_size s' = (if stateWaits s then c_size s else int (card (masters s)))"
    unfolding s' by (simp add: ch s2)
  show "core s' = core s" by (simp add: s'_def frame_simps)
qed

text \<open>
  Ten seconds after the start, without required coverage: a master serving slot 5 turns the
  cluster up.
\<close>

definition serving_pair :: redisServer where
  "serving_pair = pair_cluster (node_a\<lparr>n_slots := bitmap_5, n_numslots := 1\<rparr>) node_b_master
     \<lparr>s_mstime := 10000, s_first_call_time := 1, s_require_full_coverage := False\<rparr>"

lemma serving_pair_fields [simp]:
  "live serving_pair = {0, 1}" "nd serving_pair 0 = node_a\<lparr>n_slots := bitmap_5, n_numslots := 1, n_name := nameA\<rparr>"
  "nd serving_pair (Suc 0) = node_b_master\<lparr>n_name := nameB\<rparr>" "c_myself serving_pair = 0"
  "c_state serving_pair = CLUSTER_FAIL" "s_mstime serving_pair = 10000"
  "s_first_call_time serving_pair = 1" "\<not> s_require_full_coverage serving_pair"
  "s_among_minority_time serving_pair = 0" "s_node_timeout serving_pair = 15000"
  "c_nodes serving_pair = [(nameA, 0), (nameB, 1)]" "c_next serving_pair = 2"
  by (simp_all add: serving_pair_def pair_cluster_def zeroServer_def nd_def live_def dictVals_def)

lemma serving_pair_flags:
  "n_flags node_a = 17" "n_flags node_b_master = 1" "n_numslots node_b_master = 0"
  by (simp_all add: node_a_def node_b_master_def zeroNode_def flag_simps)

theorem cluster_state_judgement_witness:
  "c_state serving_pair = CLUSTER_FAIL \<and> c_state (clusterUpdateState serving_pair) = CLUSTER_OK \<and>
   c_size (clusterUpdateState serving_pair) = 1"
proof -
  have ok: "names_ok serving_pair" by (simp add: names_ok_def dictOk_def)
  have "masters serving_pair = {0}" "reachableMasters serving_pair = {0}"
    by (auto simp: masters_def reachableMasters_def servingMaster_def node_tests serving_pair_flags
        flag_simps hasFlag_simps)
  moreover have "nodeIsMaster (me serving_pair)"
    by (simp add: me_def node_tests serving_pair_flags flag_simps hasFlag_simps)
  ultimately show ?thesis
    using cluster_state_judgement [OF ok]
    by (simp add: stateWaits_def stateGood_def majorityUp_def rejoinDelay_def CLUSTER_WRITABLE_DELAY_def
        CLUSTER_MAX_REJOIN_DELAY_def CLUSTER_MIN_REJOIN_DELAY_def)
qed

section \<open>Data without a slot is taken over or marked as imported\<close>

definition strayKeys :: "redisServer \<Rightarrow> nat \<Rightarrow> bool" where
  "strayKeys s j \<longleftrightarrow> countKeysInSlot j s \<noteq> 0 \<and> c_slots s j \<noteq> Some (c_myself s) \<and>
     c_importing_slots_from s j = None"

lemma countKeys_db: "s_db0 s' = s_db0 s \<Longrightarrow> countKeysInSlot j s' = countKeysInSlot j s"
  by (simp add: countKeysInSlot_def)

lemma verifySlot_effect:
  assumes "verifySlot j (n, s) = (n', s')"
  shows "c_slots s' = (if strayKeys s j \<and> c_slots s j = None then (c_slots s)(j := Some (c_myself s)) else c_slots s)"
    and "c_importing_slots_from s' = (if strayKeys s j \<and> c_slots s j \<noteq> None
           then (c_importing_slots_from s)(j := c_slots s j) else c_importing_slots_from s)"
    and "s_db0 s' = s_db0 s" and "c_myself s' = c_myself s" and "live s' = live s"
    and "n' = (if strayKeys s j then Suc n else n)"
  using assms
  by (auto simp: verifySlot_def strayKeys_def live_def clusterSlot_fields fun_eq_iff
      split: if_splits option.splits)

lemma verifySlot_ok:
  assumes "cluster_ok s" and "j < CLUSTER_SLOTS"
  shows "cluster_ok (snd (verifySlot j (n, s)))"
proof -
  have my: "c_myself s \<in> live s" using assms(1) by (simp add: cluster_ok_def names_ok_def)
  have "cluster_ok (s\<lparr>c_importing_slots_from := f\<rparr>)" for f
    by (rule cluster_ok_keep [OF assms(1)]) (rule core_frames)
  then show ?thesis
    using assms clusterAddSlot_ok [OF assms(1) my assms(2)]
    by (auto simp: verifySlot_def split: option.split)
qed

lemma verifySlots_fold:
  assumes "cluster_ok s" and "distinct js" and "\<forall>j \<in> set js. j < CLUSTER_SLOTS"
  shows "cluster_ok (snd (fold verifySlot js (n, s))) \<and>
    c_myself (snd (fold verifySlot js (n, s))) = c_myself s \<and>
    s_db0 (snd (fold verifySlot js (n, s))) = s_db0 s \<and>
    c_slots (snd (fold verifySlot js (n, s))) =
      (\<lambda>j. if j \<in> set js \<and> strayKeys s j \<and> c_slots s j = None then Some (c_myself s) else c_slots s j) \<and>
    c_importing_slots_from (snd (fold verifySlot js (n, s))) =
      (\<lambda>j. if j \<in> set js \<and> strayKeys s j then c_slots s j else c_importing_slots_from s j) \<and>
    (fst (fold verifySlot js (n, s)) = n \<longleftrightarrow> (\<forall>j \<in> set js. \<not> strayKeys s j)) \<and>
    n \<le> fst (fold verifySlot js (n, s))"
  using assms
proof (induction js arbitrary: n s)
  case (Cons j js)
  obtain n' s' where v: "verifySlot j (n, s) = (n', s')" by force
  note e = verifySlot_effect [OF v]
  have ok: "cluster_ok s'" using verifySlot_ok [OF Cons.prems(1), of j n] Cons.prems v by simp
  have stray: "strayKeys s' i = strayKeys s i" "c_slots s' i = c_slots s i" if "i \<in> set js" for i
    using that Cons.prems(2) e by (auto simp: strayKeys_def countKeys_db [OF e(3)])
  have "distinct js" "\<forall>j \<in> set js. j < CLUSTER_SLOTS" using Cons.prems by auto
  note IH = Cons.IH [OF ok this, of n']
  let ?f = "fold verifySlot js (n', s')"
  have I: "cluster_ok (snd ?f)" "c_myself (snd ?f) = c_myself s'" "s_db0 (snd ?f) = s_db0 s'"
    "c_slots (snd ?f) = (\<lambda>j. if j \<in> set js \<and> strayKeys s' j \<and> c_slots s' j = None
       then Some (c_myself s') else c_slots s' j)"
    "c_importing_slots_from (snd ?f) =
      (\<lambda>j. if j \<in> set js \<and> strayKeys s' j then c_slots s' j else c_importing_slots_from s' j)"
    "fst ?f = n' \<longleftrightarrow> (\<forall>j \<in> set js. \<not> strayKeys s' j)" "n' \<le> fst ?f"
    using IH by blast+
  have j: "j \<notin> set js" using Cons.prems by simp
  have fd: "fold verifySlot (j # js) (n, s) = ?f" by (simp add: v)
  have all: "(\<forall>i \<in> set js. \<not> strayKeys s' i) \<longleftrightarrow> (\<forall>i \<in> set js. \<not> strayKeys s i)" using stray by auto
  show ?case
    unfolding fd
  proof (intro conjI)
    show "cluster_ok (snd ?f)" by (rule I(1))
    show "c_myself (snd ?f) = c_myself s" by (simp only: I(2) e(4))
    show "s_db0 (snd ?f) = s_db0 s" by (simp only: I(3) e(3))
    show "c_slots (snd ?f) = (\<lambda>i. if i \<in> set (j # js) \<and> strayKeys s i \<and>
        c_slots s i = None then Some (c_myself s) else c_slots s i)"
    proof
      have "c_slots s' i = (if i = j \<and> strayKeys s j \<and> c_slots s j = None then Some (c_myself s) else c_slots s i)" for i
        by (simp add: e(1))
      then show "c_slots (snd ?f) i = (if i \<in> set (j # js) \<and> strayKeys s i \<and>
        c_slots s i = None then Some (c_myself s) else c_slots s i)" for i
        unfolding I(4) e(4) using stray [of i] j by (cases "i \<in> set js") auto
    qed
    show "c_importing_slots_from (snd ?f) =
        (\<lambda>i. if i \<in> set (j # js) \<and> strayKeys s i then c_slots s i else c_importing_slots_from s i)"
    proof
      have "strayKeys s j \<Longrightarrow> c_importing_slots_from s j = None" by (simp add: strayKeys_def)
      then have "c_importing_slots_from s' i = (if i = j \<and> strayKeys s j then c_slots s j
          else c_importing_slots_from s i)" for i
        by (cases "c_slots s j") (simp_all add: e(2))
      then show "c_importing_slots_from (snd ?f) i =
        (if i \<in> set (j # js) \<and> strayKeys s i then c_slots s i else c_importing_slots_from s i)" for i
        unfolding I(5) using stray [of i] j by (cases "i \<in> set js") auto
    qed
    show "(fst ?f = n) = (\<forall>j \<in> set (j # js). \<not> strayKeys s j)"
      using I(6,7) e(6) all by (cases "strayKeys s j") auto
    show "n \<le> fst ?f"
      using I(7) e(6) by (cases "strayKeys s j") auto
  qed
qed simp

text \<open>
  The check at start, on a master whose other databases are empty: it succeeds; afterwards
  every slot with keys is owned by this node or marked as being imported; no slot that had an
  owner changes owner and no slot without keys changes at all; the tables stay consistent, the
  data is untouched, and a second check finds nothing to repair.
\<close>

theorem verify_config_covers_data:
  assumes ok: "cluster_ok s" and "\<not> nodeIsSlave (me s)" and "\<forall>n \<in> set (s_other_dbs s). n = 0"
    and "\<not> hasFlag (s_module_flags s) CLUSTER_MODULE_FLAG_NO_REDIRECTION"
  defines "r \<equiv> verifyClusterConfigWithData s"
  shows "fst r = C_OK \<and>
         cluster_ok (snd r) \<and>
         s_db0 (snd r) = s_db0 s \<and>
         (\<forall>k \<in> set (s_db0 s). c_slots (snd r) (keyHashSlot k) = Some (c_myself s) \<or>
           c_importing_slots_from (snd r) (keyHashSlot k) \<noteq> None) \<and>
         (\<forall>j < CLUSTER_SLOTS. c_slots s j \<noteq> None \<or> countKeysInSlot j s = 0 \<longrightarrow> c_slots (snd r) j = c_slots s j) \<and>
         (\<forall>j < CLUSTER_SLOTS. \<not> strayKeys (snd r) j)"
proof (intro conjI)
  define f where "f = fold verifySlot [0..<CLUSTER_SLOTS] (0, s)"
  have v: "cluster_ok (snd f)" "c_myself (snd f) = c_myself s" "s_db0 (snd f) = s_db0 s"
      "c_slots (snd f) = (\<lambda>j. if j \<in> set [0..<CLUSTER_SLOTS] \<and> strayKeys s j \<and> c_slots s j = None
         then Some (c_myself s) else c_slots s j)"
      "c_importing_slots_from (snd f) = (\<lambda>j. if j \<in> set [0..<CLUSTER_SLOTS] \<and> strayKeys s j
         then c_slots s j else c_importing_slots_from s j)"
    using verifySlots_fold [OF ok, of "[0..<CLUSTER_SLOTS]" 0] unfolding f_def [symmetric] by simp_all
  have "list_ex (\<lambda>n. n \<noteq> 0) (s_other_dbs s) = False" using assms(3) by (auto simp: list_ex_iff)
  then have r: "r = (C_OK, if fst f \<noteq> 0 then clusterSaveConfigOrDie True (snd f) else snd f)"
    using assms(2,4) by (simp add: r_def verifyClusterConfigWithData_def f_def case_prod_beta Let_def)
  have keep: "core (snd r) = core (snd f)" by (simp add: r frame_simps)
  have same: "c_slots (snd r) = c_slots (snd f)" "s_db0 (snd r) = s_db0 (snd f)" "c_myself (snd r) = c_myself (snd f)"
    "c_importing_slots_from (snd r) = c_importing_slots_from (snd f)"
    by (simp_all add: r clusterSaveConfigOrDie_def emit_def Let_def)
  show "fst r = C_OK" by (simp add: r)
  show "cluster_ok (snd r)" by (rule cluster_ok_keep [OF v(1) keep])
  show "s_db0 (snd r) = s_db0 s" by (simp add: same v)
  have done_: "\<not> strayKeys (snd r) j" if "j < CLUSTER_SLOTS" for j
    using that by (auto simp: strayKeys_def same v countKeys_db [OF trans [OF same(2) v(3)]])
  then show "\<forall>j < CLUSTER_SLOTS. \<not> strayKeys (snd r) j" by blast
  show "\<forall>j < CLUSTER_SLOTS. c_slots s j \<noteq> None \<or> countKeysInSlot j s = 0 \<longrightarrow> c_slots (snd r) j = c_slots s j"
    by (auto simp: same v strayKeys_def)
  show "\<forall>k \<in> set (s_db0 s). c_slots (snd r) (keyHashSlot k) = Some (c_myself s) \<or>
           c_importing_slots_from (snd r) (keyHashSlot k) \<noteq> None"
  proof
    fix k assume "k \<in> set (s_db0 s)"
    then have "countKeysInSlot (keyHashSlot k) (snd r) \<noteq> 0"
      by (auto simp: countKeysInSlot_def same v filter_empty_conv)
    then show "c_slots (snd r) (keyHashSlot k) = Some (c_myself s) \<or>
        c_importing_slots_from (snd r) (keyHashSlot k) \<noteq> None"
      using done_ [OF keyHashSlot_lt [of k]] by (auto simp: strayKeys_def same v)
  qed
qed

text \<open>A master without slots that holds one key takes its slot.\<close>

theorem verify_config_covers_data_witness:
  "let s = (pair_cluster node_a node_b_master)\<lparr>s_db0 := [''foo'']\<rparr>; r = verifyClusterConfigWithData s in
   fst r = C_OK \<and> cluster_ok (snd r) \<and> \<not> strayKeys (snd r) (keyHashSlot ''foo'')"
proof -
  let ?s = "(pair_cluster node_a node_b_master)\<lparr>s_db0 := [''foo'']\<rparr>"
  have "cluster_ok (pair_cluster node_a node_b_master)"
    by (rule pair_cluster_ok) (simp_all add: node_a_def node_b_master_def zeroNode_def)
  then have ok: "cluster_ok ?s" by (rule cluster_ok_keep) (rule core_frames)
  have "me ?s = node_a\<lparr>n_name := nameA\<rparr>" by (simp add: me_def nd_def pair_cluster_def)
  then have m: "\<not> nodeIsSlave (me ?s)" by (simp add: node_tests serving_pair_flags flag_simps hasFlag_simps)
  have o: "\<forall>n \<in> set (s_other_dbs ?s). n = 0" "\<not> hasFlag (s_module_flags ?s) CLUSTER_MODULE_FLAG_NO_REDIRECTION"
    by (simp_all add: pair_cluster_def zeroServer_def)
  note v = verify_config_covers_data [OF ok m o]
  show ?thesis unfolding Let_def using v keyHashSlot_lt [of "''foo''"] by blast
qed

end
