(* ===== verification/ClusterElection.thy ===== *)
theory ClusterElection
  imports ClusterHealth
begin

text \<open>
  Votes and failover (src/server/src/cluster.c): how a master grants its vote
  (\<open>clusterSendFailoverAuthIfNeeded\<close>), how a replica runs an election and takes over
  (\<open>clusterGetSlaveRank\<close>, \<open>clusterHandleSlaveFailover\<close>, \<open>clusterFailoverReplaceYourMaster\<close>),
  how it migrates to an orphaned master (\<open>clusterHandleSlaveMigration\<close>), and the manual failover.
\<close>

section \<open>Granting a vote\<close>

definition claimsNewerSlot :: "clusterMsg \<Rightarrow> redisServer \<Rightarrow> nat \<Rightarrow> bool" where
  "claimsNewerSlot request s j \<longleftrightarrow> bitmapTestBit (h_myslots request) j \<and>
     (case c_slots s j of None \<Rightarrow> False
                        | Some p \<Rightarrow> \<not> n_configEpoch (nd s p) \<le> h_configEpoch request)"

definition clusterSendFailoverAuthIfNeeded :: "nid \<Rightarrow> clusterMsg \<Rightarrow> redisServer \<Rightarrow> redisServer" where
  "clusterSendFailoverAuthIfNeeded node request s =
     (let master = n_slaveof (nd s node);
          force_ack = hasFlag (h_mflags0 request) CLUSTERMSG_FLAG0_FORCEACK
      in if nodeIsSlave (me s) \<or> n_numslots (me s) = 0 then s
         else if h_currentEpoch request < c_currentEpoch s then s
         else if c_lastVoteEpoch s = c_currentEpoch s then s
         else if nodeIsMaster (nd s node) then s
         else case master of
           None \<Rightarrow> s
         | Some m \<Rightarrow>
             if \<not> nodeFailed (nd s m) \<and> \<not> force_ack then s
             else if s_mstime s - n_voted_time (nd s m) < s_node_timeout s * 2 then s
             else if list_ex (claimsNewerSlot request s) [0..<CLUSTER_SLOTS] then s
             else
               let s1 = s\<lparr>c_lastVoteEpoch := c_currentEpoch s\<rparr>;
                   s2 = upd_node m (\<lambda>n. n\<lparr>n_voted_time := s_mstime s1\<rparr>) s1;
                   s3 = clusterDoBeforeSleep (CLUSTER_TODO_SAVE_CONFIG OR CLUSTER_TODO_FSYNC_CONFIG) s2
               in clusterSendFailoverAuth node s3)"

section \<open>Running an election\<close>

definition replicationGetSlaveOffset :: "redisServer \<Rightarrow> int" where
  "replicationGetSlaveOffset s = s_slave_repl_offset s"

definition clusterGetSlaveRank :: "redisServer \<Rightarrow> int \<times> redisServer" where
  "clusterGetSlaveRank s =
     (let s1 = serverAssert (nodeIsSlave (me s)) s in
      case n_slaveof (me s1) of
        None \<Rightarrow> (0, s1)
      | Some m \<Rightarrow>
          (let myoffset = replicationGetSlaveOffset s1 in
           (int (length (filter (\<lambda>q. q \<noteq> c_myself s1 \<and> \<not> nodeCantFailover (nd s1 q) \<and>
                                      n_repl_offset (nd s1 q) > myoffset) (n_slaves (nd s1 m)))), s1)))"

text \<open>
  \<open>clusterLogCantFailover\<close> records the reason; whether it also logs depends on a clock of its own
  and changes nothing else.
\<close>

definition clusterLogCantFailover :: "cant_failover \<Rightarrow> redisServer \<Rightarrow> redisServer" where
  "clusterLogCantFailover reason s = s\<lparr>c_cant_failover_reason := reason\<rparr>"

definition takeSlot :: "nid \<Rightarrow> nat \<Rightarrow> redisServer \<Rightarrow> redisServer" where
  "takeSlot oldmaster j s =
     (if clusterNodeGetSlotBit oldmaster j s
      then snd (clusterAddSlot (c_myself s) j (snd (clusterDelSlot j s))) else s)"

definition clusterFailoverReplaceYourMaster :: "redisServer \<Rightarrow> redisServer" where
  "clusterFailoverReplaceYourMaster s =
     (case n_slaveof (me s) of
        None \<Rightarrow> s
      | Some oldmaster \<Rightarrow>
          if nodeIsMaster (me s) then s
          else
            let s1 = replicationUnsetMaster (clusterSetNodeAsMaster (c_myself s) s);
                s2 = fold (takeSlot oldmaster) [0..<CLUSTER_SLOTS] s1;
                s3 = clusterSaveConfigOrDie True (clusterUpdateState s2);
                s4 = clusterBroadcastPong False s3
            in resetManualFailover s4)"

definition failoverPossible :: "bool \<Rightarrow> redisServer \<Rightarrow> bool" where
  "failoverPossible manual_failover s =
     (\<not> nodeIsMaster (me s) \<and>
      (case n_slaveof (me s) of
         None \<Rightarrow> False
       | Some m \<Rightarrow> (nodeFailed (nd s m) \<or> manual_failover) \<and>
                   (\<not> s_slave_no_failover s \<or> manual_failover) \<and> n_numslots (nd s m) \<noteq> 0))"

definition dataAge :: "redisServer \<Rightarrow> mstime_t" where
  "dataAge s =
     (let age = (if s_repl_connected s then (s_unixtime s - s_master_lastinteraction s) * 1000
                 else (s_unixtime s - s_repl_down_since s) * 1000)
      in if age > s_node_timeout s then age - s_node_timeout s else age)"

text \<open>Schedule a new election.\<close>

definition scheduleElection :: "redisServer \<Rightarrow> redisServer" where
  "scheduleElection s =
     (let (r, s1) = random_num s;
          s2 = s1\<lparr>c_failover_auth_time := s_mstime s1 + 500 + int (r mod 500),
                  c_failover_auth_count := 0, c_failover_auth_sent := False\<rparr>;
          (rank, s3) = clusterGetSlaveRank s2;
          s4 = s3\<lparr>c_failover_auth_rank := rank,
                  c_failover_auth_time := c_failover_auth_time s3 + rank * 1000\<rparr>;
          s5 = (if c_mf_end s4 \<noteq> 0
                then clusterDoBeforeSleep CLUSTER_TODO_HANDLE_FAILOVER
                       (s4\<lparr>c_failover_auth_time := s_mstime s4, c_failover_auth_rank := 0\<rparr>)
                else s4)
      in clusterBroadcastPong True s5)"

definition updateRank :: "redisServer \<Rightarrow> redisServer" where
  "updateRank s =
     (if \<not> c_failover_auth_sent s \<and> c_mf_end s = 0
      then let (newrank, s1) = clusterGetSlaveRank s in
           if newrank > c_failover_auth_rank s1
           then s1\<lparr>c_failover_auth_time := c_failover_auth_time s1 + (newrank - c_failover_auth_rank s1) * 1000,
                   c_failover_auth_rank := newrank\<rparr>
           else s1
      else s)"

definition askForVotes :: "redisServer \<Rightarrow> redisServer" where
  "askForVotes s =
     (let s1 = s\<lparr>c_currentEpoch := c_currentEpoch s + 1\<rparr>;
          s2 = s1\<lparr>c_failover_auth_epoch := c_currentEpoch s1\<rparr>;
          s3 = clusterRequestFailoverAuth s2
      in clusterDoBeforeSleep
           (CLUSTER_TODO_SAVE_CONFIG OR CLUSTER_TODO_UPDATE_STATE OR CLUSTER_TODO_FSYNC_CONFIG)
           (s3\<lparr>c_failover_auth_sent := True\<rparr>))"

definition clusterHandleSlaveFailover :: "redisServer \<Rightarrow> redisServer" where
  "clusterHandleSlaveFailover s0 =
     (let auth_age = s_mstime s0 - c_failover_auth_time s0;
          needed_quorum = c_size s0 div 2 + 1;
          manual_failover = (c_mf_end s0 \<noteq> 0 \<and> c_mf_can_start s0);
          s = s0\<lparr>c_todo_before_sleep := c_todo_before_sleep s0 AND NOT CLUSTER_TODO_HANDLE_FAILOVER\<rparr>;
          auth_timeout = max (s_node_timeout s * 2) 2000;
          auth_retry_time = auth_timeout * 2
      in if \<not> failoverPossible manual_failover s
         then s\<lparr>c_cant_failover_reason := CANT_FAILOVER_NONE\<rparr>
         else if s_slave_validity_factor s \<noteq> 0 \<and>
                 dataAge s > s_repl_ping_slave_period s * 1000 +
                             s_node_timeout s * s_slave_validity_factor s \<and>
                 \<not> manual_failover
         then clusterLogCantFailover CANT_FAILOVER_DATA_AGE s
         else if auth_age > auth_retry_time then scheduleElection s
         else
           let s1 = updateRank s in
           if s_mstime s1 < c_failover_auth_time s1
           then clusterLogCantFailover CANT_FAILOVER_WAITING_DELAY s1
           else if auth_age > auth_timeout then clusterLogCantFailover CANT_FAILOVER_EXPIRED s1
           else if \<not> c_failover_auth_sent s1 then askForVotes s1
           else if c_failover_auth_count s1 \<ge> needed_quorum
           then clusterFailoverReplaceYourMaster
                  (if n_configEpoch (me s1) < c_failover_auth_epoch s1
                   then set_my_epoch (c_failover_auth_epoch s1) s1 else s1)
           else clusterLogCantFailover CANT_FAILOVER_WAITING_VOTES s1)"

section \<open>Replica migration\<close>

definition CLUSTER_SLAVE_MIGRATION_DELAY :: int where "CLUSTER_SLAVE_MIGRATION_DELAY = 5000"

definition migrationStep ::
  "int \<Rightarrow> nid \<Rightarrow> nid option \<times> nid \<times> redisServer \<Rightarrow> nid option \<times> nid \<times> redisServer" where
  "migrationStep max_slaves p = (\<lambda>(target, candidate, s).
     let n = nd s p;
         okslaves = (if nodeIsMaster n then clusterCountNonFailingSlaves p s else 0);
         is_orphaned = (\<not> (nodeIsSlave n \<or> nodeFailed n) \<and> hasFlag (n_flags n) CLUSTER_NODE_MIGRATE_TO \<and>
                        \<not> okslaves > 0);
         target1 = (if is_orphaned \<and> target = None \<and> n_numslots n > 0 then Some p else target);
         s1 = (if is_orphaned
               then if n_orphaned_time n = 0 then upd_node p (\<lambda>n. n\<lparr>n_orphaned_time := s_mstime s\<rparr>) s else s
               else upd_node p (\<lambda>n. n\<lparr>n_orphaned_time := 0\<rparr>) s);
         candidate1 = (if okslaves = max_slaves
                       then fold (\<lambda>q c. if memcmp (n_name (nd s1 q)) (n_name (nd s1 c)) < 0 then q else c)
                              (n_slaves n) candidate
                       else candidate)
     in (target1, candidate1, s1))"

definition clusterHandleSlaveMigration :: "int \<Rightarrow> redisServer \<Rightarrow> redisServer" where
  "clusterHandleSlaveMigration max_slaves s =
     (if c_state s \<noteq> CLUSTER_OK then s
      else case n_slaveof (me s) of
        None \<Rightarrow> s
      | Some mymaster \<Rightarrow>
          if int (length (filter (\<lambda>q. \<not> nodeFailed (nd s q) \<and> \<not> nodeTimedOut (nd s q))
                            (n_slaves (nd s mymaster)))) \<le> s_migration_barrier s then s
          else
            let (target, candidate, s1) =
                  fold (migrationStep max_slaves) (dictVals (c_nodes s)) (None, c_myself s, s)
            in case target of
                 None \<Rightarrow> s1
               | Some t \<Rightarrow>
                   if candidate = c_myself s1 \<and>
                      s_mstime s1 - n_orphaned_time (nd s1 t) > CLUSTER_SLAVE_MIGRATION_DELAY \<and>
                      \<not> hasFlag (s_module_flags s1) CLUSTER_MODULE_FLAG_NO_FAILOVER
                   then clusterSetMaster t s1 else s1)"

section \<open>Manual failover\<close>

definition manualFailoverCheckTimeout :: "redisServer \<Rightarrow> redisServer" where
  "manualFailoverCheckTimeout s =
     (if c_mf_end s \<noteq> 0 \<and> c_mf_end s < s_mstime s then resetManualFailover s else s)"

definition clusterHandleManualFailover :: "redisServer \<Rightarrow> redisServer" where
  "clusterHandleManualFailover s =
     (if c_mf_end s = 0 then s
      else if c_mf_can_start s then s
      else if c_mf_master_offset s = -1 then s
      else if c_mf_master_offset s = replicationGetSlaveOffset s
      then clusterDoBeforeSleep CLUSTER_TODO_HANDLE_FAILOVER (s\<lparr>c_mf_can_start := True\<rparr>)
      else clusterDoBeforeSleep CLUSTER_TODO_HANDLE_MANUALFAILOVER s)"

section \<open>What leaves the epochs and the votes alone\<close>

text \<open>The votes among the messages sent: the link and the epoch of each.\<close>

fun votesIn :: "event list \<Rightarrow> (lid \<times> u64) list" where
  "votesIn [] = []"
| "votesIn (EvSend l m # es) =
     (if h_type m = CLUSTERMSG_TYPE_FAILOVER_AUTH_ACK then [(l, h_currentEpoch m)] else []) @ votesIn es"
| "votesIn (_ # es) = votesIn es"

lemma votesIn_append [simp]: "votesIn (es @ fs) = votesIn es @ votesIn fs"
  by (induction es rule: votesIn.induct) auto

lemma votesIn_single: "(\<And>l m. ev \<noteq> EvSend l m) \<Longrightarrow> votesIn [ev] = []"
  by (cases ev) auto

definition epochs :: "redisServer \<Rightarrow> u64 \<times> u64 \<times> (lid \<times> u64) list" where
  "epochs s = (c_currentEpoch s, c_lastVoteEpoch s, votesIn (s_out s))"

lemma epochs_emit [frame_simps]:
  "epochs (emit (EvSaveConfig b) s) = epochs s" "epochs (emit (EvReplicationSetMaster ip pt) s) = epochs s"
  "epochs (emit EvReplicationUnsetMaster s) = epochs s" "epochs (emit EvEmptyDb s) = epochs s"
  "epochs (emit (EvPauseClients t) s) = epochs s" "epochs (emit (EvConnect p) s) = epochs s"
  "epochs (emit (EvCommand p argv) s) = epochs s" "epochs (emit EvPublish s) = epochs s"
  "epochs (emit EvModule s) = epochs s"
  by (simp_all add: epochs_def emit_def)

lemma epochs_basic [frame_simps]:
  "epochs (upd_node p f s) = epochs s" "epochs (panic_with r s) = epochs s"
  "epochs (serverAssert b s) = epochs s"
  "epochs (clusterDoBeforeSleep w s) = epochs s" "epochs (clusterSaveConfigOrDie b s) = epochs s"
  "epochs (replicationSetMaster ip port s) = epochs s" "epochs (replicationUnsetMaster s) = epochs s"
  "epochs (resetManualFailover s) = epochs s" "epochs (clusterCloseAllSlots s) = epochs s"
  "epochs (clusterLogCantFailover cf s) = epochs s" "epochs (delKeysInSlot j s) = epochs s"
  "epochs (set_my_epoch e s) = epochs s" "epochs (s\<lparr>c_nodes := d\<rparr>) = epochs s"
  "epochs (s\<lparr>c_slots := sl\<rparr>) = epochs s" "epochs (s\<lparr>c_state := st\<rparr>) = epochs s"
  "epochs (s\<lparr>c_mf_end := t\<rparr>) = epochs s" "epochs (s\<lparr>c_mf_slave := sl1\<rparr>) = epochs s"
  "epochs (s\<lparr>c_mf_can_start := b\<rparr>) = epochs s" "epochs (s\<lparr>c_mf_master_offset := z\<rparr>) = epochs s"
  "epochs (s\<lparr>c_todo_before_sleep := w\<rparr>) = epochs s" "epochs (s\<lparr>c_cant_failover_reason := cf\<rparr>) = epochs s"
  "epochs (s\<lparr>c_failover_auth_count := z\<rparr>) = epochs s" "epochs (s\<lparr>c_failover_auth_time := t\<rparr>) = epochs s"
  "epochs (s\<lparr>c_failover_auth_rank := z\<rparr>) = epochs s" "epochs (s\<lparr>c_failover_auth_sent := b\<rparr>) = epochs s"
  "epochs (s\<lparr>c_failover_auth_epoch := e\<rparr>) = epochs s" "epochs (s\<lparr>c_nodes_black_list := bl\<rparr>) = epochs s"
  "epochs (s\<lparr>c_importing_slots_from := sf\<rparr>) = epochs s" "epochs (s\<lparr>c_migrating_slots_to := sf\<rparr>) = epochs s"
  "epochs (s\<lparr>c_slot_status := ss\<rparr>) = epochs s" "epochs (s\<lparr>c_stats_received := sr\<rparr>) = epochs s"
  "epochs (s\<lparr>c_stats_sent := sr\<rparr>) = epochs s" "epochs (s\<lparr>s_masterhost := mh\<rparr>) = epochs s"
  "epochs (s\<lparr>s_repl_connected := b\<rparr>) = epochs s" "epochs (s\<lparr>s_db0 := ks\<rparr>) = epochs s"
  "epochs (s\<lparr>c_links := lks\<rparr>) = epochs s" "epochs (s\<lparr>c_stats_pfail_nodes := z\<rparr>) = epochs s"
  "epochs (s\<lparr>s_iteration := it\<rparr>) = epochs s" "epochs (s\<lparr>s_prev_ip := ipo\<rparr>) = epochs s"
  "epochs (s\<lparr>c_avg_hot_point := av\<rparr>) = epochs s" "epochs (s\<lparr>s_rnd_pos := it\<rparr>) = epochs s"
  by (simp_all add: epochs_def panic_with_def serverAssert_def emit_def clusterDoBeforeSleep_def
      clusterSaveConfigOrDie_def replicationSetMaster_def replicationUnsetMaster_def Let_def
      resetManualFailover_def clusterCloseAllSlots_def clusterLogCantFailover_def delKeysInSlot_def
      set_my_epoch_def)

lemma clusterBuildMessageHdr_type [simp]: "h_type (clusterBuildMessageHdr t s) = t"
  by (simp add: clusterBuildMessageHdr_def Let_def split: prod.split)

lemma clusterBuildMessageHdr_epoch [simp]: "h_currentEpoch (clusterBuildMessageHdr t s) = c_currentEpoch s"
  by (simp add: clusterBuildMessageHdr_def Let_def split: prod.split)

lemma epochs_sendMessage:
  "h_type m \<noteq> CLUSTERMSG_TYPE_FAILOVER_AUTH_ACK \<Longrightarrow> epochs (clusterSendMessage l m s) = epochs s"
  by (simp add: clusterSendMessage_def epochs_def emit_def Let_def)

lemma epochs_broadcast:
  "h_type m \<noteq> CLUSTERMSG_TYPE_FAILOVER_AUTH_ACK \<Longrightarrow> epochs (clusterBroadcastMessage m s) = epochs s"
  unfolding clusterBroadcastMessage_def
  by (rule fold_keeps_field) (simp add: epochs_sendMessage split: option.split)

lemma epochs_random [frame_simps]:
  "epochs (snd (random_num s)) = epochs s" "epochs (snd (randomNode s)) = epochs s"
  "epochs (snd (getRandomHexChars k s)) = epochs s" "epochs (snd (gossipLoop k w f gs s)) = epochs s"
  "epochs (snd (buildPing t s)) = epochs s"
proof -
  show one: "epochs (snd (random_num s)) = epochs s" for s by (simp add: random_num_def frame_simps)
  show rn: "epochs (snd (randomNode s)) = epochs s" for s
    using one [of s] by (simp add: randomNode_def Let_def case_prod_beta)
  show "epochs (snd (getRandomHexChars k s)) = epochs s"
  proof (induction k s rule: getRandomHexChars.induct)
    case (2 k s)
    then show ?case using one [of s] by (auto simp: Let_def split: prod.splits)
  qed simp
  show loop: "epochs (snd (gossipLoop k w f gs s)) = epochs s" for k w f gs s
  proof (induction k w f gs s rule: gossipLoop.induct)
    case (2 k w f gs s)
    obtain po s1 where r: "randomNode s = (po, s1)" by force
    then have "epochs s1 = epochs s" using rn [of s] by simp
    then show ?case
      using 2 r by (cases po) (auto simp: Let_def frame_simps)
  qed simp
  show "epochs (snd (buildPing t s)) = epochs s"
    by (simp add: buildPing_def Let_def case_prod_beta loop)
qed

lemma buildPing_type [simp]: "h_type (fst (buildPing t s)) = t"
  by (simp add: buildPing_def Let_def case_prod_beta)

lemma epochs_ping [frame_simps]:
  "t \<noteq> CLUSTERMSG_TYPE_FAILOVER_AUTH_ACK \<Longrightarrow> epochs (clusterSendPing l t s) = epochs s"
  by (simp add: clusterSendPing_def Let_def case_prod_beta epochs_sendMessage frame_simps split: option.split)

lemma epochs_senders [frame_simps]:
  "epochs (clusterBroadcastPong b s) = epochs s"
  "epochs (clusterSendPublish lo ch msg s) = epochs s"
  "epochs (clusterBroadcastOwnAsHotInstance sl st s) = epochs s"
  "epochs (clusterSendFail name s) = epochs s"
  "epochs (clusterSendUpdate lo p s) = epochs s"
  "epochs (clusterRequestFailoverAuth s) = epochs s"
  "epochs (clusterSendMFStart p s) = epochs s"
  "epochs (clusterSendModule lo len s) = epochs s"
proof -
  have "CLUSTERMSG_TYPE_PONG \<noteq> CLUSTERMSG_TYPE_FAILOVER_AUTH_ACK" by (simp add: msg_types)
  then show "epochs (clusterBroadcastPong b s) = epochs s"
    unfolding clusterBroadcastPong_def
    by (intro fold_keeps_field) (simp add: frame_simps split: option.split)
  note d = clusterSendPublish_def clusterBroadcastOwnAsHotInstance_def clusterSendFail_def
      clusterSendUpdate_def clusterRequestFailoverAuth_def clusterSendMFStart_def clusterSendModule_def
  show "epochs (clusterSendPublish lo ch msg s) = epochs s"
    "epochs (clusterBroadcastOwnAsHotInstance sl st s) = epochs s"
    "epochs (clusterSendFail name s) = epochs s"
    "epochs (clusterSendUpdate lo p s) = epochs s"
    "epochs (clusterRequestFailoverAuth s) = epochs s"
    "epochs (clusterSendMFStart p s) = epochs s"
    "epochs (clusterSendModule lo len s) = epochs s"
    by (simp_all add: d Let_def epochs_sendMessage epochs_broadcast msg_types split: option.split)
qed

lemma epochs_nodes [frame_simps]:
  "epochs (snd (clusterNodeAddFailureReport f p s)) = epochs s"
  "epochs (clusterNodeCleanupFailureReports p s) = epochs s"
  "epochs (snd (clusterNodeDelFailureReport p q s)) = epochs s"
  "epochs (snd (clusterNodeFailureReportsCount p s)) = epochs s"
  "epochs (snd (clusterNodeRemoveSlave m p s)) = epochs s"
  "epochs (snd (clusterNodeAddSlave m p s)) = epochs s" "epochs (freeClusterLink l s) = epochs s"
  "epochs (snd (clusterAddSlot p j s)) = epochs s" "epochs (snd (clusterDelSlot j s)) = epochs s"
  "epochs (clusterAddNode p s) = epochs s" "epochs (clusterRenameNode p name s) = epochs s"
  by (simp_all add: clusterNodeAddFailureReport_def clusterNodeCleanupFailureReports_def
      clusterNodeDelFailureReport_def clusterNodeFailureReportsCount_def clusterNodeRemoveSlave_def
      clusterNodeAddSlave_def freeClusterLink_def clusterAddNode_def clusterRenameNode_def
      clusterAddSlot_def clusterDelSlot_def clusterNodeSetSlotBit_def clusterNodeClearSlotBit_def
      frame_simps Let_def case_prod_beta split: option.splits)

lemma epochs_createNode [frame_simps]: "epochs (snd (createClusterNode name fl s)) = epochs s"
  using epochs_random(3) [of CLUSTER_NAMELEN s]
  by (auto simp: createClusterNode_def allocNode_def frame_simps case_prod_beta epochs_def split: option.split)

lemma epochs_delNode [frame_simps]: "epochs (clusterDelNode p s) = epochs s"
proof -
  define s1 where "s1 = fold (forgetSlotsOf p) [0..<CLUSTER_SLOTS] s"
  define s2 where "s2 = fold (\<lambda>q s. if q = p then s else snd (clusterNodeDelFailureReport q p s))
                 (dictVals (c_nodes s1)) s1"
  define s3 where "s3 = fold (\<lambda>q. upd_node q (\<lambda>n. n\<lparr>n_slaveof := None\<rparr>)) (n_slaves (nd s2 p)) s2"
  have "epochs s1 = epochs s"
    unfolding s1_def by (rule fold_keeps_field) (simp add: forgetSlotsOf_def Let_def frame_simps)
  moreover have "epochs s2 = epochs s1"
    unfolding s2_def by (rule fold_keeps_field) (simp add: frame_simps)
  moreover have "epochs s3 = epochs s2"
    unfolding s3_def by (rule fold_keeps_field) (simp add: frame_simps)
  moreover have "clusterDelNode p s = freeClusterNode p s2"
    by (simp add: clusterDelNode_def s1_def s2_def Let_def)
  moreover have "epochs (freeClusterNode p s2) = epochs s3"
    unfolding freeClusterNode_def Let_def s3_def [symmetric] by (simp add: frame_simps split: option.split)
  ultimately show ?thesis by simp
qed

lemma epochs_config [frame_simps]:
  "epochs (clusterBlacklistCleanup s) = epochs s" "epochs (snd (clusterBlacklistExists name s)) = epochs s"
  "epochs (clusterBlacklistAddNode p s) = epochs s"
  "epochs (markNodeAsFailingIfNeeded p s) = epochs s" "epochs (clearNodeFailureIfNeeded p s) = epochs s"
  "epochs (clusterSetNodeAsMaster p s) = epochs s" "epochs (clusterSetMaster p s) = epochs s"
  "epochs (clusterUpdateMyselfFlags s) = epochs s" "epochs (clusterUpdateState s) = epochs s"
proof -
  show c: "epochs (clusterBlacklistCleanup s) = epochs s" for s
    by (subst blacklist_cleanup_shape) (simp add: frame_simps)
  show "epochs (snd (clusterBlacklistExists name s)) = epochs s"
    by (simp add: clusterBlacklistExists_def Let_def c)
  show "epochs (clusterBlacklistAddNode p s) = epochs s"
    by (simp add: clusterBlacklistAddNode_def Let_def c frame_simps)
  show "epochs (markNodeAsFailingIfNeeded p s) = epochs s"
    by (simp add: markNodeAsFailingIfNeeded_def frame_simps Let_def case_prod_beta)
  show "epochs (clearNodeFailureIfNeeded p s) = epochs s"
    by (simp add: clearNodeFailureIfNeeded_def frame_simps Let_def)
  show "epochs (clusterSetNodeAsMaster p s) = epochs s"
    by (simp add: clusterSetNodeAsMaster_def frame_simps Let_def split: option.split)
  show "epochs (clusterSetMaster p s) = epochs s"
    by (simp add: clusterSetMaster_def frame_simps Let_def split: option.split)
  show "epochs (clusterUpdateMyselfFlags s) = epochs s"
    by (simp add: clusterUpdateMyselfFlags_def frame_simps Let_def)
  show "epochs (clusterUpdateState s) = epochs s"
    by (simp add: clusterUpdateState_def changeState_def Let_def case_prod_beta epochs_def)
qed

lemma epochs_updateSlots [frame_simps]: "epochs (clusterUpdateSlotsConfigWith p e slots s) = epochs s"
proof -
  have one: "epochs (u_server (updateSlot p e cm slots j u)) = epochs (u_server u)" for cm j u
    by (simp add: updateSlot_server frame_simps)
  have "epochs (u_server (fold (updateSlot p e cm slots) js u)) = epochs (u_server u)" for cm js u
    by (rule fold_keeps_field) (rule one)
  moreover have "epochs (fold delKeysInSlot js s) = epochs s" for js s
    by (rule fold_keeps_field) (simp add: frame_simps)
  ultimately show ?thesis
    by (simp add: clusterUpdateSlotsConfigWith_def Let_def frame_simps)
qed

section \<open>When a vote is granted\<close>

text \<open>
  The conditions for a vote, as the protocol states them: this node is a master with slots, the
  request is not from a past epoch, no vote was given in this epoch, the asking node is a replica
  of a master that is down (or the request forces the acknowledgement), enough time has passed
  since the last vote for that master, and no claimed slot has an owner of a greater
  configuration epoch.
\<close>

definition mayVote :: "nid \<Rightarrow> clusterMsg \<Rightarrow> redisServer \<Rightarrow> bool" where
  "mayVote p r s \<longleftrightarrow>
     \<not> nodeIsSlave (me s) \<and> n_numslots (me s) \<noteq> 0 \<and>
     c_currentEpoch s \<le> h_currentEpoch r \<and> c_lastVoteEpoch s \<noteq> c_currentEpoch s \<and>
     \<not> nodeIsMaster (nd s p) \<and>
     (\<exists>m. n_slaveof (nd s p) = Some m \<and>
          (nodeFailed (nd s m) \<or> hasFlag (h_mflags0 r) CLUSTERMSG_FLAG0_FORCEACK) \<and>
          s_mstime s - n_voted_time (nd s m) \<ge> s_node_timeout s * 2) \<and>
     (\<forall>j < CLUSTER_SLOTS. \<forall>q. bitmapTestBit (h_myslots r) j \<and> c_slots s j = Some q \<longrightarrow>
          n_configEpoch (nd s q) \<le> h_configEpoch r)"

lemma claims_iff:
  "\<not> list_ex (claimsNewerSlot r s) [0..<CLUSTER_SLOTS] \<longleftrightarrow>
     (\<forall>j < CLUSTER_SLOTS. \<forall>q. bitmapTestBit (h_myslots r) j \<and> c_slots s j = Some q \<longrightarrow>
          n_configEpoch (nd s q) \<le> h_configEpoch r)"
  by (auto simp: list_ex_iff claimsNewerSlot_def split: option.splits)

text \<open>The state after a vote.\<close>

definition voted :: "nid \<Rightarrow> redisServer \<Rightarrow> redisServer" where
  "voted p s = clusterSendFailoverAuth p
     (clusterDoBeforeSleep (CLUSTER_TODO_SAVE_CONFIG OR CLUSTER_TODO_FSYNC_CONFIG)
       (upd_node (the (n_slaveof (nd s p))) (\<lambda>n. n\<lparr>n_voted_time := s_mstime s\<rparr>)
         (s\<lparr>c_lastVoteEpoch := c_currentEpoch s\<rparr>)))"

lemma vote_cases:
  "clusterSendFailoverAuthIfNeeded p r s = (if mayVote p r s then voted p s else s)"
proof (cases "n_slaveof (nd s p)")
  case None
  then show ?thesis by (simp add: clusterSendFailoverAuthIfNeeded_def mayVote_def Let_def)
next
  case (Some m)
  then show ?thesis
    using claims_iff [of r s]
    by (auto simp: clusterSendFailoverAuthIfNeeded_def mayVote_def voted_def Let_def not_less)
qed

lemma voted_epochs:
  "epochs (voted p s) = (c_currentEpoch s, c_currentEpoch s,
     votesIn (s_out s) @ (case n_link (nd s p) of None \<Rightarrow> [] | Some l \<Rightarrow> [(l, c_currentEpoch s)]))"
  by (simp add: voted_def clusterSendFailoverAuth_def epochs_def nd_upd_node clusterDoBeforeSleep_def
      clusterSendMessage_def emit_def Let_def nd_def upd_node_def split: option.split)

lemma voted_core: "core (voted p s) = core s"
  unfolding voted_def by (simp add: frame_simps)


lemma voted_already:
  assumes "c_lastVoteEpoch s = c_currentEpoch s"
  shows "fold (\<lambda>(p, r). clusterSendFailoverAuthIfNeeded p r) reqs s = s"
  using assms by (induction reqs arbitrary: s) (auto simp: vote_cases mayVote_def)

text \<open>
  Within one epoch a node gives at most one vote, whatever requests arrive and in whatever
  order, and none if it has voted in that epoch before.
\<close>

theorem one_vote_per_epoch:
  "let s' = fold (\<lambda>(p, r). clusterSendFailoverAuthIfNeeded p r) reqs s in
   c_currentEpoch s' = c_currentEpoch s \<and>
   length (votesIn (s_out s')) \<le> length (votesIn (s_out s)) +
     (if c_lastVoteEpoch s = c_currentEpoch s then 0 else 1)"
proof (induction reqs arbitrary: s)
  case (Cons pr reqs)
  obtain p r where pr: "pr = (p, r)" by force
  show ?case
  proof (cases "mayVote p r s")
    case True
    let ?s1 = "voted p s"
    have e: "c_lastVoteEpoch ?s1 = c_currentEpoch s" "c_currentEpoch ?s1 = c_currentEpoch s"
        "length (votesIn (s_out ?s1)) \<le> length (votesIn (s_out s)) + 1"
      using voted_epochs [of p s] by (auto simp: epochs_def split: option.splits)
    moreover have "fold (\<lambda>(p, r). clusterSendFailoverAuthIfNeeded p r) (pr # reqs) s = ?s1"
      using True voted_already [of ?s1 reqs] e by (simp add: pr vote_cases)
    moreover have "c_lastVoteEpoch s \<noteq> c_currentEpoch s" using True by (simp add: mayVote_def)
    ultimately show ?thesis by (simp only: Let_def if_False)
  next
    case False
    then show ?thesis using Cons.IH [of s] by (simp add: pr vote_cases)
  qed
qed simp

section \<open>Taking over from a failed master\<close>

lemma buildPing_panic:
  assumes "live s \<noteq> {}" shows "s_panic (snd (buildPing t s)) = s_panic s"
proof -
  have "gossip_inv s (gossipWanted s) [] s" using assms by (simp add: gossip_inv_def)
  from gossipLoop_inv [OF this, of "nat (gossipWanted s * 3)" "int (dictSize (c_nodes s)) - 2"]
  show ?thesis by (simp add: buildPing_def Let_def case_prod_beta gossip_inv_def)
qed

lemma clusterSendPing_panic:
  assumes "live s \<noteq> {}" shows "s_panic (clusterSendPing l t s) = s_panic s"
proof -
  have "live (upd_node p f s) = live s" for p f by (simp add: live_def)
  then show ?thesis
    using assms buildPing_panic
    by (simp add: clusterSendPing_def Let_def case_prod_beta split: option.split)
qed

lemma clusterBroadcastPong_panic:
  assumes "live s \<noteq> {}" shows "s_panic (clusterBroadcastPong b s) = s_panic s"
proof -
  define f where "f = (\<lambda>p s. case n_link (nd s p) of None \<Rightarrow> s
      | Some l \<Rightarrow> if pongTarget b p s then clusterSendPing l CLUSTERMSG_TYPE_PONG s else s)"
  have "live (fold f ps s) \<noteq> {} \<and> s_panic (fold f ps s) = s_panic s" for ps
    using assms
    by (induction ps arbitrary: s)
      (auto simp: f_def clusterSendPing_panic frame_simps split: option.splits)
  then show ?thesis by (simp add: clusterBroadcastPong_def f_def)
qed

lemma takeSlots:
  assumes "cluster_ok s" and "c_myself s \<in> live s" and "m \<in> live s" and "m \<noteq> c_myself s"
    and "set js \<subseteq> {..<CLUSTER_SLOTS}" and "distinct js"
  shows "cluster_ok (fold (takeSlot m) js s) \<and>
    c_slots (fold (takeSlot m) js s) =
      (\<lambda>j. if j \<in> set js \<and> c_slots s j = Some m then Some (c_myself s) else c_slots s j) \<and>
    c_myself (fold (takeSlot m) js s) = c_myself s \<and> live (fold (takeSlot m) js s) = live s \<and>
    s_panic (fold (takeSlot m) js s) = s_panic s"
  using assms
proof (induction js arbitrary: s)
  case (Cons j js)
  have j: "j < CLUSTER_SLOTS" using Cons.prems by simp
  have slots: "slots_ok s" using Cons.prems(1) by (simp add: cluster_ok_def)
  let ?s = "takeSlot m j s"
  have own: "clusterNodeGetSlotBit m j s \<longleftrightarrow> c_slots s j = Some m"
    using slots_okD(3) [OF slots Cons.prems(3) j] by (simp add: clusterNodeGetSlotBit_def)
  have d: "cluster_ok (snd (clusterDelSlot j s))" by (rule clusterDelSlot_ok [OF Cons.prems(1) j])
  have "cluster_ok ?s"
    using Cons.prems(1,2) d j by (auto simp: takeSlot_def intro: clusterAddSlot_ok)
  moreover have "c_slots ?s = (\<lambda>i. if i = j \<and> c_slots s i = Some m then Some (c_myself s) else c_slots s i)"
    using own by (auto simp: takeSlot_def fun_eq_iff)
  moreover have "c_myself ?s = c_myself s" "live ?s = live s" by (simp_all add: takeSlot_def)
  moreover have "s_panic ?s = s_panic s"
    using slots j by (simp add: takeSlot_def clusterSlot_panic)
  ultimately show ?case
    using Cons.IH [of ?s] Cons.prems by (auto simp: fun_eq_iff)
qed simp


lemma clear_after_set: "(f OR b) AND NOT b = f AND NOT (b :: u32)"
  by (metis bit.conj_cancel_right bit.conj_disj_distrib2 or.right_neutral)

lemma roles_setMigrate: "roles (upd_node p (setFlag CLUSTER_NODE_MIGRATE_TO) s) = roles s"
  by (rule roles_upd_node) (simp only: node_flag_updates clear_after_set)

lemma roles_addSlot [simp]: "roles (snd (clusterAddSlot p j s)) = roles s"
  by (simp add: clusterAddSlot_def clusterNodeSetSlotBit_def roles_setMigrate Let_def)
    (simp add: roles_upd_node)

lemma roles_takeSlots: "roles (fold (takeSlot m) js s) = roles s"
  by (rule fold_keeps_field) (simp add: takeSlot_def)

lemma updateState_fields [simp]:
  "nd (clusterUpdateState s) = nd s" "c_myself (clusterUpdateState s) = c_myself s"
  "c_slots (clusterUpdateState s) = c_slots s"
proof -
  have "c_mem (clusterUpdateState s) = c_mem s"
    by (simp add: clusterUpdateState_def changeState_def Let_def case_prod_beta)
  then show "nd (clusterUpdateState s) = nd s" by (simp add: nd_def fun_eq_iff)
  show "c_myself (clusterUpdateState s) = c_myself s" "c_slots (clusterUpdateState s) = c_slots s"
    using updateState_core [of s] by (simp_all add: core_def)
qed

lemma save_fields [simp]:
  "nd (clusterSaveConfigOrDie b s) = nd s" "s_panic (clusterSaveConfigOrDie b s) = s_panic s"
  "nd (resetManualFailover s) = nd s" "s_panic (resetManualFailover s) = s_panic s"
  by (simp_all add: clusterSaveConfigOrDie_def resetManualFailover_def emit_def Let_def nd_def fun_eq_iff)

lemma core_slots: "core s' = core s \<Longrightarrow> c_slots s' = c_slots s \<and> c_myself s' = c_myself s \<and> live s' = live s"
  using live_core [of s' s] by (simp add: core_def)

text \<open>
  What a won election does, in the part of the state that the slot table and the roles make up.
\<close>

lemma failover_effect:
  assumes ok: "cluster_ok s" and me: "\<not> nodeIsMaster (me s)" "n_slaveof (me s) = Some m"
    and m: "m \<in> live s" "m \<noteq> c_myself s"
  shows "cluster_ok (clusterFailoverReplaceYourMaster s)"
    and "\<forall>j < CLUSTER_SLOTS. c_slots (clusterFailoverReplaceYourMaster s) j =
           (if c_slots s j = Some m then Some (c_myself s) else c_slots s j)"
    and "c_myself (clusterFailoverReplaceYourMaster s) = c_myself s"
    and "live (clusterFailoverReplaceYourMaster s) = live s"
    and "nodeIsMaster (me (clusterFailoverReplaceYourMaster s))"
    and "s_panic (clusterFailoverReplaceYourMaster s) = s_panic s"
proof -
  define s1 where "s1 = replicationUnsetMaster (clusterSetNodeAsMaster (c_myself s) s)"
  define s2 where "s2 = fold (takeSlot m) [0..<CLUSTER_SLOTS] s1"
  define s3 where "s3 = clusterSaveConfigOrDie True (clusterUpdateState s2)"
  define s4 where "s4 = resetManualFailover (clusterBroadcastPong False s3)"
  have eq: "clusterFailoverReplaceYourMaster s = s4"
    using me by (simp add: clusterFailoverReplaceYourMaster_def s1_def s2_def s3_def s4_def Let_def)
  have c1: "core s1 = core s" by (simp add: s1_def frame_simps)
  note f1 = core_slots [OF c1] cluster_ok_keep [OF ok c1]
  have p1: "s_panic s1 = s_panic s" "nodeIsMaster (nd s1 (c_myself s))"
    by (simp_all add: s1_def setNodeAsMaster_master)
  have my: "c_myself s \<in> live s" using ok by (simp add: cluster_ok_def names_ok_def)
  have 2: "cluster_ok s2 \<and> c_slots s2 = (\<lambda>j. if j \<in> set [0..<CLUSTER_SLOTS] \<and> c_slots s1 j = Some m
      then Some (c_myself s1) else c_slots s1 j) \<and> c_myself s2 = c_myself s1 \<and> live s2 = live s1 \<and>
      s_panic s2 = s_panic s1"
    unfolding s2_def by (rule takeSlots) (use f1 my m in auto)
  have r2: "roles s2 = roles s1" unfolding s2_def by (rule roles_takeSlots)
  have c4: "core s4 = core s2" by (simp add: s4_def s3_def frame_simps)
  note f4 = core_slots [OF c4] cluster_ok_keep [OF _ c4]
  show "cluster_ok (clusterFailoverReplaceYourMaster s)" using f4(2) 2 eq by simp
  show "\<forall>j < CLUSTER_SLOTS. c_slots (clusterFailoverReplaceYourMaster s) j =
      (if c_slots s j = Some m then Some (c_myself s) else c_slots s j)"
    using f4(1) 2 f1(1) eq by simp
  show "c_myself (clusterFailoverReplaceYourMaster s) = c_myself s" using f4(1) 2 f1(1) eq by simp
  show "live (clusterFailoverReplaceYourMaster s) = live s" using f4(1) 2 f1(1) eq by simp
  have "n_flags (nd s4 p) = n_flags (nd s2 p)" for p
    using send_frames [of] by (simp add: s4_def s3_def frame_simps)
  moreover have "hasFlag (n_flags (nd s2 p)) CLUSTER_NODE_MASTER = hasFlag (n_flags (nd s1 p)) CLUSTER_NODE_MASTER" for p
    by (rule roles_hasFlag [OF r2]) (simp add: flag_simps)
  ultimately show "nodeIsMaster (me (clusterFailoverReplaceYourMaster s))"
    using p1(2) 2 f1(1) f4(1) by (simp add: eq me_def nodeIsMaster_def)
  have "live s3 = live s2" using live_core [of s3 s2] by (simp add: s3_def frame_simps)
  then have "live s3 \<noteq> {}" using 2 f1(1) my by auto
  then have "s_panic s4 = s_panic s2" by (simp add: s4_def s3_def clusterBroadcastPong_panic)
  then show "s_panic (clusterFailoverReplaceYourMaster s) = s_panic s" using 2 p1 eq by simp
qed

text \<open>
  C6. A replica that wins takes exactly the slots of its old master: each of them passes to this
  node, every other slot keeps its owner, the old master is left without slots, this node becomes
  a master, the table invariant survives and no assertion fails.
\<close>

theorem failover_takes_masters_slots:
  assumes "cluster_ok s" and "\<not> nodeIsMaster (me s)" and "n_slaveof (me s) = Some m"
    and "m \<in> live s" and "m \<noteq> c_myself s"
  shows "let s' = clusterFailoverReplaceYourMaster s in
     cluster_ok s' \<and> nodeIsMaster (me s') \<and> s_panic s' = s_panic s \<and>
     n_numslots (nd s' m) = 0 \<and>
     (\<forall>j < CLUSTER_SLOTS. c_slots s' j = (if c_slots s j = Some m then Some (c_myself s) else c_slots s j))"
proof -
  note e = failover_effect [OF assms]
  let ?s = "clusterFailoverReplaceYourMaster s"
  have slots: "slots_ok ?s" using e(1) by (simp add: cluster_ok_def)
  have "m \<in> live ?s" using e(4) assms(4) by simp
  note o = slots_okD [OF slots this]
  have "slotsOf (n_slots (nd ?s m)) = {}"
    using o(3) e(2) assms(5) by (force simp: slotsOf_def)
  then have "n_numslots (nd ?s m) = 0" using o(2) by simp
  then show ?thesis using e by (simp add: Let_def)
qed

definition replica_node :: clusterNode where
  "replica_node = zeroNode\<lparr>n_flags := CLUSTER_NODE_MYSELF OR CLUSTER_NODE_SLAVE, n_slaveof := Some 1\<rparr>"

definition failed_master :: clusterNode where
  "failed_master = zeroNode\<lparr>n_flags := CLUSTER_NODE_MASTER OR CLUSTER_NODE_FAIL, n_slaves := [0]\<rparr>"

text \<open>A replica whose failed master serves slot 5.\<close>

definition orphaned_replica :: redisServer where
  "orphaned_replica = snd (clusterAddSlot 1 5 (pair_cluster replica_node failed_master))"

lemma orphaned_replica_facts:
  "cluster_ok orphaned_replica" "c_slots orphaned_replica = (\<lambda>_. None)(5 := Some 1)"
  "live orphaned_replica = {0, 1}" "c_myself orphaned_replica = 0"
  "\<not> nodeIsMaster (me orphaned_replica)" "n_slaveof (me orphaned_replica) = Some 1"
  "nodeFailed (nd orphaned_replica 1)" "nodeIsSlave (me orphaned_replica)"
proof -
  have ok: "cluster_ok (pair_cluster replica_node failed_master)"
    by (rule pair_cluster_ok) (simp_all add: replica_node_def failed_master_def zeroNode_def)
  show "cluster_ok orphaned_replica"
    unfolding orphaned_replica_def by (rule clusterAddSlot_ok [OF ok]) (simp_all add: CLUSTER_SLOTS_def)
  show sl: "c_slots orphaned_replica = (\<lambda>_. None)(5 := Some 1)" "live orphaned_replica = {0, 1}"
    "c_myself orphaned_replica = 0"
    by (simp_all add: orphaned_replica_def)
  have r: "roles orphaned_replica = roles (pair_cluster replica_node failed_master)"
    by (simp add: orphaned_replica_def)
  show "\<not> nodeIsMaster (me orphaned_replica)" "nodeFailed (nd orphaned_replica 1)"
    "nodeIsSlave (me orphaned_replica)"
    using roles_hasFlag [OF r, of CLUSTER_NODE_MASTER 0] roles_hasFlag [OF r, of CLUSTER_NODE_FAIL 1]
      roles_hasFlag [OF r, of CLUSTER_NODE_SLAVE 0]
    by (simp_all add: me_def sl node_tests flag_simps hasFlag_simps replica_node_def failed_master_def)
  show "n_slaveof (me orphaned_replica) = Some 1"
    by (simp add: orphaned_replica_def me_def clusterAddSlot_def clusterNodeSetSlotBit_def nd_upd_node
        Let_def replica_node_def nd_def) (simp add: pair_cluster_def replica_node_def)
qed

theorem failover_takes_masters_slots_witness:
  "c_slots orphaned_replica 5 = Some 1 \<and>
   c_slots (clusterFailoverReplaceYourMaster orphaned_replica) 5 = Some 0 \<and>
   nodeIsMaster (me (clusterFailoverReplaceYourMaster orphaned_replica)) \<and>
   n_numslots (nd (clusterFailoverReplaceYourMaster orphaned_replica) 1) = 0"
proof -
  note f = orphaned_replica_facts
  have "(1::nat) \<in> live orphaned_replica" "1 \<noteq> c_myself orphaned_replica" by (simp_all add: f(3,4))
  note t = failover_takes_masters_slots [OF f(1,5,6) this]
  moreover have "(5::nat) < CLUSTER_SLOTS" by (simp add: CLUSTER_SLOTS_def)
  ultimately show ?thesis by (simp add: Let_def f(2,4))
qed


section \<open>No promotion without a majority\<close>

text \<open>What a node knows of the roles of the nodes, and the configuration epochs.\<close>

definition standing :: "redisServer \<Rightarrow> nid \<times> (nid \<Rightarrow> u32) \<times> (nid \<Rightarrow> u64)" where
  "standing s = (c_myself s, \<lambda>p. n_flags (nd s p), \<lambda>p. n_configEpoch (nd s p))"

lemma standing_send: "erase s' = erase s \<Longrightarrow> standing s' = standing s"
  using erase_fields [of s' s] by (simp add: standing_def)

lemmas standing_senders = send_erase [THEN standing_send]

lemma standing_fields:
  "standing (s\<lparr>c_todo_before_sleep := w\<rparr>) = standing s" "standing (s\<lparr>c_cant_failover_reason := cf\<rparr>) = standing s"
  "standing (s\<lparr>c_failover_auth_time := t\<rparr>) = standing s" "standing (s\<lparr>c_failover_auth_count := z\<rparr>) = standing s"
  "standing (s\<lparr>c_failover_auth_sent := b\<rparr>) = standing s" "standing (s\<lparr>c_failover_auth_rank := z\<rparr>) = standing s"
  "standing (s\<lparr>c_failover_auth_epoch := ep\<rparr>) = standing s" "standing (s\<lparr>c_currentEpoch := ep\<rparr>) = standing s"
  "standing (clusterDoBeforeSleep w s) = standing s" "standing (serverAssert b s) = standing s"
  "standing (clusterLogCantFailover cf s) = standing s"
  by (simp_all add: standing_def nd_def clusterDoBeforeSleep_def serverAssert_def panic_with_def
      clusterLogCantFailover_def)

lemma standing_rank: "standing (snd (clusterGetSlaveRank s)) = standing s"
  by (simp add: clusterGetSlaveRank_def standing_fields Let_def split: option.split)

lemma standing_election:
  "standing (scheduleElection s) = standing s" "standing (updateRank s) = standing s"
  "standing (askForVotes s) = standing s"
  by (simp_all add: scheduleElection_def updateRank_def askForVotes_def standing_fields standing_rank
      standing_senders Let_def case_prod_beta)

lemma standing_master: "standing s' = standing s \<Longrightarrow> nodeIsMaster (me s') = nodeIsMaster (me s)"
  by (simp add: standing_def me_def nodeIsMaster_def fun_eq_iff)

text \<open>When the election is won.\<close>

definition electionWon :: "redisServer \<Rightarrow> bool" where
  "electionWon s \<longleftrightarrow>
     c_failover_auth_sent s \<and> c_failover_auth_count s \<ge> c_size s div 2 + 1 \<and>
     c_failover_auth_time s \<le> s_mstime s \<and>
     s_mstime s - c_failover_auth_time s \<le> max (s_node_timeout s * 2) 2000 \<and>
     failoverPossible (c_mf_end s \<noteq> 0 \<and> c_mf_can_start s) s \<and>
     (s_slave_validity_factor s \<noteq> 0 \<and> \<not> (c_mf_end s \<noteq> 0 \<and> c_mf_can_start s) \<longrightarrow>
        dataAge s \<le> s_repl_ping_slave_period s * 1000 + s_node_timeout s * s_slave_validity_factor s)"

definition promoted :: "redisServer \<Rightarrow> redisServer" where
  "promoted s = clusterFailoverReplaceYourMaster
     (let s1 = s\<lparr>c_todo_before_sleep := c_todo_before_sleep s AND NOT CLUSTER_TODO_HANDLE_FAILOVER\<rparr>
      in if n_configEpoch (me s1) < c_failover_auth_epoch s1
         then set_my_epoch (c_failover_auth_epoch s1) s1 else s1)"

lemma todo_fields:
  "me (s\<lparr>c_todo_before_sleep := w\<rparr>) = me s" "nd (s\<lparr>c_todo_before_sleep := w\<rparr>) = nd s"
  "failoverPossible b (s\<lparr>c_todo_before_sleep := w\<rparr>) = failoverPossible b s"
  "dataAge (s\<lparr>c_todo_before_sleep := w\<rparr>) = dataAge s"
  "s_slave_validity_factor (s\<lparr>c_todo_before_sleep := w\<rparr>) = s_slave_validity_factor s"
  "s_repl_ping_slave_period (s\<lparr>c_todo_before_sleep := w\<rparr>) = s_repl_ping_slave_period s"
  "s_node_timeout (s\<lparr>c_todo_before_sleep := w\<rparr>) = s_node_timeout s"
  by (simp_all add: me_def nd_def failoverPossible_def dataAge_def Let_def fun_eq_iff split: option.split)

lemma handleSlaveFailover_eq:
  fixes s :: redisServer
  defines "s0 \<equiv> s\<lparr>c_todo_before_sleep := c_todo_before_sleep s AND NOT CLUSTER_TODO_HANDLE_FAILOVER\<rparr>"
    and "T \<equiv> max (s_node_timeout s * 2) 2000"
    and "manual \<equiv> c_mf_end s \<noteq> 0 \<and> c_mf_can_start s"
    and "s1 \<equiv> updateRank (s\<lparr>c_todo_before_sleep := c_todo_before_sleep s AND NOT CLUSTER_TODO_HANDLE_FAILOVER\<rparr>)"
  shows "clusterHandleSlaveFailover s =
    (if \<not> failoverPossible manual s then s0\<lparr>c_cant_failover_reason := CANT_FAILOVER_NONE\<rparr>
     else if s_slave_validity_factor s \<noteq> 0 \<and>
             dataAge s > s_repl_ping_slave_period s * 1000 + s_node_timeout s * s_slave_validity_factor s \<and>
             \<not> manual
     then clusterLogCantFailover CANT_FAILOVER_DATA_AGE s0
     else if s_mstime s - c_failover_auth_time s > T * 2 then scheduleElection s0
     else if s_mstime s1 < c_failover_auth_time s1 then clusterLogCantFailover CANT_FAILOVER_WAITING_DELAY s1
     else if s_mstime s - c_failover_auth_time s > T then clusterLogCantFailover CANT_FAILOVER_EXPIRED s1
     else if \<not> c_failover_auth_sent s1 then askForVotes s1
     else if c_failover_auth_count s1 \<ge> c_size s div 2 + 1
     then clusterFailoverReplaceYourMaster
            (if n_configEpoch (me s1) < c_failover_auth_epoch s1
             then set_my_epoch (c_failover_auth_epoch s1) s1 else s1)
     else clusterLogCantFailover CANT_FAILOVER_WAITING_VOTES s1)"
  unfolding assms clusterHandleSlaveFailover_def Let_def
  by (simp only: todo_fields)

lemma clusterGetSlaveRank_state:
  "snd (clusterGetSlaveRank s) = serverAssert (nodeIsSlave (me s)) s"
  by (simp add: clusterGetSlaveRank_def Let_def split: option.split)

lemma updateRank_sent:
  assumes "c_failover_auth_sent (updateRank s)" shows "updateRank s = s"
proof -
  have "c_failover_auth_sent (serverAssert b s) = c_failover_auth_sent s" for b
    by (simp add: serverAssert_def panic_with_def)
  then have "c_failover_auth_sent (updateRank s) = c_failover_auth_sent s"
    by (simp add: updateRank_def case_prod_beta clusterGetSlaveRank_state Let_def)
  with assms show ?thesis by (simp add: updateRank_def)
qed

lemma guarded:
  assumes "\<not> (P \<and> \<not> B \<and> \<not> F \<and> \<not> H \<and> J \<and> L)"
    and "Q x1" "Q x2" "Q x3" "Q x4" "Q x5" "Q x6" "Q x7"
  shows "Q (if \<not> P then x1 else if B then x2 else if D then x3 else if F then x4 else if H then x5
    else if \<not> J then x6 else if L then y else x7)"
  using assms by (simp split: if_split) blast

text \<open>What happens when the election is not won.\<close>

lemma handleSlaveFailover_lost:
  fixes s :: redisServer
  defines "s0 \<equiv> s\<lparr>c_todo_before_sleep := c_todo_before_sleep s AND NOT CLUSTER_TODO_HANDLE_FAILOVER\<rparr>"
  assumes "\<not> electionWon s"
  shows "(\<exists>s1 r. (s1 = s0 \<or> s1 = updateRank s0) \<and> clusterHandleSlaveFailover s = clusterLogCantFailover r s1) \<or>
    clusterHandleSlaveFailover s = scheduleElection s0 \<or>
    clusterHandleSlaveFailover s = askForVotes (updateRank s0)"
proof -
  define s1 where "s1 = updateRank s0"
  define T where "T = max (s_node_timeout s * 2) 2000"
  define manual where "manual = (c_mf_end s \<noteq> 0 \<and> c_mf_can_start s)"
  have rank: "s1 = s0" if "c_failover_auth_sent s1"
    using that by (simp add: s1_def updateRank_sent)
  have f: "s_mstime s0 = s_mstime s" "c_failover_auth_time s0 = c_failover_auth_time s"
    "c_failover_auth_sent s0 = c_failover_auth_sent s" "c_failover_auth_count s0 = c_failover_auth_count s"
    by (simp_all add: s0_def)
  have no: "\<not> (failoverPossible manual s \<and>
      \<not> (s_slave_validity_factor s \<noteq> 0 \<and> dataAge s > s_repl_ping_slave_period s * 1000 +
                             s_node_timeout s * s_slave_validity_factor s \<and> \<not> manual) \<and>
      \<not> s_mstime s1 < c_failover_auth_time s1 \<and> \<not> s_mstime s - c_failover_auth_time s > T \<and>
      c_failover_auth_sent s1 \<and> c_failover_auth_count s1 \<ge> c_size s div 2 + 1)"
  proof (cases "c_failover_auth_sent s1")
    case True
    then show ?thesis
      using assms(2) rank [OF True] f unfolding electionWon_def T_def [symmetric] manual_def [symmetric] not_less
      by auto
  qed simp
  have none: "s0\<lparr>c_cant_failover_reason := r\<rparr> = clusterLogCantFailover r s0" for r
    by (simp add: clusterLogCantFailover_def)
  show ?thesis
    unfolding handleSlaveFailover_eq s0_def [symmetric] s1_def [symmetric] T_def [symmetric]
      manual_def [symmetric] none
    by (rule guarded [OF no]) blast+
qed

lemma handleSlaveFailover_cases:
  "if electionWon s then clusterHandleSlaveFailover s = promoted s
   else standing (clusterHandleSlaveFailover s) = standing s"
proof (cases "electionWon s")
  case True
  let ?m = "c_mf_end s \<noteq> 0 \<and> c_mf_can_start s"
  let ?s = "s\<lparr>c_todo_before_sleep := c_todo_before_sleep s AND NOT CLUSTER_TODO_HANDLE_FAILOVER\<rparr>"
  define T where "T = max (s_node_timeout s * 2) 2000"
  have T: "T \<ge> 2000" by (simp add: T_def)
  have w: "c_failover_auth_sent s" "c_failover_auth_count s \<ge> c_size s div 2 + 1"
    "\<not> s_mstime s < c_failover_auth_time s" "\<not> s_mstime s - c_failover_auth_time s > T"
    "failoverPossible ?m s" and age: "\<not> s_mstime s - c_failover_auth_time s > T * 2"
    and fresh: "\<not> (s_slave_validity_factor s \<noteq> 0 \<and> dataAge s > s_repl_ping_slave_period s * 1000 +
                             s_node_timeout s * s_slave_validity_factor s \<and> \<not> ?m)"
    using True T by (auto simp: electionWon_def T_def [symmetric] not_less)
  have "updateRank ?s = ?s" using w(1) by (simp add: updateRank_def)
  then have "clusterHandleSlaveFailover s = promoted s"
    unfolding handleSlaveFailover_eq T_def [symmetric]
    using w age fresh by (simp only: promoted_def Let_def if_False if_True simp_thms not_False_eq_True) simp
  with True show ?thesis by simp
next
  case False
  then have "standing (clusterHandleSlaveFailover s) = standing s"
    using handleSlaveFailover_lost [OF False] by (auto simp: standing_fields standing_election)
  with False show ?thesis by simp
qed

lemma configEpoch_updateState: "n_configEpoch (nd (clusterUpdateState s) p) = n_configEpoch (nd s p)"
  by simp

lemma configEpoch_failover:
  "n_configEpoch (nd (clusterFailoverReplaceYourMaster s) p) = n_configEpoch (nd s p)"
proof -
  let ?g = "\<lambda>s. n_configEpoch (nd s p)"
  have rm: "n_configEpoch (nd (snd (clusterNodeRemoveSlave m q s)) x) = n_configEpoch (nd s x)" for m q s x
    by (simp add: clusterNodeRemoveSlave_def nd_upd_node Let_def)
  have before: "?g (clusterDoBeforeSleep w s) = ?g s" for w s
    by (simp add: clusterDoBeforeSleep_def nd_def)
  have "?g (clusterSetNodeAsMaster q s) = ?g s" for q s
    by (simp add: clusterSetNodeAsMaster_def before nd_upd_node rm Let_def split: option.split)
  moreover have "?g (fold (takeSlot m) js s) = ?g s" for m js s
    by (rule fold_keeps_field) (simp add: takeSlot_def)
  moreover have "?g (clusterBroadcastPong b s) = ?g s" for b s
    by (simp add: send_frames)
  ultimately show ?thesis
    by (simp add: clusterFailoverReplaceYourMaster_def Let_def split: option.split)
qed

lemma promoted_epoch: "c_failover_auth_epoch s \<le> n_configEpoch (nd (promoted s) (c_myself s))"
  by (simp add: promoted_def configEpoch_failover set_my_epoch_def nd_upd_node todo_fields me_def Let_def
      not_less [symmetric])




end
