(* ===== verification/ClusterPacket.thy ===== *)
theory ClusterPacket
  imports ClusterElection
begin

text \<open>
  Receiving a message (src/server/src/cluster.c): the gossip section
  (\<open>clusterProcessGossipSection\<close>), addresses (\<open>nodeIp2String\<close>, \<open>nodeUpdateAddressIfNeeded\<close>) and
  \<open>clusterProcessPacket\<close>, which is cut into the phases of the C function, in their order. The
  result 1 keeps the link, 0 means that the link was freed. \<open>l_sockip\<close> is the local address that
  \<^verbatim>\<open>connSockName\<close> reports for the connection (None when it fails), \<open>l_peerip\<close> the remote one.
\<close>

section \<open>The gossip section\<close>

definition FAILING :: u32 where
  "FAILING = CLUSTER_NODE_FAIL OR CLUSTER_NODE_PFAIL"

definition gossipFlags :: "clusterMsgDataGossip \<Rightarrow> u32" where
  "gossipFlags g = ucast (g_flags g)"

text \<open>What a gossip entry changes about a node that is known: failure reports, ...\<close>

definition gossipReport :: "nid option \<Rightarrow> clusterMsgDataGossip \<Rightarrow> nid \<Rightarrow> redisServer \<Rightarrow> redisServer" where
  "gossipReport sender g p s =
     (case sender of
        None \<Rightarrow> s
      | Some q \<Rightarrow>
          if nodeIsMaster (nd s q) \<and> p \<noteq> c_myself s
          then if hasFlag (gossipFlags g) FAILING
               then markNodeAsFailingIfNeeded p (snd (clusterNodeAddFailureReport p q s))
               else snd (clusterNodeDelFailureReport p q s)
          else s)"

text \<open>... the time of its last pong, ...\<close>

definition gossipPong :: "clusterMsgDataGossip \<Rightarrow> nid \<Rightarrow> redisServer \<Rightarrow> redisServer" where
  "gossipPong g p s =
     (if \<not> hasFlag (gossipFlags g) FAILING \<and> n_ping_sent (nd s p) = 0
      then let (failures, s1) = clusterNodeFailureReportsCount p s;
               pongtime = uint (g_pong_received g) * 1000
           in if failures = 0 \<and> pongtime \<le> s_mstime s1 + 500 \<and> pongtime > n_pong_received (nd s1 p)
              then upd_node p (\<lambda>n. n\<lparr>n_pong_received := pongtime\<rparr>) s1 else s1
      else s)"

text \<open>... and its address, when it is unreachable at the old one.\<close>

definition setAddress :: "string \<Rightarrow> int \<Rightarrow> int \<Rightarrow> int \<Rightarrow> clusterNode \<Rightarrow> clusterNode" where
  "setAddress ip port pport cport n = n\<lparr>n_ip := ip, n_port := port, n_pport := pport, n_cport := cport\<rparr>"

definition freeLinkOf :: "nid \<Rightarrow> redisServer \<Rightarrow> redisServer" where
  "freeLinkOf p s = (case n_link (nd s p) of None \<Rightarrow> s | Some l \<Rightarrow> freeClusterLink l s)"

definition gossipAddress :: "clusterMsgDataGossip \<Rightarrow> nid \<Rightarrow> redisServer \<Rightarrow> redisServer" where
  "gossipAddress g p s =
     (let n = nd s p in
      if hasFlag (n_flags n) FAILING \<and> \<not> hasFlag (gossipFlags g) CLUSTER_NODE_NOADDR \<and>
         \<not> hasFlag (gossipFlags g) FAILING \<and>
         (\<not> strcaseeq (n_ip n) (g_ip g) \<or> n_port n \<noteq> uint (g_port g) \<or> n_cport n \<noteq> uint (g_cport g))
      then upd_node p (\<lambda>n. clearFlag CLUSTER_NODE_NOADDR
              (setAddress (g_ip g) (uint (g_port g)) (uint (g_pport g)) (uint (g_cport g)) n))
             (freeLinkOf p s)
      else s)"

text \<open>An unknown node is added, when a known node tells about it and it was not forgotten.\<close>

definition gossipNew :: "nid option \<Rightarrow> clusterMsgDataGossip \<Rightarrow> redisServer \<Rightarrow> redisServer" where
  "gossipNew sender g s =
     (if sender \<noteq> None \<and> \<not> hasFlag (gossipFlags g) CLUSTER_NODE_NOADDR
      then let (known, s1) = clusterBlacklistExists (g_nodename g) s in
           if known then s1
           else let (p, s2) = createClusterNode (Some (g_nodename g)) (gossipFlags g) s1
                in clusterAddNode p (upd_node p (setAddress (g_ip g) (uint (g_port g))
                                       (uint (g_pport g)) (uint (g_cport g))) s2)
      else s)"

definition gossipStep :: "nid option \<Rightarrow> clusterMsgDataGossip \<Rightarrow> redisServer \<Rightarrow> redisServer" where
  "gossipStep sender g s =
     (case clusterLookupNode (g_nodename g) s of
        Some p \<Rightarrow> gossipAddress g p (gossipPong g p (gossipReport sender g p s))
      | None \<Rightarrow> gossipNew sender g s)"

definition clusterProcessGossipSection :: "clusterMsg \<Rightarrow> lid \<Rightarrow> redisServer \<Rightarrow> redisServer" where
  "clusterProcessGossipSection hdr link s =
     (let sender = (case l_node (c_links s link) of
                      Some p \<Rightarrow> Some p | None \<Rightarrow> clusterLookupNode (h_sender hdr) s)
      in fold (gossipStep sender) (take (unat (h_count hdr)) (h_gossip hdr)) s)"

section \<open>Addresses\<close>

definition nodeIp2String :: "lid \<Rightarrow> string \<Rightarrow> redisServer \<Rightarrow> string" where
  "nodeIp2String link announced_ip s =
     (if announced_ip \<noteq> [] then take (NET_IP_STR_LEN - 1) announced_ip else l_peerip (c_links s link))"

definition nodeUpdateAddressIfNeeded :: "nid \<Rightarrow> lid \<Rightarrow> clusterMsg \<Rightarrow> redisServer \<Rightarrow> bool \<times> redisServer" where
  "nodeUpdateAddressIfNeeded p link hdr s =
     (let port = uint (h_port hdr); pport = uint (h_pport hdr); cport = uint (h_cport hdr);
          n = nd s p
      in if n_link n = Some link then (False, s)
         else
           let ip = nodeIp2String link (h_myip hdr) s in
           if n_port n = port \<and> n_cport n = cport \<and> n_pport n = pport \<and> ip = n_ip n then (False, s)
           else
             let s1 = upd_node p (setAddress ip port pport cport) s;
                 s2 = freeLinkOf p s1;
                 s3 = upd_node p (clearFlag CLUSTER_NODE_NOADDR) s2
             in (True, if nodeIsSlave (me s3) \<and> n_slaveof (me s3) = Some p
                       then replicationSetMaster (n_ip (nd s3 p)) (n_port (nd s3 p)) s3 else s3))"

section \<open>Checking the length\<close>

definition expectedLength :: "clusterMsg \<Rightarrow> u32 option" where
  "expectedLength hdr =
     (let type = h_type hdr; sized = (\<lambda>n. Some (word_of_int (SIZE_HDR + n))) in
      if type = CLUSTERMSG_TYPE_PING \<or> type = CLUSTERMSG_TYPE_PONG \<or> type = CLUSTERMSG_TYPE_MEET
      then sized (SIZE_GOSSIP * uint (h_count hdr))
      else if type = CLUSTERMSG_TYPE_FAIL then sized SIZE_FAIL
      else if type = CLUSTERMSG_TYPE_PUBLISH
      then sized (SIZE_PUBLISH - 8 + uint (h_channel_len hdr) + uint (h_message_len hdr))
      else if type = CLUSTERMSG_TYPE_FAILOVER_AUTH_REQUEST \<or>
              type = CLUSTERMSG_TYPE_FAILOVER_AUTH_ACK \<or> type = CLUSTERMSG_TYPE_MFSTART
      then sized 0
      else if type = CLUSTERMSG_TYPE_UPDATE then sized SIZE_UPDATE
      else if type = CLUSTERMSG_TYPE_MODULE then sized (SIZE_MODULE - 3 + uint (h_module_len hdr))
      else if type = CLUSTERMSG_TYPE_HG then sized SIZE_HG
      else None)"

definition packetSane :: "clusterMsg \<Rightarrow> nat \<Rightarrow> bool" where
  "packetSane hdr rcvbuf_len \<longleftrightarrow>
     \<not> h_totlen hdr < 16 \<and> \<not> unat (h_totlen hdr) > rcvbuf_len \<and> h_ver hdr = CLUSTER_PROTO_VER \<and>
     (case expectedLength hdr of None \<Rightarrow> True | Some explen \<Rightarrow> h_totlen hdr = explen)"

section \<open>What every message of a known node updates\<close>

definition senderCurrentEpoch :: "clusterMsg \<Rightarrow> nid option \<Rightarrow> redisServer \<Rightarrow> u64" where
  "senderCurrentEpoch hdr sender s =
     (case sender of Some q \<Rightarrow> if nodeInHandshake (nd s q) then 0 else h_currentEpoch hdr | None \<Rightarrow> 0)"

definition senderConfigEpoch :: "clusterMsg \<Rightarrow> nid option \<Rightarrow> redisServer \<Rightarrow> u64" where
  "senderConfigEpoch hdr sender s =
     (case sender of Some q \<Rightarrow> if nodeInHandshake (nd s q) then 0 else h_configEpoch hdr | None \<Rightarrow> 0)"

definition learnEpochs :: "clusterMsg \<Rightarrow> nid \<Rightarrow> redisServer \<Rightarrow> redisServer" where
  "learnEpochs hdr q s =
     (let s1 = (if h_currentEpoch hdr > c_currentEpoch s
                then s\<lparr>c_currentEpoch := h_currentEpoch hdr\<rparr> else s)
      in if h_configEpoch hdr > n_configEpoch (nd s1 q)
         then clusterDoBeforeSleep (CLUSTER_TODO_SAVE_CONFIG OR CLUSTER_TODO_FSYNC_CONFIG)
                (upd_node q (\<lambda>n. n\<lparr>n_configEpoch := h_configEpoch hdr\<rparr>) s1)
         else s1)"

definition learnSender :: "clusterMsg \<Rightarrow> nid \<Rightarrow> redisServer \<Rightarrow> redisServer" where
  "learnSender hdr q s =
     (let s1 = learnEpochs hdr q s;
          s2 = upd_node q (\<lambda>n. n\<lparr>n_repl_offset := h_offset hdr, n_repl_offset_time := s_mstime s1,
                 n_avg_slot_hot := (\<lambda>i. if i < 3 then h_hotness hdr i else n_avg_slot_hot n i),
                 n_is_hot_instance := uint (h_is_hot_instance hdr)\<rparr>) s1
      in if c_mf_end s2 \<noteq> 0 \<and> nodeIsSlave (me s2) \<and> n_slaveof (me s2) = Some q \<and>
            hasFlag (h_mflags0 hdr) CLUSTERMSG_FLAG0_PAUSED \<and> c_mf_master_offset s2 = -1
         then clusterDoBeforeSleep CLUSTER_TODO_HANDLE_MANUALFAILOVER
                (s2\<lparr>c_mf_master_offset := n_repl_offset (nd s2 q)\<rparr>)
         else s2)"

definition noteSender :: "clusterMsg \<Rightarrow> nid option \<Rightarrow> redisServer \<Rightarrow> redisServer" where
  "noteSender hdr sender s =
     (case sender of
        None \<Rightarrow> s
      | Some q \<Rightarrow>
          let s1 = upd_node q (\<lambda>n. n\<lparr>n_data_received := s_mstime s\<rparr>) s in
          if nodeInHandshake (nd s1 q) then s1 else learnSender hdr q s1)"

section \<open>PING and MEET: the answer\<close>

definition learnMyIp :: "clusterMsg \<Rightarrow> lid \<Rightarrow> redisServer \<Rightarrow> redisServer" where
  "learnMyIp hdr link s =
     (if (h_type hdr = CLUSTERMSG_TYPE_MEET \<or> n_ip (me s) = []) \<and> s_announce_ip s = None
      then case l_sockip (c_links s link) of
             None \<Rightarrow> s
           | Some ip \<Rightarrow> if ip \<noteq> n_ip (me s)
                        then clusterDoBeforeSleep CLUSTER_TODO_SAVE_CONFIG
                               (upd_node (c_myself s) (\<lambda>n. n\<lparr>n_ip := ip\<rparr>) s) else s
      else s)"

definition meetNode :: "clusterMsg \<Rightarrow> lid \<Rightarrow> redisServer \<Rightarrow> redisServer" where
  "meetNode hdr link s =
     (let (p, s1) = createClusterNode None CLUSTER_NODE_HANDSHAKE s;
          s2 = upd_node p (setAddress (nodeIp2String link (h_myip hdr) s1) (uint (h_port hdr))
                 (uint (h_pport hdr)) (uint (h_cport hdr))) s1
      in clusterDoBeforeSleep CLUSTER_TODO_SAVE_CONFIG (clusterAddNode p s2))"

definition answerPing :: "clusterMsg \<Rightarrow> lid \<Rightarrow> nid option \<Rightarrow> redisServer \<Rightarrow> redisServer" where
  "answerPing hdr link sender s =
     (let s1 = learnMyIp hdr link s;
          s2 = (if sender = None \<and> h_type hdr = CLUSTERMSG_TYPE_MEET then meetNode hdr link s1 else s1);
          s3 = (if sender = None \<and> h_type hdr = CLUSTERMSG_TYPE_MEET
                then clusterProcessGossipSection hdr link s2 else s2)
      in clusterSendPing link CLUSTERMSG_TYPE_PONG s3)"

section \<open>PING, PONG and MEET: what they tell\<close>

text \<open>The node of an outgoing link: None when processing goes on, otherwise the packet is done.\<close>

definition checkLinkNode ::
  "clusterMsg \<Rightarrow> lid \<Rightarrow> nid option \<Rightarrow> redisServer \<Rightarrow> int option \<times> redisServer" where
  "checkLinkNode hdr link sender s =
     (case l_node (c_links s link) of
        None \<Rightarrow> (None, s)
      | Some p \<Rightarrow>
          if nodeInHandshake (nd s p)
          then case sender of
                 Some q \<Rightarrow>
                   (let (changed, s1) = nodeUpdateAddressIfNeeded q link hdr s;
                        s2 = (if changed
                              then clusterDoBeforeSleep (CLUSTER_TODO_SAVE_CONFIG OR CLUSTER_TODO_UPDATE_STATE) s1
                              else s1)
                    in (Some 0, clusterDelNode p s2))
               | None \<Rightarrow>
                   (let s1 = clusterRenameNode p (h_sender hdr) s;
                        s2 = upd_node p (clearFlag CLUSTER_NODE_HANDSHAKE) s1;
                        s3 = upd_node p (setFlag (ucast (h_flags hdr) AND
                                (CLUSTER_NODE_MASTER OR CLUSTER_NODE_SLAVE))) s2
                    in (None, clusterDoBeforeSleep CLUSTER_TODO_SAVE_CONFIG s3))
          else if n_name (nd s p) \<noteq> h_sender hdr
          then (let s1 = upd_node p (setFlag CLUSTER_NODE_NOADDR) s;
                    s2 = upd_node p (setAddress [] 0 0 0) s1
                in (Some 0, clusterDoBeforeSleep CLUSTER_TODO_SAVE_CONFIG (freeClusterLink link s2)))
          else (None, s))"

definition learnNofailover :: "clusterMsg \<Rightarrow> nid option \<Rightarrow> redisServer \<Rightarrow> redisServer" where
  "learnNofailover hdr sender s =
     (case sender of
        None \<Rightarrow> s
      | Some q \<Rightarrow> upd_node q (setFlag (ucast (h_flags hdr) AND CLUSTER_NODE_NOFAILOVER))
                    (upd_node q (clearFlag CLUSTER_NODE_NOFAILOVER) s))"

definition learnAddress :: "clusterMsg \<Rightarrow> lid \<Rightarrow> nid option \<Rightarrow> redisServer \<Rightarrow> redisServer" where
  "learnAddress hdr link sender s =
     (case sender of
        None \<Rightarrow> s
      | Some q \<Rightarrow>
          if h_type hdr = CLUSTERMSG_TYPE_PING \<and> \<not> nodeInHandshake (nd s q)
          then let (changed, s1) = nodeUpdateAddressIfNeeded q link hdr s
               in if changed
                  then clusterDoBeforeSleep (CLUSTER_TODO_SAVE_CONFIG OR CLUSTER_TODO_UPDATE_STATE) s1
                  else s1
          else s)"

definition notePong :: "clusterMsg \<Rightarrow> lid \<Rightarrow> redisServer \<Rightarrow> redisServer" where
  "notePong hdr link s =
     (case l_node (c_links s link) of
        None \<Rightarrow> s
      | Some p \<Rightarrow>
          if h_type hdr = CLUSTERMSG_TYPE_PONG
          then let s1 = upd_node p (\<lambda>n. n\<lparr>n_pong_received := s_mstime s, n_ping_sent := 0\<rparr>) s in
               if nodeTimedOut (nd s1 p)
               then clusterDoBeforeSleep (CLUSTER_TODO_SAVE_CONFIG OR CLUSTER_TODO_UPDATE_STATE)
                      (upd_node p (clearFlag CLUSTER_NODE_PFAIL) s1)
               else if nodeFailed (nd s1 p) then clearNodeFailureIfNeeded p s1 else s1
          else s)"

text \<open>The role of the sender: a change from slave to master or back, and a change of master.\<close>

definition becomeSlave :: "nid \<Rightarrow> redisServer \<Rightarrow> redisServer" where
  "becomeSlave q s =
     (if nodeIsMaster (nd s q)
      then let s1 = snd (clusterDelNodeSlots q s);
               s2 = upd_node q (clearFlag (CLUSTER_NODE_MASTER OR CLUSTER_NODE_MIGRATE_TO)) s1;
               s3 = upd_node q (setFlag CLUSTER_NODE_SLAVE) s2
           in clusterDoBeforeSleep (CLUSTER_TODO_SAVE_CONFIG OR CLUSTER_TODO_UPDATE_STATE) s3
      else s)"

definition followMaster :: "nid \<Rightarrow> nid option \<Rightarrow> redisServer \<Rightarrow> redisServer" where
  "followMaster q master s =
     (case master of
        None \<Rightarrow> s
      | Some m \<Rightarrow>
          if n_slaveof (nd s q) \<noteq> Some m
          then let s1 = (case n_slaveof (nd s q) of
                           None \<Rightarrow> s | Some old \<Rightarrow> snd (clusterNodeRemoveSlave old q s));
                   s2 = snd (clusterNodeAddSlave m q s1);
                   s3 = upd_node q (\<lambda>n. n\<lparr>n_slaveof := Some m\<rparr>) s2
               in clusterDoBeforeSleep CLUSTER_TODO_SAVE_CONFIG s3
          else s)"

definition learnRole :: "clusterMsg \<Rightarrow> nid option \<Rightarrow> redisServer \<Rightarrow> redisServer" where
  "learnRole hdr sender s =
     (case sender of
        None \<Rightarrow> s
      | Some q \<Rightarrow>
          if h_slaveof hdr = NULL_NAME then clusterSetNodeAsMaster q s
          else let master = clusterLookupNode (h_slaveof hdr) s
               in followMaster q master (becomeSlave q s))"

text \<open>The slots the sender claims, and the answer when they are out of date.\<close>

definition senderMaster :: "nid option \<Rightarrow> redisServer \<Rightarrow> nid option" where
  "senderMaster sender s =
     (case sender of
        None \<Rightarrow> None
      | Some q \<Rightarrow> if nodeIsMaster (nd s q) then Some q else n_slaveof (nd s q))"

definition dirtySlots :: "clusterMsg \<Rightarrow> nid option \<Rightarrow> redisServer \<Rightarrow> bool" where
  "dirtySlots hdr sender s =
     (case senderMaster sender s of None \<Rightarrow> False | Some m \<Rightarrow> n_slots (nd s m) \<noteq> h_myslots hdr)"

definition outdatedSlot :: "clusterMsg \<Rightarrow> nid \<Rightarrow> u64 \<Rightarrow> redisServer \<Rightarrow> nat \<Rightarrow> bool" where
  "outdatedSlot hdr q epoch s j \<longleftrightarrow> bitmapTestBit (h_myslots hdr) j \<and>
     (case c_slots s j of None \<Rightarrow> False | Some p \<Rightarrow> p \<noteq> q \<and> n_configEpoch (nd s p) > epoch)"

definition answerOutdated :: "clusterMsg \<Rightarrow> nid \<Rightarrow> u64 \<Rightarrow> redisServer \<Rightarrow> redisServer" where
  "answerOutdated hdr q epoch s =
     (case List.find (outdatedSlot hdr q epoch s) [0..<CLUSTER_SLOTS] of
        None \<Rightarrow> s
      | Some j \<Rightarrow> (case c_slots s j of
                     None \<Rightarrow> s | Some p \<Rightarrow> clusterSendUpdate (n_link (nd s q)) p s))"

definition learnSlots :: "clusterMsg \<Rightarrow> nid option \<Rightarrow> u64 \<Rightarrow> redisServer \<Rightarrow> redisServer" where
  "learnSlots hdr sender epoch s =
     (case sender of
        None \<Rightarrow> s
      | Some q \<Rightarrow>
          let dirty_slots = dirtySlots hdr sender s;
              s1 = (if nodeIsMaster (nd s q) \<and> dirty_slots
                    then clusterUpdateSlotsConfigWith q epoch (h_myslots hdr) s else s);
              s2 = (if dirty_slots then answerOutdated hdr q epoch s1 else s1)
          in if nodeIsMaster (me s2) \<and> nodeIsMaster (nd s2 q) \<and> epoch = n_configEpoch (me s2)
             then clusterHandleConfigEpochCollision q s2 else s2)"

definition processPing ::
  "clusterMsg \<Rightarrow> lid \<Rightarrow> nid option \<Rightarrow> u64 \<Rightarrow> redisServer \<Rightarrow> int \<times> redisServer" where
  "processPing hdr link sender epoch s =
     (case checkLinkNode hdr link sender s of
        (Some r, s1) \<Rightarrow> (r, s1)
      | (None, s1) \<Rightarrow>
          let s2 = learnNofailover hdr sender s1;
              s3 = learnAddress hdr link sender s2;
              s4 = notePong hdr link s3;
              s5 = learnRole hdr sender s4;
              s6 = learnSlots hdr sender epoch s5
          in (1, if sender \<noteq> None then clusterProcessGossipSection hdr link s6 else s6))"

section \<open>The other messages\<close>

definition processFail :: "clusterMsg \<Rightarrow> nid option \<Rightarrow> redisServer \<Rightarrow> redisServer" where
  "processFail hdr sender s =
     (if sender = None then s
      else case clusterLookupNode (h_about hdr) s of
             None \<Rightarrow> s
           | Some p \<Rightarrow>
               if hasFlag (n_flags (nd s p)) (CLUSTER_NODE_FAIL OR CLUSTER_NODE_MYSELF) then s
               else clusterDoBeforeSleep (CLUSTER_TODO_SAVE_CONFIG OR CLUSTER_TODO_UPDATE_STATE)
                      (upd_node p (clearFlag CLUSTER_NODE_PFAIL)
                        (upd_node p (\<lambda>n. n\<lparr>n_fail_time := s_mstime s\<rparr>)
                          (upd_node p (setFlag CLUSTER_NODE_FAIL) s))))"

definition processPublish :: "redisServer \<Rightarrow> redisServer" where
  "processPublish s = (if s_pubsub s then emit EvPublish s else s)"

definition processAuthAck :: "nid \<Rightarrow> u64 \<Rightarrow> redisServer \<Rightarrow> redisServer" where
  "processAuthAck q epoch s =
     (if nodeIsMaster (nd s q) \<and> n_numslots (nd s q) > 0 \<and> epoch \<ge> c_failover_auth_epoch s
      then clusterDoBeforeSleep CLUSTER_TODO_HANDLE_FAILOVER
             (s\<lparr>c_failover_auth_count := c_failover_auth_count s + 1\<rparr>)
      else s)"

definition CLUSTER_MF_TIMEOUT :: int where "CLUSTER_MF_TIMEOUT = 5000"
definition CLUSTER_MF_PAUSE_MULT :: int where "CLUSTER_MF_PAUSE_MULT = 2"

definition processMFStart :: "lid \<Rightarrow> nid \<Rightarrow> redisServer \<Rightarrow> redisServer" where
  "processMFStart link q s =
     (if n_slaveof (nd s q) \<noteq> Some (c_myself s) then s
      else
        let s1 = resetManualFailover s;
            s2 = s1\<lparr>c_mf_end := s_mstime s1 + CLUSTER_MF_TIMEOUT, c_mf_slave := Some q\<rparr>;
            s3 = emit (EvPauseClients (s_mstime s2 + CLUSTER_MF_TIMEOUT * CLUSTER_MF_PAUSE_MULT)) s2
        in clusterSendPing link CLUSTERMSG_TYPE_PING s3)"

definition processUpdate :: "clusterMsg \<Rightarrow> redisServer \<Rightarrow> redisServer" where
  "processUpdate hdr s =
     (case clusterLookupNode (h_upd_nodename hdr) s of
        None \<Rightarrow> s
      | Some n \<Rightarrow>
          if n_configEpoch (nd s n) \<ge> h_upd_configEpoch hdr then s
          else
            let s1 = (if nodeIsSlave (nd s n) then clusterSetNodeAsMaster n s else s);
                s2 = upd_node n (\<lambda>x. x\<lparr>n_configEpoch := h_upd_configEpoch hdr\<rparr>) s1;
                s3 = clusterDoBeforeSleep (CLUSTER_TODO_SAVE_CONFIG OR CLUSTER_TODO_FSYNC_CONFIG) s2
            in clusterUpdateSlotsConfigWith n (h_upd_configEpoch hdr) (h_upd_slots hdr) s3)"

text \<open>
  A hot group message. The code reads the name of the node before it tests the pointer, and uses
  the slot of the message as an index without a test.
\<close>

definition upd_slot :: "nat \<Rightarrow> (slotState \<Rightarrow> slotState) \<Rightarrow> redisServer \<Rightarrow> redisServer" where
  "upd_slot j f s = s\<lparr>c_slot_status := (c_slot_status s)(j := f (c_slot_status s j))\<rparr>"

definition processHotGroup :: "clusterMsg \<Rightarrow> redisServer \<Rightarrow> redisServer" where
  "processHotGroup hdr s =
     (case clusterLookupNode (h_hg_nodename hdr) s of
        None \<Rightarrow> panic_with NullDeref s
      | Some n \<Rightarrow>
          let nodename = n_name (nd s n); slot = unat (h_hg_slot hdr) in
          if h_hg_status hdr = 1 then
            (if slot \<ge> CLUSTER_SLOTS then panic_with OutOfBounds s
             else
               let s1 = upd_slot slot (\<lambda>st. st\<lparr>ss_is_copied := True\<rparr>) s in
               if dictFind (ss_related_ins (c_slot_status s1 slot)) nodename = None
               then upd_slot slot (\<lambda>st. st\<lparr>ss_related_ins :=
                      dictReplace (ss_related_ins st) nodename n\<rparr>) s1
               else s1)
          else if h_hg_status hdr = 2 then
            (if slot \<ge> CLUSTER_SLOTS then panic_with OutOfBounds s
             else if dictFind (ss_related_ins (c_slot_status s slot)) nodename \<noteq> None
             then upd_slot slot (\<lambda>st. st\<lparr>ss_related_ins :=
                    dictDelete (ss_related_ins st) nodename\<rparr>) s
             else s)
          else s)"

section \<open>The packet\<close>

definition processTyped ::
  "clusterMsg \<Rightarrow> lid \<Rightarrow> nid option \<Rightarrow> u64 \<Rightarrow> u64 \<Rightarrow> redisServer \<Rightarrow> int \<times> redisServer" where
  "processTyped hdr link sender currentEpoch configEpoch s =
     (let type = h_type hdr in
      if type = CLUSTERMSG_TYPE_PING \<or> type = CLUSTERMSG_TYPE_PONG \<or> type = CLUSTERMSG_TYPE_MEET
      then processPing hdr link sender configEpoch s
      else if type = CLUSTERMSG_TYPE_FAIL then (1, processFail hdr sender s)
      else if type = CLUSTERMSG_TYPE_PUBLISH then (1, processPublish s)
      else if type = CLUSTERMSG_TYPE_HG then (1, processHotGroup hdr s)
      else case sender of
             None \<Rightarrow> (1, s)
           | Some q \<Rightarrow>
               (1, if type = CLUSTERMSG_TYPE_FAILOVER_AUTH_REQUEST
                   then clusterSendFailoverAuthIfNeeded q hdr s
                   else if type = CLUSTERMSG_TYPE_FAILOVER_AUTH_ACK then processAuthAck q currentEpoch s
                   else if type = CLUSTERMSG_TYPE_MFSTART then processMFStart link q s
                   else if type = CLUSTERMSG_TYPE_UPDATE then processUpdate hdr s
                   else if type = CLUSTERMSG_TYPE_MODULE then emit EvModule s
                   else s))"

definition clusterProcessPacket :: "clusterMsg \<Rightarrow> lid \<Rightarrow> redisServer \<Rightarrow> int \<times> redisServer" where
  "clusterProcessPacket hdr link s =
     (let type = h_type hdr;
          s1 = (if type < CLUSTERMSG_TYPE_COUNT
                then s\<lparr>c_stats_received := (c_stats_received s)
                         (unat type := c_stats_received s (unat type) + 1)\<rparr> else s)
      in if \<not> packetSane hdr (l_rcvbuf_len (c_links s1 link)) then (1, s1)
         else
           let sender = clusterLookupNode (h_sender hdr) s1;
               currentEpoch = senderCurrentEpoch hdr sender s1;
               configEpoch = senderConfigEpoch hdr sender s1;
               s2 = noteSender hdr sender s1;
               s3 = (if type = CLUSTERMSG_TYPE_PING \<or> type = CLUSTERMSG_TYPE_MEET
                     then answerPing hdr link sender s2 else s2)
           in processTyped hdr link sender currentEpoch configEpoch s3)"

section \<open>What receiving a message leaves alone\<close>

lemma nodeAddress_frames [frame_simps]:
  "core (upd_node p (setAddress ip port pport cport) s) = core s"
  "core (upd_node p (\<lambda>n. clearFlag b (setAddress ip port pport cport n)) s) = core s"
  "core (freeLinkOf p s) = core s"
  by (simp_all add: frame_simps setAddress_def freeLinkOf_def split: option.split)

lemma packet_frames [frame_simps]:
  "core (gossipReport sender g p s) = core s" "core (gossipPong g p s) = core s"
  "core (gossipAddress g p s) = core s"
  "core (snd (nodeUpdateAddressIfNeeded p link hdr s)) = core s"
  "core (noteSender hdr sender s) = core s" "core (learnMyIp hdr link s) = core s"
  "core (learnNofailover hdr sender s) = core s" "core (learnAddress hdr link sender s) = core s"
  "core (notePong hdr link s) = core s" "core (followMaster p master s) = core s"
  "core (answerOutdated hdr p e s) = core s" "core (processFail hdr sender s) = core s"
  "core (processPublish s) = core s" "core (processAuthAck p e s) = core s"
  "core (processMFStart link p s) = core s" "core (upd_slot j f s) = core s"
  "core (processHotGroup hdr s) = core s"
proof -
  show "core (gossipReport sender g p s) = core s"
    by (simp add: gossipReport_def frame_simps split: option.split)
  show "core (gossipPong g p s) = core s"
    by (simp add: gossipPong_def frame_simps Let_def case_prod_beta)
  show "core (gossipAddress g p s) = core s"
    by (simp add: gossipAddress_def frame_simps Let_def)
  show a: "core (snd (nodeUpdateAddressIfNeeded p link hdr s)) = core s" for p s
    by (simp add: nodeUpdateAddressIfNeeded_def frame_simps Let_def)
  have l: "core (learnEpochs hdr p s) = core s" for p s
    by (simp add: learnEpochs_def frame_simps Let_def)
  show "core (noteSender hdr sender s) = core s"
    by (simp add: noteSender_def learnSender_def l frame_simps Let_def split: option.split)
  show "core (learnMyIp hdr link s) = core s"
    by (simp add: learnMyIp_def frame_simps split: option.split)
  show "core (learnNofailover hdr sender s) = core s"
    by (simp add: learnNofailover_def frame_simps split: option.split)
  show "core (learnAddress hdr link sender s) = core s"
    by (simp add: learnAddress_def a frame_simps Let_def case_prod_beta split: option.split)
  show "core (notePong hdr link s) = core s"
    by (simp add: notePong_def frame_simps Let_def split: option.split)
  show "core (followMaster p master s) = core s"
    by (simp add: followMaster_def frame_simps Let_def split: option.split)
  show "core (answerOutdated hdr p e s) = core s"
    by (simp add: answerOutdated_def frame_simps split: option.split)
  show "core (processFail hdr sender s) = core s"
    by (simp add: processFail_def frame_simps split: option.split)
  show "core (processPublish s) = core s" by (simp add: processPublish_def frame_simps)
  show "core (processAuthAck p e s) = core s" by (simp add: processAuthAck_def frame_simps)
  show "core (processMFStart link p s) = core s" by (simp add: processMFStart_def frame_simps Let_def)
  show u: "core (upd_slot j f s) = core s" for j f s by (simp add: upd_slot_def frame_simps)
  show "core (processHotGroup hdr s) = core s"
    by (simp add: processHotGroup_def u frame_simps Let_def split: option.split)
qed

section \<open>The tables stay well formed\<close>

lemma create_and_add_ok:
  assumes ok: "cluster_ok s" and c: "createClusterNode name fl s = (p, s1)"
    and f: "core (upd_node p f s1) = core s1"
  shows "cluster_ok (clusterAddNode p (upd_node p f s1))"
proof (rule clusterAddNode_ok)
  note n = createClusterNode_ok [OF ok c]
  show "cluster_ok (upd_node p f s1)" by (rule cluster_ok_keep [OF n(1) f])
  show "fresh_node p (upd_node p f s1)" using fresh_node_core [OF f] n(2) by simp
qed

lemma clusterAddNode_live: "live s \<subseteq> live (clusterAddNode p s)"
proof (cases "dictFind (c_nodes s) (n_name (nd s p))")
  case None
  then show ?thesis by (auto simp: clusterAddNode_def live_def dictVals_def set_dictReplace)
next
  case (Some q)
  then show ?thesis by (auto simp: clusterAddNode_def live_def panic_with_def)
qed

lemma clusterAddNode_myself [simp]: "c_myself (clusterAddNode p s) = c_myself s"
  by (simp add: clusterAddNode_def panic_with_def Let_def)

lemma create_and_add_live:
  assumes ok: "cluster_ok s" and c: "createClusterNode name fl s = (p, s1)"
    and f: "core (upd_node p f s1) = core s1"
  shows "live s \<subseteq> live (clusterAddNode p (upd_node p f s1)) \<and>
    c_myself (clusterAddNode p (upd_node p f s1)) = c_myself s"
  using clusterAddNode_live [of "upd_node p f s1" p] createClusterNode_ok [OF ok c] live_core [OF f]
  by auto

text \<open>The invariant, and that no node is lost.\<close>

definition grows :: "redisServer \<Rightarrow> redisServer \<Rightarrow> bool" where
  "grows s s' \<longleftrightarrow> cluster_ok s' \<and> live s \<subseteq> live s' \<and> c_myself s' = c_myself s"

lemma grows_core: "cluster_ok s \<Longrightarrow> core s' = core s \<Longrightarrow> grows s s'"
  using core_slots [of s' s] by (auto simp: grows_def intro: cluster_ok_keep)

lemma grows_trans: "grows s s1 \<Longrightarrow> grows s1 s2 \<Longrightarrow> grows s s2"
  by (auto simp: grows_def)

lemma grows_ok: "grows s s' \<Longrightarrow> cluster_ok s'"
  by (simp add: grows_def)

lemma gossipStep_grows:
  assumes "cluster_ok s" shows "grows s (gossipStep sender g s)"
proof (cases "clusterLookupNode (g_nodename g) s")
  case (Some p)
  then have "core (gossipStep sender g s) = core s" by (simp add: gossipStep_def frame_simps)
  then show ?thesis by (rule grows_core [OF assms])
next
  case None
  then have eq: "gossipStep sender g s = gossipNew sender g s" by (simp add: gossipStep_def)
  obtain known s1 where b: "clusterBlacklistExists (g_nodename g) s = (known, s1)" by force
  then have c1: "core s1 = core s" using config_frames(5) [of "g_nodename g" s] by simp
  obtain p s2 where c: "createClusterNode (Some (g_nodename g)) (gossipFlags g) s1 = (p, s2)" by force
  note g1 = grows_core [OF assms c1]
  have "grows s1 (clusterAddNode p (upd_node p (setAddress ip po pp cp) s2))" for ip po pp cp
    using create_and_add_ok [OF grows_ok [OF g1] c] create_and_add_live [OF grows_ok [OF g1] c]
      nodeAddress_frames(1) [of p ip po pp cp s2]
    by (simp add: grows_def)
  then show ?thesis
    using grows_trans [OF g1] g1 assms grows_core [OF assms refl]
    by (simp add: eq gossipNew_def b c)
qed

lemma gossip_grows:
  assumes "cluster_ok s" shows "grows s (clusterProcessGossipSection hdr link s)"
proof -
  have "grows s (fold (gossipStep sender) gs s)" for sender gs
    using assms
  proof (induction gs arbitrary: s)
    case (Cons g gs)
    note g = gossipStep_grows [OF Cons.prems, of sender g]
    show ?case using grows_trans [OF g Cons.IH [OF grows_ok [OF g]]] by simp
  qed (simp add: grows_core)
  then show ?thesis by (simp add: clusterProcessGossipSection_def Let_def)
qed

lemma meetNode_grows:
  assumes "cluster_ok s" shows "grows s (meetNode hdr link s)"
proof -
  obtain p s1 where c: "createClusterNode None CLUSTER_NODE_HANDSHAKE s = (p, s1)" by force
  have "grows s (clusterAddNode p (upd_node p (setAddress ip po pp cp) s1))" for ip po pp cp
    using create_and_add_ok [OF assms c] create_and_add_live [OF assms c]
      nodeAddress_frames(1) [of p ip po pp cp s1]
    by (simp add: grows_def)
  then show ?thesis
    using grows_trans grows_core basic_frames(4) unfolding meetNode_def c Let_def prod.case
    by (meson grows_ok)
qed

lemma answerPing_grows:
  assumes "cluster_ok s" shows "grows s (answerPing hdr link sender s)"
proof -
  note 1 = grows_core [OF assms packet_frames(6) [of hdr link s]]
  have m: "grows (learnMyIp hdr link s) (meetNode hdr link (learnMyIp hdr link s))"
    by (rule meetNode_grows [OF grows_ok [OF 1]])
  note g = gossip_grows [OF grows_ok [OF m], of hdr link]
  have p: "grows s1 (clusterSendPing link t s1)" if "cluster_ok s1" for s1 t
    by (rule grows_core [OF that]) (simp add: frame_simps)
  show ?thesis
    unfolding answerPing_def Let_def
    using grows_trans [OF grows_trans [OF grows_trans [OF 1 m] g] p [OF grows_ok [OF g]]]
      grows_trans [OF 1 p [OF grows_ok [OF 1]]] by simp
qed


lemma delNodeSlots_live [simp]: "live (snd (clusterDelNodeSlots p s)) = live s"
proof -
  have "live (snd (fold (\<lambda>j (deleted, s). if clusterNodeGetSlotBit p j s
              then (deleted + 1 :: int, snd (clusterDelSlot j s)) else (deleted, s)) xs (k, s))) = live s" for xs k
    by (induction xs arbitrary: k s) auto
  then show ?thesis by (simp add: clusterDelNodeSlots_def)
qed

lemma learnRole_ok:
  assumes "cluster_ok s"
  shows "cluster_ok (learnRole hdr sender s) \<and> live (learnRole hdr sender s) = live s"
proof -
  have flags: "core (clusterDoBeforeSleep w (upd_node q (setFlag a) (upd_node q (clearFlag b) s'))) = core s'"
    for w q a b s' by (simp add: frame_simps)
  have slave: "cluster_ok (becomeSlave q s) \<and> live (becomeSlave q s) = live s" for q
    using assms clusterDelNodeSlots_ok [OF assms, of q] cluster_ok_keep [OF _ flags] live_core [OF flags]
    by (simp add: becomeSlave_def Let_def)
  have master: "core (followMaster q m s') = core s'" for q m s' by (simp add: frame_simps)
  have nm: "core (clusterSetNodeAsMaster q s) = core s" for q by (simp add: frame_simps)
  show ?thesis
    using assms slave cluster_ok_keep [OF _ master] live_core [OF master] cluster_ok_keep [OF assms nm]
      live_core [OF nm]
    by (simp add: learnRole_def Let_def split: option.split)
qed

lemma learnSlots_ok:
  assumes ok: "cluster_ok s" and q: "\<And>q. sender = Some q \<Longrightarrow> q \<in> live s"
  shows "cluster_ok (learnSlots hdr sender e s)"
proof (cases sender)
  case None
  then show ?thesis using ok by (simp add: learnSlots_def)
next
  case (Some p)
  define s1 where "s1 = (if nodeIsMaster (nd s p) \<and> dirtySlots hdr (Some p) s
                    then clusterUpdateSlotsConfigWith p e (h_myslots hdr) s else s)"
  define s2 where "s2 = (if dirtySlots hdr (Some p) s then answerOutdated hdr p e s1 else s1)"
  have "cluster_ok s1" using ok clusterUpdateSlotsConfigWith_ok [OF ok q [OF Some]] by (simp add: s1_def)
  moreover have "core s2 = core s1" by (simp add: s2_def frame_simps)
  ultimately have 2: "cluster_ok s2" using cluster_ok_keep by blast
  have "core (clusterHandleConfigEpochCollision p s2) = core s2" by (simp add: frame_simps)
  then have "cluster_ok (clusterHandleConfigEpochCollision p s2)" by (rule cluster_ok_keep [OF 2])
  then show ?thesis
    using 2 unfolding learnSlots_def Some option.case Let_def s1_def [symmetric] s2_def [symmetric] by simp
qed

lemma checkLinkNode_ok:
  assumes ok: "cluster_ok s"
    and link: "\<And>p. l_node (c_links s link) = Some p \<Longrightarrow> p \<in> live s \<and> p \<noteq> c_myself s"
    and new: "sender = None \<Longrightarrow> l_node (c_links s link) \<noteq> None \<Longrightarrow> clusterLookupNode (h_sender hdr) s = None"
  shows "cluster_ok (snd (checkLinkNode hdr link sender s))"
    and "sender = Some q \<Longrightarrow> fst (checkLinkNode hdr link sender s) = None \<Longrightarrow>
         snd (checkLinkNode hdr link sender s) = s"
proof -
  have "cluster_ok (snd (checkLinkNode hdr link sender s)) \<and>
    (sender = Some q \<longrightarrow> fst (checkLinkNode hdr link sender s) = None \<longrightarrow>
         snd (checkLinkNode hdr link sender s) = s)"
  proof (cases "l_node (c_links s link)")
    case None
    then show ?thesis using ok by (simp add: checkLinkNode_def)
  next
    case (Some p)
    note p = link [OF Some]
    show ?thesis
    proof (cases "nodeInHandshake (nd s p)")
      case hs: True
      show ?thesis
      proof (cases sender)
        case None
        have "cluster_ok (clusterRenameNode p (h_sender hdr) s)"
          using clusterRenameNode_ok [OF ok _ new [OF None]] p Some by simp
        then have "cluster_ok (clusterDoBeforeSleep w (upd_node p (setFlag a)
            (upd_node p (clearFlag b) (clusterRenameNode p (h_sender hdr) s))))" for w a b
          by (rule cluster_ok_keep) (simp add: frame_simps)
        with hs None Some show ?thesis by (simp add: checkLinkNode_def Let_def)
      next
        case (Some q')
        define s2 where "s2 = (let (changed, s1) = nodeUpdateAddressIfNeeded q' link hdr s
          in if changed then clusterDoBeforeSleep (CLUSTER_TODO_SAVE_CONFIG OR CLUSTER_TODO_UPDATE_STATE) s1
             else s1)"
        have c: "core s2 = core s"
          using packet_frames(4) [of q' link hdr s] by (simp add: s2_def frame_simps case_prod_beta Let_def)
        have "cluster_ok (clusterDelNode p s2)"
          using clusterDelNode_ok(1) [OF cluster_ok_keep [OF ok c]] core_slots [OF c] p by simp
        then show ?thesis
          using hs Some \<open>l_node (c_links s link) = Some p\<close>
          by (simp add: checkLinkNode_def s2_def Let_def case_prod_beta)
      qed
    next
      case False
      have "core (clusterDoBeforeSleep w (freeClusterLink link
          (upd_node p (setAddress [] 0 0 0) (upd_node p (setFlag b) s)))) = core s" for w b
        by (simp add: frame_simps)
      then show ?thesis using False Some ok cluster_ok_keep [OF ok]
        by (simp add: checkLinkNode_def Let_def)
    qed
  qed
  then show "cluster_ok (snd (checkLinkNode hdr link sender s))"
    and "sender = Some q \<Longrightarrow> fst (checkLinkNode hdr link sender s) = None \<Longrightarrow>
         snd (checkLinkNode hdr link sender s) = s" by blast+
qed

lemma processPing_ok:
  assumes ok: "cluster_ok s"
    and link: "\<And>p. l_node (c_links s link) = Some p \<Longrightarrow> p \<in> live s \<and> p \<noteq> c_myself s"
    and new: "sender = None \<Longrightarrow> l_node (c_links s link) \<noteq> None \<Longrightarrow> clusterLookupNode (h_sender hdr) s = None"
    and q: "\<And>q. sender = Some q \<Longrightarrow> q \<in> live s"
  shows "cluster_ok (snd (processPing hdr link sender e s))"
proof -
  obtain r s1 where c: "checkLinkNode hdr link sender s = (r, s1)" by force
  have "cluster_ok (snd (checkLinkNode hdr link sender s))"
    by (rule checkLinkNode_ok(1) [OF ok]) (use link new in auto)
  then have ok1: "cluster_ok s1" by (simp add: c)
  have same: "sender = Some q \<Longrightarrow> fst (checkLinkNode hdr link sender s) = None \<Longrightarrow>
      snd (checkLinkNode hdr link sender s) = s" for q
    by (rule checkLinkNode_ok(2) [OF ok]) (use link new in auto)
  show ?thesis
  proof (cases r)
    case None
    define s4 where "s4 = notePong hdr link (learnAddress hdr link sender (learnNofailover hdr sender s1))"
    have c4: "core s4 = core s1" by (simp add: s4_def frame_simps)
    note ok4 = cluster_ok_keep [OF ok1 c4]
    define s6 where "s6 = learnSlots hdr sender e (learnRole hdr sender s4)"
    have 6: "cluster_ok s6"
      unfolding s6_def
    proof (rule learnSlots_ok)
      show "cluster_ok (learnRole hdr sender s4)" using learnRole_ok [OF ok4] by simp
      fix q assume s: "sender = Some q"
      then have "s1 = s" using same [OF s] None c s by simp
      then show "q \<in> live (learnRole hdr sender s4)"
        using learnRole_ok [OF ok4] q [OF s] live_core [OF c4] by simp
    qed
    have "snd (processPing hdr link sender e s) =
        (if sender \<noteq> None then clusterProcessGossipSection hdr link s6 else s6)"
      by (simp only: processPing_def c None option.case prod.case Let_def s4_def s6_def snd_conv)
    then show ?thesis using 6 gossip_grows [OF 6, THEN grows_ok] by simp
  next
    case (Some i)
    then show ?thesis using ok1 by (simp add: processPing_def c)
  qed
qed

text \<open>
  The link on which a packet arrives: the link of a node of the table, or one that was accepted.
  Peers answer on an outgoing link with PONGs only; MEET comes on accepted links.
\<close>

definition linkOk :: "lid \<Rightarrow> clusterMsg \<Rightarrow> redisServer \<Rightarrow> bool" where
  "linkOk link hdr s \<longleftrightarrow>
     (case l_node (c_links s link) of
        None \<Rightarrow> True
      | Some p \<Rightarrow> p \<in> live s \<and> p \<noteq> c_myself s \<and> h_type hdr \<noteq> CLUSTERMSG_TYPE_MEET)"

lemma links_basic [simp]:
  "c_links (panic_with r s) = c_links s" "c_links (serverAssert b s) = c_links s"
  "c_links (emit ev s) = c_links s" "c_links (clusterDoBeforeSleep w s) = c_links s"
  "c_links (snd (random_num s)) = c_links s" "c_links (snd (allocNode n s)) = c_links s"
  "c_links (clusterAddNode p s) = c_links s" "c_links (freeLinkOf p s) = c_links s"
  by (simp_all add: panic_with_def serverAssert_def emit_def clusterDoBeforeSleep_def random_num_def
      allocNode_def clusterAddNode_def freeLinkOf_def freeClusterLink_def Let_def split: option.split)

lemma links_send: "erase s' = erase s \<Longrightarrow> c_links s' = c_links s"
  using erase_fields [of s' s] by simp

lemmas links_senders [simp] = send_erase [THEN links_send]

lemma links_reports [simp]:
  "c_links (snd (clusterNodeAddFailureReport f p s)) = c_links s"
  "c_links (snd (clusterNodeDelFailureReport p q s)) = c_links s"
  "c_links (snd (clusterNodeFailureReportsCount p s)) = c_links s"
  "c_links (snd (createClusterNode name fl s)) = c_links s"
  "c_links (markNodeAsFailingIfNeeded p s) = c_links s"
  "c_links (snd (clusterBlacklistExists bname s)) = c_links s"
proof -
  have c: "c_links (clusterNodeCleanupFailureReports p s) = c_links s" for p s
    by (simp add: clusterNodeCleanupFailureReports_def Let_def)
  show "c_links (snd (clusterNodeAddFailureReport f p s)) = c_links s"
    "c_links (snd (clusterNodeDelFailureReport p q s)) = c_links s"
    by (simp_all add: clusterNodeAddFailureReport_def clusterNodeDelFailureReport_def c split: option.split)
  show n: "c_links (snd (clusterNodeFailureReportsCount p s)) = c_links s" for p s
    by (simp add: clusterNodeFailureReportsCount_def c Let_def)
  show "c_links (snd (createClusterNode name fl s)) = c_links s"
    by (simp add: createClusterNode_def case_prod_beta split: option.split)
  show "c_links (markNodeAsFailingIfNeeded p s) = c_links s"
    by (simp add: markNodeAsFailingIfNeeded_def n Let_def case_prod_beta)
  show "c_links (snd (clusterBlacklistExists bname s)) = c_links s"
    by (simp add: clusterBlacklistExists_def Let_def) (subst blacklist_cleanup_shape, simp)
qed

lemma gossip_links [simp]: "c_links (clusterProcessGossipSection hdr link s) = c_links s"
proof -
  have "c_links (gossipStep sender g s) = c_links s" for sender g s
    by (simp add: gossipStep_def gossipReport_def gossipPong_def gossipAddress_def gossipNew_def Let_def
        case_prod_beta split: option.split)
  then have "c_links (fold (gossipStep sender) gs s) = c_links s" for sender gs
    by (intro fold_keeps_field)
  then show ?thesis by (simp add: clusterProcessGossipSection_def Let_def)
qed

lemma answerPing_links [simp]: "c_links (answerPing hdr link sender s) = c_links s"
  by (simp add: answerPing_def learnMyIp_def meetNode_def Let_def case_prod_beta split: option.split)

lemma noteSender_links [simp]: "c_links (noteSender hdr sender s) = c_links s"
  by (simp add: noteSender_def learnSender_def learnEpochs_def Let_def split: option.split)

lemma processTyped_ok:
  assumes ok: "cluster_ok s"
    and link: "\<And>p. l_node (c_links s link) = Some p \<Longrightarrow> p \<in> live s \<and> p \<noteq> c_myself s"
    and new: "sender = None \<Longrightarrow> l_node (c_links s link) \<noteq> None \<Longrightarrow> clusterLookupNode (h_sender hdr) s = None"
    and q: "\<And>q. sender = Some q \<Longrightarrow> q \<in> live s"
  shows "cluster_ok (snd (processTyped hdr link sender e1 e2 s))"
proof -
  have ping: "cluster_ok (snd (processPing hdr link sender e2 s))"
    by (rule processPing_ok [OF ok]) (use link new q in auto)
  have keep: "cluster_ok s'" if "core s' = core s" for s' by (rule cluster_ok_keep [OF ok that])
  have upd: "cluster_ok (processUpdate hdr s)"
  proof (cases "clusterLookupNode (h_upd_nodename hdr) s")
    case None
    then show ?thesis using ok by (simp add: processUpdate_def)
  next
    case (Some n)
    define s3 where "s3 = clusterDoBeforeSleep (CLUSTER_TODO_SAVE_CONFIG OR CLUSTER_TODO_FSYNC_CONFIG)
      (upd_node n (\<lambda>x. x\<lparr>n_configEpoch := h_upd_configEpoch hdr\<rparr>)
        (if nodeIsSlave (nd s n) then clusterSetNodeAsMaster n s else s))"
    have c: "core s3 = core s" by (simp add: s3_def frame_simps)
    have "n \<in> live s3" using lookup_live [OF Some] live_core [OF c] by simp
    then have "cluster_ok (clusterUpdateSlotsConfigWith n (h_upd_configEpoch hdr) (h_upd_slots hdr) s3)"
      by (rule clusterUpdateSlotsConfigWith_ok(1) [OF keep [OF c]])
    then show ?thesis using ok by (simp add: processUpdate_def Some s3_def Let_def)
  qed
  have vote: "core (clusterSendFailoverAuthIfNeeded q hdr s) = core s" for q
    using voted_core [of q s] by (simp add: vote_cases)
  have others: "cluster_ok (processFail hdr sender s)" "cluster_ok (processPublish s)"
    "cluster_ok (processHotGroup hdr s)" "cluster_ok (processAuthAck q e s)"
    "cluster_ok (processMFStart link q s)" "cluster_ok (emit EvModule s)" for q e
    by (rule keep, simp add: frame_simps)+
  show ?thesis
    unfolding processTyped_def Let_def
    by (simp add: ok ping upd keep [OF vote] others split: option.split)
qed

text \<open>
  The invariant of the node and slot tables survives every packet, well formed or not.
\<close>

lemma clusterProcessPacket_ok:
  assumes ok: "cluster_ok s" and link: "linkOk link hdr s"
  shows "cluster_ok (snd (clusterProcessPacket hdr link s))"
proof -
  define s1 where "s1 = (if h_type hdr < CLUSTERMSG_TYPE_COUNT
     then s\<lparr>c_stats_received := (c_stats_received s)
              (unat (h_type hdr) := c_stats_received s (unat (h_type hdr)) + 1)\<rparr> else s)"
  define sender where "sender = clusterLookupNode (h_sender hdr) s1"
  define s2 where "s2 = noteSender hdr sender s1"
  define ping where "ping \<longleftrightarrow> h_type hdr = CLUSTERMSG_TYPE_PING \<or> h_type hdr = CLUSTERMSG_TYPE_MEET"
  define s3 where "s3 = (if ping then answerPing hdr link sender s2 else s2)"
  have c: "core s1 = core s" "core s2 = core s1" by (simp_all add: s1_def s2_def frame_simps)
  have ok1: "cluster_ok s1" by (rule cluster_ok_keep [OF ok c(1)])
  have ok2: "cluster_ok s2" by (rule cluster_ok_keep [OF ok1 c(2)])
  have g: "grows s2 s3" using answerPing_grows [OF ok2] grows_core [OF ok2 refl] by (simp add: s3_def)
  have links: "c_links s3 = c_links s" by (simp add: s3_def s2_def s1_def)
  note f = core_slots [OF c(1)] core_slots [OF c(2)]
  have "cluster_ok (snd (processTyped hdr link sender e1 e2 s3))" for e1 e2
  proof (rule processTyped_ok [OF grows_ok [OF g]])
    show "p \<in> live s3 \<and> p \<noteq> c_myself s3" if "l_node (c_links s3 link) = Some p" for p
      using that link f g by (auto simp: linkOk_def links grows_def)
    show "q \<in> live s3" if "sender = Some q" for q
      using that lookup_live f g by (force simp: sender_def grows_def)
    show "clusterLookupNode (h_sender hdr) s3 = None"
      if none: "sender = None" and l: "l_node (c_links s3 link) \<noteq> None"
    proof -
      have "h_type hdr \<noteq> CLUSTERMSG_TYPE_MEET" using l link by (auto simp: linkOk_def links)
      then have "core s3 = core s2" by (simp add: s3_def answerPing_def frame_simps Let_def)
      then have "c_nodes s3 = c_nodes s1" using c(2) by (simp add: core_def)
      then show ?thesis using none by (simp add: sender_def clusterLookupNode_def)
    qed
  qed
  then show ?thesis
    using ok1
    unfolding clusterProcessPacket_def Let_def s1_def [symmetric] sender_def [symmetric]
      s2_def [symmetric] ping_def [symmetric] s3_def [symmetric]
    by (simp split: if_split)
qed


section \<open>Epochs and votes while a packet is processed\<close>

lemma epochs_packet [frame_simps]:
  "epochs (freeLinkOf p s) = epochs s" "epochs (gossipStep sender g s) = epochs s"
  "epochs (clusterProcessGossipSection hdr link s) = epochs s"
  "epochs (snd (nodeUpdateAddressIfNeeded p link hdr s)) = epochs s"
  "epochs (answerPing hdr link sender s) = epochs s"
  "epochs (snd (checkLinkNode hdr link sender s)) = epochs s"
proof -
  show fl: "epochs (freeLinkOf p s) = epochs s" for p s
    by (simp add: freeLinkOf_def frame_simps split: option.split)
  have rep: "epochs (gossipReport sender g p s) = epochs s" for sender g p s
    by (simp add: gossipReport_def frame_simps split: option.split)
  have pong: "epochs (gossipPong g p s) = epochs s" for g p s
    by (simp add: gossipPong_def frame_simps Let_def case_prod_beta)
  have addr: "epochs (gossipAddress g p s) = epochs s" for g p s
    by (simp add: gossipAddress_def frame_simps fl Let_def)
  have new: "epochs (gossipNew sender g s) = epochs s" for sender g s
    by (simp add: gossipNew_def frame_simps Let_def case_prod_beta)
  show gs: "epochs (gossipStep sender g s) = epochs s" for sender g s
    by (simp add: gossipStep_def rep pong addr new split: option.split)
  show gos: "epochs (clusterProcessGossipSection hdr link s) = epochs s" for s
    by (simp add: clusterProcessGossipSection_def Let_def) (intro fold_keeps_field gs)
  show up: "epochs (snd (nodeUpdateAddressIfNeeded p link hdr s)) = epochs s" for p s
    by (simp add: nodeUpdateAddressIfNeeded_def fl frame_simps Let_def)
  have ip: "epochs (learnMyIp hdr link s) = epochs s" for s
    by (simp add: learnMyIp_def frame_simps split: option.split)
  have meet: "epochs (meetNode hdr link s) = epochs s" for s
    by (simp add: meetNode_def frame_simps Let_def case_prod_beta)
  have "CLUSTERMSG_TYPE_PONG \<noteq> CLUSTERMSG_TYPE_FAILOVER_AUTH_ACK" by (simp add: msg_types)
  then show "epochs (answerPing hdr link sender s) = epochs s"
    by (simp add: answerPing_def ip meet gos epochs_ping Let_def)
  show "epochs (snd (checkLinkNode hdr link sender s)) = epochs s"
    by (simp add: checkLinkNode_def up frame_simps Let_def case_prod_beta split: option.split)
qed

lemma epochs_delNodeSlots: "epochs (snd (clusterDelNodeSlots p s)) = epochs s"
proof -
  have "epochs (snd (fold (\<lambda>j (deleted, s). if clusterNodeGetSlotBit p j s
              then (deleted + 1 :: int, snd (clusterDelSlot j s)) else (deleted, s)) xs (k, s))) = epochs s" for xs k
    by (induction xs arbitrary: k s) (auto simp: frame_simps)
  then show ?thesis by (simp add: clusterDelNodeSlots_def)
qed

lemma epochs_learn [frame_simps]:
  "epochs (learnNofailover hdr sender s) = epochs s" "epochs (learnAddress hdr link sender s) = epochs s"
  "epochs (notePong hdr link s) = epochs s" "epochs (learnRole hdr sender s) = epochs s"
  "epochs (answerOutdated hdr p e s) = epochs s"
  by (simp_all add: learnNofailover_def learnAddress_def notePong_def learnRole_def becomeSlave_def
      followMaster_def answerOutdated_def epochs_delNodeSlots frame_simps Let_def case_prod_beta
      split: option.split)

lemma epochs_collision:
  "epochs (clusterHandleConfigEpochCollision p s) = epochs s \<or>
   epochs (clusterHandleConfigEpochCollision p s) =
     (c_currentEpoch s + 1, c_lastVoteEpoch s, votesIn (s_out s))"
proof -
  have "epochs (s\<lparr>c_currentEpoch := e\<rparr>) = (e, c_lastVoteEpoch s, votesIn (s_out s))" for e
    by (simp add: epochs_def)
  then show ?thesis by (simp add: clusterHandleConfigEpochCollision_def frame_simps Let_def)
qed

lemma epochs_eqD: "epochs s' = epochs s \<Longrightarrow>
   c_currentEpoch s' = c_currentEpoch s \<and> c_lastVoteEpoch s' = c_lastVoteEpoch s \<and>
   votesIn (s_out s') = votesIn (s_out s)"
  by (simp add: epochs_def)

lemma epochs_learnSlots:
  "epochs (learnSlots hdr sender e s) = epochs s \<or>
   epochs (learnSlots hdr sender e s) = (c_currentEpoch s + 1, c_lastVoteEpoch s, votesIn (s_out s))"
proof (cases sender)
  case (Some p)
  define s1 where "s1 = (if nodeIsMaster (nd s p) \<and> dirtySlots hdr (Some p) s
                    then clusterUpdateSlotsConfigWith p e (h_myslots hdr) s else s)"
  define s2 where "s2 = (if dirtySlots hdr (Some p) s then answerOutdated hdr p e s1 else s1)"
  have "epochs s2 = epochs s" by (simp add: s1_def s2_def frame_simps)
  then show ?thesis
    using epochs_collision [of p s2] epochs_eqD [of s2 s]
    unfolding learnSlots_def Some option.case Let_def s1_def [symmetric] s2_def [symmetric] by auto
qed (simp add: learnSlots_def)

lemma epochs_processPing:
  "epochs (snd (processPing hdr link sender e s)) = epochs s \<or>
   epochs (snd (processPing hdr link sender e s)) = (c_currentEpoch s + 1, c_lastVoteEpoch s, votesIn (s_out s))"
proof -
  obtain r s1 where c: "checkLinkNode hdr link sender s = (r, s1)" by force
  then have 1: "epochs s1 = epochs s" using epochs_packet(6) [of hdr link sender s] by simp
  show ?thesis
  proof (cases r)
    case None
    define s5 where "s5 = learnRole hdr sender (notePong hdr link
        (learnAddress hdr link sender (learnNofailover hdr sender s1)))"
    have 5: "epochs s5 = epochs s" by (simp add: s5_def 1 frame_simps)
    have "epochs (snd (processPing hdr link sender e s)) = epochs (learnSlots hdr sender e s5)"
      by (simp add: processPing_def c None s5_def Let_def frame_simps)
    then show ?thesis using epochs_learnSlots [of hdr sender e s5] epochs_eqD [OF 5] 5 by auto
  next
    case (Some i)
    then show ?thesis using 1 by (simp add: processPing_def c)
  qed
qed

text \<open>What a message can do to the epochs and the votes, \<open>cur\<close> being the epoch after reading the header.\<close>

definition epochMove :: "u64 \<Rightarrow> redisServer \<Rightarrow> redisServer \<Rightarrow> bool" where
  "epochMove cur s s' \<longleftrightarrow>
     epochs s' = (cur, c_lastVoteEpoch s, votesIn (s_out s)) \<or>
     epochs s' = (cur + 1, c_lastVoteEpoch s, votesIn (s_out s)) \<or>
     c_lastVoteEpoch s \<noteq> cur \<and>
       (epochs s' = (cur, cur, votesIn (s_out s)) \<or>
        (\<exists>l. epochs s' = (cur, cur, votesIn (s_out s) @ [(l, cur)])))"

lemma epochs_noteSender:
  "epochs (noteSender hdr sender s) =
     (case sender of
        Some q \<Rightarrow> if nodeInHandshake (nd s q) then c_currentEpoch s
                  else max (c_currentEpoch s) (h_currentEpoch hdr)
      | None \<Rightarrow> c_currentEpoch s, c_lastVoteEpoch s, votesIn (s_out s))"
proof (cases sender)
  case None
  then show ?thesis by (simp add: noteSender_def epochs_def)
next
  case (Some q)
  have "epochs (s\<lparr>c_currentEpoch := e\<rparr>) = (e, c_lastVoteEpoch s, votesIn (s_out s))" for e s
    by (simp add: epochs_def)
  then have "epochs (learnEpochs hdr q s) =
      (max (c_currentEpoch s) (h_currentEpoch hdr), c_lastVoteEpoch s, votesIn (s_out s))" for s
    by (cases "c_currentEpoch s < h_currentEpoch hdr")
      (simp_all add: learnEpochs_def frame_simps Let_def not_less leD max.absorb4 max.absorb1, simp_all add: epochs_def)
  then have l: "epochs (learnSender hdr q s) =
      (max (c_currentEpoch s) (h_currentEpoch hdr), c_lastVoteEpoch s, votesIn (s_out s))" for s
    by (simp add: learnSender_def frame_simps Let_def)
  show ?thesis
    by (simp add: noteSender_def Some l nd_upd_node nodeInHandshake_def Let_def)
      (simp add: epochs_def)
qed

lemma epochs_processTyped:
  "epochMove (c_currentEpoch s) s (snd (processTyped hdr link sender e1 e2 s))"
proof -
  have same: "epochMove (c_currentEpoch s) s s'" if "epochs s' = epochs s" for s'
    using that by (simp add: epochMove_def epochs_def)
  have ping: "epochMove (c_currentEpoch s) s (snd (processPing hdr link sender e2 s))"
    using epochs_processPing [of hdr link sender e2 s] by (auto simp: epochMove_def epochs_def)
  have vote: "epochMove (c_currentEpoch s) s (clusterSendFailoverAuthIfNeeded q hdr s)" for q
  proof (cases "mayVote q hdr s")
    case True
    then have "c_lastVoteEpoch s \<noteq> c_currentEpoch s" by (simp add: mayVote_def)
    then show ?thesis using voted_epochs [of q s] True
      by (auto simp: vote_cases epochMove_def split: option.splits)
  qed (simp add: vote_cases same)
  have ping2: "CLUSTERMSG_TYPE_PING \<noteq> CLUSTERMSG_TYPE_FAILOVER_AUTH_ACK" by (simp add: msg_types)
  have upd: "epochs (processUpdate hdr s) = epochs s"
    by (simp add: processUpdate_def frame_simps Let_def split: option.split)
  have others: "epochs (processFail hdr sender s) = epochs s" "epochs (processPublish s) = epochs s"
    "epochs (processHotGroup hdr s) = epochs s" "epochs (processAuthAck q e s) = epochs s"
    "epochs (processMFStart link q s) = epochs s" for q e
    by (simp_all add: processFail_def processPublish_def processHotGroup_def processAuthAck_def
        processMFStart_def upd_slot_def epochs_ping [OF ping2] frame_simps Let_def split: option.split)
  show ?thesis
    unfolding processTyped_def Let_def
    by (simp add: ping vote same upd others frame_simps split: option.split)
qed

lemma epochs_clusterProcessPacket:
  "\<exists>cur. epochMove cur s (snd (clusterProcessPacket hdr link s)) \<and>
     (cur = c_currentEpoch s \<or> cur = max (c_currentEpoch s) (h_currentEpoch hdr))"
proof -
  define s1 where "s1 = (if h_type hdr < CLUSTERMSG_TYPE_COUNT
     then s\<lparr>c_stats_received := (c_stats_received s)
              (unat (h_type hdr) := c_stats_received s (unat (h_type hdr)) + 1)\<rparr> else s)"
  define sender where "sender = clusterLookupNode (h_sender hdr) s1"
  define s2 where "s2 = noteSender hdr sender s1"
  define s3 where "s3 = (if h_type hdr = CLUSTERMSG_TYPE_PING \<or> h_type hdr = CLUSTERMSG_TYPE_MEET
     then answerPing hdr link sender s2 else s2)"
  have e1: "epochs s1 = epochs s" by (simp add: s1_def frame_simps)
  note f1 = epochs_eqD [OF e1]
  have e3: "epochs s3 = epochs s2" by (simp add: s3_def frame_simps)
  have cur: "c_currentEpoch s3 = c_currentEpoch s \<or>
      c_currentEpoch s3 = max (c_currentEpoch s) (h_currentEpoch hdr)"
    and last: "c_lastVoteEpoch s3 = c_lastVoteEpoch s" "votesIn (s_out s3) = votesIn (s_out s)"
    using epochs_noteSender [of hdr sender s1] f1 e3
    by (auto simp: s2_def [symmetric] epochs_def split: option.splits if_splits)
  have move: "epochMove (c_currentEpoch s3) s (snd (processTyped hdr link sender a b s3))" for a b
    using epochs_processTyped [of s3 hdr link sender a b] by (simp add: epochMove_def last)
  have rej: "epochMove (c_currentEpoch s) s s1" using e1 by (simp add: epochMove_def epochs_def)
  show ?thesis
    unfolding clusterProcessPacket_def Let_def s1_def [symmetric] sender_def [symmetric]
      s2_def [symmetric] s3_def [symmetric]
    using move rej cur by (auto split: if_split)
qed


section \<open>Properties of received packets\<close>


text \<open>A MEET from a third node arrives at a node of a pair.\<close>

definition meet_state :: redisServer where
  "meet_state = (pair_cluster node_a zeroNode)\<lparr>c_links := (\<lambda>_. \<lparr>l_ctime = 0, l_node = None,
     l_rcvbuf_len = 4384, l_sockip = None, l_peerip = ''10.0.0.3''\<rparr>)\<rparr>"

definition meet_msg :: clusterMsg where
  "meet_msg = emptyMsg\<lparr>h_totlen := 2288, h_ver := 1, h_type := CLUSTERMSG_TYPE_MEET,
     h_sender := replicate 40 (CHR ''c'')\<rparr>"

lemma meet_state_ok: "cluster_ok meet_state"
proof -
  have "core meet_state = core (pair_cluster node_a zeroNode)" by (simp add: meet_state_def core_def)
  then show ?thesis
    by (rule cluster_ok_keep [rotated]) (rule pair_cluster_ok, simp_all add: node_a_def zeroNode_def)
qed


text \<open>
  A packet of fixed size, or a PING, PONG or MEET with its gossip section, that passes the
  length check lies within the bytes received: the header, the body that its type announces and
  every gossip entry that its count announces.
\<close>

theorem accepted_packet_in_buffer:
  assumes "packetSane hdr n"
  shows "(h_type hdr \<in> {CLUSTERMSG_TYPE_PING, CLUSTERMSG_TYPE_PONG, CLUSTERMSG_TYPE_MEET} \<longrightarrow>
            SIZE_HDR + SIZE_GOSSIP * uint (h_count hdr) \<le> int n) \<and>
         (h_type hdr = CLUSTERMSG_TYPE_FAIL \<longrightarrow> SIZE_HDR + SIZE_FAIL \<le> int n) \<and>
         (h_type hdr = CLUSTERMSG_TYPE_UPDATE \<longrightarrow> SIZE_HDR + SIZE_UPDATE \<le> int n) \<and>
         (h_type hdr = CLUSTERMSG_TYPE_HG \<longrightarrow> SIZE_HDR + SIZE_HG \<le> int n) \<and>
         (h_type hdr \<in> {CLUSTERMSG_TYPE_FAILOVER_AUTH_REQUEST, CLUSTERMSG_TYPE_FAILOVER_AUTH_ACK,
            CLUSTERMSG_TYPE_MFSTART} \<longrightarrow> SIZE_HDR \<le> int n)"
proof -
  have len: "k \<le> int n" if "expectedLength hdr = Some (word_of_int k)" "0 \<le> k" "k < 2 ^ 32" for k
  proof -
    have "unat (word_of_int k :: u32) = nat k"
      using that(2,3) by (simp add: unat_eq_nat_uint uint_word_of_int take_bit_int_eq_self)
    then show ?thesis using assms that by (auto simp: packetSane_def not_less)
  qed
  have "uint (h_count hdr) < 2 ^ 16" "0 \<le> uint (h_count hdr)"
    using uint_lt2p [of "h_count hdr"] by simp_all
  then show ?thesis
    using len [of "SIZE_HDR + SIZE_GOSSIP * uint (h_count hdr)"] len [of "SIZE_HDR + SIZE_FAIL"]
      len [of "SIZE_HDR + SIZE_UPDATE"] len [of "SIZE_HDR + SIZE_HG"] len [of SIZE_HDR]
    by (auto simp: expectedLength_def msg_types sizes)
qed

theorem accepted_packet_in_buffer_witness:
  "packetSane meet_msg 2288 \<and> SIZE_HDR + SIZE_GOSSIP * uint (h_count meet_msg) \<le> 2288"
proof -
  have p: "packetSane meet_msg 2288"
    by (simp add: packetSane_def meet_msg_def expectedLength_def emptyMsg_def msg_types
        CLUSTER_PROTO_VER_def SIZE_HDR_def SIZE_GOSSIP_def Let_def)
  have "h_type meet_msg = CLUSTERMSG_TYPE_MEET" by (simp add: meet_msg_def)
  then show ?thesis using accepted_packet_in_buffer [OF p] p by simp
qed

text \<open>
  A finding: the expected length of a PUBLISH is kept in 32 bits, so the lengths of channel
  and message can wrap. There are messages that pass the check on a receive buffer of 2305 bytes
  and announce a channel of more than four billion bytes, which the code then copies.
\<close>

theorem publish_length_wraps:
  "\<exists>hdr. h_type hdr = CLUSTERMSG_TYPE_PUBLISH \<and> packetSane hdr 2305 \<and>
     uint (h_channel_len hdr) > 4000000000 \<and>
     SIZE_HDR + SIZE_PUBLISH - 8 + uint (h_channel_len hdr) + uint (h_message_len hdr) > 2 ^ 32"
proof -
  let ?h = "emptyMsg\<lparr>h_totlen := 2305, h_ver := 1, h_type := CLUSTERMSG_TYPE_PUBLISH,
     h_channel_len := 4294967295, h_message_len := 10\<rparr>"
  have "packetSane ?h 2305"
    by (simp add: packetSane_def expectedLength_def emptyMsg_def msg_types CLUSTER_PROTO_VER_def
        SIZE_HDR_def SIZE_PUBLISH_def Let_def)
  then show ?thesis by (intro exI [of _ ?h]) (simp add: SIZE_HDR_def SIZE_PUBLISH_def)
qed

text \<open>
  A finding: exactly when a hot group message ends the process. It names a node that is not
  in the table (its name is read through the NULL pointer before the test), or it adds or removes
  and its slot, taken from the wire, lies beyond the slot table.
\<close>

theorem hot_group_crash_iff:
  "s_panic (processHotGroup hdr s) \<noteq> None \<longleftrightarrow>
     s_panic s \<noteq> None \<or> clusterLookupNode (h_hg_nodename hdr) s = None \<or>
     (h_hg_status hdr \<in> {1, 2} \<and> unat (h_hg_slot hdr) \<ge> CLUSTER_SLOTS)"
  by (auto simp: processHotGroup_def panic_with_def upd_slot_def Let_def split: option.split)

text \<open>
  C29. A hot group message keeps the set of instances that hold a copy of a slot as a map by name:
  adding registers the node and marks the slot as copied, removing forgets it, any other status
  changes nothing; the other slots and the other members stay as they are.
\<close>

theorem hot_group_membership:
  assumes "clusterLookupNode (h_hg_nodename hdr) s = Some p" and "unat (h_hg_slot hdr) < CLUSTER_SLOTS"
  shows "let before = c_slot_status s; after = c_slot_status (processHotGroup hdr s);
             j = unat (h_hg_slot hdr); name = n_name (nd s p)
         in (\<forall>i. i \<noteq> j \<longrightarrow> after i = before i) \<and>
            dictFind (ss_related_ins (after j)) =
              (if h_hg_status hdr = 1 \<and> dictFind (ss_related_ins (before j)) name = None
               then (dictFind (ss_related_ins (before j)))(name \<mapsto> p)
               else if h_hg_status hdr = 2 then (dictFind (ss_related_ins (before j)))(name := None)
               else dictFind (ss_related_ins (before j))) \<and>
            ss_is_copied (after j) = (h_hg_status hdr = 1 \<or> ss_is_copied (before j)) \<and>
            s_panic (processHotGroup hdr s) = s_panic s"
  using assms
  by (auto simp: processHotGroup_def upd_slot_def Let_def fun_eq_iff dictFind_dictReplace
      dictFind_dictDelete)

definition hg_msg :: clusterMsg where
  "hg_msg = emptyMsg\<lparr>h_type := CLUSTERMSG_TYPE_HG, h_hg_status := 1, h_hg_slot := 9, h_hg_nodename := nameB\<rparr>"

theorem hot_group_membership_witness:
  "let s = processHotGroup hg_msg (pair_cluster node_a zeroNode)
   in dictFind (ss_related_ins (c_slot_status s 9)) nameB = Some 1 \<and> ss_is_copied (c_slot_status s 9)"
proof -
  let ?s = "pair_cluster node_a zeroNode"
  have l: "clusterLookupNode (h_hg_nodename hg_msg) ?s = Some 1"
    by (simp add: clusterLookupNode_def hg_msg_def dictFind_def CLUSTER_NAMELEN_def)
  have j: "unat (h_hg_slot hg_msg) < CLUSTER_SLOTS" by (simp add: hg_msg_def CLUSTER_SLOTS_def)
  have z: "c_slot_status ?s = (\<lambda>_. zeroSlot)" by (simp add: pair_cluster_def zeroServer_def)
  have "h_hg_status hg_msg = 1" "unat (h_hg_slot hg_msg) = 9" by (simp_all add: hg_msg_def)
  moreover have "dictFind ([] :: (string, nid) dict) = (\<lambda>_. None)"
    by (simp add: dictFind_def fun_eq_iff)
  ultimately show ?thesis
    using hot_group_membership [OF l j] by (simp add: Let_def z zeroSlot_def)
qed


end
