(* ===== verification/CString.thy ===== *)
theory CString
  imports HPrelude
begin

text \<open>
  Strings and numbers, as the C library and src/server/src/util.c convert them: printing in decimal,
  \<^verbatim>\<open>strtoll\<close>, \<^verbatim>\<open>strtoull\<close>, \<^verbatim>\<open>atoi\<close>, the strict \<open>string2ll\<close> that reads the arguments of commands, and
  \<open>sdssplitargs\<close> (src/server/src/sds.c), which splits a line of the configuration file.
\<close>

section \<open>Printing\<close>

text \<open>Decimal digits, as \<^verbatim>\<open>snprintf("%lld")\<close> writes them.\<close>

fun digits :: "nat \<Rightarrow> string" where
  "digits n = (if n < 10 then [char_of (48 + n)] else digits (n div 10) @ [char_of (48 + n mod 10)])"

declare digits.simps [simp del]

definition decimal :: "int \<Rightarrow> string" where
  "decimal i = (if i < 0 then CHR ''-'' # digits (nat (- i)) else digits (nat i))"

text \<open>The argument up to its first NUL, which is what \<^verbatim>\<open>strlen\<close> and \<^verbatim>\<open>sdsnew\<close> see of it.\<close>

definition cstr :: "string \<Rightarrow> string" where
  "cstr x = takeWhile (\<lambda>c. c \<noteq> CHR 0x00) x"

section \<open>Reading with the C library\<close>

text \<open>\<^verbatim>\<open>strtoll\<close> in base 10, with its saturation.\<close>

definition isDigit :: "char \<Rightarrow> bool" where
  "isDigit ch \<longleftrightarrow> 48 \<le> (of_char ch :: nat) \<and> (of_char ch :: nat) \<le> 57"

definition isSpace :: "char \<Rightarrow> bool" where
  "isSpace ch \<longleftrightarrow> (of_char ch :: nat) = 32 \<or> 9 \<le> (of_char ch :: nat) \<and> (of_char ch :: nat) \<le> 13"

definition digitsValue :: "string \<Rightarrow> int" where
  "digitsValue str = fold (\<lambda>ch v. v * 10 + (of_char ch - 48)) (takeWhile isDigit str) 0"

definition strtoll :: "string \<Rightarrow> int" where
  "strtoll str =
     (let t = dropWhile isSpace str;
          v = (case t of
                 [] \<Rightarrow> 0
               | ch # r \<Rightarrow> if ch = CHR ''-'' then - digitsValue r
                           else if ch = CHR ''+'' then digitsValue r else digitsValue t)
      in max (- (2 ^ 63)) (min (2 ^ 63 - 1) v))"

section \<open>What was printed is read back\<close>

lemma of_char_digit: "k < 10 \<Longrightarrow> of_char (char_of (48 + k) :: char) = (48 + k :: nat)"
  by (simp add: of_char_of take_bit_nat_eq_self)

lemma of_char_digit_int: "k < 10 \<Longrightarrow> of_char (char_of (48 + k :: nat) :: char) = (48 + int k :: int)"
  using of_char_digit [of k] by (metis of_nat_add of_nat_numeral of_nat_of_char)

lemma digits_are_digits: "ch \<in> set (digits n) \<Longrightarrow> isDigit ch"
proof (induction n rule: digits.induct)
  case (1 n)
  have d: "isDigit (char_of (48 + k))" if "k < 10" for k :: nat
    using of_char_digit [OF that] that by (simp add: isDigit_def)
  show ?case
  proof (cases "n < 10")
    case True
    then show ?thesis using "1.prems" d by (simp add: digits.simps [of n])
  next
    case False
    then show ?thesis using "1.prems" "1.IH" d [of "n mod 10"] by (auto simp: digits.simps [of n])
  qed
qed

lemma digits_nonempty: "digits n \<noteq> []"
  by (simp add: digits.simps [of n])

lemma digits_value: "digitsValue (digits n) = int n"
proof -
  have "fold (\<lambda>ch v. v * 10 + (of_char ch - 48)) (digits n) 0 = int n"
  proof (induction n rule: digits.induct)
    case (1 n)
    show ?case
    proof (cases "n < 10")
      case True
      then show ?thesis by (simp add: digits.simps [of n] of_char_digit_int)
    next
      case False
      have "10 * int (n div 10) + int (n mod 10) = int n" by presburger
      with False 1 show ?thesis by (simp add: digits.simps [of n] of_char_digit_int algebra_simps)
    qed
  qed
  moreover have tw: "takeWhile isDigit (digits n) = digits n"
    using digits_are_digits by (simp add: takeWhile_eq_all_conv)
  ultimately show ?thesis by (simp only: digitsValue_def tw)
qed

lemma digits_length: "n < 10 ^ Suc k \<Longrightarrow> length (digits n) \<le> Suc k"
proof (induction k arbitrary: n)
  case 0
  then show ?case by (simp add: digits.simps [of n])
next
  case (Suc k)
  show ?case
  proof (cases "n < 10")
    case True
    then show ?thesis by (simp add: digits.simps [of n])
  next
    case False
    have "n div 10 < 10 ^ Suc k" using Suc.prems by (simp add: less_mult_imp_div_less mult.commute)
    then show ?thesis using Suc.IH [of "n div 10"] False by (simp add: digits.simps [of n])
  qed
qed

lemma strtoll_decimal:
  assumes "0 \<le> t" and "t < 10 ^ 16"
  shows "strtoll (take 16 (decimal t)) = t"
proof -
  let ?d = "digits (nat t)"
  have n: "nat t < 10 ^ Suc 15" using assms by (simp add: nat_less_iff)
  have "take 16 (decimal t) = ?d" using digits_length [OF n] assms(1) by (simp add: decimal_def)
  moreover obtain ch r where d: "?d = ch # r" using digits_nonempty by (metis neq_Nil_conv)
  moreover have ch: "isDigit ch" using d digits_are_digits [of ch "nat t"] by simp
  have "\<not> isSpace ch" using ch by (auto simp: isDigit_def isSpace_def)
  moreover have "ch \<noteq> CHR ''-''" "ch \<noteq> CHR ''+''" using ch by (auto simp: isDigit_def)
  moreover have "digitsValue (ch # r) = t" using digits_value [of "nat t"] d assms(1) by simp
  moreover have "t < 2 ^ 63 - 1" "- (2 ^ 63) < t" using assms by simp_all
  ultimately show ?thesis by (simp add: strtoll_def Let_def)
qed

lemma cstr_id: "CHR 0x00 \<notin> set x \<Longrightarrow> cstr x = x"
  by (auto simp: cstr_def takeWhile_eq_all_conv)

lemma decimal_0: "decimal 0 = ''0''"
  by code_simp

text \<open>\<^verbatim>\<open>atoi\<close> converts the long of \<^verbatim>\<open>strtol\<close> to an int of 32 bits.\<close>

definition atoi :: "string \<Rightarrow> int" where
  "atoi str = sint (word_of_int (strtoll str) :: u32)"

text \<open>\<^verbatim>\<open>strtoull\<close> in base 10: it saturates, and a sign negates the result in the unsigned type.\<close>

definition strtoull :: "string \<Rightarrow> u64" where
  "strtoull str =
     (let t = dropWhile isSpace str;
          neg = (t \<noteq> [] \<and> hd t = CHR ''-'');
          v = digitsValue (if t \<noteq> [] \<and> (hd t = CHR ''-'' \<or> hd t = CHR ''+'') then tl t else t)
      in if v > 2 ^ 64 - 1 then word_of_int (2 ^ 64 - 1)
         else word_of_int (if neg then - v else v))"

section \<open>The strict reader of util.c\<close>

definition ULLONG_MAX :: nat where "ULLONG_MAX = 2 ^ 64 - 1"

text \<open>The loop over the digits after the first one; None is an overflow or a character that is left.\<close>

fun string2llDigits :: "string \<Rightarrow> nat \<Rightarrow> nat option" where
  "string2llDigits [] v = Some v"
| "string2llDigits (ch # r) v =
     (if \<not> isDigit ch then None
      else if v > ULLONG_MAX div 10 then None
      else if v * 10 > ULLONG_MAX - (of_char ch - 48) then None
      else string2llDigits r (v * 10 + (of_char ch - 48)))"

definition string2ll :: "string \<Rightarrow> int option" where
  "string2ll str =
     (if str = [] then None
      else if str = ''0'' then Some 0
      else
        let negative = (hd str = CHR ''-''); t = (if negative then tl str else str) in
        case t of
          [] \<Rightarrow> None
        | ch # r \<Rightarrow>
            if isDigit ch \<and> ch \<noteq> CHR ''0''
            then (case string2llDigits r (of_char ch - 48) of
                    None \<Rightarrow> None
                  | Some v \<Rightarrow> if negative then if v > 2 ^ 63 then None else Some (- int v)
                              else if v > 2 ^ 63 - 1 then None else Some (int v))
            else None)"

section \<open>Splitting a line\<close>

datatype quoting = Unquoted | InDouble | InSingle

definition isHexDigit :: "char \<Rightarrow> bool" where
  "isHexDigit ch \<longleftrightarrow> isDigit ch \<or> (97 \<le> (of_char ch :: nat) \<and> (of_char ch :: nat) \<le> 102) \<or>
     (65 \<le> (of_char ch :: nat) \<and> (of_char ch :: nat) \<le> 70)"

definition hexDigitToInt :: "char \<Rightarrow> nat" where
  "hexDigitToInt ch =
     (if isDigit ch then of_char ch - 48
      else if 97 \<le> (of_char ch :: nat) then of_char ch - 87 else of_char ch - 55)"

definition unescape :: "char \<Rightarrow> char" where
  "unescape ch =
     (if ch = CHR ''n'' then CHR 0x0A else if ch = CHR ''r'' then CHR 0x0D
      else if ch = CHR ''t'' then CHR 0x09 else if ch = CHR ''b'' then CHR 0x08
      else if ch = CHR ''a'' then CHR 0x07 else ch)"

definition endsToken :: "char \<Rightarrow> bool" where
  "endsToken ch \<longleftrightarrow> ch \<in> {CHR '' '', CHR 0x0A, CHR 0x0D, CHR 0x09}"

text \<open>The inner loop: the token that starts here and what follows it.\<close>

function splitToken :: "quoting \<Rightarrow> string \<Rightarrow> string \<Rightarrow> (string \<times> string) option" where
  "splitToken Unquoted current p =
     (case p of
        [] \<Rightarrow> Some (current, [])
      | ch # r \<Rightarrow>
          if endsToken ch then Some (current, r)
          else if ch = CHR 0x22 then splitToken InDouble current r
          else if ch = CHR 0x27 then splitToken InSingle current r
          else splitToken Unquoted (current @ [ch]) r)"
| "splitToken InDouble current p =
     (case p of
        [] \<Rightarrow> None
      | ch # r \<Rightarrow>
          if ch = CHR 0x5C \<and> length r \<ge> 3 \<and> r ! 0 = CHR ''x'' \<and> isHexDigit (r ! 1) \<and> isHexDigit (r ! 2)
          then splitToken InDouble
                 (current @ [char_of (hexDigitToInt (r ! 1) * 16 + hexDigitToInt (r ! 2))]) (drop 3 r)
          else if ch = CHR 0x5C \<and> r \<noteq> [] then splitToken InDouble (current @ [unescape (hd r)]) (tl r)
          else if ch = CHR 0x22
          then if r \<noteq> [] \<and> \<not> isSpace (hd r) then None else Some (current, r)
          else splitToken InDouble (current @ [ch]) r)"
| "splitToken InSingle current p =
     (case p of
        [] \<Rightarrow> None
      | ch # r \<Rightarrow>
          if ch = CHR 0x5C \<and> r \<noteq> [] \<and> hd r = CHR 0x27
          then splitToken InSingle (current @ [CHR 0x27]) (tl r)
          else if ch = CHR 0x27
          then if r \<noteq> [] \<and> \<not> isSpace (hd r) then None else Some (current, r)
          else splitToken InSingle (current @ [ch]) r)"
  by pat_completeness auto
termination by (relation "measure (\<lambda>(_, _, p). length p)") auto

lemma splitToken_shorter: "splitToken q current p = Some (tok, rest) \<Longrightarrow> p \<noteq> [] \<Longrightarrow> length rest < length p"
proof (induction q current p rule: splitToken.induct)
  case (1 current p)
  then show ?case
    by (cases p; cases "tl p") (auto simp: splitToken.simps(1) [of _ "[]"] split: if_splits)
next
  case (2 current p)
  then show ?case
    by (cases p) (fastforce split: if_splits dest: less_imp_diff_less)+
next
  case (3 current p)
  then show ?case by (cases p) (fastforce split: if_splits)+
qed

function sdssplitargs :: "string \<Rightarrow> string list option" where
  "sdssplitargs line =
     (let p = dropWhile isSpace line in
      if p = [] then Some []
      else case splitToken Unquoted [] p of
             None \<Rightarrow> None
           | Some (tok, rest) \<Rightarrow>
               (case sdssplitargs rest of None \<Rightarrow> None | Some toks \<Rightarrow> Some (tok # toks)))"
  by pat_completeness auto
termination
proof (relation "measure length")
  fix line p q tok rest
  assume "p = dropWhile isSpace line" "p \<noteq> []" "splitToken Unquoted [] p = Some q" "(tok, rest) = q"
  then show "(rest, line) \<in> measure length"
    using splitToken_shorter [of Unquoted "[]" p tok rest] length_dropWhile_le [of isSpace line] by auto
qed simp

declare sdssplitargs.simps [simp del]

text \<open>A word that needs no quotes.\<close>

definition plainWord :: "string \<Rightarrow> bool" where
  "plainWord w \<longleftrightarrow> w \<noteq> [] \<and> (\<forall>ch \<in> set w. \<not> isSpace ch \<and> ch \<noteq> CHR 0x22 \<and> ch \<noteq> CHR 0x27)"

definition unwords :: "string list \<Rightarrow> string" where
  "unwords ws = concat (map (\<lambda>w. CHR '' '' # w) ws)"

lemma isSpace_ends: "endsToken ch \<Longrightarrow> isSpace ch"
  by (auto simp: endsToken_def isSpace_def)

lemma splitToken_plain:
  assumes "\<forall>ch \<in> set w. \<not> isSpace ch \<and> ch \<noteq> CHR 0x22 \<and> ch \<noteq> CHR 0x27" and "r = [] \<or> endsToken (hd r)"
  shows "splitToken Unquoted current (w @ r) = Some (current @ w, tl r)"
  using assms
proof (induction w arbitrary: current)
  case Nil
  then show ?case by (cases r) auto
next
  case (Cons c w)
  then have "\<not> endsToken c" using isSpace_ends [of c] by auto
  with Cons show ?case by (simp del: splitToken.simps add: splitToken.simps(1) [of _ "c # w @ r"])
qed

lemma split_one:
  assumes "plainWord w" and "r = [] \<or> endsToken (hd r)"
  shows "sdssplitargs (w @ r) = map_option (Cons w) (sdssplitargs (tl r))"
proof -
  have "dropWhile isSpace (w @ r) = w @ r" using assms(1) by (cases w) (auto simp: plainWord_def)
  then show ?thesis
    using splitToken_plain [of w r "[]"] assms by (auto simp: sdssplitargs.simps [of "w @ r"] plainWord_def Let_def split: option.split)
qed

lemma split_blank: "isSpace ch \<Longrightarrow> sdssplitargs (ch # r) = sdssplitargs r"
  by (simp add: sdssplitargs.simps [of "ch # r"] sdssplitargs.simps [of r])

lemma split_words:
  assumes "\<forall>w \<in> set (v # ws). plainWord w"
  shows "sdssplitargs (v @ unwords ws @ [CHR 0x0A]) = Some (v # ws)"
  using assms
proof (induction ws arbitrary: v)
  case Nil
  then show ?case
    by (simp add: split_one unwords_def endsToken_def sdssplitargs.simps [of "[]"])
next
  case (Cons w ws)
  have "unwords (w # ws) @ [CHR 0x0A] = CHR '' '' # w @ unwords ws @ [CHR 0x0A]" by (simp add: unwords_def)
  then show ?case using Cons by (simp add: split_one endsToken_def)
qed

section \<open>Exactness of the strict reader\<close>

definition natValue :: "string \<Rightarrow> nat \<Rightarrow> nat" where
  "natValue str v = fold (\<lambda>ch v. v * 10 + (of_char ch - 48)) str v"

lemma natValue_mono: "v \<le> natValue str v"
proof (induction str arbitrary: v)
  case Nil
  then show ?case by (simp add: natValue_def)
next
  case (Cons ch r)
  have "v \<le> v * 10 + (of_char ch - 48)" by simp
  also have "\<dots> \<le> natValue r (v * 10 + (of_char ch - 48))" by (rule Cons.IH)
  finally show ?case by (simp add: natValue_def)
qed

lemma string2llDigits_exact:
  "v \<le> ULLONG_MAX \<Longrightarrow>
   string2llDigits str v = (if (\<forall>ch \<in> set str. isDigit ch) \<and> natValue str v \<le> ULLONG_MAX
                            then Some (natValue str v) else None)"
proof (induction str arbitrary: v)
  case Nil
  then show ?case by (simp add: natValue_def)
next
  case (Cons ch r)
  let ?w = "v * 10 + (of_char ch - 48)"
  have step: "natValue (ch # r) v = natValue r ?w" by (simp add: natValue_def)
  have d: "isDigit ch \<Longrightarrow> of_char ch - 48 \<le> (9::nat)" by (auto simp: isDigit_def)
  show ?case
  proof (cases "isDigit ch \<and> ?w \<le> ULLONG_MAX")
    case True
    then have "v \<le> ULLONG_MAX div 10" "\<not> v * 10 > ULLONG_MAX - (of_char ch - 48)" by auto
    with True show ?thesis using Cons.IH [of ?w] by (simp add: step)
  next
    case False
    have "ULLONG_MAX < ?w \<Longrightarrow> \<not> natValue (ch # r) v \<le> ULLONG_MAX"
      using natValue_mono [of ?w r] by (simp add: step)
    moreover have "string2llDigits (ch # r) v = None" if "isDigit ch" and over: "ULLONG_MAX < ?w"
    proof -
      have "(9::nat) \<le> ULLONG_MAX" by (simp add: ULLONG_MAX_def)
      then have "v * 10 > ULLONG_MAX - (of_char ch - 48)" using over d [OF \<open>isDigit ch\<close>] by linarith
      then show ?thesis by (simp only: string2llDigits.simps if_True if_cancel if_split)
    qed
    ultimately show ?thesis using False by (metis (mono_tags, lifting) list.set_intros(1) not_le_imp_less string2llDigits.simps(2))
  qed
qed

lemma natValue_digits: "natValue (digits n) 0 = n"
proof (induction n rule: digits.induct)
  case (1 n)
  show ?case
  proof (cases "n < 10")
    case True
    then show ?thesis by (simp add: digits.simps [of n] natValue_def of_char_digit)
  next
    case False
    with 1 show ?thesis by (simp add: digits.simps [of n] natValue_def of_char_digit algebra_simps)
  qed
qed

lemma char_of_digit: "isDigit ch \<Longrightarrow> char_of (48 + (of_char ch - 48 :: nat)) = ch"
  by (simp add: isDigit_def)

lemma digits_natValue:
  assumes "\<forall>ch \<in> set str. isDigit ch" and "str \<noteq> []" and "hd str \<noteq> CHR ''0'' \<or> length str = 1"
  shows "digits (natValue str 0) = str \<and> (hd str \<noteq> CHR ''0'' \<longrightarrow> 0 < natValue str 0)"
  using assms
proof (induction str rule: rev_induct)
  case Nil
  then show ?case by simp
next
  case (snoc ch u)
  have d: "of_char ch - 48 < (10::nat)" "isDigit ch" using snoc.prems by (auto simp: isDigit_def)
  have v: "natValue (u @ [ch]) 0 = natValue u 0 * 10 + (of_char ch - 48)" by (simp add: natValue_def)
  show ?case
  proof (cases "u = []")
    case True
    have "ch = char_of (48 :: nat)" if "of_char ch = (48 :: nat)" using that by (metis char_of_char)
    then have "ch \<noteq> CHR ''0'' \<Longrightarrow> 0 < of_char ch - (48::nat)"
      using d(2) by (cases "of_char ch = (48 :: nat)") (auto simp: isDigit_def char_of_def)
    then show ?thesis using True d char_of_digit [OF d(2)] by (simp add: v natValue_def digits.simps [of "of_char ch - 48"])
  next
    case False
    then have h: "hd u \<noteq> CHR ''0''" using snoc.prems by (cases u) auto
    then have ih: "digits (natValue u 0) = u" "0 < natValue u 0" using snoc False by auto
    have "(natValue u 0 * 10 + (of_char ch - 48)) div 10 = natValue u 0"
      "(natValue u 0 * 10 + (of_char ch - 48)) mod 10 = of_char ch - 48" using d(1) by simp_all
    then show ?thesis using ih False d char_of_digit [OF d(2)]
      by (simp add: v digits.simps [of "natValue u 0 * 10 + (of_char ch - 48)"])
  qed
qed


lemma isDigit_minus: "\<not> isDigit (CHR ''-'')"
  by code_simp

lemma digit_zero: "of_char (CHR ''0'') = (48 :: nat)"
  by code_simp

lemma decimal_first:
  "0 < n \<Longrightarrow> digits n = ch # r \<Longrightarrow> isDigit ch \<and> ch \<noteq> CHR ''0'' \<and> (\<forall>x \<in> set r. isDigit x)"
proof -
  assume n: "0 < n" and d: "digits n = ch # r"
  have all: "\<forall>x \<in> set (ch # r). isDigit x" using digits_are_digits [of _ n] d by auto
  moreover have "ch \<noteq> CHR ''0''" using n d
  proof (induction n arbitrary: r rule: digits.induct)
    case (1 n)
    show ?case
    proof (cases "n < 10")
      case True
      then have "ch = char_of (48 + n)" using "1.prems" by (simp add: digits.simps [of n])
      then show ?thesis using of_char_digit [OF True] "1.prems"(1) by (metis add.right_neutral add_left_cancel digit_zero less_numeral_extra(3))
    next
      case False
      obtain u where "digits (n div 10) = ch # u"
        using "1.prems"(2) False digits_nonempty [of "n div 10"] by (cases "digits (n div 10)") (auto simp: digits.simps [of n])
      then show ?thesis using "1.IH" [OF False] False by simp
    qed
  qed
  ultimately show ?thesis by simp
qed

text \<open>The magnitude that the reader sees in the characters after the sign.\<close>

definition magnitude :: "string \<Rightarrow> nat option" where
  "magnitude str =
     (case str of [] \<Rightarrow> None
      | ch # r \<Rightarrow> if isDigit ch \<and> ch \<noteq> CHR ''0'' then string2llDigits r (of_char ch - 48) else None)"

lemma magnitude_exact: "magnitude str = Some v \<longleftrightarrow> str = digits v \<and> 0 < v \<and> v \<le> ULLONG_MAX"
proof (cases str)
  case Nil
  then show ?thesis using digits_nonempty [of v] by (auto simp: magnitude_def)
next
  case (Cons ch r)
  have d: "isDigit ch \<Longrightarrow> of_char ch - 48 \<le> ULLONG_MAX" by (auto simp: isDigit_def ULLONG_MAX_def)
  have n: "natValue (ch # r) 0 = natValue r (of_char ch - 48)" by (simp add: natValue_def)
  show ?thesis
  proof
    assume "magnitude str = Some v"
    then have a: "\<forall>x \<in> set (ch # r). isDigit x" "ch \<noteq> CHR ''0''" "v = natValue (ch # r) 0" "v \<le> ULLONG_MAX"
      using string2llDigits_exact [OF d] by (auto simp: magnitude_def Cons n split: if_splits)
    then show "str = digits v \<and> 0 < v \<and> v \<le> ULLONG_MAX"
      using digits_natValue [of "ch # r"] by (simp add: Cons)
  next
    assume b: "str = digits v \<and> 0 < v \<and> v \<le> ULLONG_MAX"
    then have c: "isDigit ch" "ch \<noteq> CHR ''0''" "\<forall>x \<in> set r. isDigit x" using decimal_first [of v ch r] Cons by auto
    have v: "natValue r (of_char ch - 48) = v" "v \<le> ULLONG_MAX" using natValue_digits [of v] b n Cons by simp_all
    show "magnitude str = Some v"
      unfolding magnitude_def Cons
      using c v string2llDigits_exact [OF d [OF c(1)], of r] by simp
  qed
qed

lemma string2ll_magnitude:
  "string2ll str = (if str = ''0'' then Some 0
     else if str \<noteq> [] \<and> hd str = CHR ''-''
     then (case magnitude (tl str) of None \<Rightarrow> None | Some v \<Rightarrow> if v > 2 ^ 63 then None else Some (- int v))
     else (case magnitude str of None \<Rightarrow> None | Some v \<Rightarrow> if v > 2 ^ 63 - 1 then None else Some (int v)))"
proof (cases "str = [] \<or> str = ''0''")
  case True
  then show ?thesis by (auto simp: string2ll_def magnitude_def)
next
  case False
  then obtain ch r where "str = ch # r" "str \<noteq> ''0''" by (cases str) auto
  then show ?thesis
    by (cases "ch = CHR ''-''"; cases r) (simp_all add: string2ll_def magnitude_def split: option.split)
qed

lemma digits_sign: "digits n \<noteq> CHR ''-'' # r"
  using digits_are_digits [of "CHR ''-''" n] by (metis isDigit_minus list.set_intros(1))

text \<open>
  The strict reader of numbers accepts exactly the decimal representations of the 64 bit integers:
  no blank, no plus sign, no leading zero and no overflow passes, and what is accepted is the number
  that prints as the argument.
\<close>

theorem string2ll_exact:
  "string2ll str = Some v \<longleftrightarrow> str = decimal v \<and> - (2 ^ 63) \<le> v \<and> v < 2 ^ 63"
proof (cases "str = ''0''")
  case True
  have "v = 0" if "decimal v = ''0''"
  proof -
    have "\<not> v < 0" using that by (auto simp: decimal_def)
    then have "digits (nat v) = ''0''" using that by (simp add: decimal_def)
    then have "\<not> 0 < nat v" using decimal_first [of "nat v" "CHR ''0''" "[]"] by metis
    then show ?thesis using \<open>\<not> v < 0\<close> by simp
  qed
  moreover have "string2ll ''0'' = Some 0" by (simp add: string2ll_def)
  ultimately show ?thesis using True decimal_0 by (metis option.inject neg_le_0_iff_le zero_le_numeral zero_le_power zero_less_numeral zero_less_power)
next
  case nonzero: False
  show ?thesis
  proof (cases "str \<noteq> [] \<and> hd str = CHR ''-''")
    case True
    then have str: "str = CHR ''-'' # tl str" by (cases str) auto
    have "string2ll str = Some v \<longleftrightarrow> (\<exists>n. magnitude (tl str) = Some n \<and> n \<le> 2 ^ 63 \<and> v = - int n)"
      unfolding string2ll_magnitude using True nonzero by (cases "magnitude (tl str)") auto
    also have "\<dots> \<longleftrightarrow> (\<exists>n. tl str = digits n \<and> 0 < n \<and> n \<le> ULLONG_MAX \<and> n \<le> 2 ^ 63 \<and> v = - int n)"
      unfolding magnitude_exact by blast
    also have "\<dots> \<longleftrightarrow> v < 0 \<and> tl str = digits (nat (- v)) \<and> - (2 ^ 63) \<le> v"
      by (auto simp: ULLONG_MAX_def intro!: exI [of _ "nat (- v)"])
    also have "\<dots> \<longleftrightarrow> str = decimal v \<and> - (2 ^ 63) \<le> v \<and> v < 2 ^ 63"
      using str digits_sign [of "nat v" "tl str"] by (auto simp: decimal_def)
    finally show ?thesis .
  next
    case False
    have "string2ll str = Some v \<longleftrightarrow> (\<exists>n. magnitude str = Some n \<and> n < 2 ^ 63 \<and> v = int n)"
      unfolding string2ll_magnitude using False nonzero by (cases "magnitude str") auto
    also have "\<dots> \<longleftrightarrow> (\<exists>n. str = digits n \<and> 0 < n \<and> n \<le> ULLONG_MAX \<and> n < 2 ^ 63 \<and> v = int n)"
      unfolding magnitude_exact by blast
    also have "\<dots> \<longleftrightarrow> 0 < v \<and> str = digits (nat v) \<and> v < 2 ^ 63"
      by (auto simp: ULLONG_MAX_def intro!: exI [of _ "nat v"])
    also have "\<dots> \<longleftrightarrow> str = decimal v \<and> - (2 ^ 63) \<le> v \<and> v < 2 ^ 63"
      using False nonzero decimal_0 by (cases "v = 0") (auto simp: decimal_def)
    finally show ?thesis .
  qed
qed

section \<open>Numbers in a line\<close>

lemma digitsValue_digits:
  assumes "r = [] \<or> \<not> isDigit (hd r)"
  shows "digitsValue (digits n @ r) = int n"
proof -
  have "takeWhile isDigit (digits n @ r) = digits n"
    using assms digits_are_digits [of _ n] by (cases r) (auto simp: takeWhile_append)
  moreover have "takeWhile isDigit (digits n) = digits n"
    using digits_are_digits by (simp add: takeWhile_eq_all_conv)
  ultimately show ?thesis using digits_value [of n] by (simp only: digitsValue_def)
qed

lemma digits_first:
  obtains ch u where "digits n = ch # u" "isDigit ch" "\<not> isSpace ch" "ch \<noteq> CHR ''-''" "ch \<noteq> CHR ''+''"
proof -
  obtain ch u where d: "digits n = ch # u" using digits_nonempty by (metis neq_Nil_conv)
  then have "isDigit ch" using digits_are_digits [of ch n] by simp
  moreover have "\<not> isDigit (CHR ''-'')" "\<not> isDigit (CHR ''+'')" by code_simp+
  moreover have "\<not> isSpace ch" using calculation(1) by (auto simp: isDigit_def isSpace_def)
  ultimately show ?thesis using that [OF d] by metis
qed

lemma strtoll_decimal_rest:
  assumes "- (2 ^ 63) \<le> v" and "v < 2 ^ 63" and "r = [] \<or> \<not> isDigit (hd r)"
  shows "strtoll (decimal v @ r) = v"
proof -
  obtain ch u where d: "digits (nat \<bar>v\<bar>) = ch # u" "isDigit ch" "\<not> isSpace ch" "ch \<noteq> CHR ''-''" "ch \<noteq> CHR ''+''"
    by (rule digits_first)
  have "digitsValue (digits (nat \<bar>v\<bar>) @ r) = \<bar>v\<bar>" using digitsValue_digits [OF assms(3)] by simp
  moreover have "\<not> isSpace (CHR ''-'')" by code_simp
  ultimately show ?thesis using d assms(1,2) by (cases "v < 0") (simp_all add: strtoll_def decimal_def Let_def)
qed

lemma atoi_decimal:
  assumes "- (2 ^ 31) \<le> v" and "v < 2 ^ 31" and "r = [] \<or> \<not> isDigit (hd r)"
  shows "atoi (decimal v @ r) = v"
proof -
  have "strtoll (decimal v @ r) = v" using assms by (intro strtoll_decimal_rest) auto
  then show ?thesis using assms(1,2) by (simp add: atoi_def signed_of_int signed_take_bit_int_eq_self)
qed

lemma strtoull_decimal: "strtoull (decimal (uint w)) = w"
proof -
  obtain ch u where d: "digits (nat (uint w)) = ch # u" "isDigit ch" "\<not> isSpace ch" "ch \<noteq> CHR ''-''" "ch \<noteq> CHR ''+''"
    by (rule digits_first)
  have "digitsValue (digits (nat (uint w))) = uint w" using digits_value [of "nat (uint w)"] by simp
  moreover have "uint w \<le> 2 ^ 64 - 1" using uint_bounded [of w] by simp
  ultimately show ?thesis using d by (simp add: strtoull_def decimal_def Let_def not_less)
qed

lemma decimal_chars: "ch \<in> set (decimal v) \<Longrightarrow> isDigit ch \<or> ch = CHR ''-''"
  using digits_are_digits by (auto simp: decimal_def split: if_splits)

lemma decimal_nonempty [simp]: "decimal v \<noteq> []"
  using digits_nonempty by (simp add: decimal_def)

lemma digit_no_space: "isDigit ch \<Longrightarrow> \<not> isSpace ch \<and> ch \<noteq> CHR 0x22 \<and> ch \<noteq> CHR 0x27"
  by (auto simp: isDigit_def isSpace_def)

lemma decimal_plain: "plainWord (decimal v)"
proof -
  have "\<not> isSpace (CHR ''-'')" by code_simp
  then show ?thesis using decimal_chars [of _ v] digit_no_space by (fastforce simp: plainWord_def)
qed

end
