(* ===== verification/HotGroup.thy ===== *)
theory HotGroup
  imports ClusterPacket CString
begin

text \<open>
  Hot slots and their copies (src/server/src/cluster.c): how a node measures the heat of its
  slots (\<open>updateOneSlot\<close> to \<open>slotHotnessStatus\<close>), the set of instances that hold a copy of a
  slot (\<open>clusterNodeInHotGroup\<close>, \<open>clusterHotGroupAddNode\<close>, \<open>clusterHotGroupDelNode\<close>), and the
  cache of write commands that is sent to them (\<open>addCmdToCache\<close>, \<open>broadcastCommandInHotGroup\<close>).
  A \<^verbatim>\<open>double\<close> is a real number: rounding is not modelled, and a quotient by zero, which is
  a NaN or an infinity in C, is the unspecified value \<open>undefined\<close>.
\<close>

section \<open>Measuring\<close>

definition fdiv :: "real \<Rightarrow> real \<Rightarrow> real" where
  "fdiv x y = (if y = 0 then undefined else x / y)"

definition S_UPD :: nat where "S_UPD = 0"
definition M_UPD :: nat where "M_UPD = 1"
definition L_UPD :: nat where "L_UPD = 2"
definition S_UPD_TIME :: nat where "S_UPD_TIME = 1"
definition M_UPD_TIME :: nat where "M_UPD_TIME = 10"
definition L_UPD_TIME :: nat where "L_UPD_TIME = 60"

definition updateOneSlot :: "nat \<Rightarrow> nat \<Rightarrow> slotState \<Rightarrow> slotState" where
  "updateOneSlot time_period tag t =
     (let t1 = t\<lparr>ss_hot := (ss_hot t)(tag := fdiv (ss_current t - ss_hot_tag t tag) (real time_period))\<rparr>;
          t2 = t1\<lparr>ss_hot_tag := (ss_hot_tag t1)(tag := ss_current t1)\<rparr>
      in t2\<lparr>ss_current := real_of_int (ss_dealed_ops t2)\<rparr>)"

definition slotHotMetric :: "nat \<Rightarrow> nat \<Rightarrow> redisServer \<Rightarrow> redisServer" where
  "slotHotMetric time_period tag s =
     (let slot_num = n_numslots (me s);
          (avg_hot_tmp, s1) =
            fold (\<lambda>i (avg, s).
                    if clusterNodeGetSlotBit (c_myself s) i s
                    then let s' = upd_slot i (updateOneSlot time_period tag) s
                         in (avg + ss_hot (c_slot_status s' i) tag, s')
                    else (avg, s))
              [0..<CLUSTER_SLOTS] (0, s)
      in upd_node (c_myself s1) (\<lambda>n. n\<lparr>n_avg_slot_hot := (n_avg_slot_hot n)
           (tag := if slot_num \<noteq> 0 then fdiv avg_hot_tmp (real_of_int slot_num) else 0)\<rparr>) s1)"

definition slotHotMetricCluster :: "redisServer \<Rightarrow> redisServer" where
  "slotHotMetricCluster s =
     (let hot = (\<lambda>i. sum_list (map (\<lambda>p. n_avg_slot_hot (nd s p) i) (dictVals (c_nodes s))))
      in s\<lparr>c_avg_hot_point := (\<lambda>i. if i < 3 then fdiv (hot i) (real_of_int (c_size s))
                                   else c_avg_hot_point s i)\<rparr>)"

definition instanceHotMetricUpdate :: "redisServer \<Rightarrow> redisServer" where
  "instanceHotMetricUpdate s = upd_node (c_myself s) (\<lambda>n. n\<lparr>n_is_hot_instance := s_hotness s\<rparr>) s"

definition HOT_SLOT :: real where "HOT_SLOT = 10"
definition COLD_SLOT :: real where "COLD_SLOT = 1 / 10"
definition BASELINE :: nat where "BASELINE = 1"

definition changeSlotStatus :: "real \<Rightarrow> real \<Rightarrow> slotState \<Rightarrow> slotState" where
  "changeSlotStatus hot cold st =
     (if ss_hot st BASELINE > hot then st\<lparr>ss_hotness := 1\<rparr>
      else if ss_hot st BASELINE < cold then st\<lparr>ss_hotness := -1\<rparr>
      else st\<lparr>ss_hotness := 0\<rparr>)"

definition slotHotnessStatus :: "redisServer \<Rightarrow> redisServer" where
  "slotHotnessStatus s =
     (let baseline = c_avg_hot_point s BASELINE;
          hot = baseline * HOT_SLOT;
          cold = baseline * COLD_SLOT
      in fold (\<lambda>i s. if clusterNodeGetSlotBit (c_myself s) i s
                     then upd_slot i (changeSlotStatus hot cold) s else s) [0..<CLUSTER_SLOTS] s)"

section \<open>The instances that hold a copy\<close>

text \<open>True stands for the result 0 of the code: the node is a member.\<close>

definition clusterNodeInHotGroup :: "string \<Rightarrow> nat \<Rightarrow> redisServer \<Rightarrow> bool" where
  "clusterNodeInHotGroup name slot s =
     (dictFind (ss_related_ins (c_slot_status s slot)) (take CLUSTER_NAMELEN name) \<noteq> None)"

definition clusterHotGroupAddNode :: "nid \<Rightarrow> nat \<Rightarrow> redisServer \<Rightarrow> redisServer" where
  "clusterHotGroupAddNode p slot s =
     (let name = n_name (nd s p) in
      if clusterNodeInHotGroup name slot s then s
      else upd_slot slot (\<lambda>st. st\<lparr>ss_related_ins :=
             dictReplace (ss_related_ins st) (take CLUSTER_NAMELEN name) p\<rparr>) s)"

definition clusterHotGroupDelNode :: "nid \<Rightarrow> nat \<Rightarrow> redisServer \<Rightarrow> redisServer" where
  "clusterHotGroupDelNode p slot s =
     (let name = n_name (nd s p) in
      if \<not> clusterNodeInHotGroup name slot s then s
      else upd_slot slot (\<lambda>st. st\<lparr>ss_related_ins :=
             dictDelete (ss_related_ins st) (take CLUSTER_NAMELEN name)\<rparr>) s)"

section \<open>The cache of write commands\<close>

definition cachedCommand :: "string list \<Rightarrow> redisServer \<Rightarrow> string list" where
  "cachedCommand argv s = ''WANGEP'' # take 16 (decimal (s_ustime s)) # map cstr argv"

definition addCmdToCache :: "string list \<Rightarrow> nat \<Rightarrow> redisServer \<Rightarrow> redisServer" where
  "addCmdToCache argv slot s =
     (let a = cachedCommand argv s in
      if length argv < 2 then panic_with OutOfBounds s
      else upd_slot slot (\<lambda>st. st\<lparr>ss_cached_op := dictReplace (ss_cached_op st) (a ! 3) \<lparr>op_argv = a\<rparr>,
                                  ss_cache_op_size := ss_cache_op_size st + 1\<rparr>) s)"

text \<open>
  One cached command for one member: connect when there is no connection yet, then send. The
  node of a member that was deleted from the cluster is no longer allocated.
\<close>

definition sendCached :: "string list \<Rightarrow> nid \<Rightarrow> redisServer \<Rightarrow> redisServer" where
  "sendCached argv p s =
     (if p = c_myself s then s
      else if p \<notin> live s then panic_with UseAfterFree s
      else
        let s1 = (if n_conn (nd s p) then s
                  else emit (EvConnect p) (upd_node p (\<lambda>n. n\<lparr>n_conn := True\<rparr>) s))
        in emit (EvCommand p argv) s1)"

definition sendToMembers :: "nat \<Rightarrow> string list \<Rightarrow> redisServer \<Rightarrow> redisServer" where
  "sendToMembers slot argv s =
     fold (sendCached argv) (dictVals (ss_related_ins (c_slot_status s slot))) s"

text \<open>The loop over the cached commands; it stops when the counter is used up.\<close>

fun broadcastLoop :: "nat \<Rightarrow> (string \<times> cacheOps) list \<Rightarrow> redisServer \<Rightarrow> redisServer" where
  "broadcastLoop slot [] s = s"
| "broadcastLoop slot ((k, op) # ops) s =
     (if ss_cache_op_size (c_slot_status s slot) \<le> 0 then s
      else
        let key_dup = op_argv op ! 3;
            s1 = sendToMembers slot (op_argv op) s
        in if dictFind (ss_cached_op (c_slot_status s1 slot)) key_dup = None
           then panic_with ProcessExit s1
           else broadcastLoop slot ops
                  (upd_slot slot (\<lambda>st. st\<lparr>ss_cached_op := dictDelete (ss_cached_op st) key_dup,
                                         ss_cache_op_size := ss_cache_op_size st - 1\<rparr>) s1))"

definition broadcastCommandInHotGroup :: "nat \<Rightarrow> redisServer \<Rightarrow> redisServer" where
  "broadcastCommandInHotGroup slot s = broadcastLoop slot (ss_cached_op (c_slot_status s slot)) s"

section \<open>The cache as a map to the last command of each key\<close>

text \<open>The commands among the events.\<close>

fun commandsIn :: "event list \<Rightarrow> (nid \<times> string list) list" where
  "commandsIn [] = []"
| "commandsIn (EvCommand p argv # es) = (p, argv) # commandsIn es"
| "commandsIn (_ # es) = commandsIn es"

lemma commandsIn_append [simp]: "commandsIn (es @ fs) = commandsIn es @ commandsIn fs"
  by (induction es rule: commandsIn.induct) auto

text \<open>The cache of a slot: keys are unique, a command is stored under its key, and the counter
  covers the entries.\<close>

definition cacheOk :: "slotState \<Rightarrow> bool" where
  "cacheOk st \<longleftrightarrow> dictOk (ss_cached_op st) \<and>
     (\<forall>(k, op) \<in> set (ss_cached_op st). op_argv op ! 3 = k) \<and>
     int (dictSize (ss_cached_op st)) \<le> ss_cache_op_size st"

lemma set_dictReplace_subset: "set (dictReplace d k v) \<subseteq> insert (k, v) (set d)"
  by (induction d k v rule: dictReplace.induct) auto

lemma addCmdToCache_slot:
  assumes "length argv \<ge> 2"
  shows "c_slot_status (addCmdToCache argv j s) j =
    (c_slot_status s j)\<lparr>ss_cached_op := dictReplace (ss_cached_op (c_slot_status s j)) (cstr (argv ! 1))
        \<lparr>op_argv = cachedCommand argv s\<rparr>,
      ss_cache_op_size := ss_cache_op_size (c_slot_status s j) + 1\<rparr>"
proof -
  have "map cstr argv ! 1 = cstr (argv ! 1)" using assms by simp
  then have "cachedCommand argv s ! 3 = cstr (argv ! 1)"
    by (simp add: cachedCommand_def eval_nat_numeral)
  then show ?thesis using assms by (simp add: addCmdToCache_def upd_slot_def Let_def)
qed

lemma cachedCommand_key: "length argv \<ge> 2 \<Longrightarrow> cachedCommand argv s ! 3 = cstr (argv ! 1)"
  by (simp add: cachedCommand_def eval_nat_numeral)

lemma addCmdToCache_ok:
  assumes "cacheOk (c_slot_status s j)" and "length argv \<ge> 2"
  shows "cacheOk (c_slot_status (addCmdToCache argv j s) j)"
proof -
  let ?d = "ss_cached_op (c_slot_status s j)"
  have "dictSize (dictReplace ?d k v) \<le> Suc (dictSize ?d)" for k v
    by (simp add: dictSize_dictReplace)
  then have size: "int (dictSize (dictReplace ?d k v)) \<le> ss_cache_op_size (c_slot_status s j) + 1" for k v
    using assms(1) by (smt (verit) cacheOk_def of_nat_Suc of_nat_mono)
  have "\<forall>(k, op) \<in> set (dictReplace ?d (cstr (argv ! 1)) \<lparr>op_argv = cachedCommand argv s\<rparr>). op_argv op ! 3 = k"
    using assms set_dictReplace_subset [of ?d "cstr (argv ! 1)" "\<lparr>op_argv = cachedCommand argv s\<rparr>"]
    by (auto simp: cacheOk_def cachedCommand_key)
  then show ?thesis
    using assms size dictReplace_ok [of ?d] unfolding addCmdToCache_slot [OF assms(2)] cacheOk_def by auto
qed

lemma sendCached_keeps [simp]:
  "c_slot_status (sendCached argv p s) = c_slot_status s" "c_myself (sendCached argv p s) = c_myself s"
  "live (sendCached argv p s) = live s"
  by (simp_all add: sendCached_def emit_def panic_with_def live_def Let_def)

lemma sendToMembers_keeps [simp]:
  "c_slot_status (sendToMembers j argv s) = c_slot_status s"
  "c_myself (sendToMembers j argv s) = c_myself s" "live (sendToMembers j argv s) = live s"
  unfolding sendToMembers_def by (rule fold_keeps_field, simp)+

lemma sendCached_events:
  assumes "p = c_myself s \<or> p \<in> live s"
  shows "commandsIn (s_out (sendCached argv p s)) =
      commandsIn (s_out s) @ (if p = c_myself s then [] else [(p, argv)])"
    and "s_panic (sendCached argv p s) = s_panic s"
  using assms by (auto simp: sendCached_def emit_def Let_def)

lemma sendToMembers_events:
  assumes "\<forall>p \<in> set (dictVals (ss_related_ins (c_slot_status s j))). p = c_myself s \<or> p \<in> live s"
  shows "commandsIn (s_out (sendToMembers j argv s)) = commandsIn (s_out s) @
      map (\<lambda>p. (p, argv)) (filter (\<lambda>p. p \<noteq> c_myself s) (dictVals (ss_related_ins (c_slot_status s j))))"
    and "s_panic (sendToMembers j argv s) = s_panic s"
proof -
  have "commandsIn (s_out (fold (sendCached argv) ps s)) = commandsIn (s_out s) @
      map (\<lambda>p. (p, argv)) (filter (\<lambda>p. p \<noteq> c_myself s) ps) \<and>
    s_panic (fold (sendCached argv) ps s) = s_panic s"
    if "\<forall>p \<in> set ps. p = c_myself s \<or> p \<in> live s" for ps
    using that
    by (induction ps arbitrary: s) (auto simp: sendCached_events)
  then show "commandsIn (s_out (sendToMembers j argv s)) = commandsIn (s_out s) @
      map (\<lambda>p. (p, argv)) (filter (\<lambda>p. p \<noteq> c_myself s) (dictVals (ss_related_ins (c_slot_status s j))))"
    and "s_panic (sendToMembers j argv s) = s_panic s"
    using assms by (simp_all add: sendToMembers_def)
qed

text \<open>The commands that a broadcast sends: each cached one to each other member, in order.\<close>

definition syncCommands :: "nat \<Rightarrow> redisServer \<Rightarrow> (nid \<times> string list) list" where
  "syncCommands j s =
     concat (map (\<lambda>(k, op). map (\<lambda>p. (p, op_argv op))
        (filter (\<lambda>p. p \<noteq> c_myself s) (dictVals (ss_related_ins (c_slot_status s j)))))
      (ss_cached_op (c_slot_status s j)))"

definition membersOk :: "nat \<Rightarrow> redisServer \<Rightarrow> bool" where
  "membersOk j s \<longleftrightarrow>
     (\<forall>p \<in> set (dictVals (ss_related_ins (c_slot_status s j))). p = c_myself s \<or> p \<in> live s)"

lemma dictDelete_head:
  "dictOk ((k, v) # d) \<Longrightarrow> dictDelete ((k, v) # d) k = d"
proof -
  assume "dictOk ((k, v) # d)"
  then have "dictFind d k = None" by (auto simp: dictOk_def dictFind_def map_of_eq_None_iff)
  then show ?thesis using dictDelete_absent [of d k] by (simp add: dictDelete_def)
qed

lemma broadcastLoop_effect:
  assumes "cacheOk (c_slot_status s j)" and "membersOk j s" and "ss_cached_op (c_slot_status s j) = ops"
  shows "commandsIn (s_out (broadcastLoop j ops s)) = commandsIn (s_out s) @ syncCommands j s \<and>
    c_slot_status (broadcastLoop j ops s) j =
      (c_slot_status s j)\<lparr>ss_cached_op := [],
         ss_cache_op_size := ss_cache_op_size (c_slot_status s j) - int (length ops)\<rparr> \<and>
    (\<forall>i. i \<noteq> j \<longrightarrow> c_slot_status (broadcastLoop j ops s) i = c_slot_status s i) \<and>
    s_panic (broadcastLoop j ops s) = s_panic s"
  using assms
proof (induction ops arbitrary: s)
  case Nil
  then show ?case by (simp add: syncCommands_def)
next
  case (Cons e ops)
  obtain k op where e: "e = (k, op)" by force
  let ?st = "c_slot_status s j"
  have key: "op_argv op ! 3 = k" and ok: "dictOk ((k, op) # ops)"
    and pos: "int (Suc (length ops)) \<le> ss_cache_op_size ?st"
    and keys: "\<forall>(k, op) \<in> set ops. op_argv op ! 3 = k"
    using Cons.prems e by (auto simp: cacheOk_def dictSize_def)
  define s1 where "s1 = sendToMembers j (op_argv op) s"
  define s2 where "s2 = upd_slot j (\<lambda>st. st\<lparr>ss_cached_op := dictDelete (ss_cached_op st) k,
                                         ss_cache_op_size := ss_cache_op_size st - 1\<rparr>) s1"
  have st1: "c_slot_status s1 = c_slot_status s" "c_myself s1 = c_myself s" "live s1 = live s"
    by (simp_all add: s1_def)
  have found: "dictFind (ss_cached_op (c_slot_status s1 j)) k = Some op"
    using Cons.prems(3) by (simp add: st1 e dictFind_def)
  have loop: "broadcastLoop j (e # ops) s = broadcastLoop j ops s2"
    using pos found key by (simp add: e s1_def [symmetric] s2_def Let_def)
  have st2: "c_slot_status s2 j = ?st\<lparr>ss_cached_op := ops, ss_cache_op_size := ss_cache_op_size ?st - 1\<rparr>"
    "\<forall>i. i \<noteq> j \<longrightarrow> c_slot_status s2 i = c_slot_status s i" "c_myself s2 = c_myself s" "live s2 = live s"
    "s_out s2 = s_out s1" "s_panic s2 = s_panic s1"
    using Cons.prems(3) dictDelete_head [OF ok]
    using st1(3) by (simp_all add: s2_def upd_slot_def st1(1,2) e live_def)
  have ok2: "cacheOk (c_slot_status s2 j)"
    using ok pos keys by (auto simp: cacheOk_def st2(1) dictSize_def dictOk_def)
  have m2: "membersOk j s2" using Cons.prems(2) by (simp add: membersOk_def st2)
  note IH = Cons.IH [OF ok2 m2]
  have sync: "syncCommands j s = map (\<lambda>p. (p, op_argv op))
      (filter (\<lambda>p. p \<noteq> c_myself s) (dictVals (ss_related_ins ?st))) @ syncCommands j s2"
    by (simp add: syncCommands_def Cons.prems(3) e st2)
  have ev: "commandsIn (s_out s2) = commandsIn (s_out s) @ map (\<lambda>p. (p, op_argv op))
      (filter (\<lambda>p. p \<noteq> c_myself s) (dictVals (ss_related_ins ?st)))" "s_panic s2 = s_panic s"
    using sendToMembers_events [of s j "op_argv op"] Cons.prems(2)
    by (simp_all add: membersOk_def st2(5,6) s1_def)
  show ?case
    unfolding loop using IH sync ev st2 by simp
qed


lemma addCmds_lookup:
  assumes "\<forall>argv \<in> set cmds. length argv \<ge> 2"
  shows "s_ustime (fold (\<lambda>argv. addCmdToCache argv j) cmds s) = s_ustime s \<and>
    dictFind (ss_cached_op (c_slot_status (fold (\<lambda>argv. addCmdToCache argv j) cmds s) j)) k =
      (case find (\<lambda>argv. cstr (argv ! 1) = k) (rev cmds) of
         Some argv \<Rightarrow> Some \<lparr>op_argv = cachedCommand argv s\<rparr>
       | None \<Rightarrow> dictFind (ss_cached_op (c_slot_status s j)) k) \<and>
    ss_cache_op_size (c_slot_status (fold (\<lambda>argv. addCmdToCache argv j) cmds s) j) =
      ss_cache_op_size (c_slot_status s j) + int (length cmds)"
  using assms
proof (induction cmds rule: rev_induct)
  case (snoc argv cmds)
  let ?s = "fold (\<lambda>argv. addCmdToCache argv j) cmds s"
  have len: "length argv \<ge> 2" using snoc.prems by simp
  have us: "s_ustime (addCmdToCache argv j ?s) = s_ustime ?s"
    by (simp add: addCmdToCache_def upd_slot_def panic_with_def Let_def)
  have "cachedCommand argv ?s = cachedCommand argv s"
    using snoc by (simp add: cachedCommand_def)
  then show ?case
    using snoc us unfolding fold_append fold_simps comp_apply addCmdToCache_slot [OF len] rev_append
    by (auto simp: dictFind_dictReplace)
qed simp

text \<open>
  C14. The cache of a copied slot is a map from keys to their last write: after any sequence of
  write commands each key is bound to the last command for it, prefixed by the marker and the time
  stamp, keys without a new command keep theirs, and the cache stays well formed. The counter,
  however, counts the commands and not the entries.
\<close>

theorem cache_keeps_last_write:
  assumes "cacheOk (c_slot_status s j)" and "\<forall>argv \<in> set cmds. length argv \<ge> 2"
  shows "let st = c_slot_status (fold (\<lambda>argv. addCmdToCache argv j) cmds s) j in
     cacheOk st \<and> ss_cache_op_size st = ss_cache_op_size (c_slot_status s j) + int (length cmds) \<and>
     (\<forall>k. dictFind (ss_cached_op st) k =
       (case find (\<lambda>argv. cstr (argv ! 1) = k) (rev cmds) of
          Some argv \<Rightarrow> Some \<lparr>op_argv = ''WANGEP'' # take 16 (decimal (s_ustime s)) # map cstr argv\<rparr>
        | None \<Rightarrow> dictFind (ss_cached_op (c_slot_status s j)) k))"
proof -
  have "cacheOk (c_slot_status (fold (\<lambda>argv. addCmdToCache argv j) cmds s) j)"
    using assms by (induction cmds arbitrary: s) (auto simp: addCmdToCache_ok)
  moreover have "(case find (\<lambda>argv. cstr (argv ! 1) = k) (rev cmds) of
      Some argv \<Rightarrow> Some \<lparr>op_argv = cachedCommand argv s\<rparr>
    | None \<Rightarrow> dictFind (ss_cached_op (c_slot_status s j)) k) =
     (case find (\<lambda>argv. cstr (argv ! 1) = k) (rev cmds) of
      Some argv \<Rightarrow> Some \<lparr>op_argv = ''WANGEP'' # take 16 (decimal (s_ustime s)) # map cstr argv\<rparr>
    | None \<Rightarrow> dictFind (ss_cached_op (c_slot_status s j)) k)" for k
    by (simp only: cachedCommand_def)
  ultimately show ?thesis
    unfolding Let_def using addCmds_lookup [OF assms(2), of j s] by presburger
qed

definition set_k :: "string \<Rightarrow> string list" where
  "set_k v = [''SET'', ''k'', v]"

theorem cache_keeps_last_write_witness:
  "let st = c_slot_status (fold (\<lambda>argv. addCmdToCache argv 9) [set_k ''1'', set_k ''2''] zeroServer) 9 in
   dictFind (ss_cached_op st) ''k'' = Some \<lparr>op_argv = [''WANGEP'', ''0'', ''SET'', ''k'', ''2'']\<rparr> \<and>
   ss_cache_op_size st = 2"
proof -
  have ok: "cacheOk (c_slot_status zeroServer 9)"
    by (simp add: cacheOk_def zeroServer_def zeroSlot_def dictOk_def dictSize_def)
  have len: "\<forall>argv \<in> set [set_k ''1'', set_k ''2'']. length argv \<ge> 2" by (simp add: set_k_def)
  have z: "s_ustime zeroServer = 0" "ss_cache_op_size (c_slot_status zeroServer 9) = 0"
    by (simp_all add: zeroServer_def zeroSlot_def)
  show ?thesis
    using cache_keeps_last_write [OF ok len]
    by (simp add: Let_def z decimal_0 set_k_def cstr_def)
qed

text \<open>
  C13. A broadcast empties the cache of the slot: every cached command is sent once, in order, to
  every instance that holds a copy, except this node, and leaves the cache; no other slot changes
  and no assertion fails, provided that the cache is well formed and the members are still in the
  node table.
\<close>

theorem broadcast_flushes_cache:
  assumes "cacheOk (c_slot_status s j)" and "membersOk j s"
  shows "let s' = broadcastCommandInHotGroup j s in
     commandsIn (s_out s') = commandsIn (s_out s) @
       concat (map (\<lambda>(k, op). map (\<lambda>p. (p, op_argv op))
           (filter (\<lambda>p. p \<noteq> c_myself s) (dictVals (ss_related_ins (c_slot_status s j)))))
         (ss_cached_op (c_slot_status s j))) \<and>
     ss_cached_op (c_slot_status s' j) = [] \<and>
     ss_cache_op_size (c_slot_status s' j) =
       ss_cache_op_size (c_slot_status s j) - int (dictSize (ss_cached_op (c_slot_status s j))) \<and>
     (\<forall>i. i \<noteq> j \<longrightarrow> c_slot_status s' i = c_slot_status s i) \<and> s_panic s' = s_panic s"
  using broadcastLoop_effect [OF assms refl]
  by (simp add: broadcastCommandInHotGroup_def syncCommands_def dictSize_def Let_def)

definition copied_slot :: redisServer where
  "copied_slot = upd_slot 9 (\<lambda>st. st\<lparr>ss_is_copied := True, ss_related_ins := [(nameB, 1)]\<rparr>)
     (pair_cluster node_a zeroNode)"

lemma copied_slot_facts:
  "c_slot_status copied_slot 9 = zeroSlot\<lparr>ss_is_copied := True, ss_related_ins := [(nameB, 1)]\<rparr>"
  "c_myself copied_slot = 0" "live copied_slot = {0, 1}" "s_out copied_slot = []" "s_panic copied_slot = None"
  "s_ustime copied_slot = 0"
  by (simp_all add: copied_slot_def upd_slot_def pair_cluster_def zeroServer_def live_def dictVals_def)

theorem broadcast_flushes_cache_witness:
  "let s = addCmdToCache (set_k ''2'') 9 copied_slot; s' = broadcastCommandInHotGroup 9 s in
   commandsIn (s_out s') = [(1, [''WANGEP'', ''0'', ''SET'', ''k'', ''2''])] \<and>
   ss_cached_op (c_slot_status s' 9) = []"
proof -
  note f = copied_slot_facts
  let ?s = "addCmdToCache (set_k ''2'') 9 copied_slot"
  have len: "length (set_k ''2'') \<ge> 2" by (simp add: set_k_def)
  have ok: "cacheOk (c_slot_status ?s 9)"
    by (rule addCmdToCache_ok [OF _ len]) (simp add: f cacheOk_def zeroSlot_def dictOk_def dictSize_def)
  have c: "cachedCommand (set_k ''2'') copied_slot = [''WANGEP'', ''0'', ''SET'', ''k'', ''2'']"
    by (simp add: cachedCommand_def f decimal_0 set_k_def cstr_def)
  have st: "ss_related_ins (c_slot_status ?s 9) = [(nameB, 1)]"
    "ss_cached_op (c_slot_status ?s 9) = [(''k'', \<lparr>op_argv = [''WANGEP'', ''0'', ''SET'', ''k'', ''2'']\<rparr>)]"
    unfolding addCmdToCache_slot [OF len] c f by (simp_all add: set_k_def cstr_def zeroSlot_def)
  have my: "c_myself ?s = 0" "live ?s = {0, 1}" "s_out ?s = []"
    using f len by (simp_all add: addCmdToCache_def upd_slot_def live_def Let_def)
  have "membersOk 9 ?s" by (simp add: membersOk_def st my dictVals_def)
  note b = broadcast_flushes_cache [OF ok this]
  show ?thesis using b by (simp add: Let_def st my dictVals_def)
qed

lemma relatedIns_delNode: "c_slot_status (clusterDelNode p s) = c_slot_status s"
proof -
  have r: "c_slot_status (snd (clusterNodeDelFailureReport q p s)) = c_slot_status s" for q s
    by (simp add: clusterNodeDelFailureReport_def clusterNodeCleanupFailureReports_def Let_def
        split: option.split)
  have d: "c_slot_status (snd (clusterDelSlot j s)) = c_slot_status s" for j s
    by (simp add: clusterDelSlot_def clusterNodeClearSlotBit_def serverAssert_def panic_with_def Let_def
        split: option.split)
  have f: "c_slot_status (forgetSlotsOf p j s) = c_slot_status s" for j s
    by (simp add: forgetSlotsOf_def d Let_def)
  define s1 where "s1 = fold (forgetSlotsOf p) [0..<CLUSTER_SLOTS] s"
  define s2 where "s2 = fold (\<lambda>q s. if q = p then s else snd (clusterNodeDelFailureReport q p s))
                 (dictVals (c_nodes s1)) s1"
  define s3 where "s3 = fold (\<lambda>q. upd_node q (\<lambda>n. n\<lparr>n_slaveof := None\<rparr>)) (n_slaves (nd s2 p)) s2"
  have "c_slot_status s1 = c_slot_status s" unfolding s1_def by (rule fold_keeps_field) (rule f)
  moreover have "c_slot_status s2 = c_slot_status s1" unfolding s2_def by (rule fold_keeps_field) (simp add: r)
  moreover have "c_slot_status s3 = c_slot_status s2" unfolding s3_def by (rule fold_keeps_field) simp
  moreover have "clusterDelNode p s = freeClusterNode p s2"
    by (simp add: clusterDelNode_def s1_def s2_def Let_def)
  moreover have "c_slot_status (snd (clusterNodeRemoveSlave m q s)) = c_slot_status s" for m q s
    by (simp add: clusterNodeRemoveSlave_def Let_def)
  then have "c_slot_status (freeClusterNode p s2) = c_slot_status s3"
    unfolding freeClusterNode_def Let_def s3_def [symmetric]
    by (simp add: serverAssert_def panic_with_def freeClusterLink_def split: option.split)
  ultimately show ?thesis by simp
qed

lemma sendCached_sticky: "s_panic s \<noteq> None \<Longrightarrow> s_panic (sendCached argv p s) = s_panic s"
  by (auto simp: sendCached_def panic_with_def emit_def Let_def)

lemma sendToMembers_dead:
  assumes "p \<in> set ps" and "p \<noteq> c_myself s" and "p \<notin> live s" and "s_panic s = None"
  shows "s_panic (fold (sendCached argv) ps s) = Some UseAfterFree"
  using assms
proof (induction ps arbitrary: s)
  case (Cons q ps)
  show ?case
  proof (cases "q = c_myself s \<or> q \<in> live s")
    case True
    then have "p \<in> set ps" using Cons.prems by auto
    then show ?thesis
      using Cons.IH [of "sendCached argv q s"] Cons.prems sendCached_events(2) [OF True] by simp
  next
    case False
    then have "s_panic (sendCached argv q s) = Some UseAfterFree"
      using Cons.prems(4) by (simp add: sendCached_def panic_with_def)
    moreover have "s_panic (fold (sendCached argv) ps s') = s_panic s'" if "s_panic s' \<noteq> None" for s'
      using that by (induction ps arbitrary: s') (auto simp: sendCached_sticky)
    ultimately show ?thesis by simp
  qed
qed simp

text \<open>
  A finding: deleting a node from the cluster (\<open>clusterDelNode\<close>) does not remove it from the
  instances that hold a copy of a slot, and the next broadcast for that slot then uses the freed
  structure.
\<close>

theorem deleted_member_is_used:
  assumes "cluster_ok s" and "s_panic s = None" and "p \<in> live s" and "p \<noteq> c_myself s"
    and "p \<in> set (dictVals (ss_related_ins (c_slot_status s j)))"
    and "cacheOk (c_slot_status s j)" and "ss_cached_op (c_slot_status s j) \<noteq> []"
  shows "s_panic (broadcastCommandInHotGroup j (clusterDelNode p s)) \<noteq> None"
proof -
  let ?s = "clusterDelNode p s"
  have dead: "p \<notin> live ?s" using clusterDelNode_effect(2) [OF assms(1,3,4)] by simp
  have my: "c_myself ?s = c_myself s" by (rule clusterDelNode_myself [OF assms(1,3,4)])
  have quiet: "s_panic ?s = None" using clusterDelNode_effect [OF assms(1,3,4)] assms(2) by simp
  have st: "c_slot_status ?s = c_slot_status s" by (rule relatedIns_delNode)
  obtain k op ops where ops: "ss_cached_op (c_slot_status s j) = (k, op) # ops"
    using assms(7) by (metis neq_Nil_conv surj_pair)
  have size: "ss_cache_op_size (c_slot_status s j) > 0"
    using assms(6) ops by (simp add: cacheOk_def dictSize_def)
  have dies: "s_panic (sendToMembers j (op_argv op) ?s) = Some UseAfterFree"
    unfolding sendToMembers_def st by (rule sendToMembers_dead) (use assms dead my quiet in auto)
  have stays: "s_panic (broadcastLoop j os s1) \<noteq> None" if "s_panic s1 \<noteq> None" for os s1
    using that
  proof (induction j os s1 rule: broadcastLoop.induct)
    case (2 slot k op os s1)
    have "s_panic (sendToMembers slot (op_argv op) s1) = s_panic s1"
    proof -
      have "s_panic (fold (sendCached argv) ps s') = s_panic s'" if "s_panic s' \<noteq> None" for argv ps s'
        using that by (induction ps arbitrary: s') (auto simp: sendCached_sticky)
      then show ?thesis using 2(2) by (simp add: sendToMembers_def)
    qed
    then show ?case using 2 by (auto simp: Let_def panic_with_def upd_slot_def)
  qed simp
  show ?thesis
    unfolding broadcastCommandInHotGroup_def st ops broadcastLoop.simps
    using size dies stays by (auto simp: Let_def st panic_with_def upd_slot_def)
qed

theorem deleted_member_is_used_witness:
  "s_panic (broadcastCommandInHotGroup 9 (clusterDelNode 1 (addCmdToCache (set_k ''2'') 9 copied_slot))) \<noteq> None"
proof (rule deleted_member_is_used)
  note f = copied_slot_facts
  have len: "length (set_k ''2'') \<ge> 2" by (simp add: set_k_def)
  let ?s = "addCmdToCache (set_k ''2'') 9 copied_slot"
  have c: "core ?s = core (pair_cluster node_a zeroNode)"
    using len by (simp add: addCmdToCache_def copied_slot_def frame_simps Let_def)
  show "cluster_ok ?s"
    by (rule cluster_ok_keep [OF _ c]) (rule pair_cluster_ok, simp_all add: node_a_def zeroNode_def)
  show "s_panic ?s = None" using len f by (simp add: addCmdToCache_def upd_slot_def Let_def)
  show "1 \<in> live ?s" "1 \<noteq> c_myself ?s" using core_slots [OF c] by simp_all
  show "1 \<in> set (dictVals (ss_related_ins (c_slot_status ?s 9)))"
    unfolding addCmdToCache_slot [OF len] f by (simp add: dictVals_def)
  show "cacheOk (c_slot_status ?s 9)"
    by (rule addCmdToCache_ok [OF _ len]) (simp add: f cacheOk_def zeroSlot_def dictOk_def dictSize_def)
  show "ss_cached_op (c_slot_status ?s 9) \<noteq> []"
    unfolding addCmdToCache_slot [OF len] f by (simp add: zeroSlot_def)
qed

section \<open>Rates and hotness\<close>

lemma getSlotBit_upd_slot [simp]:
  "clusterNodeGetSlotBit p i (upd_slot j f s) = clusterNodeGetSlotBit p i s"
  by (simp add: clusterNodeGetSlotBit_def upd_slot_def nd_def)

lemma fold_upd_slot:
  assumes "distinct is"
  shows "c_slot_status (fold (\<lambda>i s. if clusterNodeGetSlotBit (c_myself s) i s
                     then upd_slot i g s else s) is s) =
    (\<lambda>i. if i \<in> set is \<and> clusterNodeGetSlotBit (c_myself s) i s then g (c_slot_status s i)
          else c_slot_status s i)"
  using assms
proof (induction "is" arbitrary: s)
  case (Cons j js)
  have "c_myself (upd_slot j g s) = c_myself s" "c_slot_status (upd_slot j g s) =
      (c_slot_status s)(j := g (c_slot_status s j))"
    by (simp_all add: upd_slot_def)
  with Cons show ?case by auto
qed simp

lemma slotHotMetric_loop:
  assumes "distinct is"
  shows "fold (\<lambda>i (avg, s).
            if clusterNodeGetSlotBit (c_myself s) i s
            then let s' = upd_slot i (updateOneSlot time_period tag) s
                 in (avg + ss_hot (c_slot_status s' i) tag, s')
            else (avg, s)) is (a, s) =
    (a + sum_list (map (\<lambda>i. fdiv (ss_current (c_slot_status s i) - ss_hot_tag (c_slot_status s i) tag)
              (real time_period)) (filter (\<lambda>i. clusterNodeGetSlotBit (c_myself s) i s) is)),
     fold (\<lambda>i s. if clusterNodeGetSlotBit (c_myself s) i s
                  then upd_slot i (updateOneSlot time_period tag) s else s) is s)"
  using assms
proof (induction "is" arbitrary: a s)
  case (Cons j js)
  let ?s = "upd_slot j (updateOneSlot time_period tag) s"
  have u: "c_myself ?s = c_myself s"
    "c_slot_status ?s = (c_slot_status s)(j := updateOneSlot time_period tag (c_slot_status s j))"
    by (simp_all add: upd_slot_def)
  have h: "ss_hot (updateOneSlot time_period tag st) tag =
      fdiv (ss_current st - ss_hot_tag st tag) (real time_period)" for st
    by (simp add: updateOneSlot_def Let_def)
  have m: "map (\<lambda>i. fdiv (ss_current (c_slot_status ?s i) - ss_hot_tag (c_slot_status ?s i) tag)
              (real time_period)) (filter P js) =
      map (\<lambda>i. fdiv (ss_current (c_slot_status s i) - ss_hot_tag (c_slot_status s i) tag)
              (real time_period)) (filter P js)" for P
    using Cons.prems by (auto simp: u)
  show ?case using Cons by (simp add: u h m [simplified u fun_upd_apply] Let_def)
qed simp

text \<open>
  C28. One round of the measurement with a positive period: every slot of this node gets the rate
  of change of its counter since the previous round and its counter is sampled again, the node's
  average is the sum of these rates over the number of slots the node counts (zero without slots),
  and the slots of other nodes keep their figures. The classification that follows marks exactly
  the slots of this node whose middle rate is above ten times, or below a tenth, of the average
  of the cluster.
\<close>

theorem slot_heat_measured:
  assumes "time_period > 0" and "i < CLUSTER_SLOTS"
  shows "let own = (\<lambda>i. clusterNodeGetSlotBit (c_myself s) i s);
      rate = (\<lambda>i. (ss_current (c_slot_status s i) - ss_hot_tag (c_slot_status s i) tag) / real time_period);
      s' = slotHotMetric time_period tag s;
      st = c_slot_status s i; st' = c_slot_status s' i;
      avg = c_avg_hot_point s' BASELINE;
      hs = ss_hotness (c_slot_status (slotHotnessStatus s') i) in
     (own i \<longrightarrow> ss_hot st' tag = rate i \<and> ss_hot_tag st' tag = ss_current st \<and>
        ss_current st' = real_of_int (ss_dealed_ops st)) \<and>
     (\<not> own i \<longrightarrow> st' = st \<and> hs = ss_hotness st) \<and>
     n_avg_slot_hot (me s') tag =
       (if n_numslots (me s) = 0 then 0
        else sum_list (map rate (filter own [0..<CLUSTER_SLOTS])) / real_of_int (n_numslots (me s))) \<and>
     (own i \<longrightarrow> hs = (if ss_hot st' BASELINE > avg * 10 then 1
                      else if ss_hot st' BASELINE < avg / 10 then -1 else 0))"
proof -
  let ?l = "fold (\<lambda>i s. if clusterNodeGetSlotBit (c_myself s) i s
                  then upd_slot i (updateOneSlot time_period tag) s else s) [0..<CLUSTER_SLOTS] s"
  define s1 where "s1 = ?l"
  define avg where "avg = sum_list (map (\<lambda>i. fdiv (ss_current (c_slot_status s i) -
      ss_hot_tag (c_slot_status s i) tag) (real time_period))
      (filter (\<lambda>i. clusterNodeGetSlotBit (c_myself s) i s) [0..<CLUSTER_SLOTS]))"
  have keep: "c_myself s1 = c_myself s" "c_mem s1 = c_mem s"
    unfolding s1_def by (rule fold_keeps_field, simp add: upd_slot_def)+
  note loop = slotHotMetric_loop [of "[0..<CLUSTER_SLOTS]" time_period tag 0 s, OF distinct_upt,
      folded s1_def avg_def, unfolded add_0_left]
  have s': "slotHotMetric time_period tag s = upd_node (c_myself s) (\<lambda>n. n\<lparr>n_avg_slot_hot := (n_avg_slot_hot n)
           (tag := if n_numslots (me s) \<noteq> 0 then fdiv avg (real_of_int (n_numslots (me s))) else 0)\<rparr>) s1"
    unfolding slotHotMetric_def Let_def [of "n_numslots (me s)"] loop case_prod_conv by (simp add: keep)
  have own: "clusterNodeGetSlotBit (c_myself (slotHotMetric time_period tag s)) i (slotHotMetric time_period tag s) =
      clusterNodeGetSlotBit (c_myself s) i s" for i
    unfolding s' by (auto simp: clusterNodeGetSlotBit_def nd_def upd_node_def keep)
  have st': "c_slot_status (slotHotMetric time_period tag s) =
      (\<lambda>i. if i < CLUSTER_SLOTS \<and> clusterNodeGetSlotBit (c_myself s) i s
            then updateOneSlot time_period tag (c_slot_status s i) else c_slot_status s i)"
    unfolding s' using fold_upd_slot [of "[0..<CLUSTER_SLOTS]" "updateOneSlot time_period tag" s] by (simp add: s1_def)
  have hs: "c_slot_status (slotHotnessStatus (slotHotMetric time_period tag s)) =
      (\<lambda>i. if i < CLUSTER_SLOTS \<and> clusterNodeGetSlotBit (c_myself s) i s
        then changeSlotStatus (c_avg_hot_point (slotHotMetric time_period tag s) BASELINE * HOT_SLOT)
               (c_avg_hot_point (slotHotMetric time_period tag s) BASELINE * COLD_SLOT)
               (c_slot_status (slotHotMetric time_period tag s) i)
        else c_slot_status (slotHotMetric time_period tag s) i)"
    unfolding slotHotnessStatus_def Let_def
    using fold_upd_slot [of "[0..<CLUSTER_SLOTS]" _ "slotHotMetric time_period tag s"]
    by (simp add: own)
  have n: "n_avg_slot_hot (me (slotHotMetric time_period tag s)) tag =
      (if n_numslots (me s) = 0 then 0 else avg / real_of_int (n_numslots (me s)))"
    unfolding s' by (simp add: fdiv_def keep me_def nd_upd_node)
  have avg': "avg = sum_list (map (\<lambda>i. (ss_current (c_slot_status s i) -
      ss_hot_tag (c_slot_status s i) tag) / (real time_period))
      (filter (\<lambda>i. clusterNodeGetSlotBit (c_myself s) i s) [0..<CLUSTER_SLOTS]))"
    using assms(1) by (simp add: avg_def fdiv_def)
  show ?thesis
    unfolding Let_def n avg' hs st'
    using assms by (simp add: updateOneSlot_def changeSlotStatus_def fdiv_def Let_def HOT_SLOT_def COLD_SLOT_def)
qed

definition warm_slot :: redisServer where
  "warm_slot = upd_slot 9 (\<lambda>st. st\<lparr>ss_current := 60, ss_hot_tag := (\<lambda>_. 10)\<rparr>)
     (upd_node 0 (\<lambda>n. n\<lparr>n_slots := bitmapSetBit emptyBitmap 9, n_numslots := 1\<rparr>) (zeroServer\<lparr>c_myself := 0\<rparr>))"

theorem slot_heat_measured_witness:
  "ss_hot (c_slot_status (slotHotMetric 10 1 warm_slot) 9) 1 = 5 \<and>
   ss_hot_tag (c_slot_status (slotHotMetric 10 1 warm_slot) 9) 1 = 60"
proof -
  have o: "clusterNodeGetSlotBit (c_myself warm_slot) 9 warm_slot"
    by (simp add: warm_slot_def clusterNodeGetSlotBit_def nd_def upd_slot_def testBit_setBit CLUSTER_SLOTS_def)
  have v: "ss_current (c_slot_status warm_slot 9) = 60" "ss_hot_tag (c_slot_status warm_slot 9) 1 = 10"
    by (simp_all add: warm_slot_def upd_slot_def)
  have "9 < CLUSTER_SLOTS" by (simp add: CLUSTER_SLOTS_def)
  then show ?thesis
    using slot_heat_measured [of 10 9 warm_slot 1] o v by (simp add: Let_def)
qed

end
