(* ===== verification/ClusterCron.thy ===== *)
theory ClusterCron
  imports HotGroup
begin

text \<open>
  The periodic work of a node (src/server/src/cluster.c): links to other nodes and their connect
  handler, \<open>clusterCron\<close> in the phases of its body, and \<open>clusterBeforeSleep\<close>. Whether a connection
  can be started at once is a parameter \<open>dial\<close>: None is an immediate error of \<^verbatim>\<open>connConnect\<close>, else
  it gives the local and the remote address of the socket.
\<close>

section \<open>Links\<close>

definition createClusterLink :: "nid option \<Rightarrow> redisServer \<Rightarrow> lid \<times> redisServer" where
  "createClusterLink node s =
     (c_next s, s\<lparr>c_links := (c_links s)(c_next s := \<lparr>l_ctime = s_mstime s, l_node = node,
          l_rcvbuf_len = 0, l_sockip = None, l_peerip = []\<rparr>),
        c_next := Suc (c_next s)\<rparr>)"

text \<open>An accepted connection; None is a socket that is not connected.\<close>

definition clusterConnAcceptHandler :: "(string option \<times> string) option \<Rightarrow> redisServer \<Rightarrow> redisServer" where
  "clusterConnAcceptHandler conn s =
     (case conn of
        None \<Rightarrow> s
      | Some (sockip, peerip) \<Rightarrow>
          let (link, s1) = createClusterLink None s
          in s1\<lparr>c_links := (c_links s1)(link := (c_links s1 link)\<lparr>l_sockip := sockip, l_peerip := peerip\<rparr>)\<rparr>)"

definition clusterLinkConnectHandler :: "bool \<Rightarrow> lid \<Rightarrow> redisServer \<Rightarrow> redisServer" where
  "clusterLinkConnectHandler conn_up link s =
     (case l_node (c_links s link) of
        None \<Rightarrow> panic_with NullDeref s
      | Some p \<Rightarrow>
          if \<not> conn_up then freeClusterLink link s
          else
            let old_ping_sent = n_ping_sent (nd s p);
                s1 = clusterSendPing link (if hasFlag (n_flags (nd s p)) CLUSTER_NODE_MEET
                       then CLUSTERMSG_TYPE_MEET else CLUSTERMSG_TYPE_PING) s;
                s2 = (if old_ping_sent \<noteq> 0
                      then upd_node p (\<lambda>n. n\<lparr>n_ping_sent := old_ping_sent\<rparr>) s1 else s1)
            in upd_node p (clearFlag CLUSTER_NODE_MEET) s2)"

section \<open>The phases of clusterCron\<close>

definition syncAnnounceIp :: "redisServer \<Rightarrow> redisServer" where
  "syncAnnounceIp s =
     (if s_prev_ip s \<noteq> s_announce_ip s
      then let s1 = s\<lparr>s_prev_ip := s_announce_ip s\<rparr> in
        case s_announce_ip s of
          Some ip \<Rightarrow> upd_node (c_myself s1) (\<lambda>n. n\<lparr>n_ip := take (NET_IP_STR_LEN - 1) ip\<rparr>) s1
        | None \<Rightarrow> upd_node (c_myself s1) (\<lambda>n. n\<lparr>n_ip := []\<rparr>) s1
      else s)"

definition syncHotSlot :: "nat \<Rightarrow> redisServer \<Rightarrow> redisServer" where
  "syncHotSlot i s =
     (let st = c_slot_status s i in
      if \<not> ss_is_copied st then s
      else if ss_cache_op_size st > 0 \<and> dictSize (ss_related_ins st) > 0
      then broadcastCommandInHotGroup i s else s)"

definition syncHotSlots :: "redisServer \<Rightarrow> redisServer" where
  "syncHotSlots s =
     (if c_sync_time s \<and> s_iteration s mod 10 = 0 then fold syncHotSlot [0..<CLUSTER_SLOTS] s else s)"

definition reconnectNode ::
  "(clusterNode \<Rightarrow> (string option \<times> string) option) \<Rightarrow> mstime_t \<Rightarrow> nid \<Rightarrow> redisServer \<Rightarrow> redisServer" where
  "reconnectNode dial handshake_timeout p s =
     (if hasFlag (n_flags (nd s p)) (CLUSTER_NODE_MYSELF OR CLUSTER_NODE_NOADDR) then s
      else
        let s1 = (if hasFlag (n_flags (nd s p)) CLUSTER_NODE_PFAIL
                  then s\<lparr>c_stats_pfail_nodes := c_stats_pfail_nodes s + 1\<rparr> else s)
        in if nodeInHandshake (nd s1 p) \<and> s_mstime s1 - n_ctime (nd s1 p) > handshake_timeout
           then clusterDelNode p s1
           else if n_link (nd s1 p) \<noteq> None then s1
           else
             let (link, s2) = createClusterLink (Some p) s1 in
             case dial (nd s2 p) of
               None \<Rightarrow> freeClusterLink link
                 (if n_ping_sent (nd s2 p) = 0
                  then upd_node p (\<lambda>n. n\<lparr>n_ping_sent := s_mstime s2\<rparr>) s2 else s2)
             | Some (sockip, peerip) \<Rightarrow> upd_node p (\<lambda>n. n\<lparr>n_link := Some link\<rparr>)
                 (s2\<lparr>c_links := (c_links s2)(link := (c_links s2 link)\<lparr>l_sockip := sockip, l_peerip := peerip\<rparr>)\<rparr>))"

definition reconnectNodes ::
  "(clusterNode \<Rightarrow> (string option \<times> string) option) \<Rightarrow> redisServer \<Rightarrow> redisServer" where
  "reconnectNodes dial s =
     (let handshake_timeout = (if s_node_timeout s < 1000 then 1000 else s_node_timeout s)
      in fold (reconnectNode dial handshake_timeout) (dictVals (c_nodes s)) (s\<lparr>c_stats_pfail_nodes := 0\<rparr>))"

definition measureHeat :: "redisServer \<Rightarrow> redisServer" where
  "measureHeat s =
     (let s1 = instanceHotMetricUpdate s;
          s2 = (if s_iteration s1 mod (S_UPD_TIME * 10) = 0
                then slotHotMetricCluster (slotHotMetric S_UPD_TIME S_UPD s1) else s1);
          s3 = (if s_iteration s2 mod (M_UPD_TIME * 10) = 0
                then slotHotnessStatus (slotHotMetric M_UPD_TIME M_UPD s2) else s2)
      in if s_iteration s3 mod (L_UPD_TIME * 10) = 0
         then slotHotMetric L_UPD_TIME L_UPD s3 else s3)"

text \<open>Of five random nodes, the one with the oldest PONG among those that can be pinged.\<close>

definition pickNode :: "nat \<Rightarrow> nid option \<times> mstime_t \<times> redisServer \<Rightarrow> nid option \<times> mstime_t \<times> redisServer" where
  "pickNode j = (\<lambda>(min_pong_node, min_pong, s).
     let (de, s1) = randomNode s in
     case de of
       None \<Rightarrow> (min_pong_node, min_pong, panic_with NullDeref s1)
     | Some this \<Rightarrow>
         let n = nd s1 this in
         if n_link n = None \<or> n_ping_sent n \<noteq> 0 then (min_pong_node, min_pong, s1)
         else if hasFlag (n_flags n) (CLUSTER_NODE_MYSELF OR CLUSTER_NODE_HANDSHAKE)
         then (min_pong_node, min_pong, s1)
         else if min_pong_node = None \<or> min_pong > n_pong_received n
         then (Some this, n_pong_received n, s1)
         else (min_pong_node, min_pong, s1))"

definition pingRandomNode :: "redisServer \<Rightarrow> redisServer" where
  "pingRandomNode s =
     (if s_iteration s mod 10 = 0
      then let (min_pong_node, _, s1) = fold pickNode [0..<5] (None, 0, s) in
        case min_pong_node of
          None \<Rightarrow> s1
        | Some p \<Rightarrow> (case n_link (nd s1 p) of
              None \<Rightarrow> panic_with NullDeref s1
            | Some link \<Rightarrow> clusterSendPing link CLUSTERMSG_TYPE_PING s1)
      else s)"

text \<open>What the failure detection counts for the replica migration.\<close>

record slaveCounts =
  orphaned_masters :: int
  max_slaves :: int
  this_slaves :: int

definition countSlaves :: "nid \<Rightarrow> redisServer \<Rightarrow> slaveCounts \<Rightarrow> slaveCounts" where
  "countSlaves p s a =
     (let n = nd s p in
      if nodeIsSlave (me s) \<and> nodeIsMaster n \<and> \<not> nodeFailed n
      then
        let okslaves = clusterCountNonFailingSlaves p s;
            a1 = (if okslaves = 0 \<and> n_numslots n > 0 \<and> hasFlag (n_flags n) CLUSTER_NODE_MIGRATE_TO
                  then a\<lparr>orphaned_masters := orphaned_masters a + 1\<rparr> else a);
            a2 = (if okslaves > max_slaves a1 then a1\<lparr>max_slaves := okslaves\<rparr> else a1)
        in if nodeIsSlave (me s) \<and> n_slaveof (me s) = Some p then a2\<lparr>this_slaves := okslaves\<rparr> else a2
      else a)"

text \<open>
  The checks of one node: disconnect when nothing arrives on the link, send a PING when the last
  PONG is old or a manual failover waits for this slave, else suspect it when it is silent.
\<close>

definition dropIdleLink :: "nid \<Rightarrow> redisServer \<Rightarrow> redisServer" where
  "dropIdleLink p s =
     (let now = s_mstime s;
          ping_delay = now - n_ping_sent (nd s p);
          data_delay = now - n_data_received (nd s p)
      in case n_link (nd s p) of
           None \<Rightarrow> s
         | Some link \<Rightarrow>
             if now - l_ctime (c_links s link) > s_node_timeout s \<and> n_ping_sent (nd s p) \<noteq> 0 \<and>
                ping_delay > s_node_timeout s div 2 \<and> data_delay > s_node_timeout s div 2
             then freeClusterLink link s else s)"

definition wantsPing :: "nid \<Rightarrow> redisServer \<Rightarrow> bool" where
  "wantsPing p s \<longleftrightarrow>
     n_ping_sent (nd s p) = 0 \<and> s_mstime s - n_pong_received (nd s p) > s_node_timeout s div 2 \<or>
     c_mf_end s \<noteq> 0 \<and> nodeIsMaster (me s) \<and> c_mf_slave s = Some p"

definition looksUnreachable :: "nid \<Rightarrow> redisServer \<Rightarrow> bool" where
  "looksUnreachable p s \<longleftrightarrow>
     (let ping_delay = s_mstime s - n_ping_sent (nd s p);
          data_delay = s_mstime s - n_data_received (nd s p);
          node_delay = (if ping_delay < data_delay then ping_delay else data_delay)
      in n_ping_sent (nd s p) \<noteq> 0 \<and> node_delay > s_node_timeout s \<and>
         \<not> hasFlag (n_flags (nd s p)) (CLUSTER_NODE_PFAIL OR CLUSTER_NODE_FAIL))"

definition checkNode :: "nid \<Rightarrow> slaveCounts \<times> bool \<times> redisServer \<Rightarrow> slaveCounts \<times> bool \<times> redisServer" where
  "checkNode p = (\<lambda>(a, update_state, s).
     if hasFlag (n_flags (nd s p)) (CLUSTER_NODE_MYSELF OR CLUSTER_NODE_NOADDR OR CLUSTER_NODE_HANDSHAKE)
     then (a, update_state, s)
     else
       let a1 = countSlaves p s a; s1 = dropIdleLink p s in
       if n_link (nd s1 p) \<noteq> None \<and> wantsPing p s1
       then (a1, update_state, clusterSendPing (the (n_link (nd s1 p))) CLUSTERMSG_TYPE_PING s1)
       else if looksUnreachable p s1
       then (a1, True, upd_node p (setFlag CLUSTER_NODE_PFAIL) s1)
       else (a1, update_state, s1))"

definition detectFailures :: "redisServer \<Rightarrow> slaveCounts \<times> bool \<times> redisServer" where
  "detectFailures s =
     fold checkNode (dictVals (c_nodes s))
       (\<lparr>orphaned_masters = 0, max_slaves = 0, this_slaves = 0\<rparr>, False, s)"

definition slaveDuties :: "slaveCounts \<Rightarrow> redisServer \<Rightarrow> redisServer" where
  "slaveDuties a s =
     (if nodeIsSlave (me s)
      then
        let s1 = clusterHandleManualFailover s;
            s2 = (if \<not> hasFlag (s_module_flags s1) CLUSTER_MODULE_FLAG_NO_FAILOVER
                  then clusterHandleSlaveFailover s1 else s1)
        in if orphaned_masters a \<noteq> 0 \<and> max_slaves a \<ge> 2 \<and> this_slaves a = max_slaves a \<and>
              s_allow_replica_migration s2
           then clusterHandleSlaveMigration (max_slaves a) s2 else s2
      else s)"

definition startReplication :: "redisServer \<Rightarrow> redisServer" where
  "startReplication s =
     (case n_slaveof (me s) of
        Some m \<Rightarrow> if nodeIsSlave (me s) \<and> s_masterhost s = None \<and> nodeHasAddr (nd s m)
                  then replicationSetMaster (n_ip (nd s m)) (n_port (nd s m)) s else s
      | None \<Rightarrow> s)"

definition clusterCron ::
  "(clusterNode \<Rightarrow> (string option \<times> string) option) \<Rightarrow> redisServer \<Rightarrow> redisServer" where
  "clusterCron dial s0 =
     (let s1 = syncHotSlots (syncAnnounceIp (s0\<lparr>s_iteration := s_iteration s0 + 1\<rparr>));
          s2 = reconnectNodes dial (clusterUpdateMyselfFlags s1);
          s3 = pingRandomNode (measureHeat s2);
          (counts, update_state, s4) = detectFailures s3;
          s5 = slaveDuties counts (manualFailoverCheckTimeout (startReplication s4))
      in if update_state \<or> c_state s5 = CLUSTER_FAIL then clusterUpdateState s5 else s5)"

section \<open>Before sleeping\<close>

definition clusterBeforeSleep :: "redisServer \<Rightarrow> redisServer" where
  "clusterBeforeSleep s =
     (let flags = c_todo_before_sleep s;
          s1 = s\<lparr>c_todo_before_sleep := 0\<rparr>;
          s2 = (if hasFlag flags CLUSTER_TODO_HANDLE_MANUALFAILOVER
                then if nodeIsSlave (me s1)
                  then let s' = clusterHandleManualFailover s1 in
                    if \<not> hasFlag (s_module_flags s') CLUSTER_MODULE_FLAG_NO_FAILOVER
                    then clusterHandleSlaveFailover s' else s'
                  else s1
                else if hasFlag flags CLUSTER_TODO_HANDLE_FAILOVER then clusterHandleSlaveFailover s1
                else s1);
          s3 = (if hasFlag flags CLUSTER_TODO_UPDATE_STATE then clusterUpdateState s2 else s2)
      in if hasFlag flags CLUSTER_TODO_SAVE_CONFIG
         then clusterSaveConfigOrDie (hasFlag flags CLUSTER_TODO_FSYNC_CONFIG) s3 else s3)"

section \<open>The cron keeps the tables\<close>

lemma core_next_ok:
  assumes "cluster_ok s" and "core (s'\<lparr>c_next := c_next s\<rparr>) = core s" and "c_next s \<le> c_next s'"
  shows "cluster_ok s' \<and> live s' = live s"
proof -
  have e: "c_nodes s' = c_nodes s" "c_myself s' = c_myself s" "c_slots s' = c_slots s"
    "\<And>p. n_name (nd s' p) = n_name (nd s p)" "\<And>p. n_slots (nd s' p) = n_slots (nd s p)"
    "\<And>p. n_numslots (nd s' p) = n_numslots (nd s p)"
    using assms(2) by (simp_all add: core_def nd_def fun_eq_iff)
  then have l: "live s' = live s" by (simp add: live_def)
  have "\<forall>p \<in> live s. p < c_next s'"
    using assms(1,3) by (auto simp: cluster_ok_def names_ok_def)
  then show ?thesis
    using assms(1) l e unfolding cluster_ok_def names_ok_def slots_ok_def by auto
qed

lemma createClusterLink_effect:
  "core ((snd (createClusterLink n s))\<lparr>c_next := c_next s\<rparr>) = core s"
  "c_mem (snd (createClusterLink n s)) = c_mem s" "c_next s \<le> c_next (snd (createClusterLink n s))"
  "fst (createClusterLink n s) = c_next s"
  by (simp_all add: createClusterLink_def core_def)

lemma clusterConnAcceptHandler_ok:
  assumes "cluster_ok s" shows "cluster_ok (clusterConnAcceptHandler conn s)"
proof -
  have "cluster_ok (s1\<lparr>c_links := lks\<rparr>) = cluster_ok s1" for s1 lks
    by (rule cluster_ok_core) (simp add: core_def)
  moreover have "cluster_ok (snd (createClusterLink n s))" for n
    using core_next_ok [OF assms createClusterLink_effect(1,3)] by simp
  ultimately show ?thesis
    using assms by (auto simp: clusterConnAcceptHandler_def Let_def case_prod_beta split: option.split)
qed

lemma cron_frames [frame_simps]:
  "core (clusterLinkConnectHandler b link s) = core s"
  "core (syncAnnounceIp s) = core s" "core (instanceHotMetricUpdate s) = core s"
  "core (startReplication s) = core s" "core (slotHotMetricCluster s) = core s"
  "core (manualFailoverCheckTimeout s) = core s" "core (clusterHandleManualFailover s) = core s"
  "core (sendCached argv p s) = core s"
  by (simp_all add: clusterLinkConnectHandler_def syncAnnounceIp_def instanceHotMetricUpdate_def
      startReplication_def slotHotMetricCluster_def manualFailoverCheckTimeout_def sendCached_def
      clusterHandleManualFailover_def frame_simps Let_def split: option.split)


lemma core_broadcastCommand [frame_simps]: "core (broadcastCommandInHotGroup j s) = core s"
proof -
  have m: "core (sendToMembers j argv s) = core s" for j argv s
    unfolding sendToMembers_def by (rule fold_keeps_field) (simp add: frame_simps)
  have "core (broadcastLoop j ops s) = core s" for ops
    by (induction j ops s rule: broadcastLoop.induct) (simp_all add: frame_simps m Let_def)
  then show ?thesis by (simp add: broadcastCommandInHotGroup_def)
qed

lemma core_syncHotSlots [frame_simps]: "core (syncHotSlots s) = core s"
proof -
  have "core (fold syncHotSlot js s) = core s" for js s
    by (rule fold_keeps_field) (simp add: syncHotSlot_def frame_simps Let_def)
  then show ?thesis by (simp add: syncHotSlots_def)
qed

lemma core_slotHotMetric: "core (slotHotMetric t tag s) = core s"
proof -
  have "core (fold (\<lambda>i s. if clusterNodeGetSlotBit (c_myself s) i s
      then upd_slot i (updateOneSlot t tag) s else s) js s) = core s" for js
    by (rule fold_keeps_field) (simp add: frame_simps)
  then show ?thesis
    unfolding slotHotMetric_def Let_def [of "n_numslots (me s)"] slotHotMetric_loop [OF distinct_upt]
      case_prod_conv
    by (simp add: frame_simps)
qed

lemma core_measureHeat [frame_simps]: "core (measureHeat s) = core s"
proof -
  have h: "core (slotHotnessStatus s) = core s" for s
    unfolding slotHotnessStatus_def Let_def by (rule fold_keeps_field) (simp add: frame_simps)
  show ?thesis by (simp add: measureHeat_def frame_simps core_slotHotMetric h Let_def)
qed

lemma core_pingRandomNode [frame_simps]: "core (pingRandomNode s) = core s"
proof -
  have "core (snd (snd (fold pickNode js (mn, mp, s)))) = core s" for js mn mp s
  proof (induction js arbitrary: mn mp s)
    case (Cons j js)
    have "core (snd (snd (pickNode j (mn, mp, s)))) = core s"
      by (simp add: pickNode_def frame_simps case_prod_beta Let_def split: option.split)
    with Cons.IH show ?case by (metis fold_simps(2) prod.collapse)
  qed simp
  then show ?thesis
    by (auto simp: pingRandomNode_def frame_simps Let_def case_prod_beta split: option.split)
qed

lemma core_checkNode: "core (snd (snd (checkNode p (a, u, s)))) = core s"
proof -
  have "core (dropIdleLink p s) = core s"
    by (simp add: dropIdleLink_def frame_simps Let_def split: option.split)
  then show ?thesis by (simp add: checkNode_def frame_simps Let_def)
qed

lemma core_detectFailures: "core (snd (snd (detectFailures s))) = core s"
proof -
  have "core (snd (snd (fold checkNode ps (a, u, s)))) = core s" for ps a u s
  proof (induction ps arbitrary: a u s)
    case (Cons p ps)
    then show ?case by (metis core_checkNode fold_simps(2) prod.collapse)
  qed simp
  then show ?thesis by (simp add: detectFailures_def)
qed

lemma takeSlot_ok:
  assumes "cluster_ok s" and "j < CLUSTER_SLOTS"
  shows "cluster_ok (takeSlot m j s)"
proof -
  have "c_myself (snd (clusterDelSlot j s)) = c_myself s"
    by (simp add: clusterDelSlot_def clusterNodeClearSlotBit_def serverAssert_def panic_with_def Let_def
        split: option.split)
  moreover have "c_myself s \<in> live s" using assms by (simp add: cluster_ok_def names_ok_def)
  ultimately show ?thesis
    using clusterAddSlot_ok [OF clusterDelSlot_ok [OF assms] _ assms(2), of "c_myself s"] assms
    by (simp add: takeSlot_def)
qed

lemma failover_ok: "cluster_ok s \<Longrightarrow> cluster_ok (clusterFailoverReplaceYourMaster s)"
proof -
  assume ok: "cluster_ok s"
  let ?s1 = "replicationUnsetMaster (clusterSetNodeAsMaster (c_myself s) s)"
  have "cluster_ok ?s1" by (rule cluster_ok_keep [OF ok]) (simp add: frame_simps)
  then have "cluster_ok (fold (takeSlot m) [0..<CLUSTER_SLOTS] ?s1)" for m
    by (rule fold_preserves [of cluster_ok]) (simp add: takeSlot_ok)
  then have "cluster_ok (resetManualFailover (clusterBroadcastPong False (clusterSaveConfigOrDie True
      (clusterUpdateState (fold (takeSlot m) [0..<CLUSTER_SLOTS] ?s1)))))" for m
    by (rule cluster_ok_keep) (simp add: frame_simps)
  then show ?thesis
    using ok by (simp add: clusterFailoverReplaceYourMaster_def Let_def split: option.split)
qed

lemma election_frames [frame_simps]:
  "core (scheduleElection s) = core s" "core (updateRank s) = core s" "core (askForVotes s) = core s"
  "core (clusterLogCantFailover r s) = core s"
  by (simp_all add: scheduleElection_def updateRank_def askForVotes_def clusterLogCantFailover_def
      clusterGetSlaveRank_state frame_simps Let_def case_prod_beta)

lemma handleSlaveFailover_ok:
  assumes "cluster_ok s" shows "cluster_ok (clusterHandleSlaveFailover s)"
proof (cases "electionWon s")
  case True
  have "cluster_ok (promoted s)"
    unfolding promoted_def Let_def
    by (rule failover_ok) (rule cluster_ok_keep [OF assms], simp add: frame_simps)
  then show ?thesis using handleSlaveFailover_cases [of s] True by simp
next
  case False
  then show ?thesis
    using handleSlaveFailover_lost [OF False] cluster_ok_keep [OF assms]
    by (auto simp: frame_simps)
qed

lemma handleSlaveMigration_core [frame_simps]: "core (clusterHandleSlaveMigration n s) = core s"
proof -
  have "core (snd (snd (fold (migrationStep n) ps (t, c, s)))) = core s" for ps t c s
  proof (induction ps arbitrary: t c s)
    case (Cons p ps)
    have "core (snd (snd (migrationStep n p (t, c, s)))) = core s"
      by (simp add: migrationStep_def frame_simps Let_def)
    then show ?case using Cons.IH by (metis fold_simps(2) prod.collapse)
  qed simp
  then show ?thesis
    by (simp add: clusterHandleSlaveMigration_def frame_simps Let_def case_prod_beta split: option.split)
qed

lemma slaveDuties_ok: "cluster_ok s \<Longrightarrow> cluster_ok (slaveDuties a s)"
proof -
  assume ok: "cluster_ok s"
  have 1: "cluster_ok (clusterHandleManualFailover s)" by (rule cluster_ok_keep [OF ok]) (simp add: frame_simps)
  note 2 = handleSlaveFailover_ok [OF 1]
  have "cluster_ok s' \<Longrightarrow> cluster_ok (clusterHandleSlaveMigration n s')" for n s'
    by (rule cluster_ok_keep) (simp_all add: frame_simps)
  then show ?thesis using ok 1 2 by (simp add: slaveDuties_def Let_def)
qed

text \<open>Reconnecting deletes only expired handshakes, never this node.\<close>

definition knowsItself :: "redisServer \<Rightarrow> bool" where
  "knowsItself s \<longleftrightarrow> hasFlag (n_flags (me s)) CLUSTER_NODE_MYSELF"

lemma knowsItself_roles:
  "roles s' = roles s \<Longrightarrow> c_myself s' = c_myself s \<Longrightarrow> knowsItself s' = knowsItself s"
  using roles_hasFlag [of s' s CLUSTER_NODE_MYSELF "c_myself s"]
  by (simp add: knowsItself_def me_def flag_simps)

lemma reconnectNode_ok:
  assumes "cluster_ok s" and "knowsItself s" and "p \<in> live s"
  shows "cluster_ok (reconnectNode dial t p s) \<and> knowsItself (reconnectNode dial t p s) \<and>
    live s - {p} \<subseteq> live (reconnectNode dial t p s) \<and> c_myself (reconnectNode dial t p s) = c_myself s"
proof (cases "hasFlag (n_flags (nd s p)) (CLUSTER_NODE_MYSELF OR CLUSTER_NODE_NOADDR)")
  case True
  then show ?thesis using assms by (simp add: reconnectNode_def)
next
  case False
  then have p: "p \<noteq> c_myself s" using assms(2) by (auto simp: knowsItself_def me_def hasFlag_OR)
  define s1 where "s1 = (if hasFlag (n_flags (nd s p)) CLUSTER_NODE_PFAIL
                  then s\<lparr>c_stats_pfail_nodes := c_stats_pfail_nodes s + 1\<rparr> else s)"
  have c1: "core s1 = core s" and r1: "roles s1 = roles s" "c_myself s1 = c_myself s"
    by (simp_all add: s1_def frame_simps roles_def nd_def)
  have 1: "cluster_ok s1" "knowsItself s1" "live s1 = live s" "p \<noteq> c_myself s1" "p \<in> live s1"
    using cluster_ok_keep [OF assms(1) c1] knowsItself_roles [OF r1] assms(2,3) r1 p live_core [OF c1] by simp_all
  note del = clusterDelNode_ok [OF 1(1,5,4)] clusterDelNode_myself [OF 1(1,5,4)]
    knowsItself_roles [OF roles_clusterDelNode clusterDelNode_myself [OF 1(1,5,4)]]
  define s2 where "s2 = snd (createClusterLink (Some p) s1)"
  have 2: "cluster_ok s2" "live s2 = live s1"
    using core_next_ok [OF 1(1) createClusterLink_effect(1,3)] by (simp_all add: s2_def)
  have m2: "c_myself s2 = c_myself s1" "n_flags (nd s2 q) = n_flags (nd s1 q)" for q
    by (simp_all add: s2_def createClusterLink_def nd_def)
  have step: "cluster_ok s' \<and> knowsItself s' \<and> live s' = live s \<and> c_myself s' = c_myself s"
    if c: "core s' = core s2" and fl: "\<forall>q. n_flags (nd s' q) = n_flags (nd s2 q)" for s'
  proof -
    have "c_myself s' = c_myself s2" using c by (simp add: core_def)
    then show ?thesis
      using cluster_ok_keep [OF 2(1) c] live_core [OF c] fl m2 1 2 r1 by (simp add: knowsItself_def me_def)
  qed
  have links: "core (s'\<lparr>c_links := lk\<rparr>) = core s'" "nd (s'\<lparr>c_links := lk\<rparr>) q = nd s' q" for s' lk q
    by (simp_all add: core_def nd_def)
  show ?thesis
  proof (cases "nodeInHandshake (nd s1 p) \<and> s_mstime s1 - n_ctime (nd s1 p) > t")
    case True
    then show ?thesis
      using False del 1 r1 by (simp add: reconnectNode_def s1_def [symmetric] Let_def)
  next
    case nohs: False
    show ?thesis
    proof (cases "n_link (nd s1 p)")
      case (Some l)
      then show ?thesis using False nohs 1 r1 by (auto simp: reconnectNode_def s1_def [symmetric] Let_def)
    next
      case None
      define s3 where "s3 = reconnectNode dial t p s"
      have l2: "createClusterLink (Some p) s1 = (c_next s1, s2)" by (simp add: s2_def createClusterLink_def)
      have "s3 = (case dial (nd s2 p) of
               None \<Rightarrow> freeClusterLink (c_next s1)
                 (if n_ping_sent (nd s2 p) = 0
                  then upd_node p (\<lambda>n. n\<lparr>n_ping_sent := s_mstime s2\<rparr>) s2 else s2)
             | Some (sockip, peerip) \<Rightarrow> upd_node p (\<lambda>n. n\<lparr>n_link := Some (c_next s1)\<rparr>)
                 (s2\<lparr>c_links := (c_links s2)(c_next s1 := (c_links s2 (c_next s1))\<lparr>l_sockip := sockip, l_peerip := peerip\<rparr>)\<rparr>))"
        unfolding s3_def reconnectNode_def s1_def [symmetric]
        using False nohs None by (auto simp: Let_def l2)
      then have "core s3 = core s2" "\<forall>q. n_flags (nd s3 q) = n_flags (nd s2 q)"
        by (auto simp: links frame_simps nd_upd_node freeClusterLink_def split: option.split)
      then show ?thesis using step [of s3] by (simp add: s3_def)
    qed
  qed
qed

lemma reconnectNodes_ok:
  assumes "cluster_ok s" and "knowsItself s"
  shows "cluster_ok (reconnectNodes dial s) \<and> knowsItself (reconnectNodes dial s)"
proof -
  have loop: "cluster_ok (fold (reconnectNode dial t) ps s) \<and> knowsItself (fold (reconnectNode dial t) ps s)"
    if "cluster_ok s" "knowsItself s" "distinct ps" "set ps \<subseteq> live s" for ps t s
    using that
  proof (induction ps arbitrary: s)
    case (Cons p ps)
    then show ?case using reconnectNode_ok [of s p dial t] by auto
  qed simp
  let ?s = "s\<lparr>c_stats_pfail_nodes := 0\<rparr>"
  have c: "core ?s = core s" by (simp add: frame_simps)
  have "knowsItself ?s" using assms(2) by (simp add: knowsItself_def me_def nd_def)
  moreover have "distinct (dictVals (c_nodes s))"
    using assms(1) by (simp add: cluster_ok_def names_ok_distinct)
  ultimately show ?thesis
    unfolding reconnectNodes_def Let_def
    by (intro loop) (use cluster_ok_keep [OF assms(1) c] live_core [OF c] in \<open>auto simp: live_def\<close>)
qed

lemma knowsItself_keep:
  "c_myself s' = c_myself s \<Longrightarrow> n_flags (nd s' (c_myself s)) = n_flags (nd s (c_myself s)) \<Longrightarrow>
   knowsItself s' = knowsItself s"
  by (simp add: knowsItself_def me_def)

lemma syncs_keep:
  "knowsItself (syncAnnounceIp s) = knowsItself s" "knowsItself (syncHotSlots s) = knowsItself s"
  "knowsItself (clusterUpdateMyselfFlags s) = knowsItself s"
proof -
  show "knowsItself (syncAnnounceIp s) = knowsItself s"
    by (rule knowsItself_keep) (simp_all add: syncAnnounceIp_def Let_def nd_upd_node nd_def upd_node_def split: option.split)
  show "knowsItself (clusterUpdateMyselfFlags s) = knowsItself s"
  proof -
    have "knowsItself (clusterDoBeforeSleep w s) = knowsItself s" for w s
      by (simp add: knowsItself_def me_def nd_def clusterDoBeforeSleep_def)
    moreover have "CLUSTER_NODE_MYSELF AND NOT CLUSTER_NODE_NOFAILOVER = CLUSTER_NODE_MYSELF"
      "\<not> hasFlag CLUSTER_NODE_NOFAILOVER CLUSTER_NODE_MYSELF"
      by (simp_all add: flag_simps hasFlag_simps)
    ultimately show ?thesis
      by (auto simp: clusterUpdateMyselfFlags_def Let_def knowsItself_def me_def nd_upd_node setFlag_def
          clearFlag_def hasFlag_set hasFlag_clear)
  qed
  have snd: "c_myself (sendCached argv p s) = c_myself s \<and> (\<forall>q. n_flags (nd (sendCached argv p s) q) = n_flags (nd s q))"
    for argv p s
    by (simp add: sendCached_def emit_def panic_with_def nd_def upd_node_def Let_def)
  have mem: "c_myself (sendToMembers j argv s) = c_myself s \<and>
      (\<forall>q. n_flags (nd (sendToMembers j argv s) q) = n_flags (nd s q))" for j argv s
    unfolding sendToMembers_def by (rule fold_preserves) (simp_all add: snd)
  have loop: "c_myself (broadcastLoop j ops s) = c_myself s \<and>
      (\<forall>q. n_flags (nd (broadcastLoop j ops s) q) = n_flags (nd s q))" for j ops s
    by (induction j ops s rule: broadcastLoop.induct)
      (use mem in \<open>auto simp: Let_def panic_with_def upd_slot_def nd_def\<close>)
  have "c_myself (syncHotSlot j s) = c_myself s \<and> (\<forall>q. n_flags (nd (syncHotSlot j s) q) = n_flags (nd s q))" for j s
    using loop [of j _ s] by (simp add: syncHotSlot_def broadcastCommandInHotGroup_def Let_def)
  then have "c_myself (fold syncHotSlot js s) = c_myself s \<and>
      (\<forall>q. n_flags (nd (fold syncHotSlot js s) q) = n_flags (nd s q))" for js
    by (rule_tac fold_preserves) simp_all
  then show "knowsItself (syncHotSlots s) = knowsItself s"
    by (intro knowsItself_keep) (simp_all add: syncHotSlots_def)
qed

lemma clusterCron_ok:
  assumes "cluster_ok s" and "knowsItself s"
  shows "cluster_ok (clusterCron dial s)"
proof -
  define s1 where "s1 = clusterUpdateMyselfFlags (syncHotSlots (syncAnnounceIp (s\<lparr>s_iteration := s_iteration s + 1\<rparr>)))"
  have "knowsItself (s\<lparr>s_iteration := i\<rparr>) = knowsItself s" for i
    by (simp add: knowsItself_def me_def nd_def)
  then have "knowsItself s1" using assms(2) by (simp add: s1_def syncs_keep)
  moreover have "cluster_ok s1" by (rule cluster_ok_keep [OF assms(1)]) (simp add: s1_def frame_simps)
  ultimately have 2: "cluster_ok (reconnectNodes dial s1)" using reconnectNodes_ok by blast
  define s3 where "s3 = snd (snd (detectFailures (pingRandomNode (measureHeat (reconnectNodes dial s1)))))"
  have "cluster_ok (manualFailoverCheckTimeout (startReplication s3))"
    by (rule cluster_ok_keep [OF 2]) (simp add: s3_def frame_simps core_detectFailures)
  then have "cluster_ok (slaveDuties a (manualFailoverCheckTimeout (startReplication s3)))" for a
    by (rule slaveDuties_ok)
  then have "cluster_ok s5 \<Longrightarrow> s5 = slaveDuties a (manualFailoverCheckTimeout (startReplication s3)) \<Longrightarrow>
      cluster_ok (clusterUpdateState s5)" for a s5
    using cluster_ok_keep [of s5 "clusterUpdateState s5"] by (simp add: frame_simps)
  then show ?thesis
    using \<open>\<And>a. cluster_ok (slaveDuties a _)\<close>
    unfolding clusterCron_def s1_def [symmetric] Let_def by (simp add: case_prod_beta s3_def [symmetric])
qed

lemma clusterBeforeSleep_ok: "cluster_ok s \<Longrightarrow> cluster_ok (clusterBeforeSleep s)"
proof -
  assume ok: "cluster_ok s"
  let ?s = "s\<lparr>c_todo_before_sleep := 0\<rparr>"
  have 1: "cluster_ok ?s" by (rule cluster_ok_keep [OF ok]) (simp add: frame_simps)
  have m: "cluster_ok (clusterHandleManualFailover ?s)" by (rule cluster_ok_keep [OF 1]) (simp add: frame_simps)
  have k: "cluster_ok s' \<Longrightarrow> cluster_ok (clusterUpdateState s')"
    "cluster_ok s' \<Longrightarrow> cluster_ok (clusterSaveConfigOrDie b s')" for s' b
    by (erule cluster_ok_keep, simp add: frame_simps)+
  show ?thesis
    using handleSlaveFailover_ok [OF 1] handleSlaveFailover_ok [OF m] 1 m k
    by (simp add: clusterBeforeSleep_def Let_def)
qed

text \<open>
  The periodic work keeps the node and slot tables consistent: a run of \<open>clusterCron\<close> whatever
  connections succeed, with its reconnections, expired handshakes, PINGs, elections and migrations,
  and the work before sleeping, provided that the node of this server carries the flag that says so
  (by which the loop over the nodes recognises it).
\<close>

theorem cron_keeps_tables:
  assumes "cluster_ok s" and "hasFlag (n_flags (me s)) CLUSTER_NODE_MYSELF"
  shows "cluster_ok (clusterBeforeSleep (clusterCron dial s))"
  using clusterBeforeSleep_ok [OF clusterCron_ok] assms by (simp add: knowsItself_def)

theorem cron_keeps_tables_witness:
  "cluster_ok (clusterBeforeSleep (clusterCron (\<lambda>_. Some (None, ''10.0.0.2'')) (pair_cluster node_a zeroNode)))"
  by (rule cron_keeps_tables [OF pair_zero_ok]) (simp add: me_def node_a_def flag_simps hasFlag_simps)

section \<open>Failure detection\<close>

text \<open>The state without what sending a message leaves behind.\<close>

definition quiet :: "redisServer \<Rightarrow> redisServer" where
  "quiet s = s\<lparr>s_out := [], c_stats_sent := (\<lambda>_. 0), s_rnd_pos := 0, s_panic := None\<rparr>"

lemma quiet_simple:
  "quiet (panic_with r s) = quiet s" "quiet (snd (randomNode s)) = quiet s"
  "quiet (clusterSendMessage l m s) = quiet s"
  by (auto simp: quiet_def panic_with_def randomNode_def random_num_def clusterSendMessage_def emit_def Let_def)

lemma quiet_gossipLoop: "quiet (snd (gossipLoop k w f gs s)) = quiet s"
proof (induction k w f gs s rule: gossipLoop.induct)
  case (2 k w f gs s)
  obtain de s1 where r: "randomNode s = (de, s1)" by force
  then have q: "quiet s1 = quiet s" using quiet_simple(2) [of s] by simp
  show ?case
    using 2 [OF _ r [symmetric]] q by (simp add: r quiet_simple Let_def split: option.split)
qed simp

lemma quiet_buildPing: "quiet (snd (buildPing t s)) = quiet s"
  by (simp add: buildPing_def Let_def case_prod_beta quiet_gossipLoop)

lemma quiet_eqD:
  assumes "quiet s' = quiet s"
  shows "nd s' = nd s" "c_links s' = c_links s" "s_mstime s' = s_mstime s" "s_node_timeout s' = s_node_timeout s"
    "c_mf_end s' = c_mf_end s" "c_mf_slave s' = c_mf_slave s" "me s' = me s" "c_myself s' = c_myself s"
    "c_nodes s' = c_nodes s" "live s' = live s"
proof -
  have f: "f (quiet s) = f s" if "f \<in> {c_links}" for f s using that by (simp add: quiet_def)
  have "nd (quiet s) = nd s" "me (quiet s) = me s" "live (quiet s) = live s" for s
    by (simp_all add: quiet_def nd_def me_def live_def fun_eq_iff)
  then show "nd s' = nd s" "me s' = me s" "live s' = live s" using assms by metis+
  note a = arg_cong [OF assms]
  show "c_links s' = c_links s" "s_mstime s' = s_mstime s" "s_node_timeout s' = s_node_timeout s"
    "c_mf_end s' = c_mf_end s" "c_mf_slave s' = c_mf_slave s" "c_myself s' = c_myself s" "c_nodes s' = c_nodes s"
    using a [of c_links] a [of s_mstime] a [of s_node_timeout] a [of c_mf_end] a [of c_mf_slave]
      a [of c_myself] a [of c_nodes] by (simp_all add: quiet_def)
qed

lemma quiet_sendPing:
  assumes "l_node (c_links s l) = Some p"
  shows "quiet (clusterSendPing l CLUSTERMSG_TYPE_PING s) = quiet (upd_node p (\<lambda>n. n\<lparr>n_ping_sent := s_mstime s\<rparr>) s)"
  using assms by (simp add: clusterSendPing_def Let_def case_prod_beta quiet_simple quiet_buildPing)

text \<open>What one round of checks does to a node.\<close>

definition idleLink :: "redisServer \<Rightarrow> clusterNode \<Rightarrow> bool" where
  "idleLink s n \<longleftrightarrow>
     (case n_link n of
        None \<Rightarrow> False
      | Some l \<Rightarrow> s_mstime s - l_ctime (c_links s l) > s_node_timeout s \<and> n_ping_sent n \<noteq> 0 \<and>
          s_mstime s - n_ping_sent n > s_node_timeout s div 2 \<and>
          s_mstime s - n_data_received n > s_node_timeout s div 2)"

definition heartbeat :: "nid \<Rightarrow> redisServer \<Rightarrow> clusterNode \<Rightarrow> clusterNode" where
  "heartbeat p s n =
     (if hasFlag (n_flags n) (CLUSTER_NODE_MYSELF OR CLUSTER_NODE_NOADDR OR CLUSTER_NODE_HANDSHAKE) then n
      else
        let n1 = (if idleLink s n then n\<lparr>n_link := None\<rparr> else n) in
        if n_link n1 \<noteq> None \<and> wantsPing p s then n1\<lparr>n_ping_sent := s_mstime s\<rparr>
        else if looksUnreachable p s then setFlag CLUSTER_NODE_PFAIL n1 else n1)"

definition links_ok :: "redisServer \<Rightarrow> bool" where
  "links_ok s \<longleftrightarrow> (\<forall>p \<in> live s. \<forall>l. n_link (nd s p) = Some l \<longrightarrow> l_node (c_links s l) = Some p)"

lemma dropIdleLink_eq:
  assumes "\<forall>l. n_link (nd s p) = Some l \<longrightarrow> l_node (c_links s l) = Some p"
  shows "dropIdleLink p s = upd_node p (\<lambda>n. if idleLink s n then n\<lparr>n_link := None\<rparr> else n) s"
  using assms
  by (auto simp: dropIdleLink_def idleLink_def freeClusterLink_def upd_node_def nd_def Let_def fun_eq_iff split: option.split)

lemma upd_node_mf [simp]:
  "c_mf_end (upd_node p f s) = c_mf_end s" "c_mf_slave (upd_node p f s) = c_mf_slave s"
  by (simp_all add: upd_node_def)

lemma checkNode_step:
  assumes "\<forall>l. n_link (nd s p) = Some l \<longrightarrow> l_node (c_links s l) = Some p"
  shows "quiet (snd (snd (checkNode p (a, u, s)))) = quiet (upd_node p (heartbeat p s) s)"
proof -
  let ?s1 = "dropIdleLink p s"
  have upd2: "upd_node p f (upd_node p g s) = upd_node p (\<lambda>n. f (g n)) s" for f g s by (simp add: upd_node_def)
  have cong: "upd_node p f s = upd_node p g s" if "f (nd s p) = g (nd s p)" for f g
    using that by (simp add: upd_node_def nd_def)
  have s1: "s_mstime ?s1 = s_mstime s" "c_links ?s1 = c_links s"
      "nd ?s1 p = (if idleLink s (nd s p) then (nd s p)\<lparr>n_link := None\<rparr> else nd s p)"
      "wantsPing p ?s1 = wantsPing p s" "looksUnreachable p ?s1 = looksUnreachable p s"
    unfolding dropIdleLink_eq [OF assms]
    by (auto simp: nd_upd_node wantsPing_def looksUnreachable_def me_def nodeIsMaster_def Let_def)
  let ?n1 = "if idleLink s (nd s p) then (nd s p)\<lparr>n_link := None\<rparr> else nd s p"
  define watched where "watched = (\<not> hasFlag (n_flags (nd s p))
      (CLUSTER_NODE_MYSELF OR CLUSTER_NODE_NOADDR OR CLUSTER_NODE_HANDSHAKE))"
  have c: "snd (snd (checkNode p (a, u, s))) =
     (if \<not> watched then s
      else if n_link ?n1 \<noteq> None \<and> wantsPing p s
      then clusterSendPing (the (n_link ?n1)) CLUSTERMSG_TYPE_PING ?s1
      else if looksUnreachable p s then upd_node p (setFlag CLUSTER_NODE_PFAIL) ?s1 else ?s1)"
    unfolding checkNode_def Let_def case_prod_conv s1 by (simp add: watched_def)
  have h: "heartbeat p s (nd s p) =
     (if \<not> watched then nd s p
      else if n_link ?n1 \<noteq> None \<and> wantsPing p s then ?n1\<lparr>n_ping_sent := s_mstime s\<rparr>
      else if looksUnreachable p s then setFlag CLUSTER_NODE_PFAIL ?n1 else ?n1)"
    unfolding heartbeat_def Let_def by (simp add: watched_def)
  have ping: "quiet (clusterSendPing (the (n_link ?n1)) CLUSTERMSG_TYPE_PING ?s1) =
      quiet (upd_node p (\<lambda>n. n\<lparr>n_ping_sent := s_mstime s\<rparr>) ?s1)" if "n_link ?n1 \<noteq> None"
  proof -
    have "l_node (c_links ?s1 (the (n_link ?n1))) = Some p"
      using that assms by (auto simp: s1 split: if_splits)
    then show ?thesis by (simp add: quiet_sendPing s1)
  qed
  have same: "s = upd_node p (\<lambda>n. n) s" by (simp add: upd_node_def)
  show ?thesis
  proof (cases "watched")
    case False
    then have "upd_node p (heartbeat p s) s = s" using h same cong [of "heartbeat p s" "\<lambda>n. n"] by simp
    then show ?thesis using False by (simp add: c)
  next
    case w: True
    show ?thesis
    proof (cases "n_link ?n1 \<noteq> None \<and> wantsPing p s")
      case True
      then have "snd (snd (checkNode p (a, u, s))) = clusterSendPing (the (n_link ?n1)) CLUSTERMSG_TYPE_PING ?s1"
        using c w by presburger
      then show ?thesis
        using ping True h w unfolding dropIdleLink_eq [OF assms] upd2
        by (metis (no_types, lifting) cong)
    next
      case noping: False
      then have "snd (snd (checkNode p (a, u, s))) = (if looksUnreachable p s
          then upd_node p (setFlag CLUSTER_NODE_PFAIL) ?s1 else ?s1)"
        using c w by presburger
      moreover have "heartbeat p s (nd s p) = (if looksUnreachable p s then setFlag CLUSTER_NODE_PFAIL ?n1 else ?n1)"
        using h w noping by presburger
      ultimately show ?thesis
        unfolding dropIdleLink_eq [OF assms] by (auto simp: upd2 intro!: arg_cong [of _ _ quiet] cong)
    qed
  qed
qed

lemma heartbeat_other:
  assumes "quiet s' = quiet (upd_node p (heartbeat p s) s)" and "q \<noteq> p"
  shows "nd s' q = nd s q" and "heartbeat q s' = heartbeat q s"
proof -
  note f = quiet_eqD [OF assms(1)]
  show nd: "nd s' q = nd s q" using assms(2) by (simp add: f nd_upd_node)
  have "nodeIsMaster (heartbeat p s n) = nodeIsMaster n" for n
    by (simp add: heartbeat_def Let_def nodeIsMaster_def setFlag_def hasFlag_set flag_simps hasFlag_simps)
  then have "nodeIsMaster (me s') = nodeIsMaster (me s)"
    using f by (simp add: me_def nd_upd_node)
  then have "wantsPing q s' = wantsPing q s" "looksUnreachable q s' = looksUnreachable q s"
    "idleLink s' = idleLink s"
    using nd by (simp_all add: wantsPing_def looksUnreachable_def idleLink_def f fun_eq_iff Let_def cong: option.case_cong)
  then show "heartbeat q s' = heartbeat q s" by (simp add: heartbeat_def f fun_eq_iff)
qed

lemma detect_fold:
  assumes "distinct ps" and "\<forall>p \<in> set ps. \<forall>l. n_link (nd s p) = Some l \<longrightarrow> l_node (c_links s l) = Some p"
  shows "nd (snd (snd (fold checkNode ps (a, u, s)))) q =
    (if q \<in> set ps then heartbeat q s (nd s q) else nd s q)"
  using assms
proof (induction ps arbitrary: a u s)
  case (Cons p ps)
  obtain a' u' s' where st: "checkNode p (a, u, s) = (a', u', s')" by (metis prod.collapse)
  have q: "quiet s' = quiet (upd_node p (heartbeat p s) s)"
    using checkNode_step [of s p a u] Cons.prems(2) st by simp
  note f = quiet_eqD [OF q] and o = heartbeat_other [OF q]
  have "\<forall>x \<in> set ps. \<forall>l. n_link (nd s' x) = Some l \<longrightarrow> l_node (c_links s' l) = Some x"
  proof
    fix x assume "x \<in> set ps"
    then have "x \<noteq> p" "x \<in> set (p # ps)" using Cons.prems(1) by auto
    then show "\<forall>l. n_link (nd s' x) = Some l \<longrightarrow> l_node (c_links s' l) = Some x"
      using Cons.prems(2) o(1) f(2) by simp
  qed
  note IH = Cons.IH [OF _ this, of a' u']
  have "nd s' p = heartbeat p s (nd s p)" by (simp add: f nd_upd_node)
  then show ?case using IH Cons.prems(1) st o by (cases "q = p") auto
qed simp

text \<open>
  C16. Failure detection is complete and exact. In one round over the nodes, a node that is not
  this one, has an address and has left the handshake is (1) disconnected exactly when its link is
  old and nothing arrived since a PING that is older than half the timeout, (2) pinged exactly when
  it keeps its link and its last PONG is old or a manual failover waits for it, and (3) marked as
  possibly failing exactly when it is not pinged, not yet suspected, and neither a PONG nor any data
  arrived within the timeout after the last PING. So a silent node does not stay unsuspected.
\<close>

theorem silent_node_is_suspected:
  assumes "cluster_ok s" and "links_ok s" and "p \<in> live s"
    and "\<not> hasFlag (n_flags (nd s p)) (CLUSTER_NODE_MYSELF OR CLUSTER_NODE_NOADDR OR CLUSTER_NODE_HANDSHAKE)"
  shows "let s' = snd (snd (detectFailures s)); n = nd s p; n' = nd s' p; now = s_mstime s; T = s_node_timeout s;
      idle = (\<exists>l. n_link n = Some l \<and> now - l_ctime (c_links s l) > T \<and> n_ping_sent n \<noteq> 0 \<and>
                  now - n_ping_sent n > T div 2 \<and> now - n_data_received n > T div 2);
      pinged = (n_link n \<noteq> None \<and> \<not> idle \<and>
                (n_ping_sent n = 0 \<and> now - n_pong_received n > T div 2 \<or>
                 c_mf_end s \<noteq> 0 \<and> nodeIsMaster (me s) \<and> c_mf_slave s = Some p));
      silent = (n_ping_sent n \<noteq> 0 \<and> now - n_ping_sent n > T \<and> now - n_data_received n > T) in
    n_link n' = (if idle then None else n_link n) \<and>
    n_ping_sent n' = (if pinged then now else n_ping_sent n) \<and>
    n_flags n' = (if silent \<and> \<not> pinged \<and> \<not> hasFlag (n_flags n) (CLUSTER_NODE_PFAIL OR CLUSTER_NODE_FAIL)
                  then n_flags n OR CLUSTER_NODE_PFAIL else n_flags n) \<and>
    (silent \<and> \<not> pinged \<longrightarrow> nodeTimedOut n' \<or> nodeFailed n')"
proof -
  have "distinct (dictVals (c_nodes s))" using assms(1) by (simp add: cluster_ok_def names_ok_distinct)
  then have n': "nd (snd (snd (detectFailures s))) p = heartbeat p s (nd s p)"
    unfolding detectFailures_def using detect_fold [of "dictVals (c_nodes s)" s] assms(2,3)
    by (simp add: links_ok_def live_def)
  have idle: "idleLink s (nd s p) = (\<exists>l. n_link (nd s p) = Some l \<and> s_mstime s - l_ctime (c_links s l) > s_node_timeout s \<and>
      n_ping_sent (nd s p) \<noteq> 0 \<and> s_mstime s - n_ping_sent (nd s p) > s_node_timeout s div 2 \<and>
      s_mstime s - n_data_received (nd s p) > s_node_timeout s div 2)"
    by (simp add: idleLink_def split: option.split)
  have set: "hasFlag f (CLUSTER_NODE_PFAIL OR CLUSTER_NODE_FAIL) \<longleftrightarrow>
      hasFlag f CLUSTER_NODE_PFAIL \<or> hasFlag f CLUSTER_NODE_FAIL" for f by (rule hasFlag_OR)
  have pf: "hasFlag (f OR CLUSTER_NODE_PFAIL) CLUSTER_NODE_PFAIL" for f
    by (simp add: hasFlag_set flag_simps hasFlag_simps)
  have h: "heartbeat p s (nd s p) =
      (let n1 = (if idleLink s (nd s p) then (nd s p)\<lparr>n_link := None\<rparr> else nd s p) in
        if n_link n1 \<noteq> None \<and> wantsPing p s then n1\<lparr>n_ping_sent := s_mstime s\<rparr>
        else if looksUnreachable p s then setFlag CLUSTER_NODE_PFAIL n1 else n1)"
    using assms(4) by (simp add: heartbeat_def)
  show ?thesis
    unfolding Let_def n' idle [symmetric] h
    by (auto simp: wantsPing_def looksUnreachable_def setFlag_def set pf nodeTimedOut_def nodeFailed_def Let_def)
qed

definition silent_pair :: redisServer where
  "silent_pair = (pair_cluster node_a (zeroNode\<lparr>n_flags := CLUSTER_NODE_MASTER, n_ping_sent := 1,
     n_data_received := 1\<rparr>))\<lparr>s_mstime := 20000\<rparr>"

theorem silent_node_is_suspected_witness:
  "n_flags (nd (snd (snd (detectFailures silent_pair))) 1) = CLUSTER_NODE_MASTER OR CLUSTER_NODE_PFAIL"
proof -
  have c: "core silent_pair = core (pair_cluster node_a (zeroNode\<lparr>n_flags := CLUSTER_NODE_MASTER, n_ping_sent := 1,
     n_data_received := 1\<rparr>))"
    by (simp add: silent_pair_def core_def)
  have ok: "cluster_ok silent_pair"
    by (rule cluster_ok_keep [OF _ c]) (rule pair_cluster_ok, simp_all add: node_a_def zeroNode_def)
  have n: "nd silent_pair 1 = zeroNode\<lparr>n_name := nameB, n_flags := CLUSTER_NODE_MASTER, n_ping_sent := 1,
     n_data_received := 1\<rparr>" "nd silent_pair 0 = node_a\<lparr>n_name := nameA\<rparr>" "live silent_pair = {0, 1}"
     "s_mstime silent_pair = 20000" "s_node_timeout silent_pair = 15000"
    by (simp_all add: silent_pair_def pair_cluster_def nd_def live_def dictVals_def zeroServer_def)
  have "links_ok silent_pair"
    using n by (auto simp: links_ok_def node_a_def zeroNode_def simp del: One_nat_def)
  note t = silent_node_is_suspected [OF ok this, of 1]
  show ?thesis using t n by (simp add: Let_def zeroNode_def flag_simps hasFlag_simps del: One_nat_def)
qed

end
