(* ===== verification/LinkIO.thy ===== *)
theory LinkIO
  imports ClusterCron
begin

text \<open>
  The bytes on a link (src/server/src/cluster.c): \<open>clusterReadHandler\<close> cuts the stream that
  arrives on a connection into packets, \<open>clusterWriteHandler\<close> and \<open>clusterSendMessage\<close> keep the
  bytes to be sent. The pieces in which \<^verbatim>\<open>read\<close> delivers the stream are arbitrary: the
  connection is the list of the segments that have arrived, an empty segment is the end of the
  stream. How a packet is processed is a parameter of the reader; \<open>readLink\<close> instantiates it with
  \<open>clusterProcessPacket\<close> and a function that reads the structure \<^verbatim>\<open>clusterMsg\<close> off the bytes.
\<close>

section \<open>Reading\<close>

definition RCVBUF_INIT_LEN :: nat where "RCVBUF_INIT_LEN = 1024"
definition RCVBUF_MAX_PREALLOC :: nat where "RCVBUF_MAX_PREALLOC = 2 ^ 20"
definition CLUSTERMSG_MIN_LEN :: nat where "CLUSTERMSG_MIN_LEN = 2288"
definition SIZEOF_BUF :: nat where "SIZEOF_BUF = 4384"

text \<open>The signature \<^verbatim>\<open>RCmb\<close> and the total length, in network byte order, of the bytes of a header.\<close>

definition signature :: "u8 list" where "signature = [82, 67, 109, 98]"

definition totlen :: "u8 list \<Rightarrow> nat" where
  "totlen b = ((unat (b ! 4) * 256 + unat (b ! 5)) * 256 + unat (b ! 6)) * 256 + unat (b ! 7)"

record rcvBuf =
  r_buf :: "u8 list"
  r_alloc :: nat

text \<open>\<open>connRead\<close>: None when no data is ready; no bytes when the connection was closed.\<close>

fun connRead :: "nat \<Rightarrow> u8 list list \<Rightarrow> u8 list option \<times> u8 list list" where
  "connRead n [] = (None, [])"
| "connRead n (seg # segs) = (Some (take n seg), if length seg \<le> n then segs else drop n seg # segs)"

text \<open>How many bytes to read next; None when the header is not acceptable.\<close>

definition readLength :: "u8 list \<Rightarrow> nat option" where
  "readLength b =
     (if length b < 8 then Some (8 - length b)
      else if length b = 8 \<and> (take 4 b \<noteq> signature \<or> totlen b < CLUSTERMSG_MIN_LEN) then None
      else Some (min (unat (word_of_nat (totlen b) - word_of_nat (length b) :: u32)) SIZEOF_BUF))"

definition appendRcv :: "u8 list \<Rightarrow> rcvBuf \<Rightarrow> rcvBuf" where
  "appendRcv bytes rb =
     (let unused = r_alloc rb - length (r_buf rb);
          required = length (r_buf rb) + length bytes;
          alloc = (if length bytes > unused
                   then if required < RCVBUF_MAX_PREALLOC then required * 2 else required + RCVBUF_MAX_PREALLOC
                   else r_alloc rb)
      in rb\<lparr>r_buf := r_buf rb @ bytes, r_alloc := alloc\<rparr>)"

definition clearRcv :: "rcvBuf \<Rightarrow> rcvBuf" where
  "clearRcv rb = rb\<lparr>r_buf := [], r_alloc := (if r_alloc rb > RCVBUF_INIT_LEN then RCVBUF_INIT_LEN else r_alloc rb)\<rparr>"

datatype readEnd = NoMoreData | LinkIOError | LinkFreed

function clusterReadHandler :: "(u8 list \<Rightarrow> 's \<Rightarrow> bool \<times> 's) \<Rightarrow> u8 list list \<Rightarrow> rcvBuf \<Rightarrow> 's \<Rightarrow>
    readEnd \<times> u8 list list \<times> rcvBuf \<times> 's" where
  "clusterReadHandler process conn rb s =
     (case readLength (r_buf rb) of
        None \<Rightarrow> (LinkIOError, conn, rb, s)
      | Some readlen \<Rightarrow>
          (case connRead readlen conn of
             (None, conn1) \<Rightarrow> (NoMoreData, conn1, rb, s)
           | (Some bytes, conn1) \<Rightarrow>
               if bytes = [] then (LinkIOError, conn1, rb, s)
               else
                 let rb1 = appendRcv bytes rb; b = r_buf rb1 in
                 if length b \<ge> 8 \<and> length b = totlen b
                 then (case process b s of
                         (True, s1) \<Rightarrow> clusterReadHandler process conn1 (clearRcv rb1) s1
                       | (False, s1) \<Rightarrow> (LinkFreed, conn1, rb1, s1))
                 else clusterReadHandler process conn1 rb1 s))"
  by pat_completeness auto

text \<open>Each read takes at least one byte off the connection.\<close>

lemma connRead_shrinks:
  assumes "connRead n conn = (Some bytes, conn1)" and "bytes \<noteq> []"
  shows "sum_list (map length conn1) + length conn1 < sum_list (map length conn) + length conn"
  using assms by (cases conn) (auto split: if_splits)

termination clusterReadHandler
  by (relation "measure (\<lambda>(process, conn, rb, s). sum_list (map length conn) + length conn)")
    (auto dest: connRead_shrinks [OF sym])

declare clusterReadHandler.simps [simp del]

text \<open>The handler on the link of the model: \<open>decode\<close> reads the packet structure off the bytes.\<close>

definition processBytes :: "(u8 list \<Rightarrow> clusterMsg) \<Rightarrow> lid \<Rightarrow> u8 list \<Rightarrow> redisServer \<Rightarrow> bool \<times> redisServer" where
  "processBytes decode link bytes s =
     (let (r, s1) = clusterProcessPacket (decode bytes) link
            (s\<lparr>c_links := (c_links s)(link := (c_links s link)\<lparr>l_rcvbuf_len := length bytes\<rparr>)\<rparr>)
      in (r \<noteq> 0, s1))"

definition handleLinkIOError :: "lid \<Rightarrow> redisServer \<Rightarrow> redisServer" where
  "handleLinkIOError link s = freeClusterLink link s"

definition readLink :: "(u8 list \<Rightarrow> clusterMsg) \<Rightarrow> lid \<Rightarrow> u8 list list \<Rightarrow> rcvBuf \<Rightarrow> redisServer \<Rightarrow>
    readEnd \<times> u8 list list \<times> rcvBuf \<times> redisServer" where
  "readLink decode link conn rb s =
     (case clusterReadHandler (processBytes decode link) conn rb s of
        (LinkIOError, conn1, rb1, s1) \<Rightarrow> (LinkIOError, conn1, rb1, handleLinkIOError link s1)
      | r \<Rightarrow> r)"

section \<open>Writing\<close>

record sndBuf =
  w_buf :: "u8 list"
  w_armed :: bool

text \<open>\<open>clusterSendMessage\<close> on the bytes of a message.\<close>

definition queueBytes :: "u8 list \<Rightarrow> sndBuf \<Rightarrow> sndBuf" where
  "queueBytes msg wb =
     \<lparr>w_buf = w_buf wb @ msg, w_armed = (if w_buf wb = [] \<and> msg \<noteq> [] then True else w_armed wb)\<rparr>"

text \<open>The write handler; None when the link was freed. \<open>nwritten\<close> is what \<^verbatim>\<open>write\<close> returns.\<close>

definition clusterWriteHandler :: "int \<Rightarrow> sndBuf \<Rightarrow> sndBuf option" where
  "clusterWriteHandler nwritten wb =
     (if nwritten \<le> 0 then None
      else let b = drop (nat nwritten) (w_buf wb)
        in Some \<lparr>w_buf = b, w_armed = (if b = [] then False else w_armed wb)\<rparr>)"

section \<open>Packets in a stream\<close>

definition framed :: "u8 list \<Rightarrow> bool" where
  "framed p \<longleftrightarrow> length p = totlen p \<and> take 4 p = signature \<and> CLUSTERMSG_MIN_LEN \<le> totlen p"

text \<open>The bytes of a packet that has not arrived completely.\<close>

definition unfinished :: "u8 list \<Rightarrow> bool" where
  "unfinished b \<longleftrightarrow> (\<exists>u. u \<noteq> [] \<and> framed (b @ u))"

lemma totlen_append: "8 \<le> length b \<Longrightarrow> totlen (b @ u) = totlen b"
  by (simp add: totlen_def nth_append)

lemma totlen_bound: "totlen b < 2 ^ 32"
proof -
  have "unat (x :: u8) < 2 ^ LENGTH(8)" for x by (rule unsigned_less)
  then have "unat (x :: u8) \<le> 255" for x by (simp add: less_Suc_eq_le [symmetric])
  then have "unat (b ! 4) \<le> 255" "unat (b ! 5) \<le> 255" "unat (b ! 6) \<le> 255" "unat (b ! 7) \<le> 255" by blast+
  then show ?thesis unfolding totlen_def by simp
qed

lemma framed_long: "framed p \<Longrightarrow> 8 < length p"
  by (simp add: framed_def CLUSTERMSG_MIN_LEN_def)

lemma readLength_prefix:
  assumes "framed (b @ u)" and "u \<noteq> []"
  shows "\<exists>n. readLength b = Some n \<and> 0 < n \<and> n \<le> length u"
proof (cases "length b < 8")
  case True
  then show ?thesis using framed_long [OF assms(1)] by (auto simp: readLength_def)
next
  case False
  then have t: "totlen b = length b + length u" and s: "take 4 b = signature" "CLUSTERMSG_MIN_LEN \<le> totlen b"
    using assms(1) by (auto simp: framed_def totlen_append)
  have "totlen b < 2 ^ 32" by (rule totlen_bound)
  then have "unat (word_of_nat (totlen b) - word_of_nat (length b) :: u32) = length u"
    using t by (simp add: unsigned_of_nat take_bit_nat_eq_self flip: of_nat_diff)
  then show ?thesis using False s assms(2) by (auto simp: readLength_def SIZEOF_BUF_def)
qed

lemma framed_header:
  assumes "length z = 2280"
  shows "framed ([82, 67, 109, 98, 0, 0, 8, 240] @ z)"
proof -
  let ?h = "[82, 67, 109, 98, 0, 0, 8, 240] :: u8 list"
  have "totlen ?h = 2288" by (simp add: totlen_def)
  then have "totlen (?h @ z) = 2288" using totlen_append [of ?h z] by simp
  moreover have "take 4 (?h @ z) = signature" by (simp add: signature_def)
  ultimately show ?thesis using assms unfolding framed_def CLUSTERMSG_MIN_LEN_def by simp
qed

lemma unfinished_nil: "unfinished []"
  using framed_header [of "replicate 2280 0"] unfolding unfinished_def by fastforce

lemma appendRcv_buf [simp]: "r_buf (appendRcv bytes rb) = r_buf rb @ bytes"
  by (simp add: appendRcv_def Let_def)

lemma clearRcv_buf [simp]: "r_buf (clearRcv rb) = []"
  by (simp add: clearRcv_def)

text \<open>The packet that the reader is collecting.\<close>

lemma current_packet:
  assumes "unfinished b" and "b @ c = concat ps @ t" and "\<forall>p \<in> set ps. framed p" and "unfinished t"
  obtains q u where "framed q" "q = b @ u" "u \<noteq> []"
    "(\<exists>ps'. ps = q # ps') \<or> ps = [] \<and> (\<exists>v. v \<noteq> [] \<and> q = t @ v)"
proof (cases ps)
  case Nil
  then have t: "t = b @ c" using assms(2) by simp
  obtain v where v: "v \<noteq> []" "framed (t @ v)" using assms(4) unfolding unfinished_def by blast
  have "t @ v = b @ (c @ v)" "c @ v \<noteq> []" using t v(1) by simp_all
  then show thesis using that v Nil by blast
next
  case (Cons p ps')
  obtain w where w: "w \<noteq> []" "framed (b @ w)" using assms(1) by (auto simp: unfinished_def)
  have p: "framed p" "8 < length p" using assms(3) Cons framed_long by auto
  have "b @ c = p @ (concat ps' @ t)" using assms(2) Cons by simp
  then consider u where "p = b @ u" | u where "b = p @ u"
    unfolding append_eq_append_conv2 by blast
  then show thesis
  proof cases
    case 1
    have "u \<noteq> []"
    proof
      assume "u = []"
      then have "totlen (b @ w) = totlen b" "length b = totlen b" using 1 p by (simp_all add: totlen_append framed_def)
      then show False using w by (simp add: framed_def)
    qed
    then show thesis using that 1 p(1) Cons by auto
  next
    case 2
    have "totlen (b @ w) = length p" using p 2 by (simp add: totlen_append framed_def)
    moreover have "length (b @ w) > length p" using w(1) 2 by simp
    ultimately show thesis using w(2) by (simp add: framed_def)
  qed
qed

text \<open>Every packet is accepted in the state in which it arrives.\<close>

fun accepted :: "(u8 list \<Rightarrow> 's \<Rightarrow> bool \<times> 's) \<Rightarrow> u8 list list \<Rightarrow> 's \<Rightarrow> bool" where
  "accepted process [] s = True"
| "accepted process (p # ps) s = (fst (process p s) \<and> accepted process ps (snd (process p s)))"

lemma reader_delivers:
  assumes "unfinished (r_buf rb)" and "\<forall>seg \<in> set conn. seg \<noteq> []"
    and "r_buf rb @ concat conn = concat ps @ t"
    and "\<forall>p \<in> set ps. framed p" and "unfinished t" and "accepted process ps s"
  shows "\<exists>a. clusterReadHandler process conn rb s =
    (NoMoreData, [], \<lparr>r_buf = t, r_alloc = a\<rparr>, fold (\<lambda>p s. snd (process p s)) ps s)"
  using assms
proof (induction process conn rb s arbitrary: ps rule: clusterReadHandler.induct)
  case (1 process conn rb s)
  let ?b = "r_buf rb"
  obtain q u where q: "framed q" "q = ?b @ u" "u \<noteq> []"
    and cur: "(\<exists>ps'. ps = q # ps') \<or> ps = [] \<and> (\<exists>v. v \<noteq> [] \<and> q = t @ v)"
    using current_packet [OF "1.prems"(1,3,4,5)] .
  obtain n where n: "readLength ?b = Some n" "0 < n" "n \<le> length u"
    using readLength_prefix [of ?b u] q by auto
  show ?case
  proof (cases conn)
    case Nil
    have "ps \<noteq> q # ps'" for ps'
    proof
      assume "ps = q # ps'"
      then have "?b = ?b @ (u @ concat ps' @ t)" using "1.prems"(3) Nil q(2) by simp
      then show False using q(3) by simp
    qed
    then have "ps = []" "t = ?b"
      using cur "1.prems"(3) Nil by auto
    then show ?thesis
      using Nil n by (subst clusterReadHandler.simps) (simp, metis rcvBuf.surjective unit.exhaust)
  next
    case (Cons seg segs)
    define bytes where "bytes = take n seg"
    define conn1 where "conn1 = (if length seg \<le> n then segs else drop n seg # segs)"
    have read: "connRead n conn = (Some bytes, conn1)" by (simp add: Cons bytes_def conn1_def)
    have ne: "bytes \<noteq> []" using "1.prems"(2) n(2) Cons by (simp add: bytes_def)
    have rest: "bytes @ concat conn1 = concat conn" by (simp add: Cons bytes_def conn1_def)
    have segs: "\<forall>seg \<in> set conn1. seg \<noteq> []" using "1.prems"(2) Cons by (auto simp: conn1_def)
    have len: "length bytes \<le> length u" using n(3) by (simp add: bytes_def)
    obtain u1 where u1: "u = bytes @ u1" "ps = [] \<longrightarrow> u1 \<noteq> []"
    proof (cases ps)
      case Nil
      then obtain v where v: "v \<noteq> []" "q = t @ v" using cur by auto
      have "t = ?b @ bytes @ concat conn1" using "1.prems"(3) rest Nil by simp
      then have "u = bytes @ (concat conn1 @ v)" using v(2) q(2) by simp
      then show thesis using that v(1) by blast
    next
      case (Cons p ps')
      then have "ps = q # ps'" using cur by auto
      then have "?b @ (bytes @ concat conn1) = ?b @ (u @ (concat ps' @ t))"
        using "1.prems"(3) rest q(2) by simp
      then have "take (length bytes) (bytes @ concat conn1) = take (length bytes) (u @ (concat ps' @ t))" by simp
      then have "bytes = take (length bytes) u" using len by simp
      then have "u = bytes @ drop (length bytes) u" by (metis append_take_drop_id)
      then show thesis using that Cons by blast
    qed
    let ?rb1 = "appendRcv bytes rb"
    have q1: "q = r_buf ?rb1 @ u1" using q(2) u1(1) by simp
    have stream: "r_buf ?rb1 @ concat conn1 = concat ps @ t" using "1.prems"(3) rest by simp
    have complete: "8 \<le> length (r_buf ?rb1) \<and> length (r_buf ?rb1) = totlen (r_buf ?rb1) \<longleftrightarrow> u1 = []"
    proof
      assume "u1 = []"
      then show "8 \<le> length (r_buf ?rb1) \<and> length (r_buf ?rb1) = totlen (r_buf ?rb1)"
        using q1 q(1) framed_long [OF q(1)] by (simp add: framed_def)
    next
      assume a: "8 \<le> length (r_buf ?rb1) \<and> length (r_buf ?rb1) = totlen (r_buf ?rb1)"
      then have "totlen q = length (r_buf ?rb1)" using q1 by (simp add: totlen_append del: appendRcv_buf)
      then show "u1 = []" using q(1) q1 by (simp add: framed_def)
    qed
    show ?thesis
    proof (cases "u1 = []")
      case True
      then obtain ps' where ps: "ps = q # ps'" using cur u1(2) by auto
      have b1: "r_buf ?rb1 = q" using True q1 by simp
      obtain taken s1 where "process q s = (taken, s1)" by force
      moreover have "accepted process (q # ps') s" using "1.prems"(6) ps by simp
      ultimately have pr: "process q s = (True, s1)" and acc: "accepted process ps' s1" by simp_all
      have "\<exists>a. clusterReadHandler process conn1 (clearRcv ?rb1) s1 =
          (NoMoreData, [], \<lparr>r_buf = t, r_alloc = a\<rparr>, fold (\<lambda>p s. snd (process p s)) ps' s1)"
      proof (rule "1.IH"(1) [OF n(1) read [symmetric] refl ne refl refl])
        show "8 \<le> length (r_buf ?rb1) \<and> length (r_buf ?rb1) = totlen (r_buf ?rb1)"
          using complete True by blast
        show "(True, s1) = process (r_buf ?rb1) s" using pr b1 by metis
        show "unfinished (r_buf (clearRcv ?rb1))" by (simp add: unfinished_nil)
        show "r_buf (clearRcv ?rb1) @ concat conn1 = concat ps' @ t" using stream ps unfolding b1 by simp
        show "\<forall>p \<in> set ps'. framed p" using "1.prems"(4) ps by simp
      qed (use segs acc "1.prems"(5) in simp_all)
      then show ?thesis
        using complete True ne pr b1 ps
        by (subst clusterReadHandler.simps) (simp add: n(1) read Let_def del: appendRcv_buf)
    next
      case False
      have "\<exists>a. clusterReadHandler process conn1 ?rb1 s =
          (NoMoreData, [], \<lparr>r_buf = t, r_alloc = a\<rparr>, fold (\<lambda>p s. snd (process p s)) ps s)"
      proof (rule "1.IH"(2) [OF n(1) read [symmetric] refl ne refl refl])
        show "\<not> (8 \<le> length (r_buf ?rb1) \<and> length (r_buf ?rb1) = totlen (r_buf ?rb1))"
          using complete False by blast
        show "unfinished (r_buf ?rb1)" using q(1) q1 False unfolding unfinished_def by blast
        show "r_buf ?rb1 @ concat conn1 = concat ps @ t" by (rule stream)
      qed (use segs "1.prems" in simp_all)
      then show ?thesis
        using complete False ne by (subst clusterReadHandler.simps) (auto simp: n(1) read Let_def simp del: appendRcv_buf)
    qed
  qed
qed

section \<open>Receiving changes no link\<close>

lemma links_tables [simp]:
  "c_links (snd (clusterNodeRemoveSlave m p s)) = c_links s" "c_links (snd (clusterNodeAddSlave m p s)) = c_links s"
  "c_links (freeClusterLink l s) = c_links s" "c_links (clusterRenameNode p name s) = c_links s"
  "c_links (snd (clusterAddSlot p j s)) = c_links s" "c_links (snd (clusterDelSlot j s)) = c_links s"
  "c_links (snd (clusterDelNodeSlots p s)) = c_links s"
proof -
  show d: "c_links (snd (clusterDelSlot j s)) = c_links s" for j s
    by (simp add: clusterDelSlot_def clusterNodeClearSlotBit_def Let_def split: option.split)
  have "c_links (snd (fold (\<lambda>j (deleted, s). if clusterNodeGetSlotBit p j s
      then (deleted + 1, snd (clusterDelSlot j s)) else (deleted, s)) js (k, s))) = c_links s" for js and k :: int and s
    by (induction js arbitrary: k s) (auto simp: d)
  then show "c_links (snd (clusterDelNodeSlots p s)) = c_links s"
    by (simp add: clusterDelNodeSlots_def Let_def)
qed (simp_all add: clusterNodeRemoveSlave_def clusterNodeAddSlave_def freeClusterLink_def clusterRenameNode_def
      clusterAddSlot_def clusterNodeSetSlotBit_def Let_def split: option.split)

lemma links_delNode [simp]: "c_links (clusterDelNode p s) = c_links s"
proof -
  have f: "c_links (fold (forgetSlotsOf p) js s) = c_links s" for js s
    by (rule fold_keeps_field) (simp add: forgetSlotsOf_def Let_def)
  have r: "c_links (fold (\<lambda>q s. if q = p then s else snd (clusterNodeDelFailureReport q p s)) qs s) = c_links s" for qs s
    by (rule fold_keeps_field) simp
  have sl: "c_links (fold (\<lambda>q. upd_node q (\<lambda>n. n\<lparr>n_slaveof := None\<rparr>)) qs s) = c_links s" for qs s
    by (rule fold_keeps_field) simp
  have "c_links (freeClusterNode p s) = c_links s" for s
    by (simp add: freeClusterNode_def sl Let_def split: option.split)
  then show ?thesis by (simp add: clusterDelNode_def f r Let_def)
qed

lemma links_config [simp]:
  "c_links (clusterSetNodeAsMaster p s) = c_links s" "c_links (resetManualFailover s) = c_links s"
  "c_links (replicationSetMaster ip port s) = c_links s" "c_links (clusterSetMaster p s) = c_links s"
  "c_links (delKeysInSlot j s) = c_links s" "c_links (clearNodeFailureIfNeeded p s) = c_links s"
  "c_links (clusterHandleConfigEpochCollision p s) = c_links s"
  "c_links (clusterSaveConfigOrDie b s) = c_links s"
proof -
  show m: "c_links (clusterSetNodeAsMaster p s) = c_links s" for p s
    by (simp add: clusterSetNodeAsMaster_def Let_def split: option.split)
  show r: "c_links (resetManualFailover s) = c_links s" "c_links (replicationSetMaster ip port s) = c_links s"
    for ip port s
    by (simp_all add: resetManualFailover_def replicationSetMaster_def)
  show "c_links (clusterSetMaster p s) = c_links s"
    by (simp add: clusterSetMaster_def m r clusterCloseAllSlots_def Let_def split: option.split)
  show "c_links (delKeysInSlot j s) = c_links s" "c_links (clearNodeFailureIfNeeded p s) = c_links s"
    "c_links (clusterSaveConfigOrDie b s) = c_links s"
    by (simp_all add: delKeysInSlot_def clearNodeFailureIfNeeded_def clusterSaveConfigOrDie_def Let_def)
  show "c_links (clusterHandleConfigEpochCollision p s) = c_links s"
    by (simp add: clusterHandleConfigEpochCollision_def set_my_epoch_def clusterSaveConfigOrDie_def Let_def)
qed

lemma links_updateSlots [simp]: "c_links (clusterUpdateSlotsConfigWith q ep slots s) = c_links s"
proof -
  have "c_links (u_server (updateSlot q ep cm slots j u)) = c_links (u_server u)" for cm j u
    by (simp add: updateSlot_def Let_def split: option.split)
  then have "c_links (u_server (fold (updateSlot q ep cm slots) js u)) = c_links (u_server u)" for cm js u
    by (intro fold_keeps_field [of _ "\<lambda>u. c_links (u_server u)"])
  moreover have "c_links (fold delKeysInSlot js s) = c_links s" for js s
    by (rule fold_keeps_field) simp
  ultimately show ?thesis by (simp add: clusterUpdateSlotsConfigWith_def Let_def)
qed

lemma links_vote [simp]: "c_links (clusterSendFailoverAuthIfNeeded q hdr s) = c_links s"
  by (simp add: vote_cases voted_def Let_def split: option.split)

lemma links_ping [simp]: "c_links (snd (processPing hdr link sender ep s)) = c_links s"
proof -
  have c: "c_links (snd (checkLinkNode hdr link sender s)) = c_links s" for sender
    by (simp add: checkLinkNode_def nodeUpdateAddressIfNeeded_def Let_def case_prod_beta split: option.split)
  have l: "c_links (learnNofailover hdr sender s) = c_links s" "c_links (learnAddress hdr link sender s) = c_links s"
    "c_links (notePong hdr link s) = c_links s" "c_links (learnRole hdr sender s) = c_links s" for sender s
    by (simp_all add: learnNofailover_def learnAddress_def notePong_def learnRole_def becomeSlave_def followMaster_def
        nodeUpdateAddressIfNeeded_def Let_def case_prod_beta split: option.split)
  have o: "c_links (learnSlots hdr sender ep s) = c_links s" for sender s
    by (simp add: learnSlots_def answerOutdated_def Let_def split: option.split)
  show ?thesis using c
    by (simp add: processPing_def l o case_prod_beta Let_def split: option.split prod.split)
qed

lemma links_processPacket: "c_links (snd (clusterProcessPacket hdr link s)) = c_links s"
proof -
  have o: "c_links (processFail hdr sender s) = c_links s" "c_links (processPublish s) = c_links s"
    "c_links (processAuthAck q ep s) = c_links s" "c_links (processMFStart link q s) = c_links s"
    "c_links (processUpdate hdr s) = c_links s" "c_links (processHotGroup hdr s) = c_links s" for sender q ep s
    by (simp_all add: processFail_def processPublish_def processAuthAck_def processMFStart_def processUpdate_def
        processHotGroup_def upd_slot_def Let_def split: option.split)
  have "c_links (snd (processTyped hdr link sender e1 e2 s)) = c_links s" for sender e1 e2 s
    unfolding processTyped_def Let_def by (simp add: o split: option.split)
  then show ?thesis by (simp add: clusterProcessPacket_def Let_def)
qed

section \<open>Properties of the reader and the writer\<close>

text \<open>
  C15. The reader reassembles the stream: whatever segments the bytes arrive in, and whatever part
  of a packet the buffer already holds, one call of the handler ends, takes all the bytes, processes
  exactly the packets of the stream, in order and each once, and keeps the unfinished rest.
\<close>

theorem reader_reassembles:
  assumes "unfinished (r_buf rb)" and "\<forall>seg \<in> set conn. seg \<noteq> []"
    and "r_buf rb @ concat conn = concat ps @ t"
    and "\<forall>p \<in> set ps. framed p" and "unfinished t" and "accepted process ps s"
  shows "\<exists>a. clusterReadHandler process conn rb s =
    (NoMoreData, [], \<lparr>r_buf = t, r_alloc = a\<rparr>, fold (\<lambda>p s. snd (process p s)) ps s)"
  by (rule reader_delivers [OF assms])

definition sample_packet :: "u8 list" where
  "sample_packet = [82, 67, 109, 98, 0, 0, 8, 240] @ replicate 2280 0"

theorem reader_reassembles_witness:
  "\<exists>a. clusterReadHandler (\<lambda>p seen. (True, seen @ [p])) [take 3 sample_packet, drop 3 sample_packet @ [82]]
      \<lparr>r_buf = [], r_alloc = 1024\<rparr> [] = (NoMoreData, [], \<lparr>r_buf = [82], r_alloc = a\<rparr>, [sample_packet])"
proof -
  have f: "framed sample_packet" unfolding sample_packet_def by (rule framed_header) simp
  have u: "unfinished [82]"
    unfolding unfinished_def using framed_header [of "replicate 2280 0"]
    by (intro exI [of _ "[67, 109, 98, 0, 0, 8, 240] @ replicate 2280 0"]) simp
  have l: "length sample_packet = 2288" by (simp add: sample_packet_def)
  have "take 3 sample_packet \<noteq> []" "drop 3 sample_packet \<noteq> []" using l by auto
  then have "\<exists>a. clusterReadHandler (\<lambda>p seen. (True, seen @ [p])) [take 3 sample_packet, drop 3 sample_packet @ [82]]
      \<lparr>r_buf = [], r_alloc = 1024\<rparr> [] = (NoMoreData, [], \<lparr>r_buf = [82], r_alloc = a\<rparr>,
       fold (\<lambda>p s. snd ((\<lambda>p seen. (True, seen @ [p])) p s)) [sample_packet] [])"
    by (intro reader_reassembles) (use f u unfinished_nil in simp_all)
  then show ?thesis by simp
qed

text \<open>The end of a stream whose first eight bytes are not a header.\<close>

lemma bad_header:
  assumes "length (r_buf rb) \<le> 8" and "\<forall>seg \<in> set conn. seg \<noteq> []" and "8 \<le> length (r_buf rb @ concat conn)"
    and "take 4 (r_buf rb @ concat conn) \<noteq> signature \<or> totlen (r_buf rb @ concat conn) < CLUSTERMSG_MIN_LEN"
    and "totlen (r_buf rb @ concat conn) \<noteq> 8"
  shows "\<exists>conn1 rb1. clusterReadHandler process conn rb s = (LinkIOError, conn1, rb1, s)"
  using assms
proof (induction process conn rb s rule: clusterReadHandler.induct)
  case (1 process conn rb s)
  let ?b = "r_buf rb"
  show ?case
  proof (cases "length ?b = 8")
    case True
    then have "totlen (?b @ concat conn) = totlen ?b" "take 4 (?b @ concat conn) = take 4 ?b"
      by (simp_all add: totlen_append)
    then have "readLength ?b = None" using True "1.prems"(4) by (simp add: readLength_def)
    then show ?thesis by (subst clusterReadHandler.simps) simp
  next
    case False
    then have n: "readLength ?b = Some (8 - length ?b)" and less: "length ?b < 8"
      using "1.prems"(1) by (simp_all add: readLength_def)
    obtain seg segs where Cons: "conn = seg # segs" using "1.prems"(3) less by (cases conn) auto
    define bytes where "bytes = take (8 - length ?b) seg"
    define conn1 where "conn1 = (if length seg \<le> 8 - length ?b then segs else drop (8 - length ?b) seg # segs)"
    have read: "connRead (8 - length ?b) conn = (Some bytes, conn1)" by (simp add: Cons bytes_def conn1_def)
    have ne: "bytes \<noteq> []" using "1.prems"(2) less Cons by (simp add: bytes_def)
    have rest: "bytes @ concat conn1 = concat conn" by (simp add: Cons bytes_def conn1_def)
    have segs: "\<forall>seg \<in> set conn1. seg \<noteq> []" using "1.prems"(2) Cons by (auto simp: conn1_def)
    let ?rb1 = "appendRcv bytes rb"
    have len: "length (r_buf ?rb1) \<le> 8" using less by (simp add: bytes_def)
    have stream: "r_buf ?rb1 @ concat conn1 = ?b @ concat conn" using rest by simp
    have go: "\<not> (8 \<le> length (r_buf ?rb1) \<and> length (r_buf ?rb1) = totlen (r_buf ?rb1))"
    proof
      assume a: "8 \<le> length (r_buf ?rb1) \<and> length (r_buf ?rb1) = totlen (r_buf ?rb1)"
      then have "totlen (r_buf ?rb1 @ concat conn1) = 8" using a len totlen_append [of "r_buf ?rb1" "concat conn1"] by (simp del: appendRcv_buf)
      then show False using "1.prems"(5) stream by simp
    qed
    have "\<exists>conn2 rb2. clusterReadHandler process conn1 ?rb1 s = (LinkIOError, conn2, rb2, s)"
      by (rule "1.IH"(2) [OF n read [symmetric] refl ne refl refl go len segs])
        (use "1.prems"(3-5) stream in \<open>simp_all del: appendRcv_buf\<close>)
    then show ?thesis
      using go ne by (subst clusterReadHandler.simps) (auto simp: n read Let_def simp del: appendRcv_buf)
  qed
qed

text \<open>
  A stream that does not start with a header (a wrong signature, or a total length below the
  smallest packet, but not eight) is refused: the link ends with an error and no packet is processed.
\<close>

theorem bad_stream_is_refused:
  assumes "\<forall>seg \<in> set conn. seg \<noteq> []" and "r_buf rb = []" and "8 \<le> length (concat conn)"
    and "take 4 (concat conn) \<noteq> signature \<or> totlen (concat conn) < CLUSTERMSG_MIN_LEN"
    and "totlen (concat conn) \<noteq> 8"
  shows "\<exists>conn1 rb1. clusterReadHandler process conn rb s = (LinkIOError, conn1, rb1, s)"
  using bad_header [of rb conn process s] assms by simp

theorem bad_stream_is_refused_witness:
  "\<exists>conn1 rb1. clusterReadHandler (\<lambda>p seen. (True, seen @ [p])) [[71, 69, 84, 32], [47, 32, 72, 84, 84, 80]]
     \<lparr>r_buf = [], r_alloc = 1024\<rparr> [] = (LinkIOError, conn1, rb1, [])"
  by (rule bad_stream_is_refused) (simp_all add: signature_def totlen_def)

text \<open>
  A finding: eight bytes that announce a total length of eight are handed over as a packet
  whatever their signature is, because the test for a complete packet comes before the test of the
  header; the structure then extends beyond the bytes that were received.
\<close>

theorem eight_bytes_skip_the_check:
  assumes "length b = 8" and "totlen b = 8"
  shows "clusterReadHandler process [b] \<lparr>r_buf = [], r_alloc = RCVBUF_INIT_LEN\<rparr> s =
    (case process b s of
       (True, s1) \<Rightarrow> (NoMoreData, [], \<lparr>r_buf = [], r_alloc = RCVBUF_INIT_LEN\<rparr>, s1)
     | (False, s1) \<Rightarrow> (LinkFreed, [], \<lparr>r_buf = b, r_alloc = RCVBUF_INIT_LEN\<rparr>, s1))"
proof -
  have "b \<noteq> []" using assms(1) by auto
  moreover have "clusterReadHandler process [] \<lparr>r_buf = [], r_alloc = RCVBUF_INIT_LEN\<rparr> s1 =
      (NoMoreData, [], \<lparr>r_buf = [], r_alloc = RCVBUF_INIT_LEN\<rparr>, s1)" for s1
    by (subst clusterReadHandler.simps) (simp add: readLength_def)
  ultimately show ?thesis
    using assms
    by (subst clusterReadHandler.simps)
      (simp add: readLength_def appendRcv_def clearRcv_def RCVBUF_INIT_LEN_def Let_def split: prod.split bool.split)
qed

theorem eight_bytes_skip_the_check_witness:
  "clusterReadHandler (\<lambda>p seen. (True, seen @ [p])) [[0, 0, 0, 0, 0, 0, 0, 8]]
     \<lparr>r_buf = [], r_alloc = RCVBUF_INIT_LEN\<rparr> [] =
   (NoMoreData, [], \<lparr>r_buf = [], r_alloc = RCVBUF_INIT_LEN\<rparr>, [[0, 0, 0, 0, 0, 0, 0, 8]])"
  using eight_bytes_skip_the_check [of "[0, 0, 0, 0, 0, 0, 0, 8]" "\<lambda>p seen. (True, seen @ [p])" "[]"]
  by (simp add: totlen_def)

lemma appendRcv_fits:
  "length (r_buf rb) \<le> r_alloc rb \<Longrightarrow> length (r_buf (appendRcv bytes rb)) \<le> r_alloc (appendRcv bytes rb)"
  by (auto simp: appendRcv_def RCVBUF_MAX_PREALLOC_def Let_def)

text \<open>What appending, clearing and processing keep, the handler keeps.\<close>

lemma reader_keeps:
  assumes "\<And>bytes rb. Q rb \<Longrightarrow> Q (appendRcv bytes rb)" and "\<And>rb. Q rb \<Longrightarrow> Q (clearRcv rb)"
    and "\<And>b s. P s \<Longrightarrow> P (snd (process b s))"
  shows "Q rb \<Longrightarrow> P s \<Longrightarrow> clusterReadHandler process conn rb s = (r, conn1, rb1, s1) \<Longrightarrow> Q rb1 \<and> P s1"
  using assms
proof (induction process conn rb s rule: clusterReadHandler.induct)
  case (1 process conn rb s)
  note keep = "1.prems"(4-6)
  show ?case
  proof (cases "readLength (r_buf rb)")
    case None
    then show ?thesis using "1.prems" by (subst (asm) clusterReadHandler.simps) auto
  next
    case (Some n)
    obtain bytes conn2 where read: "connRead n conn = (bytes, conn2)" by force
    show ?thesis
    proof (cases bytes)
      case None
      then show ?thesis using "1.prems" Some read by (subst (asm) clusterReadHandler.simps) auto
    next
      case bs: (Some bs)
      let ?done = "8 \<le> length (r_buf (appendRcv bs rb)) \<and>
          length (r_buf (appendRcv bs rb)) = totlen (r_buf (appendRcv bs rb))"
      obtain taken s2 where pr: "process (r_buf (appendRcv bs rb)) s = (taken, s2)" by force
      have eq: "clusterReadHandler process conn rb s =
          (if bs = [] then (LinkIOError, conn2, rb, s)
           else if ?done
           then if taken then clusterReadHandler process conn2 (clearRcv (appendRcv bs rb)) s2
                else (LinkFreed, conn2, appendRcv bs rb, s2)
           else clusterReadHandler process conn2 (appendRcv bs rb) s)"
        using Some read bs pr
        by (subst clusterReadHandler.simps) (simp add: Let_def del: appendRcv_buf split: bool.split)
      have a: "Q (appendRcv bs rb)" "Q (clearRcv (appendRcv bs rb))" "P s2"
        using "1.prems"(1,2) keep(1,2) keep(3) [of s "r_buf (appendRcv bs rb)"] pr by simp_all
      have IH1: "Q rb1 \<and> P s1"
        if "bs \<noteq> []" ?done taken
          "clusterReadHandler process conn2 (clearRcv (appendRcv bs rb)) s2 = (r, conn1, rb1, s1)"
        by (rule "1.IH"(1) [OF Some read [symmetric] bs that(1) refl refl that(2) pr [symmetric]
              eqTrueI [OF that(3)] a(2,3) that(4) keep])
      have IH2: "Q rb1 \<and> P s1"
        if "bs \<noteq> []" "\<not> ?done" "clusterReadHandler process conn2 (appendRcv bs rb) s = (r, conn1, rb1, s1)"
        by (rule "1.IH"(2) [OF Some read [symmetric] bs that(1) refl refl that(2) a(1) "1.prems"(2) that(3) keep])
      show ?thesis
        using "1.prems"(1-3) a IH1 IH2 unfolding eq by (auto split: if_splits)
    qed
  qed
qed

lemma reader_fits:
  assumes "length (r_buf rb) \<le> r_alloc rb" and "clusterReadHandler process conn rb s = (r, conn1, rb1, s1)"
  shows "length (r_buf rb1) \<le> r_alloc rb1"
  using reader_keeps [of "\<lambda>rb. length (r_buf rb) \<le> r_alloc rb" "\<lambda>_. True", OF appendRcv_fits _ _ assms(1) _ assms(2)]
  by (simp add: clearRcv_def)

text \<open>
  No byte is written outside a buffer: every read asks for at most the size of the buffer on
  the stack, appending to the receive buffer leaves it within its allocation, and so does the whole
  handler whatever arrives.
\<close>

theorem reader_stays_in_buffers:
  assumes "length (r_buf rb) \<le> r_alloc rb"
  shows "(\<forall>b n. readLength b = Some n \<longrightarrow> n \<le> SIZEOF_BUF) \<and>
    length (r_buf (appendRcv bytes rb)) \<le> r_alloc (appendRcv bytes rb) \<and>
    (case clusterReadHandler process conn rb s of
       (r, conn1, rb1, s1) \<Rightarrow> length (r_buf rb1) \<le> r_alloc rb1)"
  using appendRcv_fits [OF assms] reader_fits [OF assms, of process conn s]
  by (auto simp: readLength_def SIZEOF_BUF_def split: if_splits prod.split)

theorem reader_stays_in_buffers_witness:
  "case clusterReadHandler (\<lambda>p seen. (True, seen @ [p])) [[82, 67]] \<lparr>r_buf = [], r_alloc = 1024\<rparr> [] of
     (r, conn1, rb1, s1) \<Rightarrow> length (r_buf rb1) \<le> r_alloc rb1"
  using reader_stays_in_buffers [of "\<lparr>r_buf = [], r_alloc = 1024\<rparr>" "[]" "\<lambda>p seen. (True, seen @ [p])" "[[82, 67]]" "[]"]
  by simp

lemma processBytes_accepted:
  assumes "cluster_ok s \<and> l_node (c_links s link) = None"
  shows "cluster_ok (snd (processBytes decode link b s)) \<and> l_node (c_links (snd (processBytes decode link b s)) link) = None"
proof -
  let ?s = "s\<lparr>c_links := (c_links s)(link := (c_links s link)\<lparr>l_rcvbuf_len := length b\<rparr>)\<rparr>"
  have "core ?s = core s" by (simp add: core_def)
  then have "cluster_ok ?s" using cluster_ok_keep assms by blast
  moreover have l: "l_node (c_links ?s link) = None" using assms by simp
  ultimately have "cluster_ok (snd (clusterProcessPacket (decode b) link ?s))"
    by (intro clusterProcessPacket_ok) (simp_all add: linkOk_def)
  then show ?thesis using l by (simp add: processBytes_def case_prod_beta Let_def links_processPacket)
qed

text \<open>
  Whatever bytes a peer sends on a connection that was accepted, in whatever pieces, and
  however the packet structures are read off them, reading keeps the node and slot tables
  consistent and leaves the link without a node.
\<close>

theorem reading_keeps_tables:
  assumes "cluster_ok s" and "l_node (c_links s link) = None"
  shows "case readLink decode link conn rb s of
    (r, conn1, rb1, s1) \<Rightarrow> cluster_ok s1 \<and> l_node (c_links s1 link) = None"
proof -
  obtain r conn1 rb1 s1 where h: "clusterReadHandler (processBytes decode link) conn rb s = (r, conn1, rb1, s1)"
    by (metis prod_cases4)
  have "cluster_ok s1 \<and> l_node (c_links s1 link) = None"
    using reader_keeps [of "\<lambda>_. True" "\<lambda>s. cluster_ok s \<and> l_node (c_links s link) = None",
        OF _ _ processBytes_accepted _ _ h] assms by simp
  then show ?thesis
    by (cases r) (simp_all add: readLink_def h handleLinkIOError_def freeClusterLink_def)
qed

theorem reading_keeps_tables_witness:
  "case readLink (\<lambda>_. meet_msg) 0 [sample_packet] \<lparr>r_buf = [], r_alloc = 1024\<rparr> meet_state of
    (r, conn1, rb1, s1) \<Rightarrow> cluster_ok s1 \<and> l_node (c_links s1 0) = None"
  by (rule reading_keeps_tables [OF meet_state_ok])
    (simp add: meet_state_def pair_cluster_def zeroServer_def)

text \<open>The life of a send buffer: messages are queued, the handler runs when the socket is writable.\<close>

datatype sendStep = Queue "u8 list" | Writable nat

text \<open>A run and the bytes that \<^verbatim>\<open>write\<close> took; it takes at least one byte and at most all of them.\<close>

fun sendRun :: "sendStep list \<Rightarrow> sndBuf \<Rightarrow> (u8 list \<times> sndBuf) option" where
  "sendRun [] wb = Some ([], wb)"
| "sendRun (Queue msg # steps) wb = sendRun steps (queueBytes msg wb)"
| "sendRun (Writable n # steps) wb =
     (if 0 < n \<and> n \<le> length (w_buf wb)
      then (case clusterWriteHandler (int n) wb of
              None \<Rightarrow> None
            | Some wb1 \<Rightarrow> map_option (\<lambda>(out, wb2). (take n (w_buf wb) @ out, wb2)) (sendRun steps wb1))
      else None)"

fun queued :: "sendStep list \<Rightarrow> u8 list" where
  "queued [] = []"
| "queued (Queue msg # steps) = msg @ queued steps"
| "queued (Writable n # steps) = queued steps"

text \<open>
  C38. Sending is a queue: over any run of queueing and partial writes, the bytes that were written,
  followed by the bytes still in the buffer, are the bytes of the messages in their order, and the
  write handler is installed exactly while bytes are left.
\<close>

theorem send_buffer_is_a_queue:
  assumes "sendRun steps wb = Some (out, wb1)" and "w_armed wb \<longleftrightarrow> w_buf wb \<noteq> []"
  shows "out @ w_buf wb1 = w_buf wb @ queued steps \<and> (w_armed wb1 \<longleftrightarrow> w_buf wb1 \<noteq> [])"
  using assms
proof (induction steps wb arbitrary: out rule: sendRun.induct)
  case (2 msg steps wb)
  have "w_armed (queueBytes msg wb) \<longleftrightarrow> w_buf (queueBytes msg wb) \<noteq> []"
    using "2.prems"(2) by (auto simp: queueBytes_def)
  then show ?case using 2 by (simp add: queueBytes_def)
next
  case (3 n steps wb)
  then have n: "0 < n" "n \<le> length (w_buf wb)" by (auto split: if_splits)
  let ?wb = "\<lparr>w_buf = drop n (w_buf wb), w_armed = (if drop n (w_buf wb) = [] then False else w_armed wb)\<rparr>"
  have w: "clusterWriteHandler (int n) wb = Some ?wb" using n by (simp add: clusterWriteHandler_def Let_def)
  obtain out1 where r: "sendRun steps ?wb = Some (out1, wb1)" "out = take n (w_buf wb) @ out1"
    using "3.prems"(1) n w by auto
  have "w_armed ?wb \<longleftrightarrow> w_buf ?wb \<noteq> []" using "3.prems"(2) n by auto
  then have "out1 @ w_buf wb1 = w_buf ?wb @ queued steps \<and> (w_armed wb1 \<longleftrightarrow> w_buf wb1 \<noteq> [])"
    using "3.IH" [OF _ w r(1)] n by blast
  then show ?case using r(2) by (metis append.assoc append_take_drop_id queued.simps(3) sndBuf.select_convs(1))
qed simp

theorem send_buffer_is_a_queue_witness:
  "let (out, wb1) = the (sendRun [Queue [1, 2], Writable 1, Queue [3], Writable 2] \<lparr>w_buf = [], w_armed = False\<rparr>)
   in out @ w_buf wb1 = [1, 2, 3] \<and> (w_armed wb1 \<longleftrightarrow> w_buf wb1 \<noteq> [])"
proof -
  have r: "sendRun [Queue [1, 2], Writable 1, Queue [3], Writable 2] \<lparr>w_buf = [], w_armed = False\<rparr> =
      Some ([1, 2, 3], \<lparr>w_buf = [], w_armed = False\<rparr>)"
    by (simp add: queueBytes_def clusterWriteHandler_def eval_nat_numeral)
  show ?thesis using send_buffer_is_a_queue [OF r] r by simp
qed

end
