(* ===== verification/Query.thy ===== *)
theory Query
  imports LinkIO
begin

text \<open>
  Which node serves a command (src/server/src/cluster.c): \<open>getNodeByQuery\<close>, the redirections it
  leads to, and the redirection of blocked clients. A command carries the function that gives the
  positions of its keys (\<^verbatim>\<open>getKeysFromCommand\<close>); db 0 is the list of its keys.
\<close>

section \<open>Commands and clients\<close>

definition CMD_WRITE :: u64 where [flag_simps]: "CMD_WRITE = 1"
definition CMD_MODULE :: u64 where [flag_simps]: "CMD_MODULE = 8"
definition CMD_ASKING :: u64 where [flag_simps]: "CMD_ASKING = 8192"
definition CMD_MODULE_GETKEYS :: u64 where [flag_simps]: "CMD_MODULE_GETKEYS = 131072"

definition CLIENT_MASTER :: u64 where [flag_simps]: "CLIENT_MASTER = 2"
definition CLIENT_MULTI :: u64 where [flag_simps]: "CLIENT_MULTI = 8"
definition CLIENT_BLOCKED :: u64 where [flag_simps]: "CLIENT_BLOCKED = 16"
definition CLIENT_DIRTY_CAS :: u64 where [flag_simps]: "CLIENT_DIRTY_CAS = 32"
definition CLIENT_LUA :: u64 where [flag_simps]: "CLIENT_LUA = 256"
definition CLIENT_ASKING :: u64 where [flag_simps]: "CLIENT_ASKING = 512"
definition CLIENT_DIRTY_EXEC :: u64 where [flag_simps]: "CLIENT_DIRTY_EXEC = 4096"
definition CLIENT_READONLY :: u64 where [flag_simps]: "CLIENT_READONLY = 131072"
definition CLIENT_SYNC :: u64 where [flag_simps]: "CLIENT_SYNC = 17592186044416"

record redisCommand =
  cmd_name :: string
  cmd_arity :: int
  cmd_flags :: u64
  cmd_is_exec :: bool
  cmd_is_migrate :: bool
  cmd_firstkey :: int
  cmd_getkeys_proc :: bool
  cmd_keys :: "string list \<Rightarrow> nat list"

text \<open>\<open>cl_plain\<close>: the client has a connection without TLS. Replies are the error lines.\<close>

record client =
  cl_argv :: "string list"
  cl_cmd :: redisCommand
  cl_lastcmd :: redisCommand
  cl_flags :: u64
  cl_mstate :: "(redisCommand \<times> string list) list"
  cl_mstate_flags :: u64
  cl_no_forward :: "nat list"
  cl_plain :: bool
  cl_lua_master :: bool
  cl_blocked_on_keys :: bool
  cl_bpop_keys :: "string list"
  cl_replies :: "string list"

datatype redir = CLUSTER_REDIR_NONE | CLUSTER_REDIR_CROSS_SLOT | CLUSTER_REDIR_UNSTABLE | CLUSTER_REDIR_ASK
  | CLUSTER_REDIR_MOVED | CLUSTER_REDIR_DOWN_STATE | CLUSTER_REDIR_DOWN_UNBOUND | CLUSTER_REDIR_DOWN_RO_STATE

section \<open>The node of a query\<close>

record keyScan =
  sc_first :: "string option"
  sc_slot :: nat
  sc_node :: "nid option"
  sc_migrating :: bool
  sc_importing :: bool
  sc_missing :: nat
  sc_multiple :: bool

definition startScan :: keyScan where
  "startScan = \<lparr>sc_first = None, sc_slot = 0, sc_node = None, sc_migrating = False, sc_importing = False,
     sc_missing = 0, sc_multiple = False\<rparr>"

definition queryKeys :: "(redisCommand \<times> string list) list \<Rightarrow> string list" where
  "queryKeys cmds = concat (map (\<lambda>(cmd, argv). map (\<lambda>i. argv ! i) (cmd_keys cmd argv)) cmds)"

definition firstKey :: "string \<Rightarrow> redisServer \<Rightarrow> keyScan \<Rightarrow> redir + keyScan" where
  "firstKey k s a =
     (let slot = keyHashSlot k in
      case c_slots s slot of
        None \<Rightarrow> Inl CLUSTER_REDIR_DOWN_UNBOUND
      | Some p \<Rightarrow>
          let a1 = a\<lparr>sc_first := Some k, sc_slot := slot, sc_node := Some p\<rparr>
          in Inr (if p = c_myself s \<and> c_migrating_slots_to s slot \<noteq> None then a1\<lparr>sc_migrating := True\<rparr>
                  else if c_importing_slots_from s slot \<noteq> None then a1\<lparr>sc_importing := True\<rparr> else a1))"

definition nextKey :: "string \<Rightarrow> string \<Rightarrow> keyScan \<Rightarrow> redir + keyScan" where
  "nextKey first k a =
     (if first = k then Inr a
      else if sc_slot a \<noteq> keyHashSlot k then Inl CLUSTER_REDIR_CROSS_SLOT
      else Inr (a\<lparr>sc_multiple := True\<rparr>))"

definition countMissing :: "string \<Rightarrow> redisServer \<Rightarrow> keyScan \<Rightarrow> keyScan" where
  "countMissing k s a =
     (if (sc_migrating a \<or> sc_importing a) \<and> k \<notin> set (s_db0 s)
      then a\<lparr>sc_missing := Suc (sc_missing a)\<rparr> else a)"

fun scanKeys :: "string list \<Rightarrow> redisServer \<Rightarrow> keyScan \<Rightarrow> redir + keyScan" where
  "scanKeys [] s a = Inr a"
| "scanKeys (k # ks) s a =
     (case (case sc_first a of None \<Rightarrow> firstKey k s a | Some f \<Rightarrow> nextKey f k a) of
        Inl err \<Rightarrow> Inl err
      | Inr a1 \<Rightarrow> scanKeys ks s (countMissing k s a1))"

text \<open>None in the last two fields: the variable of the caller is not written.\<close>

record queryResult =
  q_node :: "nid option"
  q_slot :: "nat option"
  q_error :: "redir option"

definition isWriteCommand :: "client \<Rightarrow> bool" where
  "isWriteCommand c \<longleftrightarrow> hasFlag (cmd_flags (cl_cmd c)) CMD_WRITE \<or>
     cmd_is_exec (cl_cmd c) \<and> hasFlag (cl_mstate_flags c) CMD_WRITE"

definition serveSlot :: "client \<Rightarrow> redisCommand \<Rightarrow> keyScan \<Rightarrow> nid \<Rightarrow> redisServer \<Rightarrow> nid option \<times> redir" where
  "serveSlot c cmd a n s =
     (let slot = sc_slot a; myself = c_myself s in
      if (sc_migrating a \<or> sc_importing a) \<and> cmd_is_migrate cmd then (Some myself, CLUSTER_REDIR_NONE)
      else if sc_migrating a \<and> sc_missing a \<noteq> 0
      then (c_migrating_slots_to s slot, CLUSTER_REDIR_ASK)
      else if sc_importing a \<and> (hasFlag (cl_flags c) CLIENT_ASKING \<or> hasFlag (cmd_flags cmd) CMD_ASKING)
      then if sc_multiple a \<and> sc_missing a \<noteq> 0 then (None, CLUSTER_REDIR_UNSTABLE)
           else (Some myself, CLUSTER_REDIR_NONE)
      else if hasFlag (cl_flags c) CLIENT_READONLY \<and> \<not> isWriteCommand c \<and> nodeIsSlave (me s) \<and>
              n_slaveof (me s) = Some n
      then (Some myself, CLUSTER_REDIR_NONE)
      else (Some n, if n \<noteq> myself then CLUSTER_REDIR_MOVED else CLUSTER_REDIR_NONE))"

definition getNodeByQuery :: "client \<Rightarrow> redisCommand \<Rightarrow> string list \<Rightarrow> redisServer \<Rightarrow> queryResult" where
  "getNodeByQuery c cmd argv s =
     (let mine = Some (c_myself s) in
      if hasFlag (s_module_flags s) CLUSTER_MODULE_FLAG_NO_REDIRECTION
      then \<lparr>q_node = mine, q_slot = None, q_error = None\<rparr>
      else if cmd_is_exec cmd \<and> \<not> hasFlag (cl_flags c) CLIENT_MULTI
      then \<lparr>q_node = mine, q_slot = None, q_error = Some CLUSTER_REDIR_NONE\<rparr>
      else case scanKeys (queryKeys (if cmd_is_exec cmd then cl_mstate c else [(cmd, argv)])) s startScan of
             Inl err \<Rightarrow> \<lparr>q_node = None, q_slot = None, q_error = Some err\<rparr>
           | Inr a \<Rightarrow>
               (case sc_node a of
                  None \<Rightarrow> \<lparr>q_node = mine, q_slot = None, q_error = Some CLUSTER_REDIR_NONE\<rparr>
                | Some n \<Rightarrow>
                    if c_state s \<noteq> CLUSTER_OK \<and> \<not> s_allow_reads_when_down s
                    then \<lparr>q_node = None, q_slot = None, q_error = Some CLUSTER_REDIR_DOWN_STATE\<rparr>
                    else if c_state s \<noteq> CLUSTER_OK \<and> hasFlag (cmd_flags cmd) CMD_WRITE
                    then \<lparr>q_node = None, q_slot = None, q_error = Some CLUSTER_REDIR_DOWN_RO_STATE\<rparr>
                    else let (node, err) = serveSlot c cmd a n s
                      in \<lparr>q_node = node, q_slot = Some (sc_slot a), q_error = Some err\<rparr>))"

section \<open>Redirections\<close>

definition addReplyError :: "string \<Rightarrow> client \<Rightarrow> client" where
  "addReplyError msg c = c\<lparr>cl_replies := cl_replies c @ [msg]\<rparr>"

definition redirectPort :: "client \<Rightarrow> clusterNode \<Rightarrow> redisServer \<Rightarrow> int" where
  "redirectPort c n s =
     (let use_pport = (s_tls_cluster s \<and> cl_plain c)
      in if use_pport \<and> n_pport n \<noteq> 0 then n_pport n else n_port n)"

text \<open>The node is a pointer: None is dereferenced by MOVED and ASK.\<close>

definition clusterRedirectClient ::
  "nid option \<Rightarrow> int \<Rightarrow> redir \<Rightarrow> client \<Rightarrow> redisServer \<Rightarrow> client \<times> redisServer" where
  "clusterRedirectClient node hashslot error_code c s =
     (case error_code of
        CLUSTER_REDIR_CROSS_SLOT \<Rightarrow>
          (addReplyError ''-CROSSSLOT Keys in request don't hash to the same slot'' c, s)
      | CLUSTER_REDIR_UNSTABLE \<Rightarrow>
          (addReplyError ''-TRYAGAIN Multiple keys request during rehashing of slot'' c, s)
      | CLUSTER_REDIR_DOWN_STATE \<Rightarrow> (addReplyError ''-CLUSTERDOWN The cluster is down'' c, s)
      | CLUSTER_REDIR_DOWN_RO_STATE \<Rightarrow>
          (addReplyError ''-CLUSTERDOWN The cluster is down and only accepts read commands'' c, s)
      | CLUSTER_REDIR_DOWN_UNBOUND \<Rightarrow> (addReplyError ''-CLUSTERDOWN Hash slot not served'' c, s)
      | CLUSTER_REDIR_NONE \<Rightarrow> (c, panic_with AssertFailed s)
      | _ \<Rightarrow>
          (case node of
             None \<Rightarrow> (c, panic_with NullDeref s)
           | Some p \<Rightarrow>
               (addReplyError (''-'' @ (if error_code = CLUSTER_REDIR_ASK then ''ASK'' else ''MOVED'') @ '' '' @
                  decimal hashslot @ '' '' @ n_ip (nd s p) @ '':'' @ decimal (redirectPort c (nd s p) s)) c, s)))"

text \<open>True: the client was sent a redirection error.\<close>

definition clusterRedirectBlockedClientIfNeeded :: "client \<Rightarrow> redisServer \<Rightarrow> bool \<times> client \<times> redisServer" where
  "clusterRedirectBlockedClientIfNeeded c s =
     (if hasFlag (cl_flags c) CLIENT_BLOCKED \<and> cl_blocked_on_keys c
      then
        if c_state s = CLUSTER_FAIL
        then (True, clusterRedirectClient None 0 CLUSTER_REDIR_DOWN_STATE c s)
        else (case cl_bpop_keys c of
                [] \<Rightarrow> (False, c, s)
              | key # _ \<Rightarrow>
                  let slot = keyHashSlot key;
                      owner = c_slots s slot;
                      node = (if hasFlag (cl_flags c) CLIENT_READONLY \<and>
                                 \<not> hasFlag (cmd_flags (cl_lastcmd c)) CMD_WRITE \<and>
                                 nodeIsSlave (me s) \<and> n_slaveof (me s) = owner
                              then Some (c_myself s) else owner)
                  in if node \<noteq> Some (c_myself s) \<and> c_importing_slots_from s slot = None
                     then if node = None
                          then (True, clusterRedirectClient None 0 CLUSTER_REDIR_DOWN_UNBOUND c s)
                          else (True, clusterRedirectClient node (int slot) CLUSTER_REDIR_MOVED c s)
                     else (False, c, s))
      else (False, c, s))"

section \<open>What the scan of the keys finds\<close>

lemma scan_rest:
  assumes "sc_first a = Some k" and "sc_slot a = keyHashSlot k"
  shows "scanKeys ks s a =
    (if \<exists>x \<in> set ks. keyHashSlot x \<noteq> keyHashSlot k then Inl CLUSTER_REDIR_CROSS_SLOT
     else Inr (a\<lparr>sc_missing := sc_missing a + (if sc_migrating a \<or> sc_importing a
                   then length (filter (\<lambda>x. x \<notin> set (s_db0 s)) ks) else 0),
                 sc_multiple := sc_multiple a \<or> (\<exists>x \<in> set ks. x \<noteq> k)\<rparr>))"
  using assms
proof (induction ks arbitrary: a)
  case (Cons x ks)
  show ?case
  proof (cases "keyHashSlot x = keyHashSlot k")
    case False
    then have "x \<noteq> k" by auto
    then show ?thesis using Cons.prems False by (simp add: nextKey_def)
  next
    case True
    define a1 where "a1 = countMissing x s (if k = x then a else a\<lparr>sc_multiple := True\<rparr>)"
    have step: "scanKeys (x # ks) s a = scanKeys ks s a1"
      using Cons.prems True by (simp add: nextKey_def a1_def)
    have f: "sc_first a1 = Some k" "sc_slot a1 = keyHashSlot k" "sc_migrating a1 = sc_migrating a"
      "sc_importing a1 = sc_importing a"
      "sc_missing a1 = sc_missing a + (if (sc_migrating a \<or> sc_importing a) \<and> x \<notin> set (s_db0 s) then 1 else 0)"
      "sc_multiple a1 = (sc_multiple a \<or> x \<noteq> k)"
      using Cons.prems by (auto simp: a1_def countMissing_def)
    have e: "a1\<lparr>sc_missing := m, sc_multiple := b\<rparr> = a\<lparr>sc_missing := m, sc_multiple := b\<rparr>" for m b
      by (auto simp: a1_def countMissing_def)
    show ?thesis
      unfolding step Cons.IH [OF f(1,2)] e f(3-6) using True by auto
  qed
qed simp

lemma scan_keys:
  "scanKeys (k # ks) s startScan =
    (case c_slots s (keyHashSlot k) of
       None \<Rightarrow> Inl CLUSTER_REDIR_DOWN_UNBOUND
     | Some p \<Rightarrow>
         if \<exists>x \<in> set ks. keyHashSlot x \<noteq> keyHashSlot k then Inl CLUSTER_REDIR_CROSS_SLOT
         else
           let migrating = (p = c_myself s \<and> c_migrating_slots_to s (keyHashSlot k) \<noteq> None);
               importing = (\<not> migrating \<and> c_importing_slots_from s (keyHashSlot k) \<noteq> None)
           in Inr \<lparr>sc_first = Some k, sc_slot = keyHashSlot k, sc_node = Some p, sc_migrating = migrating,
                sc_importing = importing,
                sc_missing = (if migrating \<or> importing
                              then length (filter (\<lambda>x. x \<notin> set (s_db0 s)) (k # ks)) else 0),
                sc_multiple = (\<exists>x \<in> set ks. x \<noteq> k)\<rparr>)"
proof (cases "c_slots s (keyHashSlot k)")
  case None
  then show ?thesis by (simp add: startScan_def firstKey_def)
next
  case (Some p)
  obtain a1 where a1: "firstKey k s startScan = Inr a1" using Some by (simp add: firstKey_def Let_def)
  let ?a = "countMissing k s a1"
  have "sc_first startScan = None" by (simp add: startScan_def)
  then have step: "scanKeys (k # ks) s startScan = scanKeys ks s ?a" by (simp add: a1)
  have f: "sc_first ?a = Some k" "sc_slot ?a = keyHashSlot k"
    using a1 Some by (auto simp: firstKey_def countMissing_def Let_def)
  show ?thesis
    unfolding step scan_rest [OF f] using a1 Some
    by (auto simp: firstKey_def countMissing_def startScan_def Let_def)
qed


text \<open>A GET without a transaction of a key of a slot that the other node of a pair owns.\<close>

definition get_command :: redisCommand where
  "get_command = \<lparr>cmd_name = ''get'', cmd_arity = 2, cmd_flags = 2, cmd_is_exec = False, cmd_is_migrate = False,
     cmd_firstkey = 1, cmd_getkeys_proc = False, cmd_keys = (\<lambda>argv. [1])\<rparr>"

definition get_client :: client where
  "get_client = \<lparr>cl_argv = [''GET'', ''k''], cl_cmd = get_command, cl_lastcmd = get_command, cl_flags = 0, cl_mstate = [],
     cl_mstate_flags = 0, cl_no_forward = [], cl_plain = True, cl_lua_master = False, cl_blocked_on_keys = False,
     cl_bpop_keys = [], cl_replies = []\<rparr>"


text \<open>
  A client blocked on keys is told to go away exactly when the cluster is down, or the slot of
  its first key is neither owned by this node (or, for a reader of a replica, by its master) nor
  being imported; nothing else changes, and no pointer is dereferenced that may be NULL.
\<close>

theorem blocked_client_redirected_iff:
  assumes "hasFlag (cl_flags c) CLIENT_BLOCKED" and "cl_blocked_on_keys c" and "cl_bpop_keys c = k # ks"
  shows "let j = keyHashSlot k;
      readable = (hasFlag (cl_flags c) CLIENT_READONLY \<and> \<not> hasFlag (cmd_flags (cl_lastcmd c)) CMD_WRITE \<and>
                  nodeIsSlave (me s) \<and> n_slaveof (me s) = c_slots s j);
      (redirected, c', s') = clusterRedirectBlockedClientIfNeeded c s in
    (redirected \<longleftrightarrow> c_state s = CLUSTER_FAIL \<or>
       c_slots s j \<noteq> Some (c_myself s) \<and> \<not> readable \<and> c_importing_slots_from s j = None) \<and>
    s' = s \<and> length (cl_replies c') = length (cl_replies c) + (if redirected then 1 else 0) \<and>
    c'\<lparr>cl_replies := cl_replies c\<rparr> = c"
  using assms
  by (auto simp: clusterRedirectBlockedClientIfNeeded_def clusterRedirectClient_def addReplyError_def Let_def
      split: option.split)

theorem blocked_client_redirected_iff_witness:
  "fst (clusterRedirectBlockedClientIfNeeded
     (get_client\<lparr>cl_flags := CLIENT_BLOCKED, cl_blocked_on_keys := True, cl_bpop_keys := [''k'']\<rparr>) zeroServer)"
proof -
  let ?c = "get_client\<lparr>cl_flags := CLIENT_BLOCKED, cl_blocked_on_keys := True, cl_bpop_keys := [''k'']\<rparr>"
  have h: "hasFlag (cl_flags ?c) CLIENT_BLOCKED" "cl_blocked_on_keys ?c" "cl_bpop_keys ?c = ''k'' # []"
    by (simp_all add: flag_simps hasFlag_simps)
  have "c_state zeroServer = CLUSTER_FAIL" by (simp add: zeroServer_def)
  then show ?thesis
    using blocked_client_redirected_iff [OF h, of zeroServer] by (simp add: Let_def case_prod_beta)
qed

end
