(* ===== verification/NodesText.thy ===== *)
theory NodesText
  imports Query
begin

text \<open>
  The nodes as text and as reply (src/server/src/cluster.c): the flags of a node, the line that
  describes it in CLUSTER NODES and in the configuration file, the ranges of slots computed for all
  nodes in one pass (\<open>clusterGenNodesSlotsInfo\<close>), and the reply of CLUSTER SLOTS. The member
  \<^verbatim>\<open>slots_info\<close> of a node lives only while \<open>clusterGenNodesDescription\<close> runs, so it is an argument
  here instead of a field.
\<close>

section \<open>Flags\<close>

definition redisNodeFlagsTable :: "(u16 \<times> string) list" where
  "redisNodeFlagsTable =
     [(ucast CLUSTER_NODE_MYSELF, ''myself,''), (ucast CLUSTER_NODE_MASTER, ''master,''),
      (ucast CLUSTER_NODE_SLAVE, ''slave,''), (ucast CLUSTER_NODE_PFAIL, ''fail?,''),
      (ucast CLUSTER_NODE_FAIL, ''fail,''), (ucast CLUSTER_NODE_HANDSHAKE, ''handshake,''),
      (ucast CLUSTER_NODE_NOADDR, ''noaddr,''), (ucast CLUSTER_NODE_NOFAILOVER, ''nofailover,'')]"

definition representClusterNodeFlags :: "string \<Rightarrow> u16 \<Rightarrow> string" where
  "representClusterNodeFlags ci flags =
     (let ci1 = fold (\<lambda>(flag, name) ci. if hasFlag flags flag then ci @ name else ci) redisNodeFlagsTable ci
      in butlast (if length ci1 = length ci then ci1 @ ''noflags,'' else ci1))"

section \<open>Ranges of slots\<close>

text \<open>
  The loop that \<open>clusterGenNodesSlotsInfo\<close> and \<open>clusterReplyMultiBulkSlots\<close> share: n is the owner of
  the range that began at start; a range is put out when another owner follows. The last round,
  with the index \<^verbatim>\<open>CLUSTER_SLOTS\<close>, is \<open>lastRange\<close>.
\<close>

definition rangeStep ::
  "(nat \<Rightarrow> nid option) \<Rightarrow> (nid \<Rightarrow> nat \<Rightarrow> nat \<Rightarrow> 'a \<Rightarrow> 'a) \<Rightarrow> nat \<Rightarrow> nid option \<times> nat \<times> 'a \<Rightarrow> nid option \<times> nat \<times> 'a" where
  "rangeStep slots put i = (\<lambda>(n, start, acc).
     case n of
       None \<Rightarrow> (slots i, i, acc)
     | Some p \<Rightarrow> if n \<noteq> slots i then (slots i, i, put p start (i - 1) acc) else (n, start, acc))"

definition lastRange :: "(nid \<Rightarrow> nat \<Rightarrow> nat \<Rightarrow> 'a \<Rightarrow> 'a) \<Rightarrow> nid option \<times> nat \<times> 'a \<Rightarrow> 'a" where
  "lastRange put = (\<lambda>(n, start, acc).
     case n of None \<Rightarrow> acc | Some p \<Rightarrow> put p start (CLUSTER_SLOTS - 1) acc)"

definition slotRanges :: "(nat \<Rightarrow> nid option) \<Rightarrow> (nid \<Rightarrow> nat \<Rightarrow> nat \<Rightarrow> 'a \<Rightarrow> 'a) \<Rightarrow> 'a \<Rightarrow> 'a" where
  "slotRanges slots put acc =
     lastRange put (fold (rangeStep slots put) [0..<CLUSTER_SLOTS] (None, 0, acc))"

definition rangeText :: "nat \<Rightarrow> nat \<Rightarrow> string" where
  "rangeText start stop =
     (if start = stop then '' '' @ decimal (int start)
      else '' '' @ decimal (int start) @ ''-'' @ decimal (int stop))"

definition clusterGenNodesSlotsInfo :: "u32 \<Rightarrow> redisServer \<Rightarrow> nid \<Rightarrow> string option" where
  "clusterGenNodesSlotsInfo filt s =
     slotRanges (c_slots s)
       (\<lambda>p start stop info.
          if hasFlag (n_flags (nd s p)) filt then info
          else info(p := Some ((case info p of None \<Rightarrow> [] | Some t \<Rightarrow> t) @ rangeText start stop)))
       (\<lambda>_. None)"

text \<open>The loop over the bits of one node, for a node without slots_info.\<close>

definition bitStep :: "(nat \<Rightarrow> bool) \<Rightarrow> nat \<Rightarrow> nat option \<times> string \<Rightarrow> nat option \<times> string" where
  "bitStep owned j = (\<lambda>(start, ci).
     let start1 = (if owned j \<and> start = None then Some j else start) in
     case start1 of
       None \<Rightarrow> (None, ci)
     | Some a \<Rightarrow>
         if \<not> owned j \<or> j = CLUSTER_SLOTS - 1
         then let j1 = (if owned j \<and> j = CLUSTER_SLOTS - 1 then j + 1 else j)
              in (None, ci @ rangeText a (j1 - 1))
         else (Some a, ci))"

definition slotsOfNodeText :: "nid \<Rightarrow> redisServer \<Rightarrow> string" where
  "slotsOfNodeText p s =
     snd (fold (bitStep (\<lambda>j. clusterNodeGetSlotBit p j s)) [0..<CLUSTER_SLOTS] (None, []))"

section \<open>The description of a node\<close>

definition openSlotText :: "redisServer \<Rightarrow> nat \<Rightarrow> string" where
  "openSlotText s j =
     (case c_migrating_slots_to s j of
        Some p \<Rightarrow> '' ['' @ decimal (int j) @ ''->-'' @ take CLUSTER_NAMELEN (cstr (n_name (nd s p))) @ '']''
      | None \<Rightarrow>
          (case c_importing_slots_from s j of
             Some p \<Rightarrow> '' ['' @ decimal (int j) @ ''-<-'' @ take CLUSTER_NAMELEN (cstr (n_name (nd s p))) @ '']''
           | None \<Rightarrow> []))"

definition clusterGenNodeDescription :: "string option \<Rightarrow> nid \<Rightarrow> bool \<Rightarrow> redisServer \<Rightarrow> string" where
  "clusterGenNodeDescription slots_info p use_pport s =
     (let node = nd s p;
          port = (if use_pport \<and> n_pport node \<noteq> 0 then n_pport node else n_port node);
          ci = take CLUSTER_NAMELEN (n_name node) @
               '' '' @ n_ip node @ '':'' @ decimal port @ ''@'' @ decimal (n_cport node) @ '' '';
          ci1 = representClusterNodeFlags ci (ucast (n_flags node));
          ci2 = ci1 @ '' '' @ (case n_slaveof node of
                                 Some m \<Rightarrow> take CLUSTER_NAMELEN (n_name (nd s m)) | None \<Rightarrow> ''-'');
          nodeEpoch = (case n_slaveof node of
                         Some m \<Rightarrow> if nodeIsSlave node then n_configEpoch (nd s m) else n_configEpoch node
                       | None \<Rightarrow> n_configEpoch node);
          ci3 = ci2 @ '' '' @ decimal (n_ping_sent node) @ '' '' @ decimal (n_pong_received node) @
                '' '' @ decimal (uint nodeEpoch) @ '' '' @
                (if n_link node \<noteq> None \<or> hasFlag (n_flags node) CLUSTER_NODE_MYSELF
                 then ''connected'' else ''disconnected'');
          ci4 = (case slots_info of
                   Some info \<Rightarrow> ci3 @ info
                 | None \<Rightarrow> if n_numslots node > 0 then ci3 @ slotsOfNodeText p s else ci3)
      in if hasFlag (n_flags node) CLUSTER_NODE_MYSELF
         then ci4 @ concat (map (openSlotText s) [0..<CLUSTER_SLOTS]) else ci4)"

definition clusterGenNodesDescription :: "u32 \<Rightarrow> bool \<Rightarrow> redisServer \<Rightarrow> string" where
  "clusterGenNodesDescription filt use_pport s =
     (let info = clusterGenNodesSlotsInfo filt s
      in fold (\<lambda>p ci. if hasFlag (n_flags (nd s p)) filt then ci
                      else ci @ clusterGenNodeDescription (info p) p use_pport s @ [CHR 0x0A])
           (dictVals (c_nodes s)) [])"

section \<open>Replies\<close>

datatype reply =
    RError string
  | RStatus string
  | RInt int
  | RBulk string
  | RVerbatim string
  | RReals "real list"
  | RArray "reply list"

definition shared_ok :: reply where "shared_ok = RStatus ''OK''"

definition slotNodeReply :: "bool \<Rightarrow> clusterNode \<Rightarrow> reply" where
  "slotNodeReply use_pport n =
     RArray [RBulk (n_ip n), RInt (if use_pport \<and> n_pport n \<noteq> 0 then n_pport n else n_port n),
             RBulk (take CLUSTER_NAMELEN (n_name n))]"

definition addNodeReplyForClusterSlot :: "bool \<Rightarrow> redisServer \<Rightarrow> nid \<Rightarrow> nat \<Rightarrow> nat \<Rightarrow> reply" where
  "addNodeReplyForClusterSlot plain s p start_slot end_slot =
     (let use_pport = (s_tls_cluster s \<and> plain)
      in RArray ([RInt (int start_slot), RInt (int end_slot), slotNodeReply use_pport (nd s p)] @
                 map (\<lambda>q. slotNodeReply use_pport (nd s q))
                   (filter (\<lambda>q. \<not> nodeFailed (nd s q)) (n_slaves (nd s p)))))"

definition clusterReplyMultiBulkSlots :: "bool \<Rightarrow> redisServer \<Rightarrow> reply" where
  "clusterReplyMultiBulkSlots plain s =
     RArray (slotRanges (c_slots s)
       (\<lambda>p start stop rs. rs @ [addNodeReplyForClusterSlot plain s p start stop]) [])"

section \<open>The ranges are the maximal runs of an owner\<close>

definition maximalRun :: "(nat \<Rightarrow> nid option) \<Rightarrow> nid \<Rightarrow> nat \<Rightarrow> nat \<Rightarrow> bool" where
  "maximalRun slots p a b \<longleftrightarrow> a \<le> b \<and> b < CLUSTER_SLOTS \<and> (\<forall>j. a \<le> j \<and> j \<le> b \<longrightarrow> slots j = Some p) \<and>
     (a = 0 \<or> slots (a - 1) \<noteq> Some p) \<and> (b = CLUSTER_SLOTS - 1 \<or> slots (b + 1) \<noteq> Some p)"

definition runs :: "(nat \<Rightarrow> nid option) \<Rightarrow> (nid \<times> nat \<times> nat) list" where
  "runs slots = slotRanges slots (\<lambda>p a b rs. rs @ [(p, a, b)]) []"

definition before :: "nid \<times> nat \<times> nat \<Rightarrow> nid \<times> nat \<times> nat \<Rightarrow> bool" where
  "before x y \<longleftrightarrow> snd (snd x) < fst (snd y)"

text \<open>The state of the loop after the slots below i.\<close>

definition runState :: "(nat \<Rightarrow> nid option) \<Rightarrow> nat \<Rightarrow> nid option \<times> nat \<times> (nid \<times> nat \<times> nat) list \<Rightarrow> bool" where
  "runState slots i = (\<lambda>(n, start, rs).
     (i = 0 \<longrightarrow> n = None \<and> rs = []) \<and> (0 < i \<longrightarrow> n = slots (i - 1)) \<and>
     (\<forall>p. n = Some p \<longrightarrow> start < i \<and> (\<forall>j. start \<le> j \<and> j < i \<longrightarrow> slots j = Some p) \<and>
        (start = 0 \<or> slots (start - 1) \<noteq> Some p) \<and> (\<forall>x \<in> set rs. snd (snd x) < start)) \<and>
     set rs = {(p, a, b). maximalRun slots p a b \<and> b + 1 < i} \<and> sorted_wrt before rs)"

lemma runStateI:
  assumes "0 < i" and "n = slots (i - 1)"
    and "\<And>p. n = Some p \<Longrightarrow> start < i \<and> (\<forall>j. start \<le> j \<and> j < i \<longrightarrow> slots j = Some p) \<and>
        (start = 0 \<or> slots (start - 1) \<noteq> Some p) \<and> (\<forall>x \<in> set rs. snd (snd x) < start)"
    and "set rs = {(p, a, b). maximalRun slots p a b \<and> b + 1 < i}" and "sorted_wrt before rs"
  shows "runState slots i (n, start, rs)"
  unfolding runState_def prod.case using assms by blast

lemma runStateD:
  assumes "runState slots i (n, start, rs)"
  shows "i = 0 \<Longrightarrow> n = None \<and> rs = []" "0 < i \<Longrightarrow> n = slots (i - 1)"
    "n = Some p \<Longrightarrow> start < i \<and> (\<forall>j. start \<le> j \<and> j < i \<longrightarrow> slots j = Some p) \<and>
        (start = 0 \<or> slots (start - 1) \<noteq> Some p) \<and> (\<forall>x \<in> set rs. snd (snd x) < start)"
    "set rs = {(p, a, b). maximalRun slots p a b \<and> b + 1 < i}" "sorted_wrt before rs"
  using assms unfolding runState_def prod.case by blast+

lemma runs_until:
  assumes "\<And>q a. \<not> (0 < i \<and> maximalRun slots q a (i - 1))"
  shows "{(p, a, b). maximalRun slots p a b \<and> b + 1 < Suc i} = {(p, a, b). maximalRun slots p a b \<and> b + 1 < i}"
proof -
  have "b + 1 < Suc i \<longleftrightarrow> b + 1 < i" if "maximalRun slots q a b" for q a b
  proof -
    have "b + 1 \<noteq> i" using assms [of q a] that by auto
    then show ?thesis by linarith
  qed
  then show ?thesis by blast
qed

lemma run_ends:
  assumes "maximalRun slots q a (i - 1)" and "0 < i" and "i < CLUSTER_SLOTS"
  shows "slots (i - 1) = Some q \<and> slots i \<noteq> Some q"
  using assms by (simp add: maximalRun_def) (metis Suc_pred diff_Suc_1 diff_less_mono2 le_refl less_irrefl_nat less_one not_less_eq)

lemma run_unique:
  assumes m: "maximalRun slots q a e" and "start \<le> e" and same: "\<And>j. start \<le> j \<Longrightarrow> j \<le> e \<Longrightarrow> slots j = Some p"
    and left: "start = 0 \<or> slots (start - 1) \<noteq> Some p"
  shows "a = start \<and> q = p"
proof -
  have a: "a \<le> e" "slots e = Some q" "\<And>j. a \<le> j \<Longrightarrow> j \<le> e \<Longrightarrow> slots j = Some q" "a = 0 \<or> slots (a - 1) \<noteq> Some q"
    using m by (simp_all add: maximalRun_def)
  have q: "q = p" using same [of e] a(2) \<open>start \<le> e\<close> by simp
  have "\<not> a < start"
  proof
    assume "a < start"
    then have "slots (start - 1) = Some q" using \<open>start \<le> e\<close> by (intro a(3)) auto
    then show False using left \<open>a < start\<close> q by simp
  qed
  moreover have "\<not> start < a"
  proof
    assume "start < a"
    then have "slots (a - 1) = Some p" using a(1) by (intro same) auto
    then show False using a(4) \<open>start < a\<close> q by simp
  qed
  ultimately show ?thesis using q by simp
qed

lemma runState_step:
  assumes "runState slots i st" and "i < CLUSTER_SLOTS"
  shows "runState slots (Suc i) (rangeStep slots (\<lambda>p a b rs. rs @ [(p, a, b)]) i st)"
proof -
  obtain n start rs where st: "st = (n, start, rs)" by (metis prod_cases3)
  note inv = runStateD [OF assms(1) [unfolded st]]
  show ?thesis
  proof (cases n)
    case None
    have s: "{(p, a, b). maximalRun slots p a b \<and> b + 1 < Suc i} = set rs"
      using runs_until [of i slots] run_ends [OF _ _ assms(2)] inv(2,4) None by (metis option.distinct(1))
    have "snd (snd x) < i" if "x \<in> set rs" for x using that unfolding inv(4) by auto
    then have "runState slots (Suc i) (slots i, i, rs)"
      by (intro runStateI [OF _ _ _ s [symmetric] inv(5)])
        (use inv(2) None in \<open>auto simp: less_Suc_eq le_less\<close>)
    then show ?thesis using None by (simp add: st rangeStep_def)
  next
    case (Some p)
    note ids = inv(3) [OF Some]
    have i: "0 < i" using inv(1) Some by (metis gr0I option.distinct(1))
    have p: "slots (i - 1) = Some p" using inv(2) [OF i] Some by simp
    show ?thesis
    proof (cases "slots i = Some p")
      case True
      have s: "{(p, a, b). maximalRun slots p a b \<and> b + 1 < Suc i} = set rs"
        using runs_until [of i slots] run_ends [OF _ _ assms(2)] inv(4) p True by (metis option.inject)
      have "\<forall>j. start \<le> j \<and> j < Suc i \<longrightarrow> slots j = Some p" using ids True by (auto simp: less_Suc_eq)
      then have "runState slots (Suc i) (n, start, rs)"
        by (intro runStateI [OF _ _ _ s [symmetric] inv(5)]) (use ids Some True in auto)
      then show ?thesis using Some True by (simp add: st rangeStep_def)
    next
      case False
      have new: "maximalRun slots p start (i - 1)"
        using ids i False assms(2) by (auto simp: maximalRun_def)
      have only: "a = start \<and> q = p" if m: "maximalRun slots q a (i - 1)" for q a
        by (rule run_unique [OF m]) (use ids i in auto)
      have s: "set (rs @ [(p, start, i - 1)]) = {(p, a, b). maximalRun slots p a b \<and> b + 1 < Suc i}"
      proof (intro set_eqI, clarify)
        fix q a b
        show "((q, a, b) \<in> set (rs @ [(p, start, i - 1)])) = ((q, a, b) \<in> {(p, a, b). maximalRun slots p a b \<and> b + 1 < Suc i})"
        proof (cases "b = i - 1")
          case True
          then show ?thesis using inv(4) new only [of q a] i by auto
        next
          case False
          then show ?thesis using inv(4) i by auto
        qed
      qed
      have w: "sorted_wrt before (rs @ [(p, start, i - 1)])"
        using inv(5) ids by (auto simp: sorted_wrt_append before_def)
      have b: "\<forall>x \<in> set (rs @ [(p, start, i - 1)]). snd (snd x) < i" using s by auto
      have "runState slots (Suc i) (slots i, i, rs @ [(p, start, i - 1)])"
        by (rule runStateI [OF _ _ _ s w]) (use b False p i in \<open>auto simp: less_Suc_eq le_less\<close>)
      then show ?thesis using Some False by (simp add: st rangeStep_def)
    qed
  qed
qed


lemma fold_runState:
  "i \<le> CLUSTER_SLOTS \<Longrightarrow>
   runState slots i (fold (rangeStep slots (\<lambda>p a b rs. rs @ [(p, a, b)])) [0..<i] (None, 0, []))"
proof (induction i)
  case 0
  then show ?case by (simp add: runState_def)
next
  case (Suc i)
  then show ?case using runState_step [of slots i] by simp
qed

theorem runs_exact: "set (runs slots) = {(p, a, b). maximalRun slots p a b} \<and> sorted_wrt before (runs slots)"
proof -
  let ?N = "CLUSTER_SLOTS"
  obtain n start rs where st: "fold (rangeStep slots (\<lambda>p a b rs. rs @ [(p, a, b)])) [0..<?N] (None, 0, []) = (n, start, rs)"
    by (metis prod_cases3)
  note inv = runStateD [OF fold_runState [OF order_refl, of slots, unfolded st]]
  have N: "0 < ?N" by (simp add: CLUSTER_SLOTS_def)
  have last: "slots (?N - 1) = Some q" if "maximalRun slots q a (?N - 1)" for q a
    using that by (simp add: maximalRun_def)
  have upto: "b + 1 < ?N \<or> b = ?N - 1" if "maximalRun slots q a b" for q a b
    using that by (auto simp: maximalRun_def)
  show ?thesis
  proof (cases n)
    case None
    have "set rs = {(p, a, b). maximalRun slots p a b}"
    proof (intro set_eqI, clarify)
      fix q a b
      have "b \<noteq> ?N - 1" if "maximalRun slots q a b" using last [of q a] that inv(2) [OF N] None by auto
      then show "((q, a, b) \<in> set rs) = ((q, a, b) \<in> {(p, a, b). maximalRun slots p a b})"
        using inv(4) upto [of q a b] by auto
    qed
    then show ?thesis using inv(5) None by (simp add: runs_def slotRanges_def st lastRange_def)
  next
    case (Some p)
    note ids = inv(3) [OF Some]
    have p: "slots (?N - 1) = Some p" using inv(2) [OF N] Some by simp
    have new: "maximalRun slots p start (?N - 1)" using ids N by (auto simp: maximalRun_def)
    have only: "a = start \<and> q = p" if m: "maximalRun slots q a (?N - 1)" for q a
        by (rule run_unique [OF m]) (use ids N in auto)
    have "set (rs @ [(p, start, ?N - 1)]) = {(p, a, b). maximalRun slots p a b}"
    proof (intro set_eqI, clarify)
      fix q a b
      show "((q, a, b) \<in> set (rs @ [(p, start, ?N - 1)])) = ((q, a, b) \<in> {(p, a, b). maximalRun slots p a b})"
        using inv(4) new only [of q a] upto [of q a b] by auto
    qed
    moreover have "sorted_wrt before (rs @ [(p, start, ?N - 1)])"
      using inv(5) ids by (auto simp: sorted_wrt_append before_def)
    ultimately show ?thesis using Some by (simp add: runs_def slotRanges_def st lastRange_def)
  qed
qed

section \<open>One pass for all nodes equals one pass per node\<close>

lemma rangeStep_simps [simp]:
  "rangeStep slots put i (None, st, acc) = (slots i, i, acc)"
  "slots i = Some p \<Longrightarrow> rangeStep slots put i (Some p, st, acc) = (Some p, st, acc)"
  "slots i \<noteq> Some p \<Longrightarrow> rangeStep slots put i (Some p, st, acc) = (slots i, i, put p st (i - 1) acc)"
  by (auto simp: rangeStep_def)

lemma bitStep_simps [simp]:
  "\<not> owned j \<Longrightarrow> bitStep owned j (None, ci) = (None, ci)"
  "owned j \<Longrightarrow> j \<noteq> CLUSTER_SLOTS - 1 \<Longrightarrow> bitStep owned j (None, ci) = (Some j, ci)"
  "\<not> owned j \<Longrightarrow> bitStep owned j (Some a, ci) = (None, ci @ rangeText a (j - 1))"
  "owned j \<Longrightarrow> j \<noteq> CLUSTER_SLOTS - 1 \<Longrightarrow> bitStep owned j (Some a, ci) = (Some a, ci)"
  "owned j \<Longrightarrow> j = CLUSTER_SLOTS - 1 \<Longrightarrow> bitStep owned j (None, ci) = (None, ci @ rangeText j j)"
  "owned j \<Longrightarrow> j = CLUSTER_SLOTS - 1 \<Longrightarrow> bitStep owned j (Some a, ci) = (None, ci @ rangeText a j)"
  by (simp_all add: bitStep_def Let_def)

lemma rangeStep_hom:
  assumes "\<And>p a b rs. F (rs @ [(p, a, b)]) = put p a b (F rs)"
  shows "fold (rangeStep slots put) xs (n, st, F rs) =
    (case fold (rangeStep slots (\<lambda>p a b rs. rs @ [(p, a, b)])) xs (n, st, rs) of (n', st', rs') \<Rightarrow> (n', st', F rs'))"
proof (induction xs arbitrary: n st rs)
  case Nil
  then show ?case by simp
next
  case (Cons i xs)
  show ?case
  proof (cases n)
    case None
    then show ?thesis by (simp add: Cons.IH)
  next
    case (Some p)
    show ?thesis
    proof (cases "slots i = Some p")
      case True
      then show ?thesis using Some by (simp add: Cons.IH)
    next
      case False
      then have "fold (rangeStep slots put) (i # xs) (n, st, F rs) =
          fold (rangeStep slots put) xs (slots i, i, F (rs @ [(p, st, i - 1)]))"
        using Some by (simp add: assms)
      then show ?thesis using Some False by (simp only: Cons.IH) simp
    qed
  qed
qed

lemma slotRanges_runs: "slotRanges slots put acc = fold (\<lambda>(p, a, b). put p a b) (runs slots) acc"
proof -
  let ?F = "\<lambda>rs. fold (\<lambda>(p, a, b). put p a b) rs acc"
  obtain n st rs where f: "fold (rangeStep slots (\<lambda>p a b rs. rs @ [(p, a, b)])) [0..<CLUSTER_SLOTS] (None, 0, []) = (n, st, rs)"
    by (metis prod_cases3)
  have "fold (rangeStep slots put) [0..<CLUSTER_SLOTS] (None, 0, acc) = (n, st, ?F rs)"
    using rangeStep_hom [of ?F put slots "[0..<CLUSTER_SLOTS]" None 0 "[]"] by (simp add: f)
  then show ?thesis by (simp add: slotRanges_def runs_def f lastRange_def split: option.split)
qed

lemma before_unique:
  assumes "sorted_wrt R xs" and "sorted_wrt R ys" and "set xs = set ys"
    and "\<And>x y. x \<in> set xs \<Longrightarrow> y \<in> set xs \<Longrightarrow> R x y \<Longrightarrow> \<not> R y x"
  shows "xs = ys"
  using assms
proof (induction xs arbitrary: ys)
  case Nil
  then show ?case by simp
next
  case (Cons x xs)
  have "ys \<noteq> []" using Cons.prems(3) by force
  then obtain y zs where ys: "ys = y # zs" by (cases ys) auto
  have xy: "x = y"
  proof (rule ccontr)
    assume "x \<noteq> y"
    then have "R x y" "R y x" using Cons.prems(1-3) unfolding ys by (metis list.set_intros(1) set_ConsD sorted_wrt.simps(2))+
    then show False using Cons.prems(3,4) unfolding ys by (metis list.set_intros(1))
  qed
  have "x \<notin> set xs" "x \<notin> set zs"
    using Cons.prems(1,2) Cons.prems(4) [of x x] unfolding xy ys by auto
  then have "set xs = set zs" using Cons.prems(3) unfolding ys xy by auto
  then have "xs = zs" using Cons.prems(1,2,4) unfolding ys by (intro Cons.IH) (auto simp del: not_None_eq)
  then show ?case using ys xy by simp
qed

text \<open>The slots of one node seen as the only ones.\<close>

definition onlySlots :: "nid \<Rightarrow> (nat \<Rightarrow> nid option) \<Rightarrow> nat \<Rightarrow> nid option" where
  "onlySlots p slots j = (if slots j = Some p then Some p else None)"

lemma onlySlots_simps:
  "slots j = Some p \<Longrightarrow> onlySlots p slots j = Some p"
  "slots j \<noteq> Some p \<Longrightarrow> onlySlots p slots j = None"
  by (simp_all add: onlySlots_def)

lemma runs_only: "runs (onlySlots p slots) = filter (\<lambda>(q, a, b). q = p) (runs slots)"
proof -
  have "maximalRun (onlySlots p slots) q a b \<longleftrightarrow> q = p \<and> maximalRun slots p a b" for q a b
    by (cases "q = p") (auto simp: maximalRun_def onlySlots_def)
  then have "set (runs (onlySlots p slots)) = set (filter (\<lambda>(q, a, b). q = p) (runs slots))"
    using runs_exact [of slots] runs_exact [of "onlySlots p slots"] by auto
  moreover have "sorted_wrt before (filter (\<lambda>(q, a, b). q = p) (runs slots))"
    using runs_exact by (auto intro: sorted_wrt_filter)
  moreover have "\<not> before y x" if "x \<in> set (runs (onlySlots p slots))" "y \<in> set (runs (onlySlots p slots))" "before x y" for x y
    using that runs_exact [of "onlySlots p slots"] by (auto simp: before_def maximalRun_def)
  ultimately show ?thesis using runs_exact [of "onlySlots p slots"] before_unique by metis
qed

definition runsText :: "(nid \<times> nat \<times> nat) list \<Rightarrow> string" where
  "runsText rs = concat (map (\<lambda>(p, a, b). rangeText a b) rs)"

lemma bitStep_until:
  assumes "i < CLUSTER_SLOTS"
  shows "fold (bitStep (\<lambda>j. slots j = Some p)) [0..<i] (None, []) =
    (case fold (rangeStep (onlySlots p slots) (\<lambda>p a b rs. rs @ [(p, a, b)])) [0..<i] (None, 0, []) of
       (n, start, rs) \<Rightarrow> (if n = None then None else Some start, runsText rs)) \<and>
    fst (fold (rangeStep (onlySlots p slots) (\<lambda>p a b rs. rs @ [(p, a, b)])) [0..<i] (None, 0, [])) \<in> {None, Some p}"
  using assms
proof (induction i)
  case 0
  then show ?case by (simp add: runsText_def)
next
  case (Suc i)
  obtain n start rs where f: "fold (rangeStep (onlySlots p slots) (\<lambda>p a b rs. rs @ [(p, a, b)])) [0..<i] (None, 0, []) = (n, start, rs)"
    by (metis prod_cases3)
  have ih: "fold (bitStep (\<lambda>j. slots j = Some p)) [0..<i] (None, []) = (if n = None then None else Some start, runsText rs)"
    "n \<in> {None, Some p}" using Suc by (simp_all add: f)
  have i: "i \<noteq> CLUSTER_SLOTS - 1" using Suc.prems by simp
  consider "n = None" "slots i = Some p" | "n = None" "slots i \<noteq> Some p" | "n = Some p" "slots i = Some p"
    | "n = Some p" "slots i \<noteq> Some p" using ih(2) by blast
  then show ?case
    by cases (use i in \<open>simp_all add: f ih runsText_def onlySlots_simps\<close>)
qed

lemma bitLoop_runs:
  "snd (fold (bitStep (\<lambda>j. slots j = Some p)) [0..<CLUSTER_SLOTS] (None, [])) = runsText (runs (onlySlots p slots))"
proof -
  obtain M where N: "CLUSTER_SLOTS = Suc M" by (metis CLUSTER_SLOTS_def zero_less_numeral gr0_implies_Suc)
  obtain n start rs where f: "fold (rangeStep (onlySlots p slots) (\<lambda>p a b rs. rs @ [(p, a, b)])) [0..<M] (None, 0, []) = (n, start, rs)"
    by (metis prod_cases3)
  have g: "fold (bitStep (\<lambda>j. slots j = Some p)) [0..<M] (None, []) = (if n = None then None else Some start, runsText rs)"
    and n: "n \<in> {None, Some p}" using bitStep_until [of M slots p] by (simp_all add: f N)
  consider "n = None" "slots M = Some p" | "n = None" "slots M \<noteq> Some p" | "n = Some p" "slots M = Some p"
    | "n = Some p" "slots M \<noteq> Some p" using n by blast
  then show ?thesis unfolding runs_def slotRanges_def N
    by cases (simp_all add: f g N lastRange_def onlySlots_simps runsText_def)
qed

lemma info_value:
  assumes "\<not> hasFlag (n_flags (nd s p)) filt"
  shows "clusterGenNodesSlotsInfo filt s p =
    (let rs = runs (onlySlots p (c_slots s)) in if rs = [] then None else Some (runsText rs))"
proof -
  define put where "put = (\<lambda>q start stop info.
          if hasFlag (n_flags (nd s q)) filt then info
          else info(q := Some ((case info q of None \<Rightarrow> [] | Some t \<Rightarrow> t) @ rangeText start stop)) :: nid \<Rightarrow> string option)"
  have "fold (\<lambda>(q, a, b). put q a b) rs info p =
      (let ps = filter (\<lambda>(q, a, b). q = p) rs
       in if ps = [] then info p else Some ((case info p of None \<Rightarrow> [] | Some t \<Rightarrow> t) @ runsText ps))" for rs info
  proof (induction rs arbitrary: info)
    case Nil
    then show ?case by simp
  next
    case (Cons r rs)
    obtain q a b where r: "r = (q, a, b)" by (cases r)
    have other: "put q a b info p = info p" if "q \<noteq> p" using that by (simp add: put_def)
    have own: "put p a b info p = Some ((case info p of None \<Rightarrow> [] | Some t \<Rightarrow> t) @ rangeText a b)"
      using assms by (simp add: put_def)
    show ?case
    proof (cases "q = p")
      case True
      then show ?thesis by (simp add: r Cons.IH own Let_def runsText_def)
    next
      case False
      then show ?thesis by (simp add: r Cons.IH other Let_def)
    qed
  qed
  then show ?thesis
    by (simp add: clusterGenNodesSlotsInfo_def slotRanges_runs runs_only put_def Let_def)
qed

lemma bitStep_cong: "owned j = owned' j \<Longrightarrow> bitStep owned j = bitStep owned' j"
  unfolding bitStep_def by presburger

lemma slotsOfNodeText_runs:
  assumes "cluster_ok s" and "p \<in> live s"
  shows "slotsOfNodeText p s = runsText (runs (onlySlots p (c_slots s)))"
proof -
  have "\<And>j. j \<in> set [0..<CLUSTER_SLOTS] \<Longrightarrow> clusterNodeGetSlotBit p j s = (c_slots s j = Some p)"
    using slots_okD(3) [of s p] assms by (simp add: clusterNodeGetSlotBit_def cluster_ok_def)
  then have "fold (bitStep (\<lambda>j. clusterNodeGetSlotBit p j s)) [0..<CLUSTER_SLOTS] (None, []) =
      fold (bitStep (\<lambda>j. c_slots s j = Some p)) [0..<CLUSTER_SLOTS] (None, [])"
    by (intro fold_cong refl bitStep_cong)
  then show ?thesis by (simp add: slotsOfNodeText_def bitLoop_runs)
qed

lemma numslots_runs:
  assumes "cluster_ok s" and "p \<in> live s" and "runs (onlySlots p (c_slots s)) \<noteq> []"
  shows "0 < n_numslots (nd s p)"
proof -
  obtain q a b where "(q, a, b) \<in> set (runs (onlySlots p (c_slots s)))"
    using assms(3) by (metis list.set_sel(1) prod_cases3)
  then have "maximalRun (onlySlots p (c_slots s)) q a b" using runs_exact by blast
  then have "onlySlots p (c_slots s) a = Some q" "a < CLUSTER_SLOTS" by (auto simp: maximalRun_def)
  then have "c_slots s a = Some p" "a < CLUSTER_SLOTS" by (auto simp: onlySlots_def split: if_splits)
  then have "a \<in> slotsOf (n_slots (nd s p))"
    using slots_okD(3) [of s p a] assms(1,2) by (simp add: cluster_ok_def in_slotsOf)
  then have "slotsOf (n_slots (nd s p)) \<noteq> {}" by blast
  then show ?thesis using slots_okD(2) [of s p] assms(1,2) by (simp add: cluster_ok_def card_gt_0_iff)
qed

lemma description_info:
  assumes "cluster_ok s" and "p \<in> live s" and "\<not> hasFlag (n_flags (nd s p)) filt"
  shows "clusterGenNodeDescription (clusterGenNodesSlotsInfo filt s p) p use_pport s =
         clusterGenNodeDescription None p use_pport s"
proof (cases "runs (onlySlots p (c_slots s)) = []")
  case True
  then show ?thesis
    using slotsOfNodeText_runs [OF assms(1,2)] info_value [OF assms(3)]
    by (simp add: clusterGenNodeDescription_def Let_def runsText_def)
next
  case False
  then show ?thesis
    using slotsOfNodeText_runs [OF assms(1,2)] info_value [OF assms(3)] numslots_runs [OF assms(1,2) False]
    by (simp add: clusterGenNodeDescription_def Let_def)
qed

lemma nodes_text_lines:
  assumes "cluster_ok s"
  shows "clusterGenNodesDescription filt use_pport s =
    concat (map (\<lambda>p. clusterGenNodeDescription None p use_pport s @ [CHR 0x0A])
      (filter (\<lambda>p. \<not> hasFlag (n_flags (nd s p)) filt) (dictVals (c_nodes s))))"
proof -
  let ?info = "clusterGenNodesSlotsInfo filt s"
  have "fold (\<lambda>p ci. if hasFlag (n_flags (nd s p)) filt then ci
                  else ci @ clusterGenNodeDescription (?info p) p use_pport s @ [CHR 0x0A]) ps ci =
    ci @ concat (map (\<lambda>p. clusterGenNodeDescription None p use_pport s @ [CHR 0x0A])
      (filter (\<lambda>p. \<not> hasFlag (n_flags (nd s p)) filt) ps))" if "set ps \<subseteq> live s" for ps ci
    using that by (induction ps arbitrary: ci) (simp_all add: description_info [OF assms])
  from this [of "dictVals (c_nodes s)" "[]"] show ?thesis
    by (simp add: clusterGenNodesDescription_def live_def Let_def)
qed

text \<open>
  C33. The text of CLUSTER NODES and of the configuration file, whose slots are computed for all
  nodes in one pass over the slot table, is the text in which every node lists its slots by a pass
  over its own bitmap.
\<close>

theorem nodes_text_one_pass:
  assumes "cluster_ok s"
  shows "clusterGenNodesDescription filt use_pport s =
    concat (map (\<lambda>p. clusterGenNodeDescription None p use_pport s @ [CHR 0x0A])
      (filter (\<lambda>p. \<not> hasFlag (n_flags (nd s p)) filt) (dictVals (c_nodes s))))"
  using assms by (rule nodes_text_lines)

theorem nodes_text_one_pass_witness:
  "clusterGenNodesDescription 0 False (pair_cluster node_a zeroNode) =
   concat (map (\<lambda>p. clusterGenNodeDescription None p False (pair_cluster node_a zeroNode) @ [CHR 0x0A])
      (filter (\<lambda>p. \<not> hasFlag (n_flags (nd (pair_cluster node_a zeroNode) p)) 0)
        (dictVals (c_nodes (pair_cluster node_a zeroNode)))))"
  by (rule nodes_text_one_pass [OF pair_zero_ok, where filt = 0 and use_pport = False])

section \<open>The reply of CLUSTER SLOTS\<close>

lemma in_some_run:
  assumes "j < CLUSTER_SLOTS" and "slots j = Some p"
  shows "\<exists>a b. maximalRun slots p a b \<and> a \<le> j \<and> j \<le> b"
proof -
  let ?L = "\<lambda>i. i \<le> j \<and> (\<forall>k. i \<le> k \<and> k \<le> j \<longrightarrow> slots k = Some p)"
  let ?R = "\<lambda>i. j \<le> i \<and> (i = CLUSTER_SLOTS - 1 \<or> slots (i + 1) \<noteq> Some p)"
  define a where "a = (LEAST i. ?L i)"
  define b where "b = (LEAST i. ?R i)"
  have a: "?L a" unfolding a_def by (rule LeastI [of ?L j]) (use assms in auto)
  have b: "?R b" unfolding b_def by (rule LeastI [of ?R "CLUSTER_SLOTS - 1"]) (use assms in auto)
  have bN: "b \<le> CLUSTER_SLOTS - 1" unfolding b_def by (rule Least_le) (use assms in auto)
  have left: "a = 0 \<or> slots (a - 1) \<noteq> Some p"
  proof (rule ccontr)
    assume "\<not> (a = 0 \<or> slots (a - 1) \<noteq> Some p)"
    then have c: "0 < a" "slots (a - 1) = Some p" by auto
    have "slots k = Some p" if "a - 1 \<le> k" "k \<le> j" for k
      using a c that by (cases "k = a - 1") auto
    then have "?L (a - 1)" using a by auto
    then have "a \<le> a - 1" unfolding a_def by (rule Least_le)
    then show False using c(1) by simp
  qed
  have mid: "slots k = Some p" if "j \<le> k" "k \<le> b" for k
    using that
  proof (induction k rule: dec_induct)
    case base
    then show ?case using assms by simp
  next
    case (step k)
    have "\<not> ?R k" using not_less_Least [of k ?R] step.prems by (simp add: b_def)
    then show ?case using step.hyps by simp
  qed
  have "slots k = Some p" if "a \<le> k" "k \<le> b" for k
    using a mid that by (cases "k \<le> j") auto
  then have "maximalRun slots p a b"
    using left a b bN by (auto simp: maximalRun_def CLUSTER_SLOTS_def)
  then show ?thesis using a b by blast
qed

text \<open>
  C24. CLUSTER SLOTS lists exactly the maximal ranges of slots with the same owner, in the order of
  the slots and without overlap, each with the address of the owner and of its replicas that have not
  failed; a slot is in a listed range of a node exactly when the node owns it.
\<close>

theorem cluster_slots_exact:
  "clusterReplyMultiBulkSlots plain s =
     RArray (map (\<lambda>(p, a, b). addNodeReplyForClusterSlot plain s p a b) (runs (c_slots s))) \<and>
   set (runs (c_slots s)) = {(p, a, b). maximalRun (c_slots s) p a b} \<and>
   sorted_wrt (\<lambda>(_, _, b) (_, a', _). b < a') (runs (c_slots s)) \<and>
   {(j, p). j < CLUSTER_SLOTS \<and> c_slots s j = Some p} =
   {(j, p). \<exists>a b. (p, a, b) \<in> set (runs (c_slots s)) \<and> a \<le> j \<and> j \<le> b}"
proof (intro conjI)
  have "fold (\<lambda>(p, a, b) rs. rs @ [f p a b]) xs acc = acc @ map (\<lambda>(p, a, b). f p a b) xs"
    for f :: "nid \<Rightarrow> nat \<Rightarrow> nat \<Rightarrow> reply" and xs acc
    by (induction xs arbitrary: acc) auto
  then show "clusterReplyMultiBulkSlots plain s =
     RArray (map (\<lambda>(p, a, b). addNodeReplyForClusterSlot plain s p a b) (runs (c_slots s)))"
    by (simp add: clusterReplyMultiBulkSlots_def slotRanges_runs)
  show set: "set (runs (c_slots s)) = {(p, a, b). maximalRun (c_slots s) p a b}" using runs_exact by blast
  have "before = (\<lambda>(_, _, b) (_, a', _). b < a')" by (auto simp: before_def fun_eq_iff)
  then show "sorted_wrt (\<lambda>(_, _, b) (_, a', _). b < a') (runs (c_slots s))" using runs_exact by metis
  show "{(j, p). j < CLUSTER_SLOTS \<and> c_slots s j = Some p} =
    {(j, p). \<exists>a b. (p, a, b) \<in> set (runs (c_slots s)) \<and> a \<le> j \<and> j \<le> b}"
    unfolding set using in_some_run by (fastforce simp: maximalRun_def)
qed

end
