(* ===== verification/Forward.thy ===== *)
theory Forward
  imports Query
begin

text \<open>
  Commands on hot slots (src/server/src/server.c): the instance that a client of a copied slot is
  sent to (\<open>getForwardAim\<close>), the commands that other instances send to synchronise a copy, and the
  part of \<open>processCommand\<close> up to the execution of the command. The command table, the commands
  filters of modules and the checks of users are parameters. \<open>processCommand\<close> declares \<^verbatim>\<open>hashslot\<close>
  without a value and \<open>getNodeByQuery\<close> does not always write it: the value it then has is the
  parameter \<open>junk\<close>. The server runs with the cluster enabled.
\<close>

section \<open>The aim of a forwarded client\<close>

text \<open>\<open>dictGetFairRandomKey\<close>: any entry can be the result.\<close>

definition randomMember :: "nat \<Rightarrow> redisServer \<Rightarrow> nid option \<times> redisServer" where
  "randomMember slot s =
     (let vs = dictVals (ss_related_ins (c_slot_status s slot)); (r, s1) = random_num s
      in (if vs = [] then None else Some (vs ! (r mod length vs)), s1))"

text \<open>The loop that draws until the node is another one; None is a loop that does not end.\<close>

partial_function (option) pickOther :: "nat \<Rightarrow> redisServer \<Rightarrow> (nid \<times> redisServer) option" where
  "pickOther slot s =
     (case randomMember slot s of
        (None, s1) \<Rightarrow> Some (c_myself s1, panic_with NullDeref s1)
      | (Some p, s1) \<Rightarrow> if p = c_myself s1 then pickOther slot s1 else Some (p, s1))"

definition getForwardAim :: "nat \<Rightarrow> redisServer \<Rightarrow> (nid \<times> redisServer) option" where
  "getForwardAim slot s =
     (case randomMember slot s of
        (None, s1) \<Rightarrow> Some (c_myself s1, panic_with NullDeref s1)
      | (Some node, s1) \<Rightarrow>
          if c_forward_time s1
          then
            let count = dictSize (ss_related_ins (c_slot_status s1 slot)) * 2 + 1 in
            case pickOther slot s1 of
              None \<Rightarrow> None
            | Some (other, s2) \<Rightarrow>
                let (r, s3) = random_num s2
                in Some (if r mod count = 0 then c_myself s3 else other, s3)
          else Some (node, s1))"

section \<open>Commands that synchronise a copy\<close>

definition hasSyncHeader :: "client \<Rightarrow> bool" where
  "hasSyncHeader c \<longleftrightarrow> take 6 (cl_argv c ! 0) = ''WANGEP''"

text \<open>True: the command is older than the one that waits here, and is dropped.\<close>

definition stripSyncHeader :: "client \<Rightarrow> redisServer \<Rightarrow> bool \<times> client \<times> redisServer" where
  "stripSyncHeader c s =
     (let c1 = c\<lparr>cl_flags := cl_flags c OR CLIENT_SYNC\<rparr> in
      if length (cl_argv c) < 4 then (True, c1, panic_with OutOfBounds s)
      else
        let timestamp = strtoll (cl_argv c ! 1);
            key = cl_argv c ! 3;
            slot = keyHashSlot key;
            c2 = c1\<lparr>cl_argv := drop 2 (cl_argv c)\<rparr>
        in case dictFind (ss_cached_op (c_slot_status s slot)) key of
             Some op \<Rightarrow> if strtoll (op_argv op ! 1) > timestamp then (True, c1, s) else (False, c2, s)
           | None \<Rightarrow> (False, c2, s))"

section \<open>Redirection and forwarding\<close>

definition cmdHasMovableKeys :: "redisCommand \<Rightarrow> bool" where
  "cmdHasMovableKeys cmd \<longleftrightarrow> cmd_getkeys_proc cmd \<and> \<not> hasFlag (cmd_flags cmd) CMD_MODULE \<or>
     hasFlag (cmd_flags cmd) CMD_MODULE_GETKEYS"

definition routed :: "client \<Rightarrow> bool" where
  "routed c \<longleftrightarrow>
     (let cmd = cl_cmd c; name = take 7 (cl_argv c ! 0);
          is_migrate = (name = ''RESTORE'' \<or> name = ''MIGRATE'')
      in \<not> hasFlag (cl_flags c) CLIENT_MASTER \<and> \<not> is_migrate \<and> \<not> hasFlag (cl_flags c) CLIENT_SYNC \<and>
         \<not> (hasFlag (cl_flags c) CLIENT_LUA \<and> cl_lua_master c) \<and>
         \<not> (\<not> cmdHasMovableKeys cmd \<and> cmd_firstkey cmd = 0 \<and> \<not> cmd_is_exec cmd))"

definition discardTransaction :: "client \<Rightarrow> client" where
  "discardTransaction c = c\<lparr>cl_mstate := [], cl_mstate_flags := 0,
     cl_flags := cl_flags c AND NOT (CLIENT_MULTI OR CLIENT_DIRTY_CAS OR CLIENT_DIRTY_EXEC)\<rparr>"

definition flagTransaction :: "client \<Rightarrow> client" where
  "flagTransaction c =
     (if hasFlag (cl_flags c) CLIENT_MULTI then c\<lparr>cl_flags := cl_flags c OR CLIENT_DIRTY_EXEC\<rparr> else c)"

definition isOwner :: "nat \<Rightarrow> redisServer \<Rightarrow> bool" where
  "isOwner slot s \<longleftrightarrow> c_slots s slot = Some (c_myself s)"

definition isCopyInstance :: "nat \<Rightarrow> redisServer \<Rightarrow> bool" where
  "isCopyInstance slot s \<longleftrightarrow>
     dictFind (ss_related_ins (c_slot_status s slot)) (take CLUSTER_NAMELEN (n_name (me s))) \<noteq> None \<and> \<not> isOwner slot s"

text \<open>While a slot is being copied its writes are cached; after the copy they are sent once.\<close>

definition catchUp :: "client \<Rightarrow> nat \<Rightarrow> redisServer \<Rightarrow> redisServer" where
  "catchUp c slot s =
     (let st = c_slot_status s slot;
          s1 = (if ss_have_copy st \<and> ss_is_copying st \<and> isWriteCommand c
                then addCmdToCache (cl_argv c) slot s else s)
      in if \<not> ss_is_synced st \<and> ss_is_copied st \<and> ss_have_copy st
         then upd_slot slot (\<lambda>st. st\<lparr>ss_is_synced := True\<rparr>)
                (if ss_cache_op_size (c_slot_status s1 slot) > 0 then broadcastCommandInHotGroup slot s1 else s1)
         else s1)"

definition countOp :: "nat \<Rightarrow> redisServer \<Rightarrow> redisServer" where
  "countOp slot s = upd_slot slot (\<lambda>st. st\<lparr>ss_dealed_ops := ss_dealed_ops st + 1\<rparr>) s"

text \<open>
  The rest of the decision, with \<open>no_forward\<close> known: True in the result means that the command
  was answered and is not executed here. \<open>copied\<close> is the flag as it was read before.
\<close>

definition serveOrRedirect :: "bool \<Rightarrow> bool \<Rightarrow> queryResult \<Rightarrow> nat \<Rightarrow> client \<Rightarrow> redisServer \<Rightarrow> bool \<times> client \<times> redisServer" where
  "serveOrRedirect copied no_forward q slot c s =
     (if copied \<and> (isCopyInstance slot s \<or> isOwner slot s \<and> no_forward)
      then
        let s1 = (if isWriteCommand c \<and> c_is_sync s
                  then let s' = addCmdToCache (cl_argv c) slot s
                    in if \<not> c_sync_time s' then broadcastCommandInHotGroup slot s' else s'
                  else s)
        in (False, c, countOp slot s1)
      else if q_node q \<noteq> Some (c_myself s)
      then
        let c1 = (if cmd_is_exec (cl_cmd c) then discardTransaction c else flagTransaction c)
        in case q_error q of
             None \<Rightarrow> (True, c1, panic_with AssertFailed s)
           | Some err \<Rightarrow> (let (c2, s2) = clusterRedirectClient (q_node q) (int slot) err c1 s in (True, c2, s2))
      else (False, c, countOp slot s))"

definition routeCommand :: "int \<Rightarrow> client \<Rightarrow> redisServer \<Rightarrow> (bool \<times> client \<times> redisServer) option" where
  "routeCommand junk c s =
     (let q = getNodeByQuery c (cl_cmd c) (cl_argv c) s;
          hashslot = (case q_slot q of Some j \<Rightarrow> int j | None \<Rightarrow> junk)
      in if hashslot < 0 \<or> hashslot \<ge> int CLUSTER_SLOTS then Some (True, c, panic_with OutOfBounds s)
         else
           let slot = nat hashslot;
               st = c_slot_status s slot;
               no_forward = slot \<in> set (cl_no_forward c);
               s1 = catchUp c slot s;
               synced = (ss_is_synced st \<or> ss_is_copied st \<and> ss_have_copy st)
           in if isOwner slot s \<and> ss_is_copied st \<and> \<not> no_forward \<and> synced \<and>
                 dictSize (ss_related_ins st) > 0 \<and> ss_have_copy st
              then case getForwardAim slot s1 of
                     None \<Rightarrow> None
                   | Some (node, s2) \<Rightarrow>
                       if node = c_myself s2
                       then Some (serveOrRedirect (ss_is_copied st) True q slot
                                    (c\<lparr>cl_no_forward := slot # cl_no_forward c\<rparr>) s2)
                       else if node \<notin> live s2 then Some (True, c, panic_with UseAfterFree s2)
                       else (let (c1, s3) = clusterRedirectClient (Some node) hashslot CLUSTER_REDIR_MOVED c s2
                             in Some (True, c1, s3))
              else Some (serveOrRedirect (ss_is_copied st) no_forward q slot c s1))"

section \<open>processCommand up to the execution\<close>

datatype outcome = ClientCloses | Answered | Executes

text \<open>\<open>filters\<close>: the command filters of modules; \<open>lookupCommand\<close>: the command table; \<open>denied\<close>: the
  error for a user that may not run the command.\<close>

definition processCommand :: "(client \<Rightarrow> client) \<Rightarrow> (string \<Rightarrow> redisCommand option) \<Rightarrow> (client \<Rightarrow> string option) \<Rightarrow>
    int \<Rightarrow> client \<Rightarrow> redisServer \<Rightarrow> (outcome \<times> client \<times> redisServer) option" where
  "processCommand filters lookupCommand denied junk c0 s =
     (let c = filters c0 in
      if strcaseeq (cl_argv c ! 0) ''quit'' then Some (ClientCloses, c, s)
      else
        let (dropped, c1, s1) = (if hasSyncHeader c then stripSyncHeader c s else (False, c, s)) in
        if dropped then Some (Answered, c1, s1)
        else case lookupCommand (cl_argv c1 ! 0) of
               None \<Rightarrow> Some (Answered, addReplyError ''unknown command'' c1, s1)
             | Some cmd \<Rightarrow>
                 let c2 = c1\<lparr>cl_cmd := cmd, cl_lastcmd := cmd\<rparr>; argc = int (length (cl_argv c2)) in
                 if cmd_arity cmd > 0 \<and> cmd_arity cmd \<noteq> argc \<or> argc < - cmd_arity cmd
                 then Some (Answered, addReplyError ''wrong number of arguments'' c2, s1)
                 else (case denied c2 of
                         Some msg \<Rightarrow> Some (Answered, addReplyError msg c2, s1)
                       | None \<Rightarrow>
                           if \<not> routed c2 then Some (Executes, c2, s1)
                           else (case routeCommand junk c2 s1 of
                                   None \<Rightarrow> None
                                 | Some (done, c3, s2) \<Rightarrow> Some (if done then Answered else Executes, c3, s2))))"

section \<open>Time stamps\<close>



section \<open>When a client is forwarded\<close>

definition drawn :: "nat \<Rightarrow> redisServer \<Rightarrow> nat \<Rightarrow> nid" where
  "drawn slot s k =
     (let vs = dictVals (ss_related_ins (c_slot_status s slot)) in vs ! (s_rnd s (s_rnd_pos s + k) mod length vs))"

lemma randomMember_drawn:
  assumes "dictVals (ss_related_ins (c_slot_status s slot)) \<noteq> []"
  shows "randomMember slot s = (Some (drawn slot s 0), s\<lparr>s_rnd_pos := Suc (s_rnd_pos s)\<rparr>)"
  using assms by (simp add: randomMember_def drawn_def random_num_def Let_def)

lemma drawn_next: "drawn slot (s\<lparr>s_rnd_pos := Suc (s_rnd_pos s)\<rparr>) k = drawn slot s (Suc k)"
  by (simp add: drawn_def)

lemma pickOther_finds:
  assumes "dictVals (ss_related_ins (c_slot_status s slot)) \<noteq> []" and "drawn slot s k \<noteq> c_myself s"
  shows "\<exists>p s'. pickOther slot s = Some (p, s') \<and> p \<noteq> c_myself s"
  using assms
proof (induction k arbitrary: s)
  case 0
  then show ?case by (subst pickOther.simps) (simp add: randomMember_drawn)
next
  case (Suc k)
  let ?s = "s\<lparr>s_rnd_pos := Suc (s_rnd_pos s)\<rparr>"
  have "\<exists>p s'. pickOther slot ?s = Some (p, s') \<and> p \<noteq> c_myself ?s"
    using Suc.prems by (intro Suc.IH) (simp_all add: drawn_next)
  then show ?case using Suc.prems(1) by (subst pickOther.simps) (simp add: randomMember_drawn)
qed

lemma pickOther_found:
  assumes "pickOther slot s = Some r" and "dictVals (ss_related_ins (c_slot_status s slot)) \<noteq> []"
  shows "\<exists>k. drawn slot s k \<noteq> c_myself s"
proof -
  let ?P = "\<lambda>slot s (r :: nid \<times> redisServer).
      dictVals (ss_related_ins (c_slot_status s slot)) \<noteq> [] \<longrightarrow> (\<exists>k. drawn slot s k \<noteq> c_myself s)"
  have "?P slot s r"
  proof (rule pickOther.raw_induct [of ?P, OF _ assms(1)])
    fix rec slot s and r :: "nid \<times> redisServer"
    assume IH: "\<And>slot s r. rec slot s = Some r \<Longrightarrow> ?P slot s r"
      and body: "(case randomMember slot s of
        (None, s1) \<Rightarrow> Some (c_myself s1, panic_with NullDeref s1)
      | (Some p, s1) \<Rightarrow> if p = c_myself s1 then rec slot s1 else Some (p, s1)) = Some r"
    show "?P slot s r"
    proof
      assume ne: "dictVals (ss_related_ins (c_slot_status s slot)) \<noteq> []"
      let ?s = "s\<lparr>s_rnd_pos := Suc (s_rnd_pos s)\<rparr>"
      show "\<exists>k. drawn slot s k \<noteq> c_myself s"
      proof (cases "drawn slot s 0 = c_myself s")
        case True
        then have "rec slot ?s = Some r" using body ne by (simp add: randomMember_drawn)
        then obtain k where "drawn slot ?s k \<noteq> c_myself ?s" using IH ne by fastforce
        then show ?thesis by (auto simp: drawn_next)
      qed auto
    qed
  qed
  then show ?thesis using assms(2) by blast
qed

text \<open>
  C22. The choice of the instance a client is sent to ends exactly when the mode does not ask for
  another instance, or some later draw gives one: in a hot group whose only member is this node
  the loop never ends and the server hangs.
\<close>

theorem forward_aim_ends_iff:
  assumes "dictVals (ss_related_ins (c_slot_status s slot)) \<noteq> []"
  shows "getForwardAim slot s \<noteq> None \<longleftrightarrow>
    \<not> c_forward_time s \<or>
    (\<exists>k. let vs = dictVals (ss_related_ins (c_slot_status s slot))
          in vs ! (s_rnd s (s_rnd_pos s + Suc k) mod length vs) \<noteq> c_myself s)"
proof -
  let ?s = "s\<lparr>s_rnd_pos := Suc (s_rnd_pos s)\<rparr>"
  have ne: "dictVals (ss_related_ins (c_slot_status ?s slot)) \<noteq> []" using assms by simp
  have "pickOther slot ?s \<noteq> None \<longleftrightarrow> (\<exists>k. drawn slot ?s k \<noteq> c_myself ?s)"
    using pickOther_finds [OF ne] pickOther_found [OF _ ne] by blast
  then have p: "pickOther slot ?s \<noteq> None \<longleftrightarrow> (\<exists>k. drawn slot s (Suc k) \<noteq> c_myself s)"
    by (simp add: drawn_next)
  have "getForwardAim slot s \<noteq> None \<longleftrightarrow> \<not> c_forward_time s \<or> pickOther slot ?s \<noteq> None"
    using assms by (simp add: getForwardAim_def randomMember_drawn Let_def case_prod_beta split: option.split)
  then show ?thesis unfolding p by (simp add: drawn_def Let_def)
qed

theorem forward_aim_ends_iff_witness:
  "getForwardAim 9 (copied_slot\<lparr>c_forward_time := True\<rparr>) \<noteq> None \<and>
   getForwardAim 9 (upd_slot 9 (\<lambda>st. st\<lparr>ss_related_ins := [(nameA, 0)]\<rparr>) (copied_slot\<lparr>c_forward_time := True\<rparr>)) = None"
proof -
  let ?s = "copied_slot\<lparr>c_forward_time := True\<rparr>"
  let ?t = "upd_slot 9 (\<lambda>st. st\<lparr>ss_related_ins := [(nameA, 0)]\<rparr>) ?s"
  have m: "dictVals (ss_related_ins (c_slot_status ?s 9)) = [1]" "c_myself ?s = 0"
    "dictVals (ss_related_ins (c_slot_status ?t 9)) = [0]" "c_myself ?t = 0" "c_forward_time ?t" "c_forward_time ?s"
    using copied_slot_facts by (simp_all add: dictVals_def upd_slot_def)
  have "getForwardAim 9 ?s \<noteq> None" using forward_aim_ends_iff [of ?s 9] unfolding m Let_def by simp
  moreover have "\<not> getForwardAim 9 ?t \<noteq> None" using forward_aim_ends_iff [of ?t 9] unfolding m Let_def by (simp add: m)
  ultimately show ?thesis by blast
qed

lemma catchUp_keeps:
  "c_slots (catchUp c slot s) = c_slots s" "c_myself (catchUp c slot s) = c_myself s"
proof -
  have "core (upd_slot slot f s) = core s" for f s by (simp add: frame_simps)
  have a: "core (addCmdToCache argv slot s) = core s" for argv s
    by (simp add: addCmdToCache_def frame_simps Let_def)
  have "core (catchUp c slot s) = core s"
    by (simp add: catchUp_def frame_simps a Let_def)
  then show "c_slots (catchUp c slot s) = c_slots s" "c_myself (catchUp c slot s) = c_myself s"
    by (simp_all add: core_def)
qed


definition copied_everywhere :: redisServer where
  "copied_everywhere = zeroServer\<lparr>c_state := CLUSTER_OK, c_slots := (\<lambda>_. Some 0),
     c_slot_status := (\<lambda>_. zeroSlot\<lparr>ss_is_copied := True\<rparr>)\<rparr>"

lemma get_k_query:
  "q_slot (getNodeByQuery (get_client\<lparr>cl_no_forward := ks\<rparr>) get_command [''GET'', ''k''] copied_everywhere) =
   Some (keyHashSlot ''k'')"
  by (simp add: getNodeByQuery_def queryKeys_def get_command_def get_client_def copied_everywhere_def zeroServer_def
      startScan_def firstKey_def countMissing_def serveSlot_def Let_def case_prod_beta)


section \<open>Findings\<close>



text \<open>
  A finding: a command whose keys lie in different slots, of which the first is assigned, makes
  the server use the variable \<^verbatim>\<open>hashslot\<close> that nobody has set. With a value outside the
  table the server reads and writes outside its slot table instead of answering with an error.
\<close>

theorem unset_slot_is_used:
  assumes "\<not> hasFlag (s_module_flags s) CLUSTER_MODULE_FLAG_NO_REDIRECTION"
    and "\<not> cmd_is_exec (cl_cmd c)" and "queryKeys [(cl_cmd c, cl_argv c)] = k # ks"
    and "\<exists>x \<in> set ks. keyHashSlot x \<noteq> keyHashSlot k" and "s_panic s = None"
    and "junk < 0 \<or> junk \<ge> int CLUSTER_SLOTS"
  shows "\<exists>c' s'. routeCommand junk c s = Some (True, c', s') \<and> s_panic s' = Some OutOfBounds \<and>
    cl_replies c' = cl_replies c"
proof -
  have "\<exists>err. scanKeys (k # ks) s startScan = Inl err"
    using assms(4) unfolding scan_keys by (auto split: option.split)
  then obtain err where "scanKeys (k # ks) s startScan = Inl err" ..
  then have "q_slot (getNodeByQuery c (cl_cmd c) (cl_argv c) s) = None"
    using assms(1,2) unfolding getNodeByQuery_def Let_def if_not_P [OF assms(1)] by (simp add: assms(3) del: scanKeys.simps)
  then show ?thesis
    using assms(5,6) by (auto simp: routeCommand_def panic_with_def Let_def)
qed

theorem unset_slot_is_used_witness:
  "\<exists>c' s'. routeCommand (-1) (get_client\<lparr>cl_cmd := get_command\<lparr>cmd_keys := (\<lambda>_. [1, 2])\<rparr>,
       cl_argv := [''MGET'', ''a'', ''b'']\<rparr>) zeroServer = Some (True, c', s') \<and>
     s_panic s' = Some OutOfBounds \<and> cl_replies c' = []"
proof -
  let ?c = "get_client\<lparr>cl_cmd := get_command\<lparr>cmd_keys := (\<lambda>_. [1, 2])\<rparr>, cl_argv := [''MGET'', ''a'', ''b'']\<rparr>"
  have k: "queryKeys [(cl_cmd ?c, cl_argv ?c)] = ''a'' # [''b'']" by (simp add: queryKeys_def eval_nat_numeral)
  have "keyHashSlot ''b'' \<noteq> keyHashSlot ''a''" by code_simp
  then have x: "\<exists>x \<in> set [''b'']. keyHashSlot x \<noteq> keyHashSlot ''a''" by simp
  have z: "\<not> hasFlag (s_module_flags zeroServer) CLUSTER_MODULE_FLAG_NO_REDIRECTION" "s_panic zeroServer = None"
    by (simp_all add: zeroServer_def)
  show ?thesis
    using unset_slot_is_used [OF z(1) _ k x z(2), of "-1"] by (simp add: get_command_def get_client_def)
qed

text \<open>
  C27. Last writer wins only while the writes wait: an instance whose cache for a slot has been
  broadcast executes any synchronised command for that slot, even one that is older than its own
  last write, which the other instances then have; so the copies can end with different values.
\<close>

theorem older_write_wins_after_broadcast:
  assumes "cacheOk (c_slot_status s j)" and "membersOk j s" and "2 \<le> length new" and "2 \<le> length old"
    and "old ! 1 = new ! 1" and "keyHashSlot (old ! 1) = j" and "\<forall>x \<in> set old. CHR 0x00 \<notin> set x"
  shows "let s1 = addCmdToCache new j s; s2 = broadcastCommandInHotGroup j s1 in
    fst (stripSyncHeader (c\<lparr>cl_argv := cachedCommand old sender\<rparr>) s1) =
      (strtoll (take 16 (decimal (s_ustime s))) > strtoll (take 16 (decimal (s_ustime sender)))) \<and>
    \<not> fst (stripSyncHeader (c\<lparr>cl_argv := cachedCommand old sender\<rparr>) s2)"
proof -
  have m: "map cstr old = old" using assms(7) by (simp add: cstr_id map_idI)
  obtain x y r where old: "old = x # y # r"
    using assms(4) by (metis One_nat_def Suc_1 Suc_le_length_iff)
  define stamp where "stamp = take 16 (decimal (s_ustime sender))"
  have cached: "cachedCommand old sender = ''WANGEP'' # stamp # x # y # r"
    unfolding cachedCommand_def m stamp_def by (simp add: old)
  have y: "new ! 1 = y" "CHR 0x00 \<notin> set y" using assms(5,7) old by auto
  define s1 where "s1 = addCmdToCache new j s"
  define s2 where "s2 = broadcastCommandInHotGroup j s1"
  have st: "c_slot_status s1 j = (c_slot_status s j)\<lparr>ss_cached_op := dictReplace (ss_cached_op (c_slot_status s j)) y
        \<lparr>op_argv = cachedCommand new s\<rparr>, ss_cache_op_size := ss_cache_op_size (c_slot_status s j) + 1\<rparr>"
    using addCmdToCache_slot [OF assms(3), of j s] y cstr_id [of y] by (simp add: s1_def)
  have ok: "cacheOk (c_slot_status s1 j)" using addCmdToCache_ok [OF assms(1,3)] by (simp add: s1_def)
  have mem: "membersOk j s1"
    using assms(2,3) st by (simp add: membersOk_def s1_def addCmdToCache_def upd_slot_def live_def Let_def)
  have "c_slot_status s2 j = (c_slot_status s1 j)\<lparr>ss_cached_op := [],
      ss_cache_op_size := ss_cache_op_size (c_slot_status s1 j) - int (length (ss_cached_op (c_slot_status s1 j)))\<rparr>"
    using broadcastLoop_effect [OF ok mem refl] by (simp add: s2_def broadcastCommandInHotGroup_def)
  then have none: "dictFind (ss_cached_op (c_slot_status s2 j)) y = None" by (simp add: dictFind_def)
  have some: "dictFind (ss_cached_op (c_slot_status s1 j)) y = Some \<lparr>op_argv = cachedCommand new s\<rparr>"
    using assms(1) by (simp add: st cacheOk_def dictFind_dictReplace)
  have ts: "cachedCommand new s ! 1 = take 16 (decimal (s_ustime s))" by (simp add: cachedCommand_def)
  have j: "keyHashSlot y = j" using assms(6) old by simp
  show ?thesis
    unfolding Let_def s1_def [symmetric] s2_def [symmetric] cached
    using some none ts j
    by (simp add: stripSyncHeader_def stamp_def Let_def eval_nat_numeral split: option.split)
qed

theorem older_write_wins_after_broadcast_witness:
  "let j = keyHashSlot ''k''; s = (pair_cluster node_a zeroNode)\<lparr>s_ustime := 20\<rparr>;
       s2 = broadcastCommandInHotGroup j (addCmdToCache (set_k ''2'') j s) in
   \<not> fst (stripSyncHeader (get_client\<lparr>cl_argv := cachedCommand (set_k ''1'') (zeroServer\<lparr>s_ustime := 10\<rparr>)\<rparr>) s2)"
proof -
  let ?s = "(pair_cluster node_a zeroNode)\<lparr>s_ustime := 20\<rparr>"
  have z: "c_slot_status ?s j = zeroSlot" for j by (simp add: pair_cluster_def zeroServer_def)
  have h: "cacheOk (c_slot_status ?s j)" "membersOk j ?s" for j
    unfolding cacheOk_def membersOk_def z by (simp_all add: zeroSlot_def dictOk_def dictSize_def dictVals_def)
  have l: "2 \<le> length (set_k ''2'')" "2 \<le> length (set_k ''1'')" "set_k ''1'' ! 1 = set_k ''2'' ! 1"
    "keyHashSlot (set_k ''1'' ! 1) = keyHashSlot ''k''" "\<forall>x \<in> set (set_k ''1''). CHR 0x00 \<notin> set x"
    by (simp_all add: set_k_def)
  show ?thesis
    using older_write_wins_after_broadcast [OF h l, where c = get_client and sender = "zeroServer\<lparr>s_ustime := 10\<rparr>"] by (simp add: Let_def)
qed

end
