(* ===== verification/ClusterCommand.thy ===== *)
theory ClusterCommand
  imports NodesText Forward "HOL-Library.List_Lexorder" "HOL-Library.Char_ord"
begin

text \<open>
  The command CLUSTER (src/server/src/cluster.c, \<open>clusterCommand\<close>): one definition for each
  subcommand, and the dispatch on the first argument. A subcommand returns its replies and the
  new state; a command that fails after its first reply can have two replies. The values of the
  surroundings are parameters: \<open>plain\<close> (the client has a connection without TLS), \<open>norm_ip\<close> (the
  normal form of an address, None when it is invalid) and \<open>save_error\<close> (the error of writing the
  file, if any). The server runs with the cluster enabled, and clients use database 0, which is
  the only one a cluster has. The output to the terminal is left out.
\<close>

type_synonym outcome = "reply list \<times> redisServer"

definition isWord :: "string \<Rightarrow> string \<Rightarrow> bool" where
  "isWord arg w = strcaseeq (cstr arg) w"

definition ok_reply :: "redisServer \<Rightarrow> outcome" where
  "ok_reply s = ([shared_ok], s)"

definition error_reply :: "string \<Rightarrow> redisServer \<Rightarrow> outcome" where
  "error_reply msg s = ([RError msg], s)"

definition toupperc :: "char \<Rightarrow> char" where
  "toupperc ch = (if 97 \<le> (of_char ch :: nat) \<and> (of_char ch :: nat) \<le> 122 then char_of (of_char ch - 32 :: nat) else ch)"

section \<open>Help and unknown subcommands\<close>

definition clusterHelp :: "string list" where
  "clusterHelp =
    [''ADDSLOTS <slot> [<slot> ...]'',
     ''    Assign slots to current node.'',
     ''BUMPEPOCH'',
     ''    Advance the cluster config epoch.'',
     ''COUNT-FAILURE-REPORTS <node-id>'',
     ''    Return number of failure reports for <node-id>.'',
     ''COUNTKEYSINSLOT <slot>'',
     ''    Return the number of keys in <slot>.'',
     ''DELSLOTS <slot> [<slot> ...]'',
     ''    Delete slots information from current node.'',
     ''FAILOVER [FORCE|TAKEOVER]'',
     ''    Promote current replica node to being a master.'',
     ''FORGET <node-id>'',
     ''    Remove a node from the cluster.'',
     ''GETKEYSINSLOT <slot> <count>'',
     ''    Return key names stored by current node in a slot.'',
     ''FLUSHSLOTS'',
     ''    Delete current node own slots information.'',
     ''INFO'',
     ''    Return information about the cluster.'',
     ''KEYSLOT <key>'',
     ''    Return the hash slot for <key>.'',
     ''MEET <ip> <port> [<bus-port>]'',
     ''    Connect nodes into a working cluster.'',
     ''MYID'',
     ''    Return the node id.'',
     ''NODES'',
     ''    Return cluster configuration seen by node. Output format:'',
     ''    <id> <ip:port> <flags> <master> <pings> <pongs> <epoch> <link> <slot> ...'',
     ''REPLICATE <node-id>'',
     ''    Configure current node as replica to <node-id>.'',
     ''RESET [HARD|SOFT]'',
     ''    Reset current node (default: soft).'',
     ''SET-CONFIG-EPOCH <epoch>'',
     ''    Set config epoch of current node.'',
     ''SETSLOT <slot> (IMPORTING|MIGRATING|STABLE|NODE <node-id>)'',
     ''    Set slot state.'',
     ''SETALLSLOT (IMPORTING|MIGRATING|STABLE|NODE <node-id>)'',
     ''    Set all slot state.'',
     ''REPLICAS <node-id>'',
     ''    Return <node-id> replicas.'',
     ''SAVECONFIG'',
     ''    Force saving cluster configuration on disk.'',
     ''SLOTS'',
     ''    Return information about slots range mappings. Each range is made of:'',
     ''    start, end, master and replicas IP addresses, ports and ids'']"

definition addReplyHelp :: "string list \<Rightarrow> string list \<Rightarrow> redisServer \<Rightarrow> outcome" where
  "addReplyHelp argv help s =
     (let cmd = map toupperc (cstr (argv ! 0))
      in ([RArray (map RStatus ([cmd @ '' <subcommand> [<arg> [value] [opt] ...]. Subcommands are:''] @ help @
             [''HELP'', ''    Prints this help.'']))], s))"

definition addReplySubcommandSyntaxError :: "string list \<Rightarrow> redisServer \<Rightarrow> outcome" where
  "addReplySubcommandSyntaxError argv s =
     (let cmd = map toupperc (cstr (argv ! 0))
      in error_reply (''Unknown subcommand or wrong number of arguments for '' @ [CHR 0x27] @ cstr (argv ! 1) @
           [CHR 0x27] @ ''. Try '' @ cmd @ '' HELP.'') s)"

section \<open>Arguments\<close>

definition getSlotOrReply :: "string \<Rightarrow> reply + nat" where
  "getSlotOrReply arg =
     (case string2ll arg of
        None \<Rightarrow> Inl (RError ''Invalid or out of range slot'')
      | Some slot \<Rightarrow> if slot < 0 \<or> slot \<ge> int CLUSTER_SLOTS then Inl (RError ''Invalid or out of range slot'')
                     else Inr (nat slot))"

definition getLongLongFromObjectOrReply :: "string \<Rightarrow> reply + int" where
  "getLongLongFromObjectOrReply arg =
     (case string2ll arg of
        None \<Rightarrow> Inl (RError ''value is not an integer or out of range'')
      | Some v \<Rightarrow> Inr v)"

text \<open>An int parameter that gets a long long.\<close>

definition toInt :: "int \<Rightarrow> int" where
  "toInt v = sint (word_of_int v :: u32)"

section \<open>Modes of the hot groups\<close>

definition forwardWay :: "string \<Rightarrow> redisServer \<Rightarrow> outcome" where
  "forwardWay way s =
     (if isWord way ''avg'' then ([], s\<lparr>c_forward_time := False\<rparr>)
      else if isWord way ''skew'' then ([], s\<lparr>c_forward_time := True\<rparr>)
      else error_reply (''Invalid forward way: '' @ cstr way) s)"

definition clusterRunmode :: "string \<Rightarrow> string \<Rightarrow> redisServer \<Rightarrow> outcome" where
  "clusterRunmode sync_way way s =
     (let (rs, s1) =
        (if isWord sync_way ''no'' then forwardWay way (s\<lparr>c_is_sync := False, c_sync_time := False\<rparr>)
         else if isWord sync_way ''1s'' then forwardWay way (s\<lparr>c_is_sync := True, c_sync_time := True\<rparr>)
         else if isWord sync_way ''immd'' then forwardWay way (s\<lparr>c_is_sync := True, c_sync_time := False\<rparr>)
         else error_reply (''Invalid sync way: '' @ cstr sync_way) s)
      in (rs @ [shared_ok], s1))"

text \<open>After a failed \<open>getSlotOrReply\<close> the code goes on with the slot -1.\<close>

definition clusterHotgroup :: "string \<Rightarrow> string \<Rightarrow> redisServer \<Rightarrow> outcome" where
  "clusterHotgroup action slot_arg s =
     (case getSlotOrReply slot_arg of
        Inl e \<Rightarrow>
          (if isWord action ''add'' \<or> isWord action ''del''
           then ([e, RError ''error slot info''], panic_with OutOfBounds s)
           else ([e, RError ''error slot info'', RError ''Unknow cmd''], s))
      | Inr slot \<Rightarrow>
          let n = c_myself s in
          if isWord action ''add''
          then ok_reply (clusterBroadcastOwnAsHotInstance (int slot) 1 (clusterHotGroupAddNode n slot s))
          else if isWord action ''del''
          then
            let s1 = upd_slot slot (\<lambda>st. st\<lparr>ss_is_copied := False, ss_is_copying := False, ss_is_synced := False\<rparr>) s;
                s2 = (if ss_cache_op_size (c_slot_status s1 slot) > 0 then broadcastCommandInHotGroup slot s1 else s1)
            in ok_reply (clusterBroadcastOwnAsHotInstance (int slot) 2 (clusterHotGroupDelNode n slot s2))
          else error_reply ''Unknow cmd'' s)"

definition hginfoSlot :: "redisServer \<Rightarrow> nat \<Rightarrow> string" where
  "hginfoSlot s i =
     (if \<not> ss_is_copied (c_slot_status s i) then []
      else ''slot: '' @ decimal (int i) @ '', copy in '' @
           concat (map (\<lambda>p. n_ip (nd s p) @ '':'' @ decimal (n_port (nd s p)) @ '' '')
             (dictVals (ss_related_ins (c_slot_status s i)))) @ '';  '')"

definition clusterHginfo :: "redisServer \<Rightarrow> outcome" where
  "clusterHginfo s = ([RVerbatim (concat (map (hginfoSlot s) [0..<CLUSTER_SLOTS]))], s)"

definition slotList2str :: "redisServer \<Rightarrow> string" where
  "slotList2str s =
     concat (map (\<lambda>i. decimal (int i) @ ''_'' @ decimal (ss_dealed_ops (c_slot_status s i)) @ '','') [0..<CLUSTER_SLOTS])"

text \<open>The flag HG hides a node; the loop ends at the first hot one.\<close>

definition clusterInshot :: "redisServer \<Rightarrow> outcome" where
  "clusterInshot s =
     (let is_hot = list_ex (\<lambda>p. \<not> hasFlag (n_flags (nd s p)) CLUSTER_NODE_HG \<and> n_is_hot_instance (nd s p) = 1)
                     (dictVals (c_nodes s))
      in ([RVerbatim (decimal (if is_hot then 1 else 0))], s))"

text \<open>The six numbers of CLUSTER HOT, printed with six decimals by the code.\<close>

definition clusterHot :: "redisServer \<Rightarrow> outcome" where
  "clusterHot s =
     ([RReals (map (c_avg_hot_point s) [0, 1, 2] @ map (n_avg_slot_hot (me s)) [0, 1, 2])], s)"

section \<open>Meeting nodes\<close>

definition clusterMeet ::
  "(string \<Rightarrow> string option) \<Rightarrow> string \<Rightarrow> string \<Rightarrow> string option \<Rightarrow> redisServer \<Rightarrow> outcome" where
  "clusterMeet norm_ip ip port_arg cport_arg s =
     (case string2ll port_arg of
        None \<Rightarrow> error_reply (''Invalid TCP base port specified: '' @ cstr port_arg) s
      | Some port \<Rightarrow>
          (case (case cport_arg of None \<Rightarrow> Some (port + CLUSTER_PORT_INCR) | Some a \<Rightarrow> string2ll a) of
             None \<Rightarrow> error_reply (''Invalid TCP bus port specified: '' @ cstr (the cport_arg)) s
           | Some cport \<Rightarrow>
               (case clusterStartHandshake norm_ip (cstr ip) (toInt port) (toInt cport) s of
                  (Inl EINVAL, s1) \<Rightarrow>
                    error_reply (''Invalid node address specified: '' @ cstr ip @ '':'' @ cstr port_arg) s1
                | (_, s1) \<Rightarrow> ok_reply s1)))"

section \<open>Assigning slots\<close>

definition stateAndSave :: u32 where
  "stateAndSave = CLUSTER_TODO_UPDATE_STATE OR CLUSTER_TODO_SAVE_CONFIG"

definition clusterFlushslots :: "redisServer \<Rightarrow> outcome" where
  "clusterFlushslots s =
     (if s_db0 s \<noteq> [] then error_reply ''DB must be empty to perform CLUSTER FLUSHSLOTS.'' s
      else ok_reply (clusterDoBeforeSleep stateAndSave (snd (clusterDelNodeSlots (c_myself s) s))))"

text \<open>The check of the arguments; \<open>slots\<close> are those seen so far, each only once.\<close>

fun checkSlotArgs :: "bool \<Rightarrow> redisServer \<Rightarrow> string list \<Rightarrow> nat list \<Rightarrow> reply + nat list" where
  "checkSlotArgs del s [] slots = Inr slots"
| "checkSlotArgs del s (arg # args) slots =
     (case getSlotOrReply arg of
        Inl e \<Rightarrow> Inl e
      | Inr slot \<Rightarrow>
          if del \<and> c_slots s slot = None
          then Inl (RError (''Slot '' @ decimal (int slot) @ '' is already unassigned''))
          else if \<not> del \<and> c_slots s slot \<noteq> None
          then Inl (RError (''Slot '' @ decimal (int slot) @ '' is already busy''))
          else if slot \<in> set slots
          then Inl (RError (''Slot '' @ decimal (int slot) @ '' specified multiple times''))
          else checkSlotArgs del s args (slots @ [slot]))"

definition assignSlot :: "bool \<Rightarrow> nat list \<Rightarrow> nat \<Rightarrow> redisServer \<Rightarrow> redisServer" where
  "assignSlot del slots j s =
     (if j \<notin> set slots then s
      else
        let s1 = (if c_importing_slots_from s j \<noteq> None
                  then s\<lparr>c_importing_slots_from := (c_importing_slots_from s)(j := None)\<rparr> else s);
            (retval, s2) = (if del then clusterDelSlot j s1 else clusterAddSlot (c_myself s1) j s1)
        in serverAssert (retval = C_OK) s2)"

definition clusterAddDelSlots :: "bool \<Rightarrow> string list \<Rightarrow> redisServer \<Rightarrow> outcome" where
  "clusterAddDelSlots del args s =
     (case checkSlotArgs del s args [] of
        Inl e \<Rightarrow> ([e], s)
      | Inr slots \<Rightarrow>
          ok_reply (clusterDoBeforeSleep stateAndSave (fold (assignSlot del slots) [0..<CLUSTER_SLOTS] s)))"

section \<open>Moving slots\<close>

definition setSlotOwner :: "nid \<Rightarrow> nat \<Rightarrow> redisServer \<Rightarrow> redisServer" where
  "setSlotOwner n slot s = snd (clusterAddSlot n slot (snd (clusterDelSlot slot s)))"

definition setMigrating :: "nat \<Rightarrow> nid option \<Rightarrow> redisServer \<Rightarrow> redisServer" where
  "setMigrating slot n s = s\<lparr>c_migrating_slots_to := (c_migrating_slots_to s)(slot := n)\<rparr>"

definition setImporting :: "nat \<Rightarrow> nid option \<Rightarrow> redisServer \<Rightarrow> redisServer" where
  "setImporting slot n s = s\<lparr>c_importing_slots_from := (c_importing_slots_from s)(slot := n)\<rparr>"

definition allSlotsOf :: "nid \<Rightarrow> (nat \<Rightarrow> redisServer \<Rightarrow> redisServer) \<Rightarrow> redisServer \<Rightarrow> redisServer" where
  "allSlotsOf from f s =
     fold (\<lambda>slot s. if clusterNodeGetSlotBit from slot s then f slot s else s) [0..<CLUSTER_SLOTS] s"

definition setallslotNode :: "nid \<Rightarrow> nid \<Rightarrow> nat \<Rightarrow> redisServer \<Rightarrow> redisServer" where
  "setallslotNode from to slot s =
     (if \<not> clusterNodeGetSlotBit from slot s \<and> \<not> clusterNodeGetSlotBit to slot s then s
      else
        let s1 = (if c_migrating_slots_to s slot \<noteq> None then setMigrating slot None s else s);
            s2 = setSlotOwner to slot s1
        in if to = c_myself s2 \<and> c_importing_slots_from s2 slot \<noteq> None
           then setImporting slot None s2 else s2)"

definition clusterSetallslot :: "string \<Rightarrow> string \<Rightarrow> string \<Rightarrow> redisServer \<Rightarrow> outcome" where
  "clusterSetallslot action from_arg to_arg s =
     (if nodeIsSlave (me s) then error_reply ''Please use SETSLOT only with masters.'' s
      else case clusterLookupNode from_arg s of
        None \<Rightarrow> error_reply (''I don't know about node '' @ cstr from_arg) s
      | Some from \<Rightarrow>
          (case clusterLookupNode to_arg s of
             None \<Rightarrow> error_reply (''I don't know about node '' @ cstr to_arg) s
           | Some to \<Rightarrow>
               let finish = (\<lambda>s. ok_reply (clusterDoBeforeSleep stateAndSave s)) in
               if isWord action ''migrating''
               then finish (allSlotsOf from (\<lambda>slot. setMigrating slot (Some to)) s)
               else if isWord action ''importing''
               then finish (allSlotsOf from (\<lambda>slot. setImporting slot (Some from)) s)
               else if isWord action ''stable''
               then finish (allSlotsOf from (\<lambda>slot s. setMigrating slot None (setImporting slot None s)) s)
               else if isWord action ''node''
               then
                 let s1 = fold (setallslotNode from to) [0..<CLUSTER_SLOTS] s
                 in finish (if to = c_myself s1 then clusterBroadcastPong False s1 else s1)
               else error_reply
                 ''Invalid CLUSTER SETSLOT action or number of arguments. Try CLUSTER HELP'' s))"

definition setslotNode :: "nid \<Rightarrow> nat \<Rightarrow> redisServer \<Rightarrow> redisServer" where
  "setslotNode n slot s =
     (let s1 = (if countKeysInSlot slot s = 0 \<and> c_migrating_slots_to s slot \<noteq> None
                then setMigrating slot None s else s);
          s2 = setSlotOwner n slot s1
      in if n = c_myself s2 \<and> c_importing_slots_from s2 slot \<noteq> None
         then
           let s3 = snd (clusterBumpConfigEpochWithoutConsensus s2)
           in clusterBroadcastPong False (setImporting slot None s3)
         else s2)"

definition clusterSetslot :: "string list \<Rightarrow> redisServer \<Rightarrow> outcome" where
  "clusterSetslot argv s =
     (let argc = length argv;
          finish = (\<lambda>s. ok_reply (clusterDoBeforeSleep stateAndSave s)) in
      if nodeIsSlave (me s) then error_reply ''Please use SETSLOT only with masters.'' s
      else case getSlotOrReply (argv ! 2) of
        Inl e \<Rightarrow> ([e], s)
      | Inr slot \<Rightarrow>
          if isWord (argv ! 3) ''migrating'' \<and> argc = 5
          then if c_slots s slot \<noteq> Some (c_myself s)
               then error_reply (''I'm not the owner of hash slot '' @ decimal (int slot)) s
               else (case clusterLookupNode (argv ! 4) s of
                       None \<Rightarrow> error_reply (''I don't know about node '' @ cstr (argv ! 4)) s
                     | Some n \<Rightarrow> finish (setMigrating slot (Some n) s))
          else if isWord (argv ! 3) ''copying'' \<and> argc = 4
          then finish (upd_slot slot (\<lambda>st. st\<lparr>ss_have_copy := False, ss_is_copying := True, ss_is_copied := False\<rparr>) s)
          else if isWord (argv ! 3) ''fincopy'' \<and> argc = 4
          then finish (upd_slot slot (\<lambda>st. st\<lparr>ss_is_copying := False, ss_is_copied := True, ss_have_copy := True\<rparr>) s)
          else if isWord (argv ! 3) ''importing'' \<and> argc = 5
          then if c_slots s slot = Some (c_myself s)
               then error_reply (''I'm already the owner of hash slot '' @ decimal (int slot)) s
               else (case clusterLookupNode (argv ! 4) s of
                       None \<Rightarrow> error_reply (''I don't know about node '' @ cstr (argv ! 4)) s
                     | Some n \<Rightarrow> finish (setImporting slot (Some n) s))
          else if isWord (argv ! 3) ''stable'' \<and> argc = 4
          then finish (setMigrating slot None (setImporting slot None s))
          else if isWord (argv ! 3) ''node'' \<and> argc = 5
          then (case clusterLookupNode (argv ! 4) s of
                  None \<Rightarrow> error_reply (''Unknown node '' @ cstr (argv ! 4)) s
                | Some n \<Rightarrow> finish (setslotNode n slot s))
          else error_reply
                 ''Invalid CLUSTER SETSLOT action or number of arguments. Try CLUSTER HELP'' s)"

section \<open>Information\<close>

definition clusterBumpepoch :: "redisServer \<Rightarrow> outcome" where
  "clusterBumpepoch s =
     (let (retval, s1) = clusterBumpConfigEpochWithoutConsensus s
      in ([RStatus ((if retval = C_OK then ''BUMPED'' else ''STILL'') @ '' '' @
             decimal (uint (n_configEpoch (me s1))))], s1))"

text \<open>\<open>atoi\<close> of the argument indexes the table without a check; the owner can be NULL.\<close>

definition slotOwner :: "string \<Rightarrow> (nid \<Rightarrow> string) \<Rightarrow> redisServer \<Rightarrow> outcome" where
  "slotOwner arg f s =
     (let slot = atoi arg in
      if slot < 0 \<or> slot \<ge> int CLUSTER_SLOTS then ([], panic_with OutOfBounds s)
      else case c_slots s (nat slot) of
             None \<Rightarrow> ([], panic_with NullDeref s)
           | Some p \<Rightarrow> ([RVerbatim (f p)], s))"

definition clusterGetnodebyslot :: "string \<Rightarrow> redisServer \<Rightarrow> outcome" where
  "clusterGetnodebyslot arg s = slotOwner arg (\<lambda>p. cstr (n_name (nd s p))) s"

definition clusterGetipportbyslot :: "string \<Rightarrow> redisServer \<Rightarrow> outcome" where
  "clusterGetipportbyslot arg s = slotOwner arg (\<lambda>p. n_ip (nd s p) @ '' '' @ decimal (n_port (nd s p))) s"

definition clusterGetMessageTypeString :: "nat \<Rightarrow> string" where
  "clusterGetMessageTypeString type =
     (if type < 10
      then [''ping'', ''pong'', ''meet'', ''fail'', ''publish'', ''auth-req'', ''auth-ack'', ''update'',
            ''mfstart'', ''module''] ! type
      else ''unknown'')"

definition crlf :: string where "crlf = [CHR 0x0D, CHR 0x0A]"

definition countSlots :: "(nid \<Rightarrow> bool) \<Rightarrow> redisServer \<Rightarrow> nat" where
  "countSlots P s =
     length (filter (\<lambda>j. case c_slots s j of None \<Rightarrow> False | Some p \<Rightarrow> P p) [0..<CLUSTER_SLOTS])"

definition statsText :: "string \<Rightarrow> (nat \<Rightarrow> int) \<Rightarrow> string" where
  "statsText what stats =
     concat (map (\<lambda>i. ''cluster_stats_messages_'' @ clusterGetMessageTypeString i @ ''_'' @ what @ '':'' @
                    decimal (stats i) @ crlf)
              (filter (\<lambda>i. stats i \<noteq> 0) [0..<unat CLUSTERMSG_TYPE_COUNT])) @
     ''cluster_stats_messages_'' @ what @ '':'' @
     decimal (sum_list (map stats (filter (\<lambda>i. stats i \<noteq> 0) [0..<unat CLUSTERMSG_TYPE_COUNT]))) @ crlf"

definition clusterInfo :: "redisServer \<Rightarrow> outcome" where
  "clusterInfo s =
     (let assigned = countSlots (\<lambda>_. True) s;
          slots_fail = countSlots (\<lambda>p. nodeFailed (nd s p)) s;
          slots_pfail = countSlots (\<lambda>p. \<not> nodeFailed (nd s p) \<and> nodeTimedOut (nd s p)) s;
          slots_ok = countSlots (\<lambda>p. \<not> nodeFailed (nd s p) \<and> \<not> nodeTimedOut (nd s p)) s;
          myepoch = (case n_slaveof (me s) of
                       Some m \<Rightarrow> if nodeIsSlave (me s) then n_configEpoch (nd s m) else n_configEpoch (me s)
                     | None \<Rightarrow> n_configEpoch (me s))
      in ([RVerbatim
            (''cluster_state:'' @ (case c_state s of CLUSTER_OK \<Rightarrow> ''ok'' | CLUSTER_FAIL \<Rightarrow> ''fail'') @ crlf @
             ''cluster_slots_assigned:'' @ decimal (int assigned) @ crlf @
             ''cluster_slots_ok:'' @ decimal (int slots_ok) @ crlf @
             ''cluster_slots_pfail:'' @ decimal (int slots_pfail) @ crlf @
             ''cluster_slots_fail:'' @ decimal (int slots_fail) @ crlf @
             ''cluster_known_nodes:'' @ decimal (int (dictSize (c_nodes s))) @ crlf @
             ''cluster_size:'' @ decimal (c_size s) @ crlf @
             ''cluster_current_epoch:'' @ decimal (uint (c_currentEpoch s)) @ crlf @
             ''cluster_my_epoch:'' @ decimal (uint myepoch) @ crlf @
             statsText ''sent'' (c_stats_sent s) @ statsText ''received'' (c_stats_received s))], s))"

section \<open>Keys of a slot\<close>

text \<open>The keys of a slot in the order of the radix tree, which is the order of their bytes.\<close>

definition slotKeys :: "nat \<Rightarrow> redisServer \<Rightarrow> string list" where
  "slotKeys slot s = sort (filter (\<lambda>k. keyHashSlot k = slot) (s_db0 s))"

definition getKeysInSlot :: "nat \<Rightarrow> u32 \<Rightarrow> u32 \<Rightarrow> redisServer \<Rightarrow> string list" where
  "getKeysInSlot slot count based s = take (unat count) (drop (unat based) (slotKeys slot s))"

definition clusterCountkeysinslot :: "string \<Rightarrow> redisServer \<Rightarrow> outcome" where
  "clusterCountkeysinslot arg s =
     (case getLongLongFromObjectOrReply arg of
        Inl e \<Rightarrow> ([e], s)
      | Inr slot \<Rightarrow> if slot < 0 \<or> slot \<ge> int CLUSTER_SLOTS then error_reply ''Invalid slot'' s
                     else ([RInt (int (countKeysInSlot (nat slot) s))], s))"

definition clusterGetkeysinslot :: "string list \<Rightarrow> redisServer \<Rightarrow> outcome" where
  "clusterGetkeysinslot argv s =
     (case getLongLongFromObjectOrReply (argv ! 2) of
        Inl e \<Rightarrow> ([e], s)
      | Inr slot \<Rightarrow>
          (case getLongLongFromObjectOrReply (argv ! 3) of
             Inl e \<Rightarrow> ([e], s)
           | Inr maxkeys \<Rightarrow>
               (case (if length argv = 5 then getLongLongFromObjectOrReply (argv ! 4) else Inr 0) of
                  Inl e \<Rightarrow> ([e], s)
                | Inr offset \<Rightarrow>
                    if slot < 0 \<or> slot \<ge> int CLUSTER_SLOTS \<or> maxkeys < 0
                    then error_reply ''Invalid slot or number of keys'' s
                    else
                      let keys_in_slot = int (countKeysInSlot (nat slot) s);
                          count = (if maxkeys > keys_in_slot then keys_in_slot else maxkeys);
                          keys = getKeysInSlot (nat slot) (word_of_int count) (word_of_int offset) s
                      in ([RArray (map RBulk keys)], s))))"

section \<open>Nodes and roles\<close>

definition clusterForget :: "string \<Rightarrow> redisServer \<Rightarrow> outcome" where
  "clusterForget arg s =
     (case clusterLookupNode arg s of
        None \<Rightarrow> error_reply (''Unknown node '' @ cstr arg) s
      | Some n \<Rightarrow>
          if n = c_myself s then error_reply ''I tried hard but I can't forget myself...'' s
          else if nodeIsSlave (me s) \<and> n_slaveof (me s) = Some n
          then error_reply ''Can't forget my master!'' s
          else ok_reply (clusterDoBeforeSleep stateAndSave (clusterDelNode n (clusterBlacklistAddNode n s))))"

definition clusterReplicate :: "string \<Rightarrow> redisServer \<Rightarrow> outcome" where
  "clusterReplicate arg s =
     (case clusterLookupNode arg s of
        None \<Rightarrow> error_reply (''Unknown node '' @ cstr arg) s
      | Some n \<Rightarrow>
          if n = c_myself s then error_reply ''Can't replicate myself'' s
          else if nodeIsSlave (nd s n) then error_reply ''I can only replicate a master, not a replica.'' s
          else if nodeIsMaster (me s) \<and> (n_numslots (me s) \<noteq> 0 \<or> s_db0 s \<noteq> [])
          then error_reply ''To set a master the node must be empty and without assigned slots.'' s
          else ok_reply (clusterDoBeforeSleep stateAndSave (clusterSetMaster n s)))"

definition clusterReplicas :: "bool \<Rightarrow> string \<Rightarrow> redisServer \<Rightarrow> outcome" where
  "clusterReplicas plain arg s =
     (case clusterLookupNode arg s of
        None \<Rightarrow> error_reply (''Unknown node '' @ cstr arg) s
      | Some n \<Rightarrow>
          if nodeIsSlave (nd s n) then error_reply ''The specified node is not a master'' s
          else ([RArray (map (\<lambda>q. RBulk (clusterGenNodeDescription None q (s_tls_cluster s \<and> plain) s))
                          (n_slaves (nd s n)))], s))"

definition clusterCountFailureReports :: "string \<Rightarrow> redisServer \<Rightarrow> outcome" where
  "clusterCountFailureReports arg s =
     (case clusterLookupNode arg s of
        None \<Rightarrow> error_reply (''Unknown node '' @ cstr arg) s
      | Some n \<Rightarrow> (let (k, s1) = clusterNodeFailureReportsCount n s in ([RInt k], s1)))"

definition clusterFailover :: "string option \<Rightarrow> redisServer \<Rightarrow> outcome" where
  "clusterFailover option s =
     (let takeover = (case option of None \<Rightarrow> False | Some a \<Rightarrow> isWord a ''takeover'');
          force = (case option of None \<Rightarrow> False | Some a \<Rightarrow> isWord a ''force'' \<or> isWord a ''takeover'')
      in if option \<noteq> None \<and> \<not> force then error_reply ''syntax error'' s
         else if nodeIsMaster (me s) then error_reply ''You should send CLUSTER FAILOVER to a replica'' s
         else case n_slaveof (me s) of
           None \<Rightarrow> error_reply ''I'm a replica but my master is unknown to me'' s
         | Some m \<Rightarrow>
             if \<not> force \<and> (nodeFailed (nd s m) \<or> n_link (nd s m) = None)
             then error_reply ''Master is down or failed, please use CLUSTER FAILOVER FORCE'' s
             else
               let s1 = (resetManualFailover s)\<lparr>c_mf_end := s_mstime s + CLUSTER_MF_TIMEOUT\<rparr>
               in ok_reply
                    (if takeover then clusterFailoverReplaceYourMaster (snd (clusterBumpConfigEpochWithoutConsensus s1))
                     else if force then s1\<lparr>c_mf_can_start := True\<rparr>
                     else clusterSendMFStart m s1))"

definition clusterSetConfigEpoch :: "string \<Rightarrow> redisServer \<Rightarrow> outcome" where
  "clusterSetConfigEpoch arg s =
     (case getLongLongFromObjectOrReply arg of
        Inl e \<Rightarrow> ([e], s)
      | Inr epoch \<Rightarrow>
          if epoch < 0 then error_reply (''Invalid config epoch specified: '' @ decimal epoch) s
          else if dictSize (c_nodes s) > 1
          then error_reply ''The user can assign a config epoch only when the node does not know any other node.'' s
          else if n_configEpoch (me s) \<noteq> 0 then error_reply ''Node config epoch is already non-zero'' s
          else
            let e = word_of_int epoch;
                s1 = set_my_epoch e s;
                s2 = (if c_currentEpoch s1 < e then s1\<lparr>c_currentEpoch := e\<rparr> else s1)
            in ok_reply (clusterDoBeforeSleep stateAndSave s2))"

definition clusterResetCommand :: "string option \<Rightarrow> redisServer \<Rightarrow> outcome" where
  "clusterResetCommand option s =
     (if option \<noteq> None \<and> \<not> isWord (the option) ''hard'' \<and> \<not> isWord (the option) ''soft''
      then error_reply ''syntax error'' s
      else if nodeIsMaster (me s) \<and> s_db0 s \<noteq> []
      then error_reply ''CLUSTER RESET can't be called with master nodes containing keys'' s
      else ok_reply (clusterReset (option \<noteq> None \<and> isWord (the option) ''hard'') s))"

section \<open>Saving\<close>

text \<open>A failure before the flag of the fsync is cleared, a failed fsync, or success.\<close>

datatype saveFault = WriteFails string | FsyncFails string

definition clusterSaveConfig :: "saveFault option \<Rightarrow> bool \<Rightarrow> redisServer \<Rightarrow> int \<times> redisServer" where
  "clusterSaveConfig fault do_fsync s =
     (let s1 = s\<lparr>c_todo_before_sleep := c_todo_before_sleep s AND NOT CLUSTER_TODO_SAVE_CONFIG\<rparr>;
          s2 = (if do_fsync
                then s1\<lparr>c_todo_before_sleep := c_todo_before_sleep s1 AND NOT CLUSTER_TODO_FSYNC_CONFIG\<rparr>
                else s1)
      in case fault of
           Some (WriteFails _) \<Rightarrow> (- 1, s1)
         | Some (FsyncFails _) \<Rightarrow> if do_fsync then (- 1, s2) else (0, emit (EvSaveConfig do_fsync) s2)
         | None \<Rightarrow> (0, emit (EvSaveConfig do_fsync) s2))"

definition faultText :: "saveFault option \<Rightarrow> string" where
  "faultText fault = (case fault of Some (WriteFails e) \<Rightarrow> e | Some (FsyncFails e) \<Rightarrow> e | None \<Rightarrow> [])"

definition clusterSaveconfigCommand :: "saveFault option \<Rightarrow> redisServer \<Rightarrow> outcome" where
  "clusterSaveconfigCommand fault s =
     (let (retval, s1) = clusterSaveConfig fault True s
      in if retval = 0 then ok_reply s1
         else error_reply (''error saving the cluster node config: '' @ faultText fault) s1)"

section \<open>The command\<close>

definition clusterCommand ::
  "bool \<Rightarrow> (string \<Rightarrow> string option) \<Rightarrow> saveFault option \<Rightarrow> string list \<Rightarrow> redisServer \<Rightarrow> outcome" where
  "clusterCommand plain norm_ip fault argv s =
     (let argc = length argv; sub = isWord (argv ! 1) in
      if argc = 2 \<and> sub ''help'' then addReplyHelp argv clusterHelp s
      else if sub ''runmode'' \<and> argc = 4 then clusterRunmode (argv ! 2) (argv ! 3) s
      else if sub ''meet'' \<and> (argc = 4 \<or> argc = 5)
      then clusterMeet norm_ip (argv ! 2) (argv ! 3) (if argc = 5 then Some (argv ! 4) else None) s
      else if sub ''hotgroup'' \<and> argc = 4 then clusterHotgroup (argv ! 2) (argv ! 3) s
      else if sub ''hginfo'' \<and> argc = 2 then clusterHginfo s
      else if sub ''nodes'' \<and> argc = 2
      then ([RVerbatim (clusterGenNodesDescription 0 (s_tls_cluster s \<and> plain) s)], s)
      else if sub ''myid'' \<and> argc = 2 then ([RBulk (take CLUSTER_NAMELEN (n_name (me s)))], s)
      else if sub ''slots'' \<and> argc = 2 then ([clusterReplyMultiBulkSlots plain s], s)
      else if sub ''flushslots'' \<and> argc = 2 then clusterFlushslots s
      else if (sub ''addslots'' \<or> sub ''delslots'') \<and> argc \<ge> 3
      then clusterAddDelSlots (sub ''delslots'') (drop 2 argv) s
      else if sub ''setallslot'' \<and> argc = 5 then clusterSetallslot (argv ! 2) (argv ! 3) (argv ! 4) s
      else if sub ''setslot'' \<and> argc \<ge> 4 then clusterSetslot argv s
      else if sub ''bumpepoch'' \<and> argc = 2 then clusterBumpepoch s
      else if sub ''slot'' \<and> argc = 2 then ([RVerbatim (''dealed_slots '' @ slotList2str s)], s)
      else if sub ''getnodebyslot'' \<and> argc = 3 then clusterGetnodebyslot (argv ! 2) s
      else if sub ''getipportbyslot'' \<and> argc = 3 then clusterGetipportbyslot (argv ! 2) s
      else if sub ''debug'' then ok_reply s
      else if sub ''inshot'' then clusterInshot s
      else if sub ''hot'' \<and> argc = 2 then clusterHot s
      else if sub ''info'' \<and> argc = 2 then clusterInfo s
      else if sub ''saveconfig'' \<and> argc = 2 then clusterSaveconfigCommand fault s
      else if sub ''keyslot'' \<and> argc = 3 then ([RInt (int (keyHashSlot (argv ! 2)))], s)
      else if sub ''countkeysinslot'' \<and> argc = 3 then clusterCountkeysinslot (argv ! 2) s
      else if sub ''getkeysinslot'' \<and> argc \<ge> 4 then clusterGetkeysinslot argv s
      else if sub ''forget'' \<and> argc = 3 then clusterForget (argv ! 2) s
      else if sub ''replicate'' \<and> argc = 3 then clusterReplicate (argv ! 2) s
      else if (sub ''slaves'' \<or> sub ''replicas'') \<and> argc = 3 then clusterReplicas plain (argv ! 2) s
      else if sub ''count-failure-reports'' \<and> argc = 3 then clusterCountFailureReports (argv ! 2) s
      else if sub ''failover'' \<and> (argc = 2 \<or> argc = 3)
      then clusterFailover (if argc = 3 then Some (argv ! 2) else None) s
      else if sub ''set-config-epoch'' \<and> argc = 3 then clusterSetConfigEpoch (argv ! 2) s
      else if sub ''reset'' \<and> (argc = 2 \<or> argc = 3)
      then clusterResetCommand (if argc = 3 then Some (argv ! 2) else None) s
      else addReplySubcommandSyntaxError argv s)"

section \<open>The command keeps the tables\<close>

lemma slot_setting_frames [frame_simps]:
  "core (setMigrating j n s) = core s" "core (setImporting j n s) = core s" "core (upd_slot j g s) = core s"
  by (simp_all add: setMigrating_def setImporting_def upd_slot_def frame_simps)

lemma ok_frames [simp]:
  "cluster_ok (setMigrating j n s) = cluster_ok s" "cluster_ok (setImporting j n s) = cluster_ok s"
  "cluster_ok (upd_slot j g s) = cluster_ok s" "cluster_ok (clusterDoBeforeSleep w s) = cluster_ok s"
  "cluster_ok (serverAssert b s) = cluster_ok s" "cluster_ok (clusterBroadcastPong b s) = cluster_ok s"
  "cluster_ok (snd (clusterBumpConfigEpochWithoutConsensus s)) = cluster_ok s"
  "cluster_ok (s\<lparr>c_importing_slots_from := m\<rparr>) = cluster_ok s"
  by (rule cluster_ok_core, simp add: frame_simps)+

lemma live_frames [simp]:
  "live (setMigrating j n s) = live s" "live (setImporting j n s) = live s" "live (clusterDoBeforeSleep w s) = live s"
  "live (s\<lparr>c_importing_slots_from := m\<rparr>) = live s"
  by (rule live_core, simp add: frame_simps)+

lemma hotgroup_frames [frame_simps]:
  "core (clusterHotGroupAddNode p j s) = core s" "core (clusterHotGroupDelNode p j s) = core s"
  by (simp_all add: clusterHotGroupAddNode_def clusterHotGroupDelNode_def frame_simps Let_def)

lemma command_frames [frame_simps]:
  "core (snd (ok_reply s)) = core s" "core (snd (error_reply msg s)) = core s"
  "core (snd (forwardWay b s)) = core s" "core (snd (clusterRunmode a b s)) = core s"
  "core (snd (clusterHotgroup a b s)) = core s" "core (snd (clusterHginfo s)) = core s"
  "core (snd (clusterInshot s)) = core s" "core (snd (clusterHot s)) = core s"
  "core (snd (clusterInfo s)) = core s" "core (snd (clusterBumpepoch s)) = core s"
  "core (snd (slotOwner arg f s)) = core s" "core (snd (clusterCountkeysinslot arg s)) = core s"
  "core (snd (clusterGetkeysinslot argv s)) = core s" "core (snd (clusterReplicate arg s)) = core s"
  "core (snd (clusterReplicas plain arg s)) = core s" "core (snd (clusterCountFailureReports arg s)) = core s"
  "core (snd (clusterSetConfigEpoch arg s)) = core s" "core (snd (clusterSaveConfig fault b' s)) = core s"
  "core (snd (clusterSaveconfigCommand fault s)) = core s"
  "core (snd (addReplyHelp argv help s)) = core s" "core (snd (addReplySubcommandSyntaxError argv s)) = core s"
proof -
  show r [frame_simps]: "core (snd (ok_reply s)) = core s" "core (snd (error_reply msg s)) = core s" for s msg
    by (simp_all add: ok_reply_def error_reply_def)
  show fw: "core (snd (forwardWay b s)) = core s" for s b
    by (simp add: forwardWay_def frame_simps)
  show "core (snd (clusterRunmode a b s)) = core s"
    by (simp add: clusterRunmode_def split_def Let_def frame_simps fw)
  show "core (snd (clusterHotgroup a b s)) = core s"
    by (simp add: clusterHotgroup_def Let_def frame_simps split: sum.split)
  show "core (snd (clusterHginfo s)) = core s" "core (snd (clusterInshot s)) = core s"
    "core (snd (clusterHot s)) = core s" "core (snd (clusterInfo s)) = core s"
    by (simp_all add: clusterHginfo_def clusterInshot_def clusterHot_def clusterInfo_def Let_def)
  show "core (snd (clusterBumpepoch s)) = core s"
    by (simp add: clusterBumpepoch_def split_def Let_def frame_simps)
  show "core (snd (slotOwner arg f s)) = core s"
    by (simp add: slotOwner_def Let_def frame_simps split: option.split)
  show "core (snd (clusterCountkeysinslot arg s)) = core s" "core (snd (clusterGetkeysinslot argv s)) = core s"
    by (simp_all add: clusterCountkeysinslot_def clusterGetkeysinslot_def Let_def frame_simps split: sum.split)
  show "core (snd (clusterReplicate arg s)) = core s" "core (snd (clusterReplicas plain arg s)) = core s"
    "core (snd (clusterCountFailureReports arg s)) = core s"
    by (simp_all add: clusterReplicate_def clusterReplicas_def clusterCountFailureReports_def split_def Let_def frame_simps
        split: option.split)
  show "core (snd (clusterSetConfigEpoch arg s)) = core s"
    by (simp add: clusterSetConfigEpoch_def Let_def frame_simps split: sum.split)
  show sv: "core (snd (clusterSaveConfig fault b' s)) = core s" for b' s
    by (simp add: clusterSaveConfig_def Let_def frame_simps split: option.split saveFault.split)
  show "core (snd (clusterSaveconfigCommand fault s)) = core s"
    by (simp add: clusterSaveconfigCommand_def split_def Let_def frame_simps sv)
  show "core (snd (addReplyHelp argv help s)) = core s" "core (snd (addReplySubcommandSyntaxError argv s)) = core s"
    by (simp_all add: addReplyHelp_def addReplySubcommandSyntaxError_def frame_simps Let_def)
qed

lemma my_live: "cluster_ok s \<Longrightarrow> c_myself s \<in> live s"
  by (simp add: cluster_ok_def names_ok_def)

lemma assignSlot_ok:
  assumes "cluster_ok s" and "j < CLUSTER_SLOTS"
  shows "cluster_ok (assignSlot del slots j s)"
  using assms my_live [OF assms(1)]
  by (simp add: assignSlot_def split_def Let_def clusterAddSlot_ok clusterDelSlot_ok)

lemma setSlotOwner_ok:
  "cluster_ok s \<Longrightarrow> n \<in> live s \<Longrightarrow> j < CLUSTER_SLOTS \<Longrightarrow> cluster_ok (setSlotOwner n j s)"
  by (simp add: setSlotOwner_def clusterAddSlot_ok clusterDelSlot_ok)

lemma live_setSlotOwner [simp]: "live (setSlotOwner n j s) = live s" "c_myself (setSlotOwner n j s) = c_myself s"
  by (simp_all add: setSlotOwner_def)

lemma allSlotsOf_core:
  assumes "\<And>j s. core (f j s) = core s" shows "core (allSlotsOf from f s) = core s"
  unfolding allSlotsOf_def by (rule fold_keeps_field [where g = core]) (simp add: assms)

lemma setallslotNode_ok:
  assumes "cluster_ok s" and "to \<in> live s" and "j < CLUSTER_SLOTS"
  shows "cluster_ok (setallslotNode from to j s) \<and> live (setallslotNode from to j s) = live s"
  using assms setSlotOwner_ok [OF assms] setSlotOwner_ok [of "setMigrating j None s" to j]
  by (auto simp: setallslotNode_def Let_def)

lemma setallslotNodes_ok:
  assumes "cluster_ok s" and "to \<in> live s"
  shows "cluster_ok (fold (setallslotNode from to) [0..<CLUSTER_SLOTS] s)"
proof -
  have "cluster_ok (fold (setallslotNode from to) [0..<CLUSTER_SLOTS] s) \<and>
    to \<in> live (fold (setallslotNode from to) [0..<CLUSTER_SLOTS] s)"
    by (rule fold_preserves) (use assms setallslotNode_ok in auto)
  then show ?thesis ..
qed

lemma setslotNode_ok:
  assumes "cluster_ok s" and "n \<in> live s" and "j < CLUSTER_SLOTS"
  shows "cluster_ok (setslotNode n j s)"
  using assms setSlotOwner_ok [OF assms] setSlotOwner_ok [of "setMigrating j None s" n j]
  by (auto simp: setslotNode_def Let_def)


lemma slotArg_bound: "getSlotOrReply arg = Inr slot \<Longrightarrow> slot < CLUSTER_SLOTS"
  by (auto simp: getSlotOrReply_def split: option.splits if_splits)

lemma replies_ok [simp]:
  "cluster_ok (snd (ok_reply s)) = cluster_ok s" "cluster_ok (snd (error_reply msg s)) = cluster_ok s"
  by (simp_all add: ok_reply_def error_reply_def)

lemma clusterSetslot_ok: "cluster_ok s \<Longrightarrow> cluster_ok (snd (clusterSetslot argv s))"
  by (auto simp: clusterSetslot_def Let_def setslotNode_ok slotArg_bound lookup_live split: sum.split option.split)

lemma allSlotsOf_ok [simp]:
  "cluster_ok (allSlotsOf from (\<lambda>slot. setMigrating slot n) s) = cluster_ok s"
  "cluster_ok (allSlotsOf from (\<lambda>slot. setImporting slot n) s) = cluster_ok s"
  "cluster_ok (allSlotsOf from (\<lambda>slot s. setMigrating slot n (setImporting slot m s)) s) = cluster_ok s"
  by (rule cluster_ok_core, rule allSlotsOf_core, simp add: frame_simps)+

lemma clusterSetallslot_ok: "cluster_ok s \<Longrightarrow> cluster_ok (snd (clusterSetallslot action from_arg to_arg s))"
  by (auto simp: clusterSetallslot_def Let_def setallslotNodes_ok lookup_live split: option.split)

lemma assignSlots_ok: "cluster_ok s \<Longrightarrow> cluster_ok (fold (assignSlot del slots) [0..<CLUSTER_SLOTS] s)"
  by (rule fold_preserves [where P = cluster_ok]) (simp_all add: assignSlot_ok)

lemma clusterAddDelSlots_ok: "cluster_ok s \<Longrightarrow> cluster_ok (snd (clusterAddDelSlots del args s))"
  by (simp add: clusterAddDelSlots_def assignSlots_ok split: sum.split)

lemma clusterFlushslots_ok: "cluster_ok s \<Longrightarrow> cluster_ok (snd (clusterFlushslots s))"
  by (simp add: clusterFlushslots_def clusterDelNodeSlots_ok)

lemma clusterMeet_ok: "cluster_ok s \<Longrightarrow> cluster_ok (snd (clusterMeet norm_ip ip a b s))"
  using clusterStartHandshake_ok [of s norm_ip]
  by (auto simp: clusterMeet_def split: option.split prod.split sum.split errno.split) (metis snd_conv)+

lemma clusterForget_ok:
  assumes "cluster_ok s" shows "cluster_ok (snd (clusterForget arg s))"
proof -
  have c: "core (clusterBlacklistAddNode n s) = core s" for n by (simp add: frame_simps)
  have "cluster_ok (clusterDelNode n (clusterBlacklistAddNode n s))" if "n \<in> live s" "n \<noteq> c_myself s" for n
    using clusterDelNode_ok(1) [of "clusterBlacklistAddNode n s" n] cluster_ok_keep [OF assms c] live_core [OF c] c that
    by (simp add: core_def)
  then show ?thesis using assms by (auto simp: clusterForget_def lookup_live split: option.split)
qed

lemma clusterFailover_ok: "cluster_ok s \<Longrightarrow> cluster_ok (snd (clusterFailover opt s))"
proof -
  assume ok: "cluster_ok s"
  define s1 where "s1 = (resetManualFailover s)\<lparr>c_mf_end := s_mstime s + CLUSTER_MF_TIMEOUT\<rparr>"
  have c: "core s1 = core s" by (simp add: s1_def frame_simps)
  have "cluster_ok (clusterFailoverReplaceYourMaster (snd (clusterBumpConfigEpochWithoutConsensus s1)))"
    by (rule failover_ok) (simp add: cluster_ok_keep [OF ok c])
  moreover have "cluster_ok (s1\<lparr>c_mf_can_start := True\<rparr>)" "cluster_ok (clusterSendMFStart m s1)" for m
    by (rule cluster_ok_keep [OF ok], simp add: frame_simps c)+
  ultimately show ?thesis
    using ok by (simp add: clusterFailover_def Let_def s1_def [symmetric] split: option.split)
qed

lemma clusterReset_ok:
  assumes ok: "cluster_ok s" shows "cluster_ok (clusterReset hard s)"
proof -
  define s2 where "s2 = resetManualFailover (clusterCloseAllSlots (turnMaster s))"
  define s3 where "s3 = fold (\<lambda>j s. snd (clusterDelSlot j s)) [0..<CLUSTER_SLOTS] s2"
  define s4 where "s4 = fold (\<lambda>p s. if p = c_myself s then s else clusterDelNode p s) (dictVals (c_nodes s3)) s3"
  have c2: "core s2 = core s" by (simp add: s2_def frame_simps turnMaster_core)
  have ok2: "cluster_ok s2" by (rule cluster_ok_keep [OF ok c2])
  note del = delSlots_all [OF ok2, of "[0..<CLUSTER_SLOTS]", folded s3_def, simplified]
  have vals: "set (dictVals (c_nodes s3)) \<subseteq> live s3" "distinct (dictVals (c_nodes s3))"
    using del(1) names_ok_distinct by (auto simp: live_def cluster_ok_def)
  note nodes = clusterDelNodes [OF del(1) vals, folded s4_def]
  have alone: "live s4 = {c_myself s4}"
    using nodes(1,2,3) my_live [OF nodes(1)] by (auto simp: live_def)
  note h = hard_reset_prepare [OF nodes(1)]
  have "cluster_ok (rekeyMyself (set_my_epoch 0 (s4\<lparr>c_currentEpoch := 0, c_lastVoteEpoch := 0\<rparr>)))"
    by (rule rekeyMyself_effect(1) [OF h(1)]) (use h(2,3) alone in simp)
  moreover have "clusterReset hard s = clusterDoBeforeSleep
      (CLUSTER_TODO_SAVE_CONFIG OR CLUSTER_TODO_UPDATE_STATE OR CLUSTER_TODO_FSYNC_CONFIG)
      (if hard then rekeyMyself (set_my_epoch 0 (s4\<lparr>c_currentEpoch := 0, c_lastVoteEpoch := 0\<rparr>)) else s4)"
    unfolding clusterReset_def Let_def turnMaster_def [symmetric] s2_def [symmetric]
      s3_def [symmetric] s4_def [symmetric] rekeyMyself_def by simp
  ultimately show ?thesis using nodes(1) by simp
qed

lemma clusterResetCommand_ok: "cluster_ok s \<Longrightarrow> cluster_ok (snd (clusterResetCommand opt s))"
  by (simp add: clusterResetCommand_def clusterReset_ok)

lemma if_ok: "cluster_ok (snd x) \<Longrightarrow> cluster_ok (snd y) \<Longrightarrow> cluster_ok (snd (if c then x else y))"
  by simp

lemmas command_oks = command_frames [THEN cluster_ok_core]

lemma clusterCommand_ok:
  assumes "cluster_ok s"
  shows "cluster_ok (snd (clusterCommand plain norm_ip fault argv s))"
  unfolding clusterCommand_def Let_def
  by (intro if_ok)
    (simp_all add: assms command_oks clusterMeet_ok clusterFlushslots_ok clusterAddDelSlots_ok clusterSetallslot_ok
      clusterSetslot_ok clusterGetnodebyslot_def clusterGetipportbyslot_def clusterForget_ok clusterFailover_ok
      clusterResetCommand_ok)

text \<open>
  C17. No subcommand of CLUSTER breaks the node and slot tables, whatever its arguments are: not
  when it assigns, moves or releases slots, not when it meets, forgets or replicates nodes, not when
  a manual takeover or a reset runs, and not when it fails.
\<close>

theorem cluster_command_keeps_tables:
  assumes "cluster_ok s"
  shows "cluster_ok (snd (clusterCommand plain norm_ip fault argv s))"
  using assms by (rule clusterCommand_ok)

theorem cluster_command_keeps_tables_witness:
  "cluster_ok (snd (clusterCommand True (\<lambda>_. None) None
     [''CLUSTER'', ''setallslot'', ''node'', nameB, nameA] (pair_cluster node_a zeroNode)))"
  by (rule cluster_command_keeps_tables [OF pair_zero_ok])

section \<open>Replies\<close>

text \<open>An error that is the only reply comes with the old state.\<close>

definition harmless :: "redisServer \<Rightarrow> outcome \<Rightarrow> bool" where
  "harmless s r \<longleftrightarrow> (\<forall>msg s'. r = ([RError msg], s') \<longrightarrow> s' = s)"

lemma if_harmless: "harmless s x \<Longrightarrow> harmless s y \<Longrightarrow> harmless s (if c then x else y)"
  by simp

lemma harmless_basic [simp]:
  "harmless s (ok_reply s')" "harmless s (error_reply msg s)" "harmless s ([e], s)"
  "harmless s ([], s')" "harmless s (e1 # e2 # es, s')" "harmless s ([RInt k], s')" "harmless s ([RStatus t], s')"
  by (simp_all add: harmless_def ok_reply_def error_reply_def shared_ok_def)

lemma harmless_commands:
  "harmless s (addReplyHelp argv help s)" "harmless s (addReplySubcommandSyntaxError argv s)"
  "harmless s (clusterRunmode a b s)" "harmless s (clusterHotgroup a b s)" "harmless s (clusterHginfo s)"
  "harmless s (clusterInshot s)" "harmless s (clusterHot s)" "harmless s (clusterInfo s)"
  "harmless s (clusterBumpepoch s)" "harmless s (slotOwner arg f s)" "harmless s (clusterCountkeysinslot arg s)"
  "harmless s (clusterGetkeysinslot argv s)" "harmless s (clusterReplicate arg s)"
  "harmless s (clusterReplicas plain arg s)" "harmless s (clusterCountFailureReports arg s)"
  "harmless s (clusterSetConfigEpoch arg s)" "harmless s (clusterFlushslots s)"
  "harmless s (clusterAddDelSlots del args s)" "harmless s (clusterSetallslot a b c s)"
  "harmless s (clusterSetslot argv s)" "harmless s (clusterForget arg s)" "harmless s (clusterFailover opt s)"
  "harmless s (clusterResetCommand opt s)"
proof -
  show "harmless s (addReplyHelp argv help s)" "harmless s (addReplySubcommandSyntaxError argv s)"
    by (simp_all add: addReplyHelp_def addReplySubcommandSyntaxError_def Let_def)
  show "harmless s (clusterRunmode a b s)"
    by (simp add: clusterRunmode_def forwardWay_def harmless_def error_reply_def shared_ok_def)
  show "harmless s (clusterHotgroup a b s)" by (simp add: clusterHotgroup_def Let_def split: sum.split)
  show "harmless s (clusterHginfo s)" "harmless s (clusterInshot s)" "harmless s (clusterHot s)" "harmless s (clusterInfo s)"
    by (simp_all add: clusterHginfo_def clusterInshot_def clusterHot_def clusterInfo_def Let_def)
  show "harmless s (clusterBumpepoch s)" by (simp add: clusterBumpepoch_def split_def Let_def)
  show "harmless s (slotOwner arg f s)" by (simp add: slotOwner_def Let_def split: option.split)
  show "harmless s (clusterCountkeysinslot arg s)" "harmless s (clusterGetkeysinslot argv s)"
    by (simp_all add: clusterCountkeysinslot_def clusterGetkeysinslot_def Let_def split: sum.split)
  show "harmless s (clusterReplicate arg s)" "harmless s (clusterReplicas plain arg s)"
    "harmless s (clusterCountFailureReports arg s)"
    by (simp_all add: clusterReplicate_def clusterReplicas_def clusterCountFailureReports_def split_def Let_def
        split: option.split)
  show "harmless s (clusterSetConfigEpoch arg s)" by (simp add: clusterSetConfigEpoch_def Let_def split: sum.split)
  show "harmless s (clusterFlushslots s)" by (simp add: clusterFlushslots_def)
  show "harmless s (clusterAddDelSlots del args s)" by (simp add: clusterAddDelSlots_def split: sum.split)
  show "harmless s (clusterSetallslot a b c s)" by (simp add: clusterSetallslot_def Let_def split: option.split)
  show "harmless s (clusterSetslot argv s)" by (simp add: clusterSetslot_def Let_def split: option.split sum.split)
  show "harmless s (clusterForget arg s)" by (simp add: clusterForget_def split: option.split)
  show "harmless s (clusterFailover opt s)" by (simp add: clusterFailover_def Let_def split: option.split)
  show "harmless s (clusterResetCommand opt s)" by (simp add: clusterResetCommand_def)
qed

lemma harmless_meet: "harmless s (clusterMeet norm_ip ip a b s)"
proof -
  have same: "s1 = s" if "clusterStartHandshake norm_ip i p c s = (Inl e, s1)" for i p c e s1
    using that by (auto simp: clusterStartHandshake_def split: option.splits if_splits prod.splits)
  then show ?thesis
    by (auto simp: clusterMeet_def dest!: same split: option.split prod.split sum.split errno.split)
qed


definition validWay :: "string \<Rightarrow> bool" where
  "validWay way \<longleftrightarrow> isWord way ''avg'' \<or> isWord way ''skew''"

definition validSync :: "string \<Rightarrow> bool" where
  "validSync sync_way \<longleftrightarrow> isWord sync_way ''no'' \<or> isWord sync_way ''1s'' \<or> isWord sync_way ''immd''"

definition ownedArg :: "string \<Rightarrow> redisServer \<Rightarrow> bool" where
  "ownedArg arg s \<longleftrightarrow> 0 \<le> atoi arg \<and> atoi arg < int CLUSTER_SLOTS \<and> c_slots s (nat (atoi arg)) \<noteq> None"

lemma if_once: "length (fst x) = 1 \<Longrightarrow> length (fst y) = 1 \<Longrightarrow> length (fst (if c then x else y)) = 1"
  by simp

lemma once_basic [simp]:
  "length (fst (ok_reply s)) = Suc 0" "length (fst (error_reply msg s)) = Suc 0"
  by (simp_all add: ok_reply_def error_reply_def)

lemma once_commands:
  "length (fst (addReplyHelp argv help s)) = 1" "length (fst (addReplySubcommandSyntaxError argv s)) = 1"
  "length (fst (clusterHginfo s)) = 1" "length (fst (clusterMeet norm_ip ip a b s)) = 1"
  "length (fst (clusterInshot s)) = 1" "length (fst (clusterHot s)) = 1" "length (fst (clusterInfo s)) = 1"
  "length (fst (clusterBumpepoch s)) = 1" "length (fst (clusterCountkeysinslot arg s)) = 1"
  "length (fst (clusterGetkeysinslot argv s)) = 1" "length (fst (clusterReplicate arg s)) = 1"
  "length (fst (clusterReplicas plain arg s)) = 1" "length (fst (clusterCountFailureReports arg s)) = 1"
  "length (fst (clusterSetConfigEpoch arg s)) = 1" "length (fst (clusterFlushslots s)) = 1"
  "length (fst (clusterAddDelSlots del args s)) = 1" "length (fst (clusterSetallslot x y z s)) = 1"
  "length (fst (clusterSetslot argv s)) = 1" "length (fst (clusterForget arg s)) = 1"
  "length (fst (clusterFailover opt s)) = 1" "length (fst (clusterResetCommand opt s)) = 1"
  "length (fst (clusterSaveconfigCommand fault s)) = 1"
proof -
  show "length (fst (addReplyHelp argv help s)) = 1" "length (fst (addReplySubcommandSyntaxError argv s)) = 1"
    "length (fst (clusterHginfo s)) = 1" "length (fst (clusterInshot s)) = 1" "length (fst (clusterHot s)) = 1"
    "length (fst (clusterInfo s)) = 1"
    by (simp_all add: addReplyHelp_def addReplySubcommandSyntaxError_def clusterHginfo_def clusterInshot_def
        clusterHot_def clusterInfo_def Let_def)
  show "length (fst (clusterMeet norm_ip ip a b s)) = 1"
    by (simp add: clusterMeet_def split: option.split prod.split sum.split errno.split)
  show "length (fst (clusterBumpepoch s)) = 1" "length (fst (clusterSaveconfigCommand fault s)) = 1"
    by (simp_all add: clusterBumpepoch_def clusterSaveconfigCommand_def split_def Let_def)
  show "length (fst (clusterCountkeysinslot arg s)) = 1" "length (fst (clusterGetkeysinslot argv s)) = 1"
    "length (fst (clusterSetConfigEpoch arg s)) = 1" "length (fst (clusterAddDelSlots del args s)) = 1"
    by (simp_all add: clusterCountkeysinslot_def clusterGetkeysinslot_def clusterSetConfigEpoch_def
        clusterAddDelSlots_def Let_def split: sum.split)
  show "length (fst (clusterReplicate arg s)) = 1" "length (fst (clusterReplicas plain arg s)) = 1"
    "length (fst (clusterCountFailureReports arg s)) = 1" "length (fst (clusterForget arg s)) = 1"
    by (simp_all add: clusterReplicate_def clusterReplicas_def clusterCountFailureReports_def clusterForget_def
        split_def Let_def split: option.split)
  show "length (fst (clusterFlushslots s)) = 1" "length (fst (clusterResetCommand opt s)) = 1"
    by (simp_all add: clusterFlushslots_def clusterResetCommand_def)
  show "length (fst (clusterSetallslot x y z s)) = 1" by (simp add: clusterSetallslot_def Let_def split: option.split)
  show "length (fst (clusterSetslot argv s)) = 1" by (simp add: clusterSetslot_def Let_def split: option.split sum.split)
  show "length (fst (clusterFailover opt s)) = 1" by (simp add: clusterFailover_def Let_def split: option.split)
qed

lemma once_runmode: "length (fst (clusterRunmode a b s)) = 1 \<longleftrightarrow> validSync a \<and> validWay b"
  by (simp add: clusterRunmode_def forwardWay_def validSync_def validWay_def error_reply_def)

lemma once_hotgroup: "length (fst (clusterHotgroup a b s)) = 1 \<longleftrightarrow> (\<exists>slot. getSlotOrReply b = Inr slot)"
  by (simp add: clusterHotgroup_def Let_def split: sum.split)

lemma once_owner: "length (fst (slotOwner arg f s)) = 1 \<longleftrightarrow> ownedArg arg s"
  by (auto simp: slotOwner_def ownedArg_def Let_def split: option.split)

lemma isWord_lower: "map tolowerc w = w \<Longrightarrow> isWord arg w \<longleftrightarrow> map tolowerc (cstr arg) = w"
  by (simp add: isWord_def strcaseeq_def)

lemma words:
  "isWord x ''hotgroup'' \<Longrightarrow> \<not> isWord x ''runmode'' \<and> \<not> isWord x ''meet''"
  "isWord x ''getnodebyslot'' \<Longrightarrow> \<not> isWord x ''addslots'' \<and> \<not> isWord x ''delslots''"
  "isWord x ''getipportbyslot'' \<Longrightarrow>
     \<not> isWord x ''addslots'' \<and> \<not> isWord x ''delslots'' \<and> \<not> isWord x ''getnodebyslot''"
  by (simp_all add: isWord_def strcaseeq_def tolowerc_def)

text \<open>The commands whose replies are wrong.\<close>

definition misanswered :: "string list \<Rightarrow> redisServer \<Rightarrow> bool" where
  "misanswered argv s \<longleftrightarrow>
    (isWord (argv ! 1) ''runmode'' \<and> length argv = 4 \<and> \<not> (validSync (argv ! 2) \<and> validWay (argv ! 3))) \<or>
    (isWord (argv ! 1) ''hotgroup'' \<and> length argv = 4 \<and> (\<nexists>slot. getSlotOrReply (argv ! 3) = Inr slot)) \<or>
    ((isWord (argv ! 1) ''getnodebyslot'' \<or> isWord (argv ! 1) ''getipportbyslot'') \<and> length argv = 3 \<and>
      \<not> ownedArg (argv ! 2) s)"


section \<open>Assigning and moving slots\<close>

definition goodSlotArg :: "bool \<Rightarrow> redisServer \<Rightarrow> string \<Rightarrow> bool" where
  "goodSlotArg del s arg \<longleftrightarrow> (\<exists>j. getSlotOrReply arg = Inr j \<and> (c_slots s j = None \<longleftrightarrow> \<not> del))"

lemma checkSlotArgs_exact:
  "(goodArgs = (\<forall>arg \<in> set args. goodSlotArg del s arg)) \<Longrightarrow>
   (fresh = (distinct (map getSlotOrReply args) \<and> Inr ` set seen \<inter> getSlotOrReply ` set args = {})) \<Longrightarrow>
   (if goodArgs \<and> fresh
    then \<exists>slots. checkSlotArgs del s args seen = Inr slots \<and> Inr ` set slots = Inr ` set seen \<union> getSlotOrReply ` set args
    else \<exists>msg. checkSlotArgs del s args seen = Inl (RError msg))"
proof (induction args arbitrary: seen goodArgs fresh)
  case Nil
  then show ?case by simp
next
  case (Cons arg args)
  show ?case
  proof (cases "getSlotOrReply arg")
    case (Inl e)
    then obtain msg where "e = RError msg" by (auto simp: getSlotOrReply_def split: option.splits if_splits)
    then show ?thesis using Cons.prems Inl by (simp add: goodSlotArg_def)
  next
    case (Inr j)
    show ?thesis
    proof (cases "goodSlotArg del s arg \<and> j \<notin> set seen")
      case True
      then have step: "checkSlotArgs del s (arg # args) seen = checkSlotArgs del s args (seen @ [j])"
        using Inr by (auto simp: goodSlotArg_def)
      show ?thesis
        unfolding step using Cons.IH [OF refl refl, of "seen @ [j]"] Cons.prems Inr True by (auto split: if_splits)
    next
      case False
      then have bad: "\<exists>msg. checkSlotArgs del s (arg # args) seen = Inl (RError msg)"
        using Inr by (auto simp: goodSlotArg_def)
      have "\<not> (goodArgs \<and> fresh)" using False Cons.prems Inr by auto
      then show ?thesis using bad by (rule if_not_P [THEN ssubst])
    qed
  qed
qed

lemma assignSlot_effect:
  assumes "cluster_ok s" and "j < CLUSTER_SLOTS" and "j \<in> set slots" and "c_slots s j = None \<longleftrightarrow> \<not> del"
  defines "s' \<equiv> assignSlot del slots j s"
  shows "c_slots s' = (c_slots s)(j := if del then None else Some (c_myself s)) \<and>
    c_importing_slots_from s' = (c_importing_slots_from s)(j := None) \<and> s_panic s' = s_panic s \<and> c_myself s' = c_myself s"
proof -
  define s1 where "s1 = (if c_importing_slots_from s j \<noteq> None
                  then s\<lparr>c_importing_slots_from := (c_importing_slots_from s)(j := None)\<rparr> else s)"
  define r where "r = (if del then clusterDelSlot j s1 else clusterAddSlot (c_myself s1) j s1)"
  have s1: "c_importing_slots_from s1 = (c_importing_slots_from s)(j := None)" "c_slots s1 = c_slots s"
    "s_panic s1 = s_panic s" "c_myself s1 = c_myself s" "cluster_ok s1"
    using assms(1) by (auto simp: s1_def)
  have "fst r = C_OK"
    using assms(4) s1(2) by (auto simp: r_def clusterAddSlot_def clusterDelSlot_def split_def Let_def)
  then have s': "s' = snd r"
    using assms(3) unfolding s'_def assignSlot_def Let_def s1_def [symmetric] r_def [symmetric] split_def by simp
  have del_imp: "c_importing_slots_from (snd (clusterDelSlot j s1)) = c_importing_slots_from s1"
    by (simp add: clusterDelSlot_def clusterNodeClearSlotBit_def serverAssert_def panic_with_def Let_def
        split: option.split prod.split)
  show ?thesis
    using assms(2,4) s1 del_imp clusterSlot_panic(1) clusterSlot_panic(2) [of s1 j]
    by (cases del) (simp_all add: s' r_def cluster_ok_def)
qed

lemma assignSlots_effect:
  assumes "cluster_ok s" and "i \<le> CLUSTER_SLOTS" and "\<forall>j \<in> set slots. c_slots s j = None \<longleftrightarrow> \<not> del"
  defines "s' \<equiv> fold (assignSlot del slots) [0..<i] s"
  shows "cluster_ok s' \<and> s_panic s' = s_panic s \<and> c_myself s' = c_myself s \<and>
    c_slots s' = (\<lambda>j. if j < i \<and> j \<in> set slots then if del then None else Some (c_myself s) else c_slots s j) \<and>
    c_importing_slots_from s' = (\<lambda>j. if j < i \<and> j \<in> set slots then None else c_importing_slots_from s j)"
  using assms(2) unfolding s'_def
proof (induction i)
  case 0
  then show ?case using assms(1) by simp
next
  case (Suc i)
  define t where "t = fold (assignSlot del slots) [0..<i] s"
  have ih: "cluster_ok t" "s_panic t = s_panic s" "c_myself t = c_myself s"
    "c_slots t = (\<lambda>j. if j < i \<and> j \<in> set slots then if del then None else Some (c_myself s) else c_slots s j)"
    "c_importing_slots_from t = (\<lambda>j. if j < i \<and> j \<in> set slots then None else c_importing_slots_from s j)"
    using Suc by (simp_all add: t_def)
  have i: "i < CLUSTER_SLOTS" using Suc.prems by simp
  have f: "fold (assignSlot del slots) [0..<Suc i] s = assignSlot del slots i t" by (simp add: t_def)
  show ?case
  proof (cases "i \<in> set slots")
    case True
    have "c_slots t i = None \<longleftrightarrow> \<not> del" using ih(4) assms(3) True by simp
    note e = assignSlot_effect [OF ih(1) i True this]
    show ?thesis unfolding f using e ih True assignSlot_ok [OF ih(1) i] by (auto simp: fun_eq_iff less_Suc_eq)
  next
    case False
    then have "assignSlot del slots i t = t" by (simp add: assignSlot_def)
    then show ?thesis unfolding f using ih False by (auto simp: fun_eq_iff less_Suc_eq)
  qed
qed

text \<open>
  ADDSLOTS and DELSLOTS take effect for all of their slots or for none. They succeed exactly when
  every argument is a slot, no slot occurs twice, and every slot is free (to add) or assigned (to
  delete); then exactly these slots become this node's own, or free, none of them stays marked as being
  imported, and no assertion fails. Otherwise the reply is an error and nothing has changed.
\<close>

theorem addslots_all_or_nothing:
  assumes "cluster_ok s"
  shows "let (rs, s') = clusterAddDelSlots del args s; named = (\<lambda>j. Inr j \<in> getSlotOrReply ` set args) in
    if (\<forall>arg \<in> set args. goodSlotArg del s arg) \<and> distinct (map getSlotOrReply args)
    then rs = [shared_ok] \<and> cluster_ok s' \<and> s_panic s' = s_panic s \<and>
      c_slots s' = (\<lambda>j. if named j then if del then None else Some (c_myself s) else c_slots s j) \<and>
      c_importing_slots_from s' = (\<lambda>j. if named j then None else c_importing_slots_from s j)
    else (\<exists>msg. rs = [RError msg]) \<and> s' = s"
proof (cases "(\<forall>arg \<in> set args. goodSlotArg del s arg) \<and> distinct (map getSlotOrReply args)")
  case True
  then obtain slots where c: "checkSlotArgs del s args [] = Inr slots"
    and e: "Inr ` set slots = getSlotOrReply ` set args"
    using checkSlotArgs_exact [OF refl refl, of args del s "[]"] by auto
  have named: "Inr j \<in> getSlotOrReply ` set args \<longleftrightarrow> j \<in> set slots" for j using e by (metis imageE image_eqI sum.inject(2))
  have slots: "\<forall>j \<in> set slots. (c_slots s j = None \<longleftrightarrow> \<not> del) \<and> j < CLUSTER_SLOTS"
  proof
    fix j assume "j \<in> set slots"
    then obtain arg where "arg \<in> set args" "getSlotOrReply arg = Inr j" using named by (metis imageE)
    then show "(c_slots s j = None \<longleftrightarrow> \<not> del) \<and> j < CLUSTER_SLOTS"
      using True slotArg_bound by (auto simp: goodSlotArg_def)
  qed
  then have in_range: "j < CLUSTER_SLOTS \<and> j \<in> set slots \<longleftrightarrow> j \<in> set slots" for j by blast
  note f = assignSlots_effect [OF assms order_refl, of slots del, unfolded in_range]
  show ?thesis
    using f slots True
    by (simp add: clusterAddDelSlots_def c named ok_reply_def Let_def)
next
  case False
  then have "\<not> ((\<forall>arg \<in> set args. goodSlotArg del s arg) \<and>
      distinct (map getSlotOrReply args) \<and> Inr ` set [] \<inter> getSlotOrReply ` set args = {})" by simp
  then obtain msg where "checkSlotArgs del s args [] = Inl (RError msg)"
    using checkSlotArgs_exact [OF refl refl, of args del s "[]"] by (metis (no_types, lifting))
  then show ?thesis using False by (auto simp: clusterAddDelSlots_def)
qed

lemma pair_start: "c_myself (pair_cluster a b) = 0" "c_slots (pair_cluster a b) j = None"
  by (simp_all add: pair_cluster_def zeroServer_def)

theorem addslots_all_or_nothing_witness:
  "let (rs, s') = clusterAddDelSlots False [''5''] (pair_cluster node_a zeroNode) in
     rs = [shared_ok] \<and> c_slots s' 5 = Some 0 \<and> c_slots s' 6 = None"
proof -
  define s where "s = pair_cluster node_a zeroNode"
  have "string2ll ''5'' = Some 5" by (simp add: string2ll_def isDigit_def)
  then have five: "getSlotOrReply ''5'' = Inr 5" by (simp add: getSlotOrReply_def CLUSTER_SLOTS_def)
  have z: "c_slots s 5 = None" "c_slots s 6 = None" "c_myself s = 0"
    by (simp_all only: s_def pair_start)
  have good: "(\<forall>arg \<in> set [''5'']. goodSlotArg False s arg) \<and> distinct (map getSlotOrReply [''5''])"
    using five z by (simp add: goodSlotArg_def)
  obtain rs s' where r: "clusterAddDelSlots False [''5''] s = (rs, s')" by (rule prod.exhaust)
  have named: "Inr j \<in> getSlotOrReply ` set [''5''] \<longleftrightarrow> j = 5" for j using five by auto
  have "cluster_ok s" using pair_zero_ok by (simp only: s_def)
  note t = addslots_all_or_nothing [OF this, of False "[''5'']", unfolded r Let_def prod.case if_P [OF good] named]
  show ?thesis
    unfolding s_def [symmetric] r Let_def prod.case using t z by simp
qed

lemma setallslotNode_effect:
  assumes "cluster_ok s" and "from \<in> live s" and "to \<in> live s" and "j < CLUSTER_SLOTS"
  defines "s' \<equiv> setallslotNode from to j s" and "moved \<equiv> c_slots s j \<in> {Some from, Some to}"
  shows "c_slots s' = (if moved then (c_slots s)(j := Some to) else c_slots s) \<and>
    c_migrating_slots_to s' = (if moved then (c_migrating_slots_to s)(j := None) else c_migrating_slots_to s) \<and>
    c_importing_slots_from s' = (if moved \<and> to = c_myself s then (c_importing_slots_from s)(j := None)
                                 else c_importing_slots_from s) \<and>
    c_myself s' = c_myself s \<and> epochs s' = epochs s \<and> (\<forall>p. n_configEpoch (nd s' p) = n_configEpoch (nd s p))"
proof -
  have bit: "clusterNodeGetSlotBit p j s \<longleftrightarrow> c_slots s j = Some p" if "p \<in> live s" for p
    using slots_okD(3) [OF _ that assms(4)] assms(1) by (simp add: clusterNodeGetSlotBit_def cluster_ok_def)
  have mig: "c_migrating_slots_to (setSlotOwner to j s) = c_migrating_slots_to s"
    "c_importing_slots_from (setSlotOwner to j s) = c_importing_slots_from s"
    "epochs (setSlotOwner to j s) = epochs s" "n_configEpoch (nd (setSlotOwner to j s) p) = n_configEpoch (nd s p)" for s p
    by (simp_all add: setSlotOwner_def clusterDelSlot_def clusterNodeClearSlotBit_def serverAssert_def panic_with_def
        clusterAddSlot_def clusterNodeSetSlotBit_def epochs_def nd_upd_node Let_def split: option.split prod.split)
      (simp_all add: nd_def)
  have own: "c_slots (setSlotOwner to j s) = (c_slots s)(j := Some to)" for s
    by (simp add: setSlotOwner_def)
  have skip: "\<not> clusterNodeGetSlotBit from j s \<and> \<not> clusterNodeGetSlotBit to j s \<longleftrightarrow> \<not> moved"
    using bit assms(2,3) by (auto simp: moved_def)
  show ?thesis
  proof (cases moved)
    case False
    then show ?thesis using skip by (simp add: s'_def setallslotNode_def)
  next
    case True
    define s1 where "s1 = (if c_migrating_slots_to s j \<noteq> None then setMigrating j None s else s)"
    define s2 where "s2 = setSlotOwner to j s1"
    have s1: "c_migrating_slots_to s1 = (c_migrating_slots_to s)(j := None)" "c_slots s1 = c_slots s"
      "c_importing_slots_from s1 = c_importing_slots_from s" "c_myself s1 = c_myself s" "epochs s1 = epochs s"
      "nd s1 = nd s"
      by (auto simp: s1_def setMigrating_def epochs_def nd_def fun_eq_iff)
    have s2: "c_migrating_slots_to s2 = (c_migrating_slots_to s)(j := None)" "c_slots s2 = (c_slots s)(j := Some to)"
      "c_importing_slots_from s2 = c_importing_slots_from s" "c_myself s2 = c_myself s" "epochs s2 = epochs s"
      "n_configEpoch (nd s2 p) = n_configEpoch (nd s p)" for p
      using s1 by (simp_all add: s2_def mig own)
    have s': "s' = (if to = c_myself s2 \<and> c_importing_slots_from s2 j \<noteq> None then setImporting j None s2 else s2)"
    proof -
      have "\<not> (\<not> clusterNodeGetSlotBit from j s \<and> \<not> clusterNodeGetSlotBit to j s)" using True skip by blast
      note this [THEN if_not_P]
      then show ?thesis unfolding s'_def setallslotNode_def Let_def s2_def s1_def by (rule trans) (rule refl)
    qed
    have imp: "c_importing_slots_from s' = (if to = c_myself s then (c_importing_slots_from s)(j := None)
        else c_importing_slots_from s)"
      using s2(3,4) by (auto simp: s' setImporting_def)
    have rest: "c_slots s' = c_slots s2" "c_migrating_slots_to s' = c_migrating_slots_to s2" "c_myself s' = c_myself s2"
      "epochs s' = epochs s2" "nd s' = nd s2"
      by (auto simp: s' setImporting_def epochs_def nd_def fun_eq_iff)
    show ?thesis unfolding imp rest using True s2 by simp
  qed
qed

lemma setallslotNodes_effect:
  assumes "cluster_ok s" and "from \<in> live s" and "to \<in> live s" and "i \<le> CLUSTER_SLOTS"
  defines "s' \<equiv> fold (setallslotNode from to) [0..<i] s"
    and "moved \<equiv> \<lambda>j. c_slots s j \<in> {Some from, Some to}"
  shows "cluster_ok s' \<and> live s' = live s \<and> c_myself s' = c_myself s \<and> epochs s' = epochs s \<and>
    (\<forall>p. n_configEpoch (nd s' p) = n_configEpoch (nd s p)) \<and>
    c_slots s' = (\<lambda>j. if j < i \<and> moved j then Some to else c_slots s j) \<and>
    c_migrating_slots_to s' = (\<lambda>j. if j < i \<and> moved j then None else c_migrating_slots_to s j) \<and>
    c_importing_slots_from s' = (\<lambda>j. if j < i \<and> moved j \<and> to = c_myself s then None
                                     else c_importing_slots_from s j)"
  using assms(4) unfolding s'_def
proof (induction i)
  case 0
  then show ?case using assms(1) by simp
next
  case (Suc i)
  define t where "t = fold (setallslotNode from to) [0..<i] s"
  have ih: "cluster_ok t" "live t = live s" "c_myself t = c_myself s" "epochs t = epochs s"
    "n_configEpoch (nd t p) = n_configEpoch (nd s p)"
    "c_slots t = (\<lambda>j. if j < i \<and> moved j then Some to else c_slots s j)"
    "c_migrating_slots_to t = (\<lambda>j. if j < i \<and> moved j then None else c_migrating_slots_to s j)"
    "c_importing_slots_from t = (\<lambda>j. if j < i \<and> moved j \<and> to = c_myself s then None
                                     else c_importing_slots_from s j)" for p
    using Suc by (simp_all add: t_def)
  have i: "i < CLUSTER_SLOTS" using Suc.prems by simp
  have f: "fold (setallslotNode from to) [0..<Suc i] s = setallslotNode from to i t" by (simp add: t_def)
  have l: "from \<in> live t" "to \<in> live t" using ih(2) assms(2,3) by simp_all
  have moved: "c_slots t i \<in> {Some from, Some to} \<longleftrightarrow> moved i" using ih(6) by (simp add: moved_def)
  note e = setallslotNode_effect [OF ih(1) l i, unfolded moved] and k = setallslotNode_ok [OF ih(1) l(2) i, of "from"]
  show ?case unfolding f using e k ih by (auto simp: fun_eq_iff less_Suc_eq)
qed

text \<open>
  SETALLSLOT NODE gives to the second node exactly the slots that the first or the second one owned,
  clears the marks of their migration, and of their import when the second node is this one, and
  leaves every other slot alone. Unlike SETSLOT NODE it takes no new configuration epoch.
\<close>

theorem setallslot_moves_all:
  assumes "cluster_ok s" and "\<not> nodeIsSlave (me s)" and "isWord action ''node''"
    and "clusterLookupNode from_arg s = Some from" and "clusterLookupNode to_arg s = Some to"
  shows "let (rs, s') = clusterSetallslot action from_arg to_arg s;
      moved = (\<lambda>j. j < CLUSTER_SLOTS \<and> c_slots s j \<in> {Some from, Some to}) in
    rs = [shared_ok] \<and> c_slots s' = (\<lambda>j. if moved j then Some to else c_slots s j) \<and>
    c_migrating_slots_to s' = (\<lambda>j. if moved j then None else c_migrating_slots_to s j) \<and>
    c_importing_slots_from s' = (\<lambda>j. if moved j \<and> to = c_myself s then None else c_importing_slots_from s j) \<and>
    c_currentEpoch s' = c_currentEpoch s \<and> (\<forall>p. n_configEpoch (nd s' p) = n_configEpoch (nd s p))"
proof -
  define s1 where "s1 = fold (setallslotNode from to) [0..<CLUSTER_SLOTS] s"
  define s2 where "s2 = (if to = c_myself s1 then clusterBroadcastPong False s1 else s1)"
  have l: "from \<in> live s" "to \<in> live s" using assms lookup_live by blast+
  note e = setallslotNodes_effect [OF assms(1) l order_refl, folded s1_def]
  have other: "\<not> isWord action ''migrating''" "\<not> isWord action ''importing''" "\<not> isWord action ''stable''"
    using assms(3) by (simp_all add: isWord_def strcaseeq_def tolowerc_def)
  have r: "clusterSetallslot action from_arg to_arg s = ok_reply (clusterDoBeforeSleep stateAndSave s2)"
    using assms other by (simp add: clusterSetallslot_def s2_def s1_def Let_def)
  have er: "f (erase s2) = f (erase s1)" for f :: "redisServer \<Rightarrow> 'b" by (simp add: s2_def clusterBroadcastPong_erase)
  have b: "c_slots (erase s2) = c_slots (erase s1)" "c_migrating_slots_to (erase s2) = c_migrating_slots_to (erase s1)"
    "c_importing_slots_from (erase s2) = c_importing_slots_from (erase s1)"
    "c_currentEpoch (erase s2) = c_currentEpoch (erase s1)"
    "n_configEpoch (nd (erase s2) p) = n_configEpoch (nd (erase s1) p)" for p
    by (rule er)+
  have "c_slots s2 = c_slots s1" "c_migrating_slots_to s2 = c_migrating_slots_to s1"
    "c_importing_slots_from s2 = c_importing_slots_from s1" "c_currentEpoch s2 = c_currentEpoch s1"
    "n_configEpoch (nd s2 p) = n_configEpoch (nd s1 p)" for p
    using b by (simp_all add: erase_def nd_def)
  then show ?thesis
    using e by (simp add: r ok_reply_def clusterDoBeforeSleep_def epochs_def nd_def conj_assoc)
qed

lemma slave_clusterAddSlot:
  "nodeIsSlave (nd (snd (clusterAddSlot p j s)) q) = nodeIsSlave (nd s q)"
  by (simp add: clusterAddSlot_def clusterNodeSetSlotBit_def Let_def split: prod.splits)
    (simp add: nd_def upd_node_def setFlag_def nodeIsSlave_def hasFlag_OR hasFlag_simps flag_simps)

theorem setallslot_moves_all_witness:
  "let s = snd (clusterAddSlot 0 5 (pair_cluster node_a zeroNode));
       (rs, s') = clusterSetallslot ''NODE'' nameA nameB s in
     rs = [shared_ok] \<and> c_slots s 5 = Some 0 \<and> c_slots s' 5 = Some 1 \<and> c_slots s' 6 = None"
proof -
  define s where "s = snd (clusterAddSlot 0 5 (pair_cluster node_a zeroNode))"
  have ok: "cluster_ok s" unfolding s_def by (rule clusterAddSlot_ok [OF pair_zero_ok]) (simp_all add: CLUSTER_SLOTS_def)
  have five: "c_slots s 5 = Some 0" "c_slots s 6 = None" by (simp_all add: s_def pair_start)
  have w: "isWord ''NODE'' ''node''" by code_simp
  have "c_nodes s = c_nodes (pair_cluster node_a zeroNode)" by (simp add: s_def)
  then have l: "clusterLookupNode nameA s = Some 0" "clusterLookupNode nameB s = Some 1"
    by (simp_all add: clusterLookupNode_def pair_cluster_def nameA_def nameB_def dictFind_def CLUSTER_NAMELEN_def)
  have m: "\<not> nodeIsSlave (me s)"
    by (simp add: me_def s_def pair_start slave_clusterAddSlot) (simp add: nodeIsSlave_def node_a_def flag_simps hasFlag_simps)
  obtain rs s' where r: "clusterSetallslot ''NODE'' nameA nameB s = (rs, s')" by (rule prod.exhaust)
  note t = setallslot_moves_all [OF ok m w l, unfolded r Let_def prod.case]
  show ?thesis
    unfolding s_def [symmetric] r Let_def prod.case using t five by (simp add: CLUSTER_SLOTS_def)
qed


end
