(* ===== verification/Steady.thy ===== *)
theory Steady
  imports ClusterCommand
begin

text \<open>
  What the operations leave alone, proved once for whole classes of predicates on states. A predicate
  that satisfies the laws of a locale is kept by every operation named in it:

  \<^item> \<open>calm\<close>: it depends on the node and slot tables, the memory of the nodes, the epochs and the output
    only, and survives events that are no votes. The commands of clients keep it.
  \<^item> \<open>steady\<close>: it depends on the memory of the nodes, the epochs and the output only, and survives every
    update of a node that keeps its mark \<^verbatim>\<open>CLUSTER_NODE_MYSELF\<close>, and allocations. The operations of
    the cluster that do not touch the epochs keep it. Every steady predicate is calm.
  \<^item> \<open>steadfast\<close>: moreover it does not depend on the epochs and the votes. Packets, the cron, the work
    before sleeping and all CLUSTER commands keep it.

  The theory \<open>Node\<close> interprets them on the tables, the epochs and the mark of this node.
\<close>

section \<open>The laws\<close>

definition spine :: "redisServer \<Rightarrow> _" where
  "spine s = (c_myself s, c_next s, c_mem s, c_currentEpoch s, c_lastVoteEpoch s, s_out s)"

definition keepsMark :: "(clusterNode \<Rightarrow> clusterNode) \<Rightarrow> bool" where
  "keepsMark f \<longleftrightarrow>
     (\<forall>n. hasFlag (n_flags (f n)) CLUSTER_NODE_MYSELF = hasFlag (n_flags n) CLUSTER_NODE_MYSELF)"

definition noVote :: "event \<Rightarrow> bool" where
  "noVote ev \<longleftrightarrow> (\<forall>l m. ev = EvSend l m \<longrightarrow> h_type m \<noteq> CLUSTERMSG_TYPE_FAILOVER_AUTH_ACK)"

locale calm =
  fixes P :: "redisServer \<Rightarrow> bool"
  assumes calm_spine: "P s \<Longrightarrow> spine s' = spine s \<Longrightarrow> core s' = core s \<Longrightarrow> P s'"
    and calm_node: "P s \<Longrightarrow> P (upd_node p (\<lambda>n. n\<lparr>n_conn := True\<rparr>) s)"
    and event: "P s \<Longrightarrow> noVote ev \<Longrightarrow> P (emit ev s)"

locale steady =
  fixes P :: "redisServer \<Rightarrow> bool"
  assumes spine: "P s \<Longrightarrow> spine s' = spine s \<Longrightarrow> P s'"
    and node: "P s \<Longrightarrow> keepsMark f \<Longrightarrow> P (upd_node p f s)"
    and alloc: "P s \<Longrightarrow> P (snd (allocNode n s))"
    and fresh: "P s \<Longrightarrow> P (s\<lparr>c_next := Suc (c_next s)\<rparr>)"
    and steady_event: "P s \<Longrightarrow> noVote ev \<Longrightarrow> P (emit ev s)"

locale steadfast = steady +
  assumes epoch: "P s \<Longrightarrow> P (s\<lparr>c_currentEpoch := e\<rparr>)"
    and last_vote: "P s \<Longrightarrow> P (s\<lparr>c_lastVoteEpoch := e\<rparr>)"
    and vote: "P s \<Longrightarrow> P (emit ev s)"

section \<open>Updates of a node\<close>

lemma hasFlag_masked: "c AND b = 0 \<Longrightarrow> \<not> hasFlag (x AND c) b"
  by (simp add: hasFlag_def and.assoc)

lemma keepsMark_setFlag [simp]: "\<not> hasFlag b CLUSTER_NODE_MYSELF \<Longrightarrow> keepsMark (setFlag b)"
  by (simp add: keepsMark_def hasFlag_set)

lemma keepsMark_clearFlag [simp]:
  assumes "\<not> hasFlag b CLUSTER_NODE_MYSELF" shows "keepsMark (clearFlag b)"
proof -
  have "CLUSTER_NODE_MYSELF AND NOT b = CLUSTER_NODE_MYSELF"
  proof (rule bit_word_eqI)
    fix n assume "n < LENGTH(32)"
    then show "bit (CLUSTER_NODE_MYSELF AND NOT b) n \<longleftrightarrow> bit CLUSTER_NODE_MYSELF n"
      using assms by (auto simp: hasFlag_bit bit_and_iff bit_not_iff)
  qed
  then show ?thesis by (simp add: keepsMark_def hasFlag_clear)
qed

lemma keepsMark_comp: "keepsMark f \<Longrightarrow> keepsMark g \<Longrightarrow> keepsMark (\<lambda>n. f (g n))"
  by (simp add: keepsMark_def)

lemma keepsMark_if: "keepsMark f \<Longrightarrow> keepsMark g \<Longrightarrow> keepsMark (\<lambda>n. if P n then f n else g n)"
  by (simp add: keepsMark_def)

lemma keepsMark_same [simp]: "(\<And>n. n_flags (f n) = n_flags n) \<Longrightarrow> keepsMark f"
  by (simp add: keepsMark_def)

lemma marks_apart [simp]:
  "\<not> hasFlag CLUSTER_NODE_MASTER CLUSTER_NODE_MYSELF" "\<not> hasFlag CLUSTER_NODE_SLAVE CLUSTER_NODE_MYSELF"
  "\<not> hasFlag CLUSTER_NODE_PFAIL CLUSTER_NODE_MYSELF" "\<not> hasFlag CLUSTER_NODE_FAIL CLUSTER_NODE_MYSELF"
  "\<not> hasFlag CLUSTER_NODE_HANDSHAKE CLUSTER_NODE_MYSELF" "\<not> hasFlag CLUSTER_NODE_NOADDR CLUSTER_NODE_MYSELF"
  "\<not> hasFlag CLUSTER_NODE_MEET CLUSTER_NODE_MYSELF" "\<not> hasFlag CLUSTER_NODE_MIGRATE_TO CLUSTER_NODE_MYSELF"
  "\<not> hasFlag CLUSTER_NODE_NOFAILOVER CLUSTER_NODE_MYSELF"
  "\<not> hasFlag (CLUSTER_NODE_MASTER OR CLUSTER_NODE_MIGRATE_TO) CLUSTER_NODE_MYSELF"
  "\<not> hasFlag (x AND (CLUSTER_NODE_MASTER OR CLUSTER_NODE_SLAVE)) CLUSTER_NODE_MYSELF"
  "\<not> hasFlag (x AND CLUSTER_NODE_NOFAILOVER) CLUSTER_NODE_MYSELF"
  by (simp_all add: hasFlag_set) (simp_all add: flag_simps hasFlag_simps hasFlag_masked)

section \<open>The commands of clients\<close>

context calm
begin

lemma hot_fields [simp]:
  assumes "P s" shows "P (s\<lparr>c_slot_status := ss\<rparr>)" "P (s\<lparr>s_rnd_pos := k\<rparr>)" "P (s\<lparr>s_panic := po\<rparr>)"
  by (rule calm_spine [OF assms], simp_all add: spine_def core_def)+

lemma hot_basic [simp]:
  assumes "P s"
  shows "P (panic_with r s)" "P (upd_slot j g s)" "P (snd (random_num s))"
    "P (emit (EvConnect q) s)" "P (emit (EvCommand q argv) s)"
  using assms event by (simp_all add: panic_with_def upd_slot_def random_num_def noVote_def)

lemma members_calm [simp]:
  assumes "P s"
  shows "P (clusterHotGroupAddNode p j s)" "P (clusterHotGroupDelNode p j s)" "P (addCmdToCache argv j s)"
    "P (sendCached argv p s)" "P (sendToMembers j argv s)"
proof -
  show "P (clusterHotGroupAddNode p j s)" "P (clusterHotGroupDelNode p j s)" "P (addCmdToCache argv j s)"
    using assms by (simp_all add: clusterHotGroupAddNode_def clusterHotGroupDelNode_def addCmdToCache_def Let_def)
  have send: "P s \<Longrightarrow> P (sendCached argv p s)" for s p by (simp add: sendCached_def calm_node Let_def)
  then show "P (sendCached argv p s)" using assms by simp
  show "P (sendToMembers j argv s)"
    unfolding sendToMembers_def by (rule fold_preserves [where P = P, OF assms send])
qed

lemma broadcastLoop_calm: "P s \<Longrightarrow> P (broadcastLoop j ops s)"
  by (induction j ops s rule: broadcastLoop.induct) (simp_all add: Let_def)

lemma broadcast_calm [simp]: "P s \<Longrightarrow> P (broadcastCommandInHotGroup j s)"
  by (simp add: broadcastCommandInHotGroup_def broadcastLoop_calm)

lemma pickOther_calm:
  assumes "pickOther slot s = Some (p, s')" and "P s" shows "P s'"
proof -
  have "P s \<longrightarrow> P (snd r)" if "pickOther slot s = Some r" for r
    using that
  proof (rule pickOther.raw_induct [of "\<lambda>slot s r. P s \<longrightarrow> P (snd r)", rotated])
    fix pickO slot s r
    assume ih: "\<And>slot s r. pickO slot s = Some r \<Longrightarrow> P s \<longrightarrow> P (snd r)"
      and c: "(case randomMember slot s of (None, s1) \<Rightarrow> Some (c_myself s1, panic_with NullDeref s1)
          | (Some p, s1) \<Rightarrow> if p = c_myself s1 then pickO slot s1 else Some (p, s1)) = Some r"
    have "P s \<Longrightarrow> P (snd (randomMember slot s))" by (simp add: randomMember_def Let_def case_prod_beta)
    then show "P s \<longrightarrow> P (snd r)"
      using c ih by (auto split: prod.splits option.splits if_splits)
  qed
  then show ?thesis using assms by auto
qed

lemma route_calm:
  assumes "P s" and "routeCommand junk c s = Some x"
  shows "P (snd (snd x))"
proof -
  have mem: "P s \<Longrightarrow> P (snd (randomMember slot s))" for slot s
    by (simp add: randomMember_def Let_def case_prod_beta)
  have aim: "P s'" if "getForwardAim slot s = Some (p, s')" "P s" for slot s p s'
    using that mem [OF that(2), of slot] pickOther_calm [of slot "snd (randomMember slot s)"]
    by (auto simp: getForwardAim_def Let_def case_prod_beta split: prod.splits option.splits if_splits)
  have redirect: "P s \<Longrightarrow> P (snd (clusterRedirectClient n j e c s))" for n j e c s
    by (simp add: clusterRedirectClient_def split: redir.split option.split)
  have catch: "P s \<Longrightarrow> P (catchUp c j s)" for c j s by (simp add: catchUp_def Let_def)
  have serve: "P s \<Longrightarrow> P (snd (snd (serveOrRedirect a b q j c s)))" for a b q j c s
    using redirect by (simp add: serveOrRedirect_def countOp_def Let_def case_prod_beta split: option.split)
  define q where "q = getNodeByQuery c (cl_cmd c) (cl_argv c) s"
  define hs where "hs = (case q_slot q of Some j \<Rightarrow> int j | None \<Rightarrow> junk)"
  define s1 where "s1 = catchUp c (nat hs) s"
  have 1: "P s1" using catch [OF assms(1)] by (simp add: s1_def)
  note r = assms(2) [unfolded routeCommand_def Let_def, folded q_def, folded hs_def, folded s1_def]
  show ?thesis
  proof (cases "hs < 0 \<or> int CLUSTER_SLOTS \<le> hs")
    case True
    then have "x = (True, c, panic_with OutOfBounds s)" using r by simp
    then show ?thesis using assms(1) by simp
  next
    case False
    note r1 = r [unfolded if_not_P [OF False]]
    show ?thesis
    proof (cases "getForwardAim (nat hs) s1")
      case None
      then show ?thesis using r1 serve [OF 1] by (auto split: if_splits)
    next
      case (Some a)
      obtain node s2 where a: "a = (node, s2)" by (rule prod.exhaust)
      then have 2: "P s2" using aim [of "nat hs" s1 node s2] Some 1 by simp
      show ?thesis
        using r1 serve [OF 1] serve [OF 2] redirect [OF 2] 2
        unfolding Some a option.case prod.case case_prod_beta by (auto split: if_splits)
    qed
  qed
qed

lemma process_calm:
  assumes "P s" and "processCommand filters table denied junk c s = Some x"
  shows "P (snd (snd x))"
proof -
  define c1 where "c1 = filters c"
  obtain dropped c2 s1 where strip: "(if hasSyncHeader c1 then stripSyncHeader c1 s else (False, c1, s)) = (dropped, c2, s1)"
    by (metis prod_cases3)
  then have 1: "P s1"
    using assms(1) by (auto simp: stripSyncHeader_def Let_def split: if_splits option.splits)
  note r = assms(2) [unfolded processCommand_def Let_def, folded c1_def, unfolded strip prod.case]
  show ?thesis
    using r 1 assms(1) route_calm [OF 1] by (auto split: if_splits option.splits)
qed

end

section \<open>The operations of the cluster\<close>

sublocale steady \<subseteq> calm P
proof
  show "P s \<Longrightarrow> spine s' = spine s \<Longrightarrow> core s' = core s \<Longrightarrow> P s'" for s s' by (rule spine)
  show "P s \<Longrightarrow> P (upd_node p (\<lambda>n. n\<lparr>n_conn := True\<rparr>) s)" for s p by (rule node) (simp_all add: keepsMark_def)
  show "P s \<Longrightarrow> noVote ev \<Longrightarrow> P (emit ev s)" for s ev by (rule steady_event)
qed

context steady
begin

lemma fields [simp]:
  assumes "P s"
  shows "P (s\<lparr>c_nodes := d\<rparr>)" "P (s\<lparr>c_slots := sl\<rparr>)" "P (s\<lparr>c_state := st\<rparr>)" "P (s\<lparr>c_size := z\<rparr>)"
    "P (s\<lparr>c_nodes_black_list := bl\<rparr>)" "P (s\<lparr>c_migrating_slots_to := sf\<rparr>)" "P (s\<lparr>c_importing_slots_from := sf\<rparr>)"
    "P (s\<lparr>c_failover_auth_time := t\<rparr>)" "P (s\<lparr>c_failover_auth_count := z\<rparr>)" "P (s\<lparr>c_failover_auth_sent := b\<rparr>)"
    "P (s\<lparr>c_failover_auth_rank := z\<rparr>)" "P (s\<lparr>c_failover_auth_epoch := e\<rparr>)" "P (s\<lparr>c_cant_failover_reason := cf\<rparr>)"
    "P (s\<lparr>c_mf_end := t\<rparr>)" "P (s\<lparr>c_mf_slave := p\<rparr>)" "P (s\<lparr>c_mf_can_start := b\<rparr>)" "P (s\<lparr>c_mf_master_offset := z\<rparr>)"
    "P (s\<lparr>c_todo_before_sleep := w\<rparr>)" "P (s\<lparr>c_stats_sent := sr\<rparr>)" "P (s\<lparr>c_stats_received := sr\<rparr>)"
    "P (s\<lparr>c_stats_pfail_nodes := z\<rparr>)" "P (s\<lparr>c_avg_hot_point := av\<rparr>)"
    "P (s\<lparr>c_is_sync := b\<rparr>)" "P (s\<lparr>c_sync_time := b\<rparr>)" "P (s\<lparr>c_forward_time := b\<rparr>)" "P (s\<lparr>c_links := lks\<rparr>)"
    "P (s\<lparr>s_masterhost := mh\<rparr>)" "P (s\<lparr>s_repl_connected := b\<rparr>)" "P (s\<lparr>s_db0 := ks\<rparr>)" "P (s\<lparr>s_prev_ip := ipo\<rparr>)"
    "P (s\<lparr>s_iteration := it\<rparr>)"
    "P (s\<lparr>s_first_call_time := t\<rparr>)" "P (s\<lparr>s_among_minority_time := t\<rparr>)"
  by (rule spine [OF assms], simp add: spine_def)+

lemma node_rule [simp]: "P s \<Longrightarrow> keepsMark f \<Longrightarrow> P (upd_node p f s)" by (rule node)

lemma basic [simp]:
  assumes "P s"
  shows "P (serverAssert b s)" "P (clusterDoBeforeSleep w s)"
    "P (clusterSaveConfigOrDie b s)" "P (replicationSetMaster ip port s)" "P (replicationUnsetMaster s)"
    "P (resetManualFailover s)" "P (clusterCloseAllSlots s)" "P (clusterLogCantFailover cf s)"
    "P (delKeysInSlot j s)" "P (set_my_epoch e s)" "P (setMigrating j n s)" "P (setImporting j n s)"
    "P (emit (EvPauseClients t) s)" "P (emit EvEmptyDb s)" "P (emit EvPublish s)" "P (emit EvModule s)" "P (emit (EvSaveConfig b) s)"
  using assms event
  by (simp_all add: serverAssert_def clusterDoBeforeSleep_def clusterSaveConfigOrDie_def
      replicationSetMaster_def replicationUnsetMaster_def resetManualFailover_def clusterCloseAllSlots_def
      clusterLogCantFailover_def delKeysInSlot_def set_my_epoch_def setMigrating_def setImporting_def
      noVote_def Let_def)

lemma fold_rule: "P s \<Longrightarrow> (\<And>x s. x \<in> set xs \<Longrightarrow> P s \<Longrightarrow> P (f x s)) \<Longrightarrow> P (fold f xs s)"
  by (rule fold_preserves [where P = P]) auto

lemma randomNode_rule [simp]: "P s \<Longrightarrow> P (snd (randomNode s))"
  using hot_basic(3) [of s] by (simp add: randomNode_def Let_def case_prod_beta)

lemma randomHex_rule [simp]: "P s \<Longrightarrow> P (snd (getRandomHexChars k s))"
proof (induction k arbitrary: s)
  case (Suc k)
  have "P (snd (getRandomHexChars k (snd (random_num s))))" using Suc by simp
  then show ?case by (simp add: Let_def case_prod_beta)
qed simp

lemma gossipLoop_rule [simp]: "P s \<Longrightarrow> P (snd (gossipLoop k w f gs s))"
proof (induction k w f gs s rule: gossipLoop.induct)
  case (2 k w f gs s)
  obtain po s1 where r: "randomNode s = (po, s1)" by force
  then have "P s1" using randomNode_rule [OF "2.prems"] by simp
  then show ?case
    using 2 r by (cases po) (auto simp: Let_def)
qed simp

lemma sending [simp]:
  assumes "P s"
  shows "P (snd (buildPing t s))"
    and "h_type m \<noteq> CLUSTERMSG_TYPE_FAILOVER_AUTH_ACK \<Longrightarrow> P (clusterSendMessage l m s)"
    and "h_type m \<noteq> CLUSTERMSG_TYPE_FAILOVER_AUTH_ACK \<Longrightarrow> P (clusterBroadcastMessage m s)"
    and "t \<noteq> CLUSTERMSG_TYPE_FAILOVER_AUTH_ACK \<Longrightarrow> P (clusterSendPing l t s)"
    and "P (clusterBroadcastPong b s)" "P (clusterSendPublish lo ch msg s)"
    "P (clusterBroadcastOwnAsHotInstance sl status s)" "P (clusterSendFail name s)" "P (clusterSendUpdate lo p s)"
    "P (clusterRequestFailoverAuth s)" "P (clusterSendMFStart p s)" "P (clusterSendModule lo len s)"
proof -
  show "P (snd (buildPing t s))"
    using assms by (simp add: buildPing_def Let_def case_prod_beta)
  have send: "P (clusterSendMessage l m s)" if "P s" "h_type m \<noteq> CLUSTERMSG_TYPE_FAILOVER_AUTH_ACK" for l m s
    using that event [of s "EvSend l m"] by (simp add: clusterSendMessage_def noVote_def Let_def)
  then show "h_type m \<noteq> CLUSTERMSG_TYPE_FAILOVER_AUTH_ACK \<Longrightarrow> P (clusterSendMessage l m s)"
    using assms by simp
  have broad: "P (clusterBroadcastMessage m s)" if "h_type m \<noteq> CLUSTERMSG_TYPE_FAILOVER_AUTH_ACK" for m
    unfolding clusterBroadcastMessage_def
    by (rule fold_rule [OF assms]) (use that send in \<open>simp split: option.split\<close>)
  then show "h_type m \<noteq> CLUSTERMSG_TYPE_FAILOVER_AUTH_ACK \<Longrightarrow> P (clusterBroadcastMessage m s)" .
  have ping: "P (clusterSendPing l t s)" if "P s" "t \<noteq> CLUSTERMSG_TYPE_FAILOVER_AUTH_ACK" for l t s
    using that by (simp add: clusterSendPing_def Let_def case_prod_beta buildPing_def send split: option.split)
  then show "t \<noteq> CLUSTERMSG_TYPE_FAILOVER_AUTH_ACK \<Longrightarrow> P (clusterSendPing l t s)" using assms by simp
  show "P (clusterBroadcastPong b s)"
    unfolding clusterBroadcastPong_def
    by (rule fold_rule [OF assms]) (simp add: ping msg_types split: option.split)
  note d = clusterSendPublish_def clusterBroadcastOwnAsHotInstance_def clusterSendFail_def
      clusterSendUpdate_def clusterRequestFailoverAuth_def clusterSendMFStart_def clusterSendModule_def
  show "P (clusterSendPublish lo ch msg s)" "P (clusterBroadcastOwnAsHotInstance sl status s)"
    "P (clusterSendFail name s)" "P (clusterSendUpdate lo p s)" "P (clusterRequestFailoverAuth s)"
    "P (clusterSendMFStart p s)" "P (clusterSendModule lo len s)"
    using assms by (simp_all add: d Let_def send broad msg_types split: option.split)
qed

lemma nodes [simp]:
  assumes "P s"
  shows "P (snd (clusterNodeAddFailureReport f p s))" "P (clusterNodeCleanupFailureReports p s)"
    "P (snd (clusterNodeDelFailureReport p q s))" "P (snd (clusterNodeFailureReportsCount p s))"
    "P (snd (clusterNodeRemoveSlave m p s))" "P (snd (clusterNodeAddSlave m p s))" "P (freeClusterLink l s)"
    "P (snd (clusterNodeSetSlotBit p j s))" "P (snd (clusterNodeClearSlotBit p j s))"
    "P (snd (clusterAddSlot p j s))" "P (snd (clusterDelSlot j s))"
    "P (clusterAddNode p s)" "P (clusterRenameNode p name s)"
    "P (snd (createClusterNode nodename flags s))"
proof -
  note d = clusterNodeAddFailureReport_def clusterNodeCleanupFailureReports_def
      clusterNodeDelFailureReport_def clusterNodeFailureReportsCount_def freeClusterLink_def clusterAddNode_def
      clusterRenameNode_def
  show "P (snd (clusterNodeAddFailureReport f p s))" "P (clusterNodeCleanupFailureReports p s)"
    "P (snd (clusterNodeDelFailureReport p q s))" "P (snd (clusterNodeFailureReportsCount p s))"
    "P (freeClusterLink l s)" "P (clusterAddNode p s)" "P (clusterRenameNode p name s)"
    using assms by (simp_all add: d Let_def split: option.split)
  have "keepsMark (\<lambda>n. clearFlag CLUSTER_NODE_MIGRATE_TO (n\<lparr>n_slaves := remove1 p (n_slaves n)\<rparr>))"
    by (rule keepsMark_comp) simp_all
  then have "keepsMark (\<lambda>n. let n1 = n\<lparr>n_slaves := remove1 p (n_slaves n)\<rparr> in
      if n_slaves n1 = [] then clearFlag CLUSTER_NODE_MIGRATE_TO n1 else n1)"
    unfolding Let_def by (rule keepsMark_if) simp
  from node [OF assms this] show "P (snd (clusterNodeRemoveSlave m p s))"
    using assms by (simp add: clusterNodeRemoveSlave_def del: keepsMark_same node_rule)
  have "keepsMark (\<lambda>n. setFlag CLUSTER_NODE_MIGRATE_TO (n\<lparr>n_slaves := n_slaves n @ [p]\<rparr>))"
    by (rule keepsMark_comp) simp_all
  then show "P (snd (clusterNodeAddSlave m p s))" using assms by (simp add: clusterNodeAddSlave_def)
  show set: "P (snd (clusterNodeSetSlotBit p j s))"
    using assms by (simp add: clusterNodeSetSlotBit_def Let_def)
  show clear: "P (snd (clusterNodeClearSlotBit p j s))" for p
    using assms by (simp add: clusterNodeClearSlotBit_def Let_def)
  show "P (snd (clusterAddSlot p j s))" using assms set by (simp add: clusterAddSlot_def Let_def)
  show "P (snd (clusterDelSlot j s))"
    using assms clear by (simp add: clusterDelSlot_def Let_def case_prod_beta split: option.split)
  show "P (snd (createClusterNode nodename flags s))"
    using assms by (simp add: createClusterNode_def case_prod_beta alloc split: option.split)
qed

lemma delNode [simp]: "P s \<Longrightarrow> P (clusterDelNode p s)"
proof -
  assume s: "P s"
  define s1 where "s1 = fold (forgetSlotsOf p) [0..<CLUSTER_SLOTS] s"
  define s2 where "s2 = fold (\<lambda>q s. if q = p then s else snd (clusterNodeDelFailureReport q p s))
                 (dictVals (c_nodes s1)) s1"
  define s3 where "s3 = fold (\<lambda>q. upd_node q (\<lambda>n. n\<lparr>n_slaveof := None\<rparr>)) (n_slaves (nd s2 p)) s2"
  have 1: "P s1" unfolding s1_def by (rule fold_rule [OF s]) (simp add: forgetSlotsOf_def Let_def)
  have 2: "P s2" unfolding s2_def by (rule fold_rule [OF 1]) simp
  have 3: "P s3" unfolding s3_def by (rule fold_rule [OF 2]) simp
  have "clusterDelNode p s = freeClusterNode p s2"
    by (simp add: clusterDelNode_def s1_def s2_def Let_def)
  moreover have "P (freeClusterNode p s2)"
    unfolding freeClusterNode_def Let_def s3_def [symmetric] using 3 by (simp split: option.split)
  ultimately show ?thesis by simp
qed

lemma config [simp]:
  assumes "P s"
  shows "P (clusterBlacklistCleanup s)" "P (snd (clusterBlacklistExists name s))" "P (clusterBlacklistAddNode p s)"
    "P (markNodeAsFailingIfNeeded p s)" "P (clearNodeFailureIfNeeded p s)" "P (clusterSetNodeAsMaster p s)"
    "P (clusterSetMaster p s)" "P (clusterUpdateMyselfFlags s)" "P (clusterUpdateState s)"
    "P (snd (clusterStartHandshake norm_ip ip port cport s))"
proof -
  show c: "P (clusterBlacklistCleanup s)"
    using assms by (subst blacklist_cleanup_shape) simp
  show "P (snd (clusterBlacklistExists name s))" "P (clusterBlacklistAddNode p s)"
    using c by (simp_all add: clusterBlacklistExists_def clusterBlacklistAddNode_def Let_def)
  show "P (markNodeAsFailingIfNeeded p s)"
    using assms by (simp add: markNodeAsFailingIfNeeded_def Let_def case_prod_beta)
  show "P (clearNodeFailureIfNeeded p s)" using assms by (simp add: clearNodeFailureIfNeeded_def Let_def)
  show "P (clusterSetNodeAsMaster p s)" using assms by (simp add: clusterSetNodeAsMaster_def Let_def split: option.split)
  show "P (clusterSetMaster p s)" using assms by (simp add: clusterSetMaster_def Let_def split: option.split)
  show "P (clusterUpdateMyselfFlags s)" using assms by (simp add: clusterUpdateMyselfFlags_def Let_def)
  show "P (clusterUpdateState s)"
    using assms by (simp add: clusterUpdateState_def changeState_def Let_def case_prod_beta)
  show "P (snd (clusterStartHandshake norm_ip ip port cport s))"
    using assms by (simp add: clusterStartHandshake_def Let_def case_prod_beta split: option.split)
qed

lemma updateSlots [simp]:
  assumes "P s" shows "P (clusterUpdateSlotsConfigWith p e slots s)"
proof -
  have "P (u_server u) \<Longrightarrow> P (u_server (updateSlot p e cm slots j u))" for cm j u
    by (simp add: updateSlot_server)
  then have "P (u_server u) \<Longrightarrow> P (u_server (fold (updateSlot p e cm slots) js u))" for cm js u
    by (induction js arbitrary: u) simp_all
  moreover have "P s \<Longrightarrow> P (fold delKeysInSlot js s)" for js s
    by (rule fold_rule) simp_all
  ultimately show ?thesis using assms by (simp add: clusterUpdateSlotsConfigWith_def Let_def)
qed

lemma delNodeSlots [simp]:
  assumes "P s" shows "P (snd (clusterDelNodeSlots p s))"
proof -
  have "P s \<Longrightarrow> P (snd (fold (\<lambda>j (deleted, s). if clusterNodeGetSlotBit p j s
              then (deleted + 1 :: int, snd (clusterDelSlot j s)) else (deleted, s)) xs (k, s)))" for xs k
    by (induction xs arbitrary: k s) auto
  then show ?thesis using assms by (simp add: clusterDelNodeSlots_def)
qed

lemma setAddress_steady [simp]:
  "P s \<Longrightarrow> P (upd_node p (setAddress ip port pport cport) s)"
  "P s \<Longrightarrow> P (upd_node p (\<lambda>n. clearFlag CLUSTER_NODE_NOADDR (setAddress ip port pport cport n)) s)"
proof -
  have k: "keepsMark (setAddress ip port pport cport)" by (simp add: setAddress_def)
  then show "P s \<Longrightarrow> P (upd_node p (setAddress ip port pport cport) s)" by simp
  show "P s \<Longrightarrow> P (upd_node p (\<lambda>n. clearFlag CLUSTER_NODE_NOADDR (setAddress ip port pport cport n)) s)"
    by (rule node [OF _ keepsMark_comp]) (simp_all add: k)
qed

lemma freeLinkOf_steady [simp]: "P s \<Longrightarrow> P (freeLinkOf p s)"
  by (simp add: freeLinkOf_def split: option.split)

lemma updateAddress_steady [simp]: "P s \<Longrightarrow> P (snd (nodeUpdateAddressIfNeeded p link hdr s))"
  by (simp add: nodeUpdateAddressIfNeeded_def Let_def)

lemma gossipReport_steady [simp]: "P s \<Longrightarrow> P (gossipReport sender g p s)"
  by (simp add: gossipReport_def split: option.split)

lemma gossipPong_steady [simp]: "P s \<Longrightarrow> P (gossipPong g p s)"
  by (simp add: gossipPong_def Let_def case_prod_beta)

lemma gossipAddress_steady [simp]: "P s \<Longrightarrow> P (gossipAddress g p s)"
  by (simp add: gossipAddress_def Let_def)

lemma gossipNew_steady [simp]: "P s \<Longrightarrow> P (gossipNew sender g s)"
  by (simp add: gossipNew_def Let_def case_prod_beta)

lemma gossipStep_steady [simp]: "P s \<Longrightarrow> P (gossipStep sender g s)"
  by (simp add: gossipStep_def split: option.split)

lemma gossipSection_steady [simp]: "P s \<Longrightarrow> P (clusterProcessGossipSection hdr link s)"
  unfolding clusterProcessGossipSection_def Let_def by (rule fold_rule) simp_all

lemma packetPhases_steady [simp]:
  assumes "P s"
  shows "P (learnMyIp hdr link s)" "P (meetNode hdr link s)" "P (answerPing hdr link sender s)"
    "P (snd (checkLinkNode hdr link sender s))" "P (learnNofailover hdr sender s)"
    "P (learnAddress hdr link sender s)" "P (notePong hdr link s)" "P (becomeSlave q s)"
    "P (followMaster q master s)" "P (learnRole hdr sender s)" "P (answerOutdated hdr q e s)"
    "P (processFail hdr sender s)" "P (processPublish s)" "P (processHotGroup hdr s)" "P (processAuthAck q e s)"
    "P (processMFStart link q s)" "P (processUpdate hdr s)"
proof -
  show ip: "P (learnMyIp hdr link s)" using assms by (simp add: learnMyIp_def split: option.split)
  have meet: "P (meetNode hdr link s)" if "P s" for s
    using that by (simp add: meetNode_def Let_def case_prod_beta)
  then show "P (meetNode hdr link s)" using assms by simp
  show "P (answerPing hdr link sender s)" using ip meet by (simp add: answerPing_def msg_types Let_def)
  show "P (snd (checkLinkNode hdr link sender s))"
    using assms by (simp add: checkLinkNode_def Let_def case_prod_beta split: option.split)
  show "P (learnNofailover hdr sender s)" using assms by (simp add: learnNofailover_def split: option.split)
  show "P (learnAddress hdr link sender s)"
    using assms by (simp add: learnAddress_def Let_def case_prod_beta split: option.split)
  show "P (notePong hdr link s)" using assms by (simp add: notePong_def Let_def split: option.split)
  have slave: "P (becomeSlave q s)" if "P s" for q s using that by (simp add: becomeSlave_def Let_def)
  have follow: "P (followMaster q master s)" if "P s" for q master s
    using that by (simp add: followMaster_def Let_def split: option.split)
  show "P (becomeSlave q s)" "P (followMaster q master s)" using slave follow assms by simp_all
  show "P (learnRole hdr sender s)"
    using slave follow assms by (simp add: learnRole_def Let_def split: option.split)
  show "P (answerOutdated hdr q e s)" using assms by (simp add: answerOutdated_def split: option.split)
  show "P (processFail hdr sender s)" using assms by (simp add: processFail_def split: option.split)
  show "P (processPublish s)" using assms by (simp add: processPublish_def)
  show "P (processHotGroup hdr s)" using assms by (simp add: processHotGroup_def Let_def split: option.split)
  show "P (processAuthAck q e s)" using assms by (simp add: processAuthAck_def)
  show "P (processMFStart link q s)" using assms by (simp add: processMFStart_def msg_types Let_def)
  show "P (processUpdate hdr s)" using assms by (simp add: processUpdate_def Let_def split: option.split)
qed

lemma hotGroup_steady [simp]:
  assumes "P s"
  shows "P (slotHotMetric t tag s)" "P (slotHotMetricCluster s)" "P (instanceHotMetricUpdate s)"
    "P (slotHotnessStatus s)" "P (measureHeat s)"
proof -
  have "P s \<Longrightarrow> P (snd (fold (\<lambda>i (avg, s).
          if clusterNodeGetSlotBit (c_myself s) i s
          then let s' = upd_slot i (updateOneSlot t tag) s in (avg + ss_hot (c_slot_status s' i) tag, s')
          else (avg, s)) xs (avg, s)))" for xs avg s t tag
    by (induction xs arbitrary: avg s) (auto simp: Let_def)
  then have metric: "P s \<Longrightarrow> P (slotHotMetric t tag s)" for s t tag
    by (simp add: slotHotMetric_def case_prod_beta Let_def)
  have cluster: "P s \<Longrightarrow> P (slotHotMetricCluster s)" for s by (simp add: slotHotMetricCluster_def Let_def)
  have instance1: "P (instanceHotMetricUpdate s)" using assms by (simp add: instanceHotMetricUpdate_def)
  have status: "P s \<Longrightarrow> P (slotHotnessStatus s)" for s
    unfolding slotHotnessStatus_def Let_def by (rule fold_rule) simp_all
  show "P (slotHotMetric t tag s)" "P (slotHotMetricCluster s)" "P (instanceHotMetricUpdate s)" "P (slotHotnessStatus s)"
    using metric cluster instance1 status assms by simp_all
  show "P (measureHeat s)"
    unfolding measureHeat_def Let_def using metric cluster instance1 status by (auto split: if_split)
qed

lemma election_steady [simp]:
  assumes "P s"
  shows "P (snd (clusterGetSlaveRank s))" "P (clusterFailoverReplaceYourMaster s)" "P (scheduleElection s)"
    "P (updateRank s)" "P (clusterHandleSlaveMigration k s)" "P (manualFailoverCheckTimeout s)"
    "P (clusterHandleManualFailover s)"
proof -
  have rank: "P s \<Longrightarrow> P (snd (clusterGetSlaveRank s))" for s
    by (simp add: clusterGetSlaveRank_def Let_def split: option.split)
  then show "P (snd (clusterGetSlaveRank s))" using assms by simp
  have take: "P s \<Longrightarrow> P (fold (takeSlot m) js s)" for m js s
    by (rule fold_rule) (simp_all add: takeSlot_def)
  show "P (clusterFailoverReplaceYourMaster s)"
    using assms take by (simp add: clusterFailoverReplaceYourMaster_def Let_def split: option.split)
  show "P (scheduleElection s)" using assms rank by (simp add: scheduleElection_def Let_def case_prod_beta)
  show "P (updateRank s)" using assms rank by (simp add: updateRank_def Let_def case_prod_beta)
  have "P (snd (snd x)) \<Longrightarrow> P (snd (snd (migrationStep k p x)))" for p x
    by (simp add: migrationStep_def Let_def case_prod_beta)
  then have "P (snd (snd x)) \<Longrightarrow> P (snd (snd (fold (migrationStep k) ps x)))" for ps x
    by (induction ps arbitrary: x) simp_all
  then show "P (clusterHandleSlaveMigration k s)"
    using assms by (simp add: clusterHandleSlaveMigration_def Let_def case_prod_beta split: option.split)
  show "P (manualFailoverCheckTimeout s)" "P (clusterHandleManualFailover s)"
    using assms by (simp_all add: manualFailoverCheckTimeout_def clusterHandleManualFailover_def)
qed

lemma links_steady [simp]:
  assumes "P s"
  shows "P (snd (createClusterLink node s))" "P (clusterConnAcceptHandler conn s)" "P (clusterLinkConnectHandler up link s)"
proof -
  have link: "P (snd (createClusterLink node s))" if "P s" for node s
  proof -
    have "P (s\<lparr>c_links := lks\<rparr>)" for lks using that by simp
    note fresh [OF this]
    then show ?thesis by (simp add: createClusterLink_def)
  qed
  then show "P (snd (createClusterLink node s))" using assms by simp
  show "P (clusterConnAcceptHandler conn s)"
    using assms link by (simp add: clusterConnAcceptHandler_def Let_def case_prod_beta split: option.split)
  show "P (clusterLinkConnectHandler up link s)"
    using assms by (simp add: clusterLinkConnectHandler_def msg_types Let_def split: option.split)
qed

lemma cronPhases_steady [simp]:
  assumes "P s"
  shows "P (syncAnnounceIp s)" "P (syncHotSlots s)" "P (reconnectNode dial t p s)" "P (reconnectNodes dial s)"
    "P (pingRandomNode s)" "P (dropIdleLink p s)" "P (snd (snd (detectFailures s)))" "P (startReplication s)"
proof -
  show "P (syncAnnounceIp s)" using assms by (simp add: syncAnnounceIp_def Let_def split: option.split)
  have "P s \<Longrightarrow> P (fold syncHotSlot js s)" for js s
    by (rule fold_rule) (simp_all add: syncHotSlot_def Let_def)
  then show "P (syncHotSlots s)" using assms by (simp add: syncHotSlots_def)
  have rec: "P (reconnectNode dial t p s)" if "P s" for t p s
    using that by (simp add: reconnectNode_def Let_def case_prod_beta split: option.split)
  then show "P (reconnectNode dial t p s)" using assms by simp
  show "P (reconnectNodes dial s)"
    unfolding reconnectNodes_def Let_def by (rule fold_rule) (simp_all add: assms rec)
  have "P (snd (snd x)) \<Longrightarrow> P (snd (snd (pickNode j x)))" for j x
    by (simp add: pickNode_def Let_def case_prod_beta split: option.split)
  then have "P (snd (snd x)) \<Longrightarrow> P (snd (snd (fold pickNode js x)))" for js x
    by (induction js arbitrary: x) simp_all
  then show "P (pingRandomNode s)"
    using assms by (simp add: pingRandomNode_def Let_def case_prod_beta msg_types split: option.split)
  have drop: "P s \<Longrightarrow> P (dropIdleLink p s)" for p s by (simp add: dropIdleLink_def Let_def split: option.split)
  then show "P (dropIdleLink p s)" using assms by simp
  have "P (snd (snd x)) \<Longrightarrow> P (snd (snd (checkNode p x)))" for p x
    using drop by (simp add: checkNode_def Let_def case_prod_beta msg_types)
  then have "P (snd (snd x)) \<Longrightarrow> P (snd (snd (fold checkNode ps x)))" for ps x
    by (induction ps arbitrary: x) simp_all
  then show "P (snd (snd (detectFailures s)))" using assms by (simp add: detectFailures_def)
  show "P (startReplication s)" using assms by (simp add: startReplication_def split: option.split)
qed

lemma replies_steady [simp]: "P s \<Longrightarrow> P (snd (ok_reply s))" "P s \<Longrightarrow> P (snd (error_reply msg s))"
  by (simp_all add: ok_reply_def error_reply_def)

lemma hotCommands_steady [simp]:
  assumes "P s"
  shows "P (snd (clusterRunmode a b s))" "P (snd (clusterHotgroup a b s))" "P (snd (clusterHginfo s))"
    "P (snd (clusterInshot s))" "P (snd (clusterHot s))" "P (snd (clusterInfo s))" "P (snd (slotOwner arg f s))"
    "P (snd (clusterMeet norm_ip ip pa ca s))"
proof -
  have fw: "P s \<Longrightarrow> P (snd (forwardWay b s))" for s by (simp add: forwardWay_def)
  then show "P (snd (clusterRunmode a b s))" using assms by (simp add: clusterRunmode_def split_def Let_def)
  show "P (snd (clusterHotgroup a b s))" using assms by (simp add: clusterHotgroup_def Let_def split: sum.split)
  show "P (snd (clusterHginfo s))" "P (snd (clusterInshot s))" "P (snd (clusterHot s))" "P (snd (clusterInfo s))"
    using assms by (simp_all add: clusterHginfo_def clusterInshot_def clusterHot_def clusterInfo_def Let_def)
  show "P (snd (slotOwner arg f s))" using assms by (simp add: slotOwner_def Let_def split: option.split)
  have "P s'" if "clusterStartHandshake norm_ip (cstr ip) p q s = (e, s')" for p q e s'
    using config(10) [OF assms, of norm_ip "cstr ip" p q] that by simp
  then show "P (snd (clusterMeet norm_ip ip pa ca s))"
    using assms by (auto simp: clusterMeet_def split: option.split prod.split sum.split errno.split)
qed

lemma slotCommands_steady [simp]:
  assumes "P s"
  shows "P (snd (clusterFlushslots s))" "P (snd (clusterAddDelSlots del args s))"
    "P (snd (clusterSetallslot action fa ta s))"
proof -
  show "P (snd (clusterFlushslots s))" using assms by (simp add: clusterFlushslots_def)
  have assign: "P s \<Longrightarrow> P (assignSlot del slots j s)" for slots j s
    by (simp add: assignSlot_def split_def Let_def)
  have "P s \<Longrightarrow> P (fold (assignSlot del slots) js s)" for slots js s
    by (rule fold_rule [OF _ assign])
  then show "P (snd (clusterAddDelSlots del args s))" using assms by (simp add: clusterAddDelSlots_def split: sum.split)
  have owner: "P s \<Longrightarrow> P (setSlotOwner n j s)" for n j s by (simp add: setSlotOwner_def)
  have [simp]: "P s \<Longrightarrow> P (setallslotNode n m j s)" for n m j s by (simp add: setallslotNode_def owner Let_def)
  have node: "P s \<Longrightarrow> P (fold (setallslotNode n m) js s)" for n m js s
    by (rule fold_rule) simp_all
  have all: "P (allSlotsOf n f s)" if "\<And>j s. P s \<Longrightarrow> P (f j s)" for n f
    unfolding allSlotsOf_def by (rule fold_rule [OF assms]) (simp add: that)
  show "P (snd (clusterSetallslot action fa ta s))"
    using assms node all by (simp add: clusterSetallslot_def Let_def split: option.split)
qed

lemma nodeCommands_steady [simp]:
  assumes "P s"
  shows "P (snd (clusterCountkeysinslot arg s))" "P (snd (clusterGetkeysinslot argv s))" "P (snd (clusterForget arg s))"
    "P (snd (clusterReplicate arg s))" "P (snd (clusterReplicas plain arg s))"
    "P (snd (clusterCountFailureReports arg s))" "P (snd (clusterSaveconfigCommand fault s))"
    "P (snd (addReplyHelp argv help s))" "P (snd (addReplySubcommandSyntaxError argv s))"
proof -
  show "P (snd (clusterCountkeysinslot arg s))" "P (snd (clusterGetkeysinslot argv s))"
    using assms by (simp_all add: clusterCountkeysinslot_def clusterGetkeysinslot_def Let_def split: sum.split)
  show "P (snd (clusterForget arg s))" "P (snd (clusterReplicate arg s))" "P (snd (clusterReplicas plain arg s))"
    "P (snd (clusterCountFailureReports arg s))"
    using assms by (simp_all add: clusterForget_def clusterReplicate_def clusterReplicas_def
        clusterCountFailureReports_def split_def Let_def split: option.split)
  have "P (snd (clusterSaveConfig fault b s))" for b
    using assms by (simp add: clusterSaveConfig_def Let_def noVote_def event split: option.split saveFault.split)
  then show "P (snd (clusterSaveconfigCommand fault s))" by (simp add: clusterSaveconfigCommand_def split_def Let_def)
  show "P (snd (addReplyHelp argv help s))" "P (snd (addReplySubcommandSyntaxError argv s))"
    using assms by (simp_all add: addReplyHelp_def addReplySubcommandSyntaxError_def Let_def)
qed

end

section \<open>What does not depend on the epochs\<close>

context steadfast
begin

lemma sender_steadfast [simp]: "P s \<Longrightarrow> P (noteSender hdr sender s)"
proof -
  have "P s \<Longrightarrow> P (learnEpochs hdr q s)" for q s by (simp add: learnEpochs_def epoch Let_def)
  then have "P s \<Longrightarrow> P (learnSender hdr q s)" for q s by (simp add: learnSender_def Let_def)
  then show "P s \<Longrightarrow> P (noteSender hdr sender s)" by (simp add: noteSender_def Let_def split: option.split)
qed

lemma bumps_steadfast [simp]:
  assumes "P s"
  shows "P (clusterHandleConfigEpochCollision p s)" "P (snd (clusterBumpConfigEpochWithoutConsensus s))"
    "P (askForVotes s)" "P (learnSlots hdr sender e s)" "P (clusterSendFailoverAuthIfNeeded p hdr s)"
proof -
  have collision: "P s \<Longrightarrow> P (clusterHandleConfigEpochCollision p s)" for p s
    by (simp add: clusterHandleConfigEpochCollision_def epoch Let_def)
  then show "P (clusterHandleConfigEpochCollision p s)" using assms by simp
  show "P (snd (clusterBumpConfigEpochWithoutConsensus s))"
    using assms by (simp add: clusterBumpConfigEpochWithoutConsensus_def epoch Let_def)
  show "P (askForVotes s)" using assms by (simp add: askForVotes_def epoch Let_def)
  show "P (learnSlots hdr sender e s)"
    using assms collision by (simp add: learnSlots_def Let_def split: option.split)
  have "P s \<Longrightarrow> P (clusterSendMessage l m s)" for l m s
    using vote [of s "EvSend l m"] by (simp add: clusterSendMessage_def Let_def)
  then have "P s \<Longrightarrow> P (voted p s)" for p s
    by (simp add: voted_def clusterSendFailoverAuth_def last_vote Let_def split: option.split)
  then show "P (clusterSendFailoverAuthIfNeeded p hdr s)" using assms by (simp add: vote_cases)
qed

lemma typed_steadfast:
  assumes "P s" shows "P (snd (processTyped hdr link sender e1 e2 s))"
proof -
  have "P (snd (processPing hdr link sender e2 s))"
  proof (cases "checkLinkNode hdr link sender s")
    case (Pair r s1)
    then have "P s1" using packetPhases_steady(4) [OF assms, of hdr link sender] by simp
    then show ?thesis by (cases r) (simp_all add: processPing_def Pair Let_def)
  qed
  then show ?thesis using assms by (simp add: processTyped_def Let_def split: option.split)
qed

lemma packet_steadfast [simp]: "P s \<Longrightarrow> P (snd (clusterProcessPacket hdr link s))"
  by (simp add: clusterProcessPacket_def typed_steadfast Let_def)

lemma failover_steadfast [simp]: "P s \<Longrightarrow> P (clusterHandleSlaveFailover s)"
  by (simp add: clusterHandleSlaveFailover_def Let_def)

lemma cron_steadfast: "P s \<Longrightarrow> P (clusterCron dial s)"
proof -
  assume s: "P s"
  define s3 where "s3 = pingRandomNode (measureHeat (reconnectNodes dial (clusterUpdateMyselfFlags
     (syncHotSlots (syncAnnounceIp (s\<lparr>s_iteration := s_iteration s + 1\<rparr>))))))"
  obtain counts upd s4 where d: "detectFailures s3 = (counts, upd, s4)" by (rule prod_cases3)
  have "P s3" using s by (simp add: s3_def)
  then have 4: "P s4" using cronPhases_steady(7) [of s3] d by simp
  have duties: "P s \<Longrightarrow> P (slaveDuties a s)" for a s by (simp add: slaveDuties_def Let_def)
  define s5 where "s5 = slaveDuties counts (manualFailoverCheckTimeout (startReplication s4))"
  have 5: "P s5" using 4 by (simp add: s5_def duties)
  have "clusterCron dial s = (if upd \<or> c_state s5 = CLUSTER_FAIL then clusterUpdateState s5 else s5)"
    unfolding clusterCron_def Let_def s3_def [symmetric] d prod.case s5_def [symmetric] ..
  then show ?thesis using 5 by simp
qed

lemma sleep_steadfast: "P s \<Longrightarrow> P (clusterBeforeSleep s)"
  by (simp add: clusterBeforeSleep_def Let_def)

lemma command_steadfast:
  assumes "P s" shows "P (snd (clusterCommand plain norm_ip fault argv s))"
proof -
  have "P (snd (clusterSetslot argv s))"
  proof -
    have "P s \<Longrightarrow> P (setslotNode n j s)" for n j s by (simp add: setslotNode_def setSlotOwner_def Let_def)
    then show ?thesis using assms by (simp add: clusterSetslot_def Let_def split: sum.split option.split)
  qed
  moreover have "P (snd (clusterBumpepoch s))" using assms by (simp add: clusterBumpepoch_def split_def Let_def)
  moreover have "P (snd (clusterFailover opt s))" for opt
    using assms by (simp add: clusterFailover_def Let_def split: option.split)
  moreover have "P (snd (clusterSetConfigEpoch arg s))" for arg
    using assms by (simp add: clusterSetConfigEpoch_def epoch Let_def split: sum.split)
  moreover have "P (snd (clusterResetCommand opt s))" for opt
  proof -
    have fields: "P s \<Longrightarrow> P (fold (\<lambda>j s. snd (clusterDelSlot j s)) js s)"
      "P s \<Longrightarrow> P (fold (\<lambda>p s. if p = c_myself s then s else clusterDelNode p s) ps s)" for js ps s
      by (rule fold_rule, simp_all)+
    show ?thesis
      using assms fields
      by (simp add: clusterResetCommand_def clusterReset_def epoch last_vote Let_def case_prod_beta)
  qed
  ultimately show ?thesis
    using assms unfolding clusterCommand_def Let_def
    by (simp add: clusterGetnodebyslot_def clusterGetipportbyslot_def)
qed

end

end
