(* ===== verification/NodesConf.thy ===== *)
theory NodesConf
  imports ClusterCommand
begin

text \<open>
  The file of the cluster configuration as a starting node reads it: \<open>clusterLoadConfig\<close> of
  src/server/src/cluster.c. Whatever the file holds, the node ends up with consistent tables or
  does not start; that a file written by \<open>clusterSaveConfig\<close> gives back what it was written from
  is in \<open>SavedConfig\<close>.

  The errors of the C function are values: \<open>ProcessExit\<close> for a line it calls corrupted,
  \<open>AssertFailed\<close> for its assertions and its panic, and \<open>OutOfBounds\<close> where it leaves a string or
  a buffer: a node name shorter than 40 characters is read past its end, and an address longer than
  the field \<^verbatim>\<open>ip\<close> is copied past the end of that field. The pointer \<^verbatim>\<open>server.cluster->myself\<close>,
  which is NULL until a line has the flag myself, is the first part of the state of the loops.
\<close>

section \<open>Results\<close>

type_synonym loading = "nid option \<times> redisServer"

definition andThen :: "panic + 'a \<Rightarrow> ('a \<Rightarrow> panic + 'b) \<Rightarrow> panic + 'b" where
  "andThen r f = (case r of Inl e \<Rightarrow> Inl e | Inr x \<Rightarrow> f x)"

fun foldE :: "('a \<Rightarrow> 'b \<Rightarrow> panic + 'b) \<Rightarrow> 'a list \<Rightarrow> 'b \<Rightarrow> panic + 'b" where
  "foldE f [] st = Inr st"
| "foldE f (x # xs) st = andThen (f x st) (foldE f xs)"

section \<open>Characters of a string\<close>

text \<open>
  \<^verbatim>\<open>strchr\<close> and \<^verbatim>\<open>strrchr\<close>, followed by writing a NUL at the place found: the string before the first
  (last) occurrence, and the memory after it.
\<close>

definition strchr :: "char \<Rightarrow> string \<Rightarrow> (string \<times> string) option" where
  "strchr ch w =
     (let k = length (takeWhile (\<lambda>c. c \<noteq> ch) (cstr w))
      in if ch \<in> set (cstr w) then Some (take k w, drop (Suc k) w) else None)"

definition strrchr :: "char \<Rightarrow> string \<Rightarrow> (string \<times> string) option" where
  "strrchr ch w =
     (let k = length (cstr w) - Suc (length (takeWhile (\<lambda>c. c \<noteq> ch) (rev (cstr w))))
      in if ch \<in> set (cstr w) then Some (take k w, drop (Suc k) w) else None)"

lemma strchr_shorter: "strchr ch w = Some (a, r) \<Longrightarrow> length r < length w"
proof -
  assume s: "strchr ch w = Some (a, r)"
  then have "ch \<in> set (cstr w)" "r = drop (Suc (length (takeWhile (\<lambda>c. c \<noteq> ch) (cstr w)))) w"
    by (simp_all add: strchr_def Let_def split: if_splits)
  then show ?thesis by (cases w) (auto simp: cstr_def)
qed

text \<open>The words between the commas of the third field.\<close>

function flagWords :: "string \<Rightarrow> string list" where
  "flagWords w = (case strchr (CHR '','') w of None \<Rightarrow> [cstr w] | Some (a, r) \<Rightarrow> a # flagWords r)"
  by pat_completeness auto
termination by (relation "measure length") (auto dest: strchr_shorter)

declare flagWords.simps [simp del]

text \<open>The lines as \<^verbatim>\<open>fgets\<close> returns them, at most \<open>maxline - 1\<close> characters at a time.\<close>

definition maxline :: nat where "maxline = 1024 + CLUSTER_SLOTS * 128"

definition nextLine :: "string \<Rightarrow> string" where
  "nextLine t =
     (let chunk = take (maxline - 1) t; body = takeWhile (\<lambda>c. c \<noteq> CHR 0x0A) chunk
      in take (Suc (length body)) chunk)"

lemma nextLine_nonempty: "t \<noteq> [] \<Longrightarrow> nextLine t \<noteq> []"
  by (cases t) (auto simp: nextLine_def maxline_def CLUSTER_SLOTS_def Let_def)

function fileLines :: "string \<Rightarrow> string list" where
  "fileLines t = (if t = [] then [] else nextLine t # fileLines (drop (length (nextLine t)) t))"
  by pat_completeness auto
termination
proof (relation "measure length")
  fix t :: string
  assume "t \<noteq> []"
  then show "(drop (length (nextLine t)) t, t) \<in> measure length"
    using nextLine_nonempty [of t] by simp
qed simp

declare fileLines.simps [simp del]

section \<open>A line of the file\<close>

text \<open>
  A name given to \<open>clusterLookupNode\<close> and \<open>createClusterNode\<close>: they read 40 bytes, and the string
  has one byte more than characters, its NUL.
\<close>

definition nodeName :: "string \<Rightarrow> panic + string" where
  "nodeName w =
     (if Suc (length w) < CLUSTER_NAMELEN then Inl OutOfBounds
      else Inr (take CLUSTER_NAMELEN (w @ [CHR 0x00])))"

definition lookupOrCreate :: "string \<Rightarrow> redisServer \<Rightarrow> panic + nid \<times> redisServer" where
  "lookupOrCreate w s = andThen (nodeName w) (\<lambda>name.
     case clusterLookupNode name s of
       Some n \<Rightarrow> Inr (n, s)
     | None \<Rightarrow> let (n, s1) = createClusterNode (Some name) 0 s in Inr (n, clusterAddNode n s1))"

fun loadVars :: "string list \<Rightarrow> redisServer \<Rightarrow> redisServer" where
  "loadVars (var # val # rest) s =
     loadVars rest
       (if isWord var ''currentEpoch'' then s\<lparr>c_currentEpoch := strtoull val\<rparr>
        else if isWord var ''lastVoteEpoch'' then s\<lparr>c_lastVoteEpoch := strtoull val\<rparr>
        else s)"
| "loadVars _ s = s"


definition loadAddress :: "nid \<Rightarrow> string \<Rightarrow> redisServer \<Rightarrow> panic + redisServer" where
  "loadAddress n w s =
     (case strrchr (CHR '':'') w of
        None \<Rightarrow> Inl ProcessExit
      | Some (ip, r) \<Rightarrow>
          if Suc (length ip) > NET_IP_STR_LEN then Inl OutOfBounds
          else
            let (port, busp) = (case strchr (CHR ''@'') r of
                                  Some (a, b) \<Rightarrow> (atoi a, Some (atoi b)) | None \<Rightarrow> (atoi r, None))
            in Inr (upd_node n (\<lambda>x. x\<lparr>n_ip := ip, n_port := port,
                      n_cport := (case busp of Some b \<Rightarrow> b | None \<Rightarrow> port + CLUSTER_PORT_INCR)\<rparr>) s))"

definition loadFlag :: "nid \<Rightarrow> string \<Rightarrow> loading \<Rightarrow> panic + loading" where
  "loadFlag n f = (\<lambda>(my, s).
     if strcaseeq f ''myself''
     then (if my \<noteq> None then Inl AssertFailed
           else Inr (Some n, upd_node n (setFlag CLUSTER_NODE_MYSELF) (s\<lparr>c_myself := n\<rparr>)))
     else if strcaseeq f ''master'' then Inr (my, upd_node n (setFlag CLUSTER_NODE_MASTER) s)
     else if strcaseeq f ''slave'' then Inr (my, upd_node n (setFlag CLUSTER_NODE_SLAVE) s)
     else if strcaseeq f ''fail?'' then Inr (my, upd_node n (setFlag CLUSTER_NODE_PFAIL) s)
     else if strcaseeq f ''fail''
     then Inr (my, upd_node n (\<lambda>x. (setFlag CLUSTER_NODE_FAIL x)\<lparr>n_fail_time := s_mstime s\<rparr>) s)
     else if strcaseeq f ''handshake'' then Inr (my, upd_node n (setFlag CLUSTER_NODE_HANDSHAKE) s)
     else if strcaseeq f ''noaddr'' then Inr (my, upd_node n (setFlag CLUSTER_NODE_NOADDR) s)
     else if strcaseeq f ''nofailover'' then Inr (my, upd_node n (setFlag CLUSTER_NODE_NOFAILOVER) s)
     else if strcaseeq f ''noflags'' then Inr (my, s)
     else Inl AssertFailed)"

definition loadMaster :: "nid \<Rightarrow> string \<Rightarrow> redisServer \<Rightarrow> panic + redisServer" where
  "loadMaster n w s =
     (if w \<noteq> [] \<and> hd w = CHR ''-'' then Inr s
      else andThen (lookupOrCreate w s) (\<lambda>(master, s1).
             Inr (snd (clusterNodeAddSlave master n
                         (upd_node n (\<lambda>x. x\<lparr>n_slaveof := Some master\<rparr>) s1)))))"

definition loadTimes :: "nid \<Rightarrow> string \<Rightarrow> string \<Rightarrow> string \<Rightarrow> redisServer \<Rightarrow> redisServer" where
  "loadTimes n ping pong epoch s =
     upd_node n (\<lambda>x. x\<lparr>n_ping_sent := (if atoi ping \<noteq> 0 then s_mstime s else n_ping_sent x),
                       n_pong_received := (if atoi pong \<noteq> 0 then s_mstime s else n_pong_received x),
                       n_configEpoch := strtoull epoch\<rparr>) s"

text \<open>A slot that is migrating (\<^verbatim>\<open>[slot->-node]\<close>) or being imported (\<^verbatim>\<open>[slot-<-node]\<close>).\<close>

definition loadOpenSlot :: "string \<Rightarrow> redisServer \<Rightarrow> panic + redisServer" where
  "loadOpenSlot w s =
     (case strchr (CHR ''-'') w of
        None \<Rightarrow> Inl AssertFailed
      | Some (a, r) \<Rightarrow>
          let slot = atoi (tl a) in
          if slot < 0 \<or> slot \<ge> int CLUSTER_SLOTS then Inl ProcessExit
          else andThen (lookupOrCreate (drop 2 r) s) (\<lambda>(cn, s1).
                 Inr (if r \<noteq> [] \<and> hd r = CHR ''>''
                      then s1\<lparr>c_migrating_slots_to := (c_migrating_slots_to s1)(nat slot := Some cn)\<rparr>
                      else s1\<lparr>c_importing_slots_from := (c_importing_slots_from s1)(nat slot := Some cn)\<rparr>)))"

definition loadSlots :: "nid \<Rightarrow> string \<Rightarrow> redisServer \<Rightarrow> panic + redisServer" where
  "loadSlots n w s =
     (if w \<noteq> [] \<and> hd w = CHR ''['' then loadOpenSlot w s
      else
        let (start, stop) = (case strchr (CHR ''-'') w of
                               Some (a, b) \<Rightarrow> (atoi a, atoi b) | None \<Rightarrow> (atoi w, atoi w))
        in if start < 0 \<or> start \<ge> int CLUSTER_SLOTS \<or> stop < 0 \<or> stop \<ge> int CLUSTER_SLOTS then Inl ProcessExit
           else Inr (fold (\<lambda>j s. snd (clusterAddSlot n j s)) [nat start..<Suc (nat stop)] s))"

definition loadNode :: "string list \<Rightarrow> loading \<Rightarrow> panic + loading" where
  "loadNode argv = (\<lambda>(my, s).
     andThen (lookupOrCreate (argv ! 0) s) (\<lambda>(n, s1).
     andThen (loadAddress n (argv ! 1) s1) (\<lambda>s2.
     andThen (foldE (loadFlag n) (flagWords (argv ! 2)) (my, s2)) (\<lambda>(my1, s3).
     andThen (loadMaster n (argv ! 3) s3) (\<lambda>s4.
     andThen (foldE (loadSlots n) (drop 8 argv) (loadTimes n (argv ! 4) (argv ! 5) (argv ! 6) s4)) (\<lambda>s5.
       Inr (my1, s5)))))))"

definition loadLine :: "string \<Rightarrow> loading \<Rightarrow> panic + loading" where
  "loadLine line = (\<lambda>(my, s).
     if line ! 0 = CHR 0x0A \<or> line ! 0 = CHR 0x00 then Inr (my, s)
     else case sdssplitargs (cstr line) of
            None \<Rightarrow> Inl ProcessExit
          | Some argv \<Rightarrow>
              if argv = [] then Inl OutOfBounds
              else if isWord (argv ! 0) ''vars''
              then if even (length argv) then Inl ProcessExit else Inr (my, loadVars (tl argv) s)
              else if length argv < 8 then Inl ProcessExit
              else loadNode argv (my, s))"

section \<open>The file\<close>

datatype configFile = NoFile | UnreadableFile | FileOf string

definition clusterLoadConfig :: "configFile \<Rightarrow> redisServer \<Rightarrow> redisServer option" where
  "clusterLoadConfig file s =
     (case file of
        NoFile \<Rightarrow> None
      | UnreadableFile \<Rightarrow> Some (panic_with ProcessExit s)
      | FileOf t \<Rightarrow>
          if t = [] then None
          else case foldE loadLine (fileLines t) (None, s) of
                 Inl e \<Rightarrow> Some (panic_with e s)
               | Inr (None, s1) \<Rightarrow> Some (panic_with ProcessExit s1)
               | Inr (Some _, s1) \<Rightarrow>
                   Some (if clusterGetMaxEpoch s1 > c_currentEpoch s1
                         then s1\<lparr>c_currentEpoch := clusterGetMaxEpoch s1\<rparr> else s1))"

text \<open>What \<open>clusterSaveConfig\<close> writes: the nodes that are not in handshake and the two epochs.\<close>

definition configText :: "redisServer \<Rightarrow> string" where
  "configText s =
     clusterGenNodesDescription CLUSTER_NODE_HANDSHAKE False s @
     ''vars currentEpoch '' @ decimal (uint (c_currentEpoch s)) @
     '' lastVoteEpoch '' @ decimal (uint (c_lastVoteEpoch s)) @ [CHR 0x0A]"

text \<open>
  The text is padded to the size of the file it overwrites. The padding is what stays when the file
  could not be truncated afterwards, or the process died before it was.
\<close>

definition configPayload :: "nat \<Rightarrow> redisServer \<Rightarrow> string" where
  "configPayload old s =
     (let ci = configText s
      in if old > length ci then ci @ replicate (old - length ci) (CHR 0x0A) else ci)"

section \<open>Tables without a node of its own\<close>

text \<open>The invariant of the tables while the node does not know yet which entry it is itself.\<close>

definition tables_ok :: "redisServer \<Rightarrow> bool" where
  "tables_ok s \<longleftrightarrow> dictOk (c_nodes s) \<and> (\<forall>p \<in> live s. p < c_next s) \<and>
     (\<forall>(name, p) \<in> set (c_nodes s). n_name (nd s p) = name) \<and> slots_ok s"

lemma cluster_ok_tables: "cluster_ok s \<longleftrightarrow> tables_ok s \<and> c_myself s \<in> live s"
  by (auto simp: cluster_ok_def names_ok_def tables_ok_def)

lemma tables_ok_core:
  assumes "core s' = core s" shows "tables_ok s' = tables_ok s"
proof -
  have "c_nodes s' = c_nodes s" "c_next s' = c_next s"
    "c_slots s' = c_slots s" "\<And>p. n_name (nd s' p) = n_name (nd s p)"
    "\<And>p. n_slots (nd s' p) = n_slots (nd s p)" "\<And>p. n_numslots (nd s' p) = n_numslots (nd s p)"
    using assms by (simp_all add: core_def nd_def fun_eq_iff)
  then show ?thesis unfolding tables_ok_def slots_ok_def live_def by simp
qed

text \<open>What each step of loading keeps; the output and the ports are among it.\<close>

definition settings :: "redisServer \<Rightarrow> event list \<times> bool \<times> int \<times> int" where
  "settings s = (s_out s, s_tls_cluster s, s_tls_port s, s_port s)"

lemma settings_simps [simp]:
  "settings (upd_node p f s) = settings s" "settings (s\<lparr>c_nodes := d\<rparr>) = settings s"
  "settings (s\<lparr>c_mem := mem\<rparr>) = settings s" "settings (s\<lparr>c_next := k\<rparr>) = settings s"
  "settings (s\<lparr>c_slots := sl\<rparr>) = settings s" "settings (s\<lparr>c_myself := p\<rparr>) = settings s"
  "settings (s\<lparr>c_migrating_slots_to := sl\<rparr>) = settings s" "settings (s\<lparr>c_importing_slots_from := sl\<rparr>) = settings s"
  "settings (s\<lparr>c_currentEpoch := e\<rparr>) = settings s" "settings (s\<lparr>c_lastVoteEpoch := e\<rparr>) = settings s"
  by (simp_all add: settings_def upd_node_def)

definition widens :: "redisServer \<Rightarrow> redisServer \<Rightarrow> bool" where
  "widens s s' \<longleftrightarrow> tables_ok s' \<and> live s \<subseteq> live s' \<and> s_panic s' = s_panic s \<and> c_myself s' = c_myself s \<and>
     settings s' = settings s \<and>
     (\<forall>p \<in> live s. hasFlag (n_flags (nd s p)) CLUSTER_NODE_MYSELF \<longrightarrow>
        hasFlag (n_flags (nd s' p)) CLUSTER_NODE_MYSELF)"

lemma widens_refl: "tables_ok s \<Longrightarrow> widens s s"
  by (simp add: widens_def)

lemma widens_trans: "widens s s' \<Longrightarrow> widens s' s'' \<Longrightarrow> widens s s''"
  by (auto simp: widens_def)

lemma growsD: "widens s s' \<Longrightarrow> tables_ok s'" "widens s s' \<Longrightarrow> p \<in> live s \<Longrightarrow> p \<in> live s'"
  by (auto simp: widens_def)

lemma widens_core:
  "tables_ok s \<Longrightarrow> core s' = core s \<Longrightarrow> s_panic s' = s_panic s \<Longrightarrow> settings s' = settings s \<Longrightarrow>
   (\<And>p. hasFlag (n_flags (nd s p)) CLUSTER_NODE_MYSELF \<Longrightarrow> hasFlag (n_flags (nd s' p)) CLUSTER_NODE_MYSELF) \<Longrightarrow>
   widens s s'"
  using tables_ok_core [of s' s] live_core [of s' s] by (auto simp: widens_def core_def)

lemma widens_upd:
  "tables_ok s \<Longrightarrow> core (upd_node n f s) = core s \<Longrightarrow>
   (\<And>x. hasFlag (n_flags x) CLUSTER_NODE_MYSELF \<Longrightarrow> hasFlag (n_flags (f x)) CLUSTER_NODE_MYSELF) \<Longrightarrow>
   widens s (upd_node n f s)"
  by (rule widens_core) (auto simp: nd_upd_node)

lemma andThen_Inr: "andThen r f = Inr y \<longleftrightarrow> (\<exists>x. r = Inr x \<and> f x = Inr y)"
  by (simp add: andThen_def split: sum.split)

lemma foldE_append: "foldE f (xs @ ys) st = andThen (foldE f xs st) (foldE f ys)"
  by (induction xs arbitrary: st) (auto simp: andThen_def split: sum.split)

lemma foldE_invariant:
  assumes "\<And>x st st'. x \<in> set xs \<Longrightarrow> f x st = Inr st' \<Longrightarrow> P st \<Longrightarrow> P st'"
  shows "foldE f xs st = Inr st' \<Longrightarrow> P st \<Longrightarrow> P st'"
  using assms
proof (induction xs arbitrary: st)
  case (Cons x xs)
  then obtain st1 where "f x st = Inr st1" "foldE f xs st1 = Inr st'" by (auto simp: andThen_Inr)
  then show ?case using Cons.IH [of st1] Cons.prems by auto
qed simp

text \<open>The exact effect of looking a node up or creating it.\<close>

definition conf_name :: "string \<Rightarrow> string" where
  "conf_name w = take CLUSTER_NAMELEN (w @ [CHR 0x00])"

definition addBlank :: "string \<Rightarrow> redisServer \<Rightarrow> redisServer" where
  "addBlank name s = s\<lparr>c_nodes := dictReplace (c_nodes s) name (c_next s),
     c_mem := (c_mem s)(c_next s := newClusterNode name 0 s), c_next := Suc (c_next s)\<rparr>"

lemma conf_name_length: "CLUSTER_NAMELEN \<le> Suc (length w) \<Longrightarrow> length (conf_name w) = CLUSTER_NAMELEN"
  by (simp add: conf_name_def)

lemma lookupOrCreate_cases:
  assumes "lookupOrCreate w s = Inr (n, s1)"
  shows "CLUSTER_NAMELEN \<le> Suc (length w) \<and>
    (dictFind (c_nodes s) (conf_name w) = Some n \<and> s1 = s \<or>
     dictFind (c_nodes s) (conf_name w) = None \<and> n = c_next s \<and> s1 = addBlank (conf_name w) s)"
proof -
  have len: "\<not> Suc (length w) < CLUSTER_NAMELEN"
    using assms by (auto simp: lookupOrCreate_def nodeName_def andThen_def)
  define name where "name = conf_name w"
  have name: "take CLUSTER_NAMELEN name = name" unfolding name_def conf_name_def take_take min.idem ..
  have l: "lookupOrCreate w s = (case dictFind (c_nodes s) name of
       Some n \<Rightarrow> Inr (n, s)
     | None \<Rightarrow> let (n, s1) = createClusterNode (Some name) 0 s in Inr (n, clusterAddNode n s1))"
  proof -
    have "nodeName w = Inr name" using len by (simp add: nodeName_def name_def conf_name_def)
    then show ?thesis by (simp add: lookupOrCreate_def andThen_def clusterLookupNode_def name del: take_append)
  qed
  show ?thesis
  proof (cases "dictFind (c_nodes s) name")
    case None
    then have "n = c_next s \<and> s1 = addBlank name s"
      using assms name
      by (auto simp: l createClusterNode_def allocNode_def clusterAddNode_def nd_def newClusterNode_def addBlank_def Let_def)
    with None len show ?thesis by (simp add: name_def)
  next
    case (Some q)
    with assms len show ?thesis by (simp add: l name_def)
  qed
qed

lemma addBlank_ok:
  assumes ok: "tables_ok s" and free: "dictFind (c_nodes s) name = None"
  shows "tables_ok (addBlank name s)" and "live (addBlank name s) = insert (c_next s) (live s)"
    and "p \<noteq> c_next s \<Longrightarrow> nd (addBlank name s) p = nd s p"
    and "nd (addBlank name s) (c_next s) = newClusterNode name 0 s"
proof -
  let ?s = "addBlank name s"
  have d: "dictOk (c_nodes s)" using ok by (simp add: tables_ok_def)
  show live: "live ?s = insert (c_next s) (live s)"
    using live_dictReplace [OF d free] by (simp add: live_def addBlank_def)
  show nd: "p \<noteq> c_next s \<Longrightarrow> nd ?s p = nd s p" "nd ?s (c_next s) = newClusterNode name 0 s" for p
    by (simp_all add: addBlank_def nd_def)
  have old: "p \<noteq> c_next s" if "p \<in> live s" for p using ok that by (auto simp: tables_ok_def)
  have entry: "(k, p) \<in> set (c_nodes s) \<Longrightarrow> p \<in> live s" for k p by (force simp: live_def dictVals_def)
  have [simp]: "c_slots ?s = c_slots s" "c_next ?s = Suc (c_next s)" by (simp_all add: addBlank_def)
  have "dictOk (c_nodes ?s)" using d by (simp add: addBlank_def dictReplace_ok)
  moreover have "\<forall>p \<in> live ?s. p < c_next ?s" using ok by (auto simp: live tables_ok_def less_Suc_eq)
  moreover have "n_name (nd ?s p) = k" if "(k, p) \<in> set (c_nodes ?s)" for k p
  proof -
    have "(k, p) \<in> insert (name, c_next s) (set (c_nodes s))"
      using that set_dictReplace [OF free] by (simp add: addBlank_def)
    then show ?thesis using ok entry old nd by (auto simp: tables_ok_def newClusterNode_def)
  qed
  moreover have "slots_ok ?s"
  proof -
    have "\<not> (\<exists>j<CLUSTER_SLOTS. c_slots s j = Some (c_next s))"
      using ok old by (auto simp: tables_ok_def slots_ok_def)
    then show ?thesis
      using ok old nd unfolding slots_ok_def live tables_ok_def
      by (auto simp: newClusterNode_def)
  qed
  ultimately show "tables_ok ?s" unfolding tables_ok_def by blast
qed

lemma lookupOrCreate_widens:
  assumes "tables_ok s" and "lookupOrCreate w s = Inr (n, s1)"
  shows "widens s s1" and "n \<in> live s1"
proof -
  consider (found) "dictFind (c_nodes s) (conf_name w) = Some n" "s1 = s"
    | (new) "dictFind (c_nodes s) (conf_name w) = None" "n = c_next s" "s1 = addBlank (conf_name w) s"
    using lookupOrCreate_cases [OF assms(2)] by auto
  then have "widens s s1 \<and> n \<in> live s1"
  proof cases
    case found
    then show ?thesis using assms(1) dictFind_vals by (auto simp: widens_refl live_def)
  next
    case new
    note b = addBlank_ok [OF assms(1) new(1)]
    have old: "p \<noteq> c_next s" if "p \<in> live s" for p using assms(1) that by (auto simp: tables_ok_def)
    have f: "s_panic s1 = s_panic s" "c_myself s1 = c_myself s" "settings s1 = settings s" by (simp_all add: new addBlank_def)
    have "live s \<subseteq> live s1" "n \<in> live s1" using b(2) new by auto
    moreover have "nd s1 p = nd s p" if "p \<in> live s" for p using b(3) old that new by auto
    ultimately show ?thesis using b(1) new f unfolding widens_def by simp
  qed
  then show "widens s s1" "n \<in> live s1" by simp_all
qed

lemma addSlot_widens:
  assumes "tables_ok s" and "n \<in> live s" and "j < CLUSTER_SLOTS"
  shows "widens s (snd (clusterAddSlot n j s))"
proof (cases "c_slots s j")
  case None
  have "tables_ok (bind_slot n j s)"
    using assms(1) slots_ok_bind [OF _ assms(2,3) None]
    by (auto simp: tables_ok_def bind_slot_def upd_node_def nd_def live_def split: prod.splits)
  then have "tables_ok (snd (clusterAddSlot n j s))" using tables_ok_core [OF core_clusterAddSlot [OF None]] by simp
  moreover have "settings (snd (clusterAddSlot n j s)) = settings s" "c_myself (snd (clusterAddSlot n j s)) = c_myself s"
    "hasFlag (n_flags (nd s p)) f \<Longrightarrow> hasFlag (n_flags (nd (snd (clusterAddSlot n j s)) p)) f" for p f
    by (auto simp: clusterAddSlot_def clusterNodeSetSlotBit_def Let_def nd_def upd_node_def hasFlag_set split: option.splits)
  ultimately show ?thesis by (simp add: widens_def clusterSlot_panic)
next
  case (Some q)
  then show ?thesis using assms(1) by (simp add: clusterAddSlot_def widens_refl)
qed
section \<open>Loading keeps the tables\<close>

lemma loadAddress_widens:
  "tables_ok s \<Longrightarrow> loadAddress n w s = Inr s1 \<Longrightarrow> widens s s1 \<and> live s1 = live s"
  by (auto simp: loadAddress_def Let_def frame_simps live_def split: option.splits if_splits intro!: widens_upd)

lemma loadTimes_widens: "tables_ok s \<Longrightarrow> widens s (loadTimes n ping pong epoch s)"
  unfolding loadTimes_def by (rule widens_upd) (simp_all add: frame_simps)

lemma loadMaster_widens:
  assumes "tables_ok s" and "loadMaster n w s = Inr s1"
  shows "widens s s1"
proof (cases "w \<noteq> [] \<and> hd w = CHR ''-''")
  case True
  then show ?thesis using assms by (simp add: loadMaster_def widens_refl)
next
  case False
  obtain m s2 where l: "lookupOrCreate w s = Inr (m, s2)"
    and s1: "s1 = snd (clusterNodeAddSlave m n (upd_node n (\<lambda>x. x\<lparr>n_slaveof := Some m\<rparr>) s2))"
    using assms(2) False by (auto simp: loadMaster_def andThen_Inr)
  note g = lookupOrCreate_widens [OF assms(1) l]
  have "widens s2 (upd_node n (\<lambda>x. x\<lparr>n_slaveof := Some m\<rparr>) s2)" (is "widens s2 ?s")
    using g(1) by (intro widens_upd) (simp_all add: widens_def frame_simps)
  moreover from this have "widens ?s s1"
    unfolding s1 by (intro widens_core)
      (auto simp: widens_def frame_simps clusterNodeAddSlave_def nd_upd_node hasFlag_set)
  ultimately show ?thesis using g(1) widens_trans by blast
qed

lemma addSlots_widens:
  "tables_ok s \<Longrightarrow> n \<in> live s \<Longrightarrow> \<forall>j \<in> set js. j < CLUSTER_SLOTS \<Longrightarrow>
     widens s (fold (\<lambda>j s. snd (clusterAddSlot n j s)) js s)"
proof (induction js arbitrary: s)
  case (Cons j js)
  then have g: "widens s (snd (clusterAddSlot n j s))" by (simp add: addSlot_widens)
  then have "widens (snd (clusterAddSlot n j s)) (fold (\<lambda>j s. snd (clusterAddSlot n j s)) js (snd (clusterAddSlot n j s)))"
    using Cons.IH Cons.prems growsD [OF g] by simp
  then show ?case using widens_trans [OF g] by simp
qed (simp add: widens_refl)

lemma loadSlots_widens:
  assumes "tables_ok s" and "n \<in> live s" and "loadSlots n w s = Inr s1"
  shows "widens s s1"
proof (cases "w \<noteq> [] \<and> hd w = CHR ''[''")
  case True
  then have o: "loadOpenSlot w s = Inr s1" using assms(3) by (simp add: loadSlots_def)
  then obtain a r where c: "strchr (CHR ''-'') w = Some (a, r)"
    by (cases "strchr (CHR ''-'') w") (auto simp: loadOpenSlot_def)
  then obtain cn s2 where l: "lookupOrCreate (drop 2 r) s = Inr (cn, s2)"
    and s1: "s1 = (if r \<noteq> [] \<and> hd r = CHR ''>''
        then s2\<lparr>c_migrating_slots_to := (c_migrating_slots_to s2)(nat (atoi (tl a)) := Some cn)\<rparr>
        else s2\<lparr>c_importing_slots_from := (c_importing_slots_from s2)(nat (atoi (tl a)) := Some cn)\<rparr>)"
    using o by (fastforce simp: loadOpenSlot_def andThen_Inr Let_def split: if_splits)
  have "core s1 = core s2" "s_panic s1 = s_panic s2" "settings s1 = settings s2" "\<And>p. nd s1 p = nd s2 p"
    by (simp_all add: s1 frame_simps nd_def)
  moreover note g = lookupOrCreate_widens(1) [OF assms(1) l]
  ultimately have "widens s2 s1" by (intro widens_core) (auto simp: widens_def)
  then show ?thesis using g widens_trans by blast
next
  case False
  define range where "range = (case strchr (CHR ''-'') w of Some (a, b) \<Rightarrow> (atoi a, atoi b) | None \<Rightarrow> (atoi w, atoi w))"
  obtain a b where ab: "range = (a, b)" by force
  have "\<not> (a < 0 \<or> a \<ge> int CLUSTER_SLOTS \<or> b < 0 \<or> b \<ge> int CLUSTER_SLOTS)"
    and s1: "s1 = fold (\<lambda>j s. snd (clusterAddSlot n j s)) [nat a..<Suc (nat b)] s"
    using assms(3) False unfolding loadSlots_def range_def [symmetric] ab
    by (auto simp del: upt_Suc split: if_splits)
  then show ?thesis unfolding s1 by (intro addSlots_widens assms(1,2)) auto
qed

text \<open>The invariant of the loops.\<close>

definition loading_ok :: "event list \<times> bool \<times> int \<times> int \<Rightarrow> loading \<Rightarrow> bool" where
  "loading_ok out = (\<lambda>(my, s). tables_ok s \<and> s_panic s = None \<and> settings s = out \<and>
     (\<forall>m. my = Some m \<longrightarrow>
        m \<in> live s \<and> c_myself s = m \<and> hasFlag (n_flags (nd s m)) CLUSTER_NODE_MYSELF))"

lemma loading_widens: "loading_ok out (my, s) \<Longrightarrow> widens s s' \<Longrightarrow> loading_ok out (my, s')"
  by (auto simp: loading_ok_def widens_def)

lemma loadFlag_ok:
  assumes "loadFlag n f st = Inr (my', s')" and "loading_ok out st" and "n \<in> live (snd st)"
  shows "loading_ok out (my', s') \<and> live s' = live (snd st)"
proof -
  obtain my s where st: "st = (my, s)" by force
  have t: "tables_ok s" using assms(2) by (simp add: st loading_ok_def)
  have flag: "widens s (upd_node n (setFlag b) s)" for b
    using t by (intro widens_upd) (simp_all add: frame_simps hasFlag_set)
  have fail: "widens s (upd_node n (\<lambda>x. (setFlag b x)\<lparr>n_fail_time := s_mstime s\<rparr>) s)" for b
    using t by (intro widens_upd) (simp_all add: frame_simps hasFlag_set)
  have l: "live (upd_node n g s) = live s" for g by (simp add: live_def)
  note plain = loading_widens [OF assms(2) [unfolded st]]
  show ?thesis
  proof (cases "strcaseeq f ''myself''")
    case True
    then have my': "my' = Some n" and s': "s' = upd_node n (setFlag CLUSTER_NODE_MYSELF) (s\<lparr>c_myself := n\<rparr>)"
      using assms(1) by (simp_all add: loadFlag_def st split: if_splits)
    have f: "nd s' p = (if p = n then setFlag CLUSTER_NODE_MYSELF (nd s n) else nd s p)"
      "live s' = live s" "c_slots s' = c_slots s" "c_nodes s' = c_nodes s" "c_next s' = c_next s"
      "s_panic s' = s_panic s" "settings s' = settings s" "c_myself s' = n" for p
      by (simp_all add: s' nd_upd_node nd_def live_def)
    have "slots_ok s'" using t unfolding tables_ok_def slots_ok_def f by auto
    then have "tables_ok s'" using t unfolding tables_ok_def f by (auto split: prod.splits)
    then have "loading_ok out (my', s')"
      using assms(2,3) unfolding loading_ok_def st my' f by (simp add: f hasFlag_set) (simp add: flag_simps hasFlag_simps)
    then show ?thesis using f(2) st by simp
  next
    case False
    then show ?thesis
      using assms(1) plain [OF flag] plain [OF fail] assms(2)
      by (auto simp: loadFlag_def st l split: if_splits)
  qed
qed

lemma loadFlags_ok:
  assumes "foldE (loadFlag n) fs (my, s) = Inr (my', s')" and "loading_ok out (my, s)" and "n \<in> live s"
  shows "loading_ok out (my', s') \<and> n \<in> live s'"
  using foldE_invariant [OF _ assms(1), where P = "\<lambda>st. loading_ok out st \<and> n \<in> live (snd st)"]
    loadFlag_ok assms(2,3) by (metis prod.collapse snd_conv)

lemma loadNode_ok:
  assumes "loadNode argv (my, s) = Inr (my', s')" and "loading_ok out (my, s)"
  shows "loading_ok out (my', s')"
proof -
  have t: "tables_ok s" using assms(2) by (simp add: loading_ok_def)
  obtain n s1 s2 s3 s4 where n: "lookupOrCreate (argv ! 0) s = Inr (n, s1)"
    and a: "loadAddress n (argv ! 1) s1 = Inr s2"
    and f: "foldE (loadFlag n) (flagWords (argv ! 2)) (my, s2) = Inr (my', s3)"
    and m: "loadMaster n (argv ! 3) s3 = Inr s4"
    and slots: "foldE (loadSlots n) (drop 8 argv) (loadTimes n (argv ! 4) (argv ! 5) (argv ! 6) s4) = Inr s'"
    using assms(1) by (auto simp: loadNode_def andThen_Inr split: prod.splits)
  note g1 = lookupOrCreate_widens [OF t n]
  have "tables_ok s1" using g1 by (simp add: widens_def)
  note g2 = loadAddress_widens [OF this a]
  have "loading_ok out (my, s2)" using loading_widens g1 g2 assms(2) by blast
  then have 3: "loading_ok out (my', s3)" "n \<in> live s3" using loadFlags_ok [OF f] g1 g2 by auto
  then have "tables_ok s3" by (simp add: loading_ok_def)
  note g4 = loadMaster_widens [OF this m]
  let ?s5 = "loadTimes n (argv ! 4) (argv ! 5) (argv ! 6) s4"
  have "widens s4 ?s5" using g4 loadTimes_widens by (auto simp: widens_def)
  then have 5: "widens s3 ?s5" using g4 widens_trans by blast
  let ?P = "\<lambda>s'. widens s3 s' \<and> n \<in> live s'"
  have "?P s'"
  proof (rule foldE_invariant [OF _ slots])
    fix x st st'
    assume "loadSlots n x st = Inr st'" "?P st"
    then have "widens st st'" using loadSlots_widens growsD(1) by blast
    then show "?P st'" using \<open>?P st\<close> widens_trans growsD(2) by blast
  qed (use 3 5 in \<open>auto simp: widens_def\<close>)
  then show ?thesis using 3 loading_widens by blast
qed

lemma loadVars_core: "core (loadVars vs s) = core s" "s_panic (loadVars vs s) = s_panic s"
  "settings (loadVars vs s) = settings s" "nd (loadVars vs s) p = nd s p"
  by (induction vs s rule: loadVars.induct) (auto simp: frame_simps nd_def)

lemma loadLine_ok:
  assumes "loadLine line st = Inr st'" and "loading_ok out st"
  shows "loading_ok out st'"
proof -
  obtain my s where st: "st = (my, s)" by force
  have t: "tables_ok s" using assms(2) by (simp add: st loading_ok_def)
  have "widens s (loadVars vs s)" for vs by (rule widens_core [OF t]) (simp_all add: loadVars_core)
  then have "loading_ok out (my, loadVars vs s)" for vs using loading_widens assms(2) st by blast
  then show ?thesis
    using assms loadNode_ok [of _ my s] unfolding st loadLine_def
    by (cases st') (auto split: if_splits option.splits)
qed

lemma loaded_tables:
  assumes load: "clusterLoadConfig file s = Some s'" and alive: "s_panic s' = None" "s_panic s = None"
    and empty: "c_nodes s = []" "c_slots s = (\<lambda>_. None)"
  shows "cluster_ok s' \<and> knowsItself s' \<and> (\<forall>p \<in> live s'. n_configEpoch (nd s' p) \<le> c_currentEpoch s') \<and>
    settings s' = settings s"
proof -
  have panics: "s_panic (panic_with e x) = None \<longleftrightarrow> False" for e x by (simp add: panic_with_def)
  obtain t where t: "file = FileOf t" "t \<noteq> []" using load alive(1)
    by (cases "file" rule: configFile.exhaust) (auto simp: clusterLoadConfig_def panics split: if_splits)
  obtain my s1 where f: "foldE loadLine (fileLines t) (None, s) = Inr (Some my, s1)"
    and s': "s' = (if clusterGetMaxEpoch s1 > c_currentEpoch s1
                   then s1\<lparr>c_currentEpoch := clusterGetMaxEpoch s1\<rparr> else s1)"
  proof (cases "foldE loadLine (fileLines t) (None, s)")
    case (Inl e)
    then show thesis using load alive(1) t by (auto simp: clusterLoadConfig_def panics)
  next
    case (Inr r)
    then show thesis using load alive(1) t that
      by (cases r; cases "fst r") (auto simp: clusterLoadConfig_def panics)
  qed
  have live: "live s = {}" using empty by (simp add: live_def dictVals_def)
  have "tables_ok s" by (simp add: tables_ok_def slots_ok_def live empty) (simp add: dictOk_def)
  then have "loading_ok (settings s) (None, s)" using alive(2) by (simp add: loading_ok_def)
  then have ok: "loading_ok (settings s) (Some my, s1)" using foldE_invariant [OF _ f, of "loading_ok (settings s)"] loadLine_ok by blast
  have c: "core s' = core s1" "\<And>p. nd s' p = nd s1 p" "settings s' = settings s1"
    by (simp_all add: s' frame_simps nd_def)
  have m: "c_myself s' = c_myself s1" "live s' = live s1" by (simp_all add: s' live_def)
  have k: "tables_ok s1" "c_myself s1 = my" "my \<in> live s1" "hasFlag (n_flags (nd s1 my)) CLUSTER_NODE_MYSELF"
    "settings s1 = settings s"
    using ok by (simp_all add: loading_ok_def)
  have "tables_ok s'" using k(1) unfolding tables_ok_core [OF c(1)] .
  then have "cluster_ok s'" using k(2,3) unfolding cluster_ok_tables m by simp
  moreover have "knowsItself s'" using k(2,4) unfolding knowsItself_def me_def m c by simp
  moreover have "n_configEpoch (nd s' p) \<le> c_currentEpoch s'" if "p \<in> live s'" for p
  proof -
    have "n_configEpoch (nd s1 p) \<le> clusterGetMaxEpoch s1"
      using that unfolding clusterGetMaxEpoch_max m by (intro Max_ge) (auto simp: live_def)
    then show ?thesis by (auto simp: s' c nd_def)
  qed
  ultimately show ?thesis using k(5) c(3) by simp
qed

section \<open>Where the loader leaves its buffers\<close>

lemma blank_words: "\<forall>ch \<in> set line. isSpace ch \<Longrightarrow> sdssplitargs line = Some []"
proof (induction line)
  case (Cons ch r)
  then show ?case by (simp add: split_blank)
qed (simp add: sdssplitargs.simps)


end
