(* ===== verification/Node.thy ===== *)
theory Node
  imports Steady NodesConf
begin

text \<open>
  A whole node: its inputs (packets, ticks of the cron, the work before sleeping, connections,
  commands of clients and of administrators, the passage of time) as the labels of a step relation,
  its runs, and the invariants of all reachable states. The event loop takes the inputs one after the
  other in any order, so a run is any sequence of steps; a process that died takes no step.
\<close>

section \<open>Steps and runs\<close>

datatype input =
    Packet clusterMsg lid
  | CronTick "clusterNode \<Rightarrow> (string option \<times> string) option"
  | BeforeSleep
  | Accepted "(string option \<times> string) option"
  | Connected bool lid
  | ClientCommand client
  | AdminCommand "string list"
  | Elsewhere

text \<open>
  \<open>Elsewhere\<close> is what other parts of the server do: the clock, the data set, replication and the
  settings change, the tables of the cluster, its epochs and its output do not.
\<close>

inductive node_step :: "redisServer \<Rightarrow> input \<Rightarrow> redisServer \<Rightarrow> bool" where
  packet: "s_panic s = None \<Longrightarrow> linkOk link hdr s \<Longrightarrow>
    node_step s (Packet hdr link) (snd (clusterProcessPacket hdr link s))"
| cron: "s_panic s = None \<Longrightarrow> node_step s (CronTick dial) (clusterCron dial s)"
| sleep: "s_panic s = None \<Longrightarrow> node_step s BeforeSleep (clusterBeforeSleep s)"
| accept: "s_panic s = None \<Longrightarrow> node_step s (Accepted conn) (clusterConnAcceptHandler conn s)"
| link_up: "s_panic s = None \<Longrightarrow> node_step s (Connected up link) (clusterLinkConnectHandler up link s)"
| client_command: "s_panic s = None \<Longrightarrow> processCommand filters table denied junk c s = Some (res, c', s') \<Longrightarrow>
    node_step s (ClientCommand c) s'"
| admin: "s_panic s = None \<Longrightarrow> clusterCommand plain norm_ip fault argv s = (replies, s') \<Longrightarrow>
    node_step s (AdminCommand argv) s'"
| elsewhere: "s_panic s = None \<Longrightarrow> core s' = core s \<Longrightarrow> spine s' = spine s \<Longrightarrow> node_step s Elsewhere s'"

inductive node_run :: "redisServer \<Rightarrow> input list \<Rightarrow> redisServer \<Rightarrow> bool" where
  start: "node_run s [] s"
| step: "node_run s ins s1 \<Longrightarrow> node_step s1 i s2 \<Longrightarrow> node_run s (ins @ [i]) s2"

section \<open>The contracts\<close>

definition knows :: "nid \<Rightarrow> redisServer \<Rightarrow> bool" where
  "knows m s \<longleftrightarrow> c_myself s = m \<and> m < c_next s \<and> hasFlag (n_flags (nd s m)) CLUSTER_NODE_MYSELF"

lemma epochs_noVote: "noVote ev \<Longrightarrow> epochs (emit ev s) = epochs s"
  by (cases ev) (simp_all add: epochs_def emit_def noVote_def)

interpretation tables: calm "\<lambda>s. core s = k" for k
  by unfold_locales (simp_all add: frame_simps)

interpretation epochs_of: steady "\<lambda>s. epochs s = e" for e
  by unfold_locales (auto simp: frame_simps epochs_noVote, simp_all add: spine_def epochs_def allocNode_def)

interpretation self: steadfast "knows m" for m
  by unfold_locales
    (auto simp: knows_def spine_def nd_upd_node keepsMark_def allocNode_def nd_def emit_def)

lemma knows_knowsItself: "knows (c_myself s) s \<Longrightarrow> knowsItself s"
  by (simp add: knows_def knowsItself_def me_def)

lemma knowsI: "cluster_ok s \<Longrightarrow> knowsItself s \<Longrightarrow> knows (c_myself s) s"
  by (auto simp: knows_def knowsItself_def me_def cluster_ok_def names_ok_def)

section \<open>Reachable states are consistent\<close>

lemma step_knows: "node_step s i s' \<Longrightarrow> knows m s \<Longrightarrow> knows m s'"
proof (induction rule: node_step.induct)
  case (client_command s filters table denied junk c res c' s')
  then show ?case using self.process_calm [of m s filters table denied junk c "(res, c', s')"] by simp
next
  case (admin s plain norm_ip fault argv replies s')
  then show ?case using self.command_steadfast [of m s plain norm_ip fault argv] by simp
next
  case (elsewhere s s')
  then show ?case using self.spine by blast
qed (simp_all add: self.cron_steadfast self.sleep_steadfast)

lemma step_tables: "node_step s i s' \<Longrightarrow> cluster_ok s \<Longrightarrow> knowsItself s \<Longrightarrow> cluster_ok s'"
proof (induction rule: node_step.induct)
  case (client_command s filters table denied junk c res c' s')
  then have "core s' = core s"
    using tables.process_calm [of s "core s" filters table denied junk c "(res, c', s')"] by simp
  then show ?case using cluster_ok_keep client_command.prems(1) by blast
next
  case (admin s plain norm_ip fault argv replies s')
  then show ?case using clusterCommand_ok by (metis snd_conv)
next
  case (elsewhere s s')
  then show ?case using cluster_ok_keep by blast
next
  case (link_up s up link)
  have "core (clusterLinkConnectHandler up link s) = core s" by (rule cron_frames)
  then show ?case using cluster_ok_keep link_up.prems(1) by blast
qed (simp_all add: clusterProcessPacket_ok clusterCron_ok clusterBeforeSleep_ok clusterConnAcceptHandler_ok)

lemma run_tables:
  "node_run s ins s' \<Longrightarrow> cluster_ok s \<Longrightarrow> knows m s \<Longrightarrow> cluster_ok s' \<and> knows m s'"
proof (induction rule: node_run.induct)
  case (step s ins s1 i s2)
  then have 1: "cluster_ok s1" "knows m s1" by blast+
  moreover have "knowsItself s1" using 1(2) knows_knowsItself by (simp add: knows_def)
  ultimately show ?case using step_tables [OF step.hyps(2)] step_knows [OF step.hyps(2)] by blast
qed simp

section \<open>How the epochs move\<close>

definition bumped :: "u64 \<times> u64 \<times> (lid \<times> u64) list \<Rightarrow> u64 \<times> u64 \<times> (lid \<times> u64) list" where
  "bumped e = (fst e + 1, snd e)"

lemma epochs_currentEpoch: "epochs (s\<lparr>c_currentEpoch := e\<rparr>) = (e, snd (epochs s))"
  by (simp add: epochs_def)

lemma bump_epochs:
  "epochs (snd (clusterBumpConfigEpochWithoutConsensus s)) \<in> {epochs s, bumped (epochs s)}"
  by (simp add: clusterBumpConfigEpochWithoutConsensus_def frame_simps epochs_currentEpoch Let_def)
    (simp add: bumped_def epochs_def)

lemma ask_epochs: "epochs (askForVotes s) = bumped (epochs s)"
  by (simp add: askForVotes_def frame_simps epochs_currentEpoch Let_def) (simp add: bumped_def epochs_def)

lemma failover_epochs: "epochs (clusterHandleSlaveFailover s) \<in> {epochs s, bumped (epochs s)}"
proof -
  have "epochs (updateRank s) = epochs s" "epochs (scheduleElection s) = epochs s" for s
    by simp_all
  moreover have "epochs (clusterFailoverReplaceYourMaster s) = epochs s" for s by simp
  ultimately show ?thesis
    by (simp add: clusterHandleSlaveFailover_def ask_epochs frame_simps Let_def)
qed

lemma cron_epochs: "epochs (clusterCron dial s) \<in> {epochs s, bumped (epochs s)}"
proof -
  define s3 where "s3 = pingRandomNode (measureHeat (reconnectNodes dial (clusterUpdateMyselfFlags
     (syncHotSlots (syncAnnounceIp (s\<lparr>s_iteration := s_iteration s + 1\<rparr>))))))"
  obtain counts upd s4 where d: "detectFailures s3 = (counts, upd, s4)" by (rule prod_cases3)
  have "epochs s3 = epochs s" by (simp add: s3_def)
  then have 4: "epochs s4 = epochs s" using epochs_of.cronPhases_steady(7) [of s3 "epochs s"] d by simp
  have duties: "epochs (slaveDuties a t) \<in> {epochs t, bumped (epochs t)}" for a t
    using failover_epochs [of "clusterHandleManualFailover t"] by (auto simp: slaveDuties_def Let_def)
  define s5 where "s5 = slaveDuties counts (manualFailoverCheckTimeout (startReplication s4))"
  have 5: "epochs s5 \<in> {epochs s, bumped (epochs s)}"
    using duties [of counts "manualFailoverCheckTimeout (startReplication s4)"] 4 by (simp add: s5_def)
  have "clusterCron dial s = (if upd \<or> c_state s5 = CLUSTER_FAIL then clusterUpdateState s5 else s5)"
    unfolding clusterCron_def Let_def s3_def [symmetric] d prod.case s5_def [symmetric] ..
  then show ?thesis using 5 by (simp add: frame_simps)
qed

lemma sleep_epochs: "epochs (clusterBeforeSleep s) \<in> {epochs s, bumped (epochs s)}"
proof -
  have "epochs (clusterHandleSlaveFailover t) \<in> {epochs s, bumped (epochs s)}" if "epochs t = epochs s" for t
    using failover_epochs [of t] that by simp
  then show ?thesis by (simp add: clusterBeforeSleep_def frame_simps Let_def)
qed

text \<open>CLUSTER RESET HARD sets the epochs back to 0; SET-CONFIG-EPOCH can only raise the current one.\<close>

definition hardReset :: "string list \<Rightarrow> bool" where
  "hardReset argv \<longleftrightarrow> isWord (argv ! 1) ''reset'' \<and> length argv = 3 \<and> isWord (argv ! 2) ''hard''"

definition raised :: "redisServer \<Rightarrow> (u64 \<times> u64 \<times> (lid \<times> u64) list) set" where
  "raised s = {(e, snd (epochs s)) | e. c_currentEpoch s < e \<and> e < 2 ^ 63}"

lemma string2ll_range: "string2ll str = Some v \<Longrightarrow> - (2 ^ 63) \<le> v \<and> v < 2 ^ 63"
  unfolding string2ll_def Let_def by (auto split: if_splits list.splits option.splits)

lemma word_below:
  assumes "0 \<le> v" and "v < 2 ^ 63" shows "(word_of_int v :: u64) < 2 ^ 63"
  using assms by (simp add: word_less_def uint_word_of_int)

lemma setConfigEpoch_epochs: "epochs (snd (clusterSetConfigEpoch arg s)) \<in> {epochs s} \<union> raised s"
proof (cases "getLongLongFromObjectOrReply arg")
  case (Inr v)
  then have "v < 2 ^ 63" using string2ll_range by (auto simp: getLongLongFromObjectOrReply_def split: option.splits)
  moreover have "c_currentEpoch (set_my_epoch e s) = c_currentEpoch s" for e by (simp add: set_my_epoch_def)
  ultimately show ?thesis
    using word_below [of v]
    by (auto simp: clusterSetConfigEpoch_def Inr frame_simps epochs_currentEpoch raised_def Let_def)
qed (simp add: clusterSetConfigEpoch_def)

lemma setslotNode_epochs: "epochs (setslotNode n j s) \<in> {epochs s, bumped (epochs s)}"
proof -
  define s1 where "s1 = (if countKeysInSlot j s = 0 \<and> c_migrating_slots_to s j \<noteq> None
                then setMigrating j None s else s)"
  define s2 where "s2 = setSlotOwner n j s1"
  have "epochs s1 = epochs s" by (simp add: s1_def)
  then have 2: "epochs s2 = epochs s" by (simp add: s2_def setSlotOwner_def)
  have 3: "epochs (clusterBroadcastPong False (setImporting j None (snd (clusterBumpConfigEpochWithoutConsensus s2)))) =
      epochs (snd (clusterBumpConfigEpochWithoutConsensus s2))"
    by simp
  show ?thesis
    unfolding setslotNode_def Let_def s1_def [symmetric] s2_def [symmetric]
    using bump_epochs [of s2] 2 3 by (simp split: if_split)
qed

lemma reset_epochs:
  assumes "\<not> (opt \<noteq> None \<and> isWord (the opt) ''hard'')"
  shows "epochs (snd (clusterResetCommand opt s)) = epochs s"
proof -
  have "epochs (fold (\<lambda>j s. snd (clusterDelSlot j s)) js t) = epochs t"
    "epochs (fold (\<lambda>p s. if p = c_myself s then s else clusterDelNode p s) ps t) = epochs t" for js ps t
    by (rule epochs_of.fold_rule, simp_all)+
  then have "epochs (clusterReset False s) = epochs s" by (simp add: clusterReset_def frame_simps Let_def)
  then show ?thesis unfolding clusterResetCommand_def assms [THEN Eq_FalseI] by simp
qed

lemma if_epochs:
  "(c \<Longrightarrow> epochs (snd x) \<in> S) \<Longrightarrow> epochs (snd y) \<in> S \<Longrightarrow> epochs (snd (if c then x else y)) \<in> S"
  by simp

lemma command_epochs:
  assumes "\<not> hardReset argv"
  shows "epochs (snd (clusterCommand plain norm_ip fault argv s)) \<in> {epochs s, bumped (epochs s)} \<union> raised s"
proof -
  define S where "S = {epochs s, bumped (epochs s)} \<union> raised s"
  have same: "epochs s' = epochs s \<Longrightarrow> epochs s' \<in> S" for s' by (simp add: S_def)
  have "epochs (snd (clusterSetslot argv s)) \<in> {epochs s, bumped (epochs s)}"
    using setslotNode_epochs [of _ _ s] by (simp add: clusterSetslot_def Let_def split: sum.split option.split)
  then have setslot: "epochs (snd (clusterSetslot argv s)) \<in> S" unfolding S_def by blast
  have bump: "epochs (snd (clusterBumpepoch s)) \<in> S"
    using bump_epochs [of s] by (auto simp: clusterBumpepoch_def S_def split_def Let_def)
  have "epochs (snd (clusterFailover opt s)) \<in> {epochs s, bumped (epochs s)}" for opt
    using bump_epochs [of "(resetManualFailover s)\<lparr>c_mf_end := s_mstime s + CLUSTER_MF_TIMEOUT\<rparr>"]
    by (simp add: clusterFailover_def frame_simps Let_def split: option.split)
  then have failover: "epochs (snd (clusterFailover opt s)) \<in> S" for opt unfolding S_def by blast
  have setConfig: "epochs (snd (clusterSetConfigEpoch arg s)) \<in> S" for arg
    using setConfigEpoch_epochs [of arg s] by (auto simp: S_def)
  have reset: "epochs (snd (clusterResetCommand (if length argv = 3 then Some (argv ! 2) else None) s)) = epochs s"
    if "isWord (argv ! 1) ''reset'' \<and> (length argv = 2 \<or> length argv = 3)"
    by (rule reset_epochs) (use that assms in \<open>auto simp: hardReset_def\<close>)
  show ?thesis
    unfolding S_def [symmetric] clusterCommand_def Let_def
    by (intro if_epochs)
      (simp_all add: same setslot bump failover setConfig reset clusterGetnodebyslot_def clusterGetipportbyslot_def)
qed

section \<open>One vote in an epoch, over a whole run\<close>

text \<open>The votes given so far have increasing epochs above L, none beyond the epoch of the last vote.\<close>

definition votesOrdered :: "u64 \<Rightarrow> redisServer \<Rightarrow> bool" where
  "votesOrdered L s \<longleftrightarrow> sorted_wrt (<) (map snd (votesIn (s_out s))) \<and>
     (\<forall>v \<in> set (votesIn (s_out s)). L < snd v \<and> snd v \<le> c_lastVoteEpoch s) \<and>
     L \<le> c_lastVoteEpoch s \<and> c_lastVoteEpoch s \<le> c_currentEpoch s"

lemma votesOrdered_grow:
  assumes "votesOrdered L s" and "epochs s' = (e, snd (epochs s))" and "c_currentEpoch s \<le> e"
  shows "votesOrdered L s'"
  using assms by (auto simp: votesOrdered_def epochs_def)

lemma votesOrdered_vote:
  assumes "votesOrdered L s" and "epochs s' = (e, e, votesIn (s_out s) @ vs)" and "c_currentEpoch s \<le> e"
    and "c_lastVoteEpoch s \<noteq> e" and "vs = [] \<or> (\<exists>l. vs = [(l, e)])"
  shows "votesOrdered L s'"
proof -
  have less: "c_lastVoteEpoch s < e" using assms(1,3,4) by (auto simp: votesOrdered_def)
  have e: "c_currentEpoch s' = e" "c_lastVoteEpoch s' = e" "votesIn (s_out s') = votesIn (s_out s) @ vs"
    using assms(2) by (simp_all add: epochs_def)
  have old: "snd v < e" if "v \<in> set (votesIn (s_out s))" for v
    using assms(1) that less by (auto simp: votesOrdered_def)
  moreover have "L < e" using assms(1) less by (auto simp: votesOrdered_def)
  ultimately show ?thesis
    using assms(1,5) unfolding votesOrdered_def e by (auto simp: sorted_wrt_append less_imp_le)
qed

lemma bump_grows:
  assumes "unat (c_currentEpoch s) < 2 ^ 64 - 1"
  shows "c_currentEpoch s \<le> c_currentEpoch s + 1 \<and> unat (c_currentEpoch s + 1) = unat (c_currentEpoch s) + 1"
proof -
  have "unat (c_currentEpoch s + 1) = unat (c_currentEpoch s) + 1"
    using assms by (simp add: unat_word_ariths)
  then show ?thesis by (simp add: word_le_nat_alt)
qed

text \<open>Inputs with epochs that are not near the end of the range, and no reset to epoch 0.\<close>

definition sober :: "input \<Rightarrow> bool" where
  "sober i \<longleftrightarrow> (case i of Packet hdr link \<Rightarrow> h_currentEpoch hdr < 2 ^ 63
     | AdminCommand argv \<Rightarrow> \<not> hardReset argv | _ \<Rightarrow> True)"

definition bounded :: "u64 \<Rightarrow> nat \<Rightarrow> redisServer \<Rightarrow> bool" where
  "bounded L k s \<longleftrightarrow> votesOrdered L s \<and> unat (c_currentEpoch s) \<le> 2 ^ 63 + k"

lemma bounded_same: "bounded L k s \<Longrightarrow> epochs s' = epochs s \<Longrightarrow> bounded L k s'"
  by (simp add: bounded_def votesOrdered_def epochs_def)

lemma bounded_Suc: "bounded L k s \<Longrightarrow> bounded L (Suc k) s"
  by (simp add: bounded_def)

lemma bounded_bump:
  assumes "bounded L k s" and "k < 2 ^ 62" and "epochs s' = bumped (epochs s)"
  shows "bounded L (Suc k) s'"
proof -
  have "unat (c_currentEpoch s) < 2 ^ 64 - 1" using assms(1,2) by (simp add: bounded_def)
  note b = bump_grows [OF this]
  have "epochs s' = (c_currentEpoch s + 1, snd (epochs s))" using assms(3) by (simp add: bumped_def epochs_def)
  then show ?thesis
    using votesOrdered_grow [of L s s'] assms(1) b by (auto simp: bounded_def epochs_def)
qed

lemma bounded_moves:
  assumes "bounded L k s" and "k < 2 ^ 62" and "epochs s' \<in> {epochs s, bumped (epochs s)} \<union> raised s"
  shows "bounded L (Suc k) s'"
proof -
  consider "epochs s' = epochs s" | "epochs s' = bumped (epochs s)"
    | e where "epochs s' = (e, snd (epochs s))" "c_currentEpoch s < e" "e < 2 ^ 63"
    using assms(3) by (auto simp: raised_def)
  then show ?thesis
  proof cases
    case 1
    then show ?thesis using bounded_same [OF assms(1)] bounded_Suc by blast
  next
    case 2
    then show ?thesis by (rule bounded_bump [OF assms(1,2)])
  next
    case 3
    then have "unat (c_currentEpoch s') < 2 ^ 63" by (simp add: epochs_def word_less_nat_alt)
    then show ?thesis using votesOrdered_grow [OF _ 3(1)] 3(2) assms(1) by (simp add: bounded_def)
  qed
qed

lemma bounded_packet:
  assumes "bounded L k s" and "k < 2 ^ 62" and "h_currentEpoch hdr < 2 ^ 63"
  shows "bounded L (Suc k) (snd (clusterProcessPacket hdr link s))"
proof -
  let ?s' = "snd (clusterProcessPacket hdr link s)"
  obtain cur where m: "epochMove cur s ?s'" and "cur = c_currentEpoch s \<or> cur = max (c_currentEpoch s) (h_currentEpoch hdr)"
    using epochs_clusterProcessPacket by blast
  then have cur: "c_currentEpoch s \<le> cur" "unat cur \<le> 2 ^ 63 + k"
    using assms(1,3) by (auto simp: bounded_def max_def word_less_nat_alt)
  define t where "t = s\<lparr>c_currentEpoch := cur\<rparr>"
  have et: "epochs t = (cur, snd (epochs s))" "c_currentEpoch t = cur" by (simp_all add: t_def epochs_def)
  have t: "bounded L k t"
    using votesOrdered_grow [OF _ et(1) cur(1)] assms(1) cur(2) et(2) by (simp add: bounded_def)
  have et1: "epochs t = (cur, c_lastVoteEpoch s, votesIn (s_out s))" by (simp add: t_def epochs_def)
  have "epochs ?s' = epochs t \<or> epochs ?s' = bumped (epochs t) \<or>
      (c_lastVoteEpoch s \<noteq> cur \<and>
       (\<exists>vs. epochs ?s' = (cur, cur, votesIn (s_out s) @ vs) \<and> (vs = [] \<or> (\<exists>l. vs = [(l, cur)]))))"
    using m unfolding epochMove_def et1 bumped_def fst_conv snd_conv by (metis append_Nil2)
  then consider "epochs ?s' = epochs t" | "epochs ?s' = bumped (epochs t)"
    | vs where "epochs ?s' = (cur, cur, votesIn (s_out s) @ vs)" "c_lastVoteEpoch s \<noteq> cur"
        "vs = [] \<or> (\<exists>l. vs = [(l, cur)])"
    by blast
  then show ?thesis
  proof cases
    case 1
    then show ?thesis using bounded_same [OF t] bounded_Suc by blast
  next
    case 2
    then show ?thesis by (rule bounded_bump [OF t assms(2)])
  next
    case 3
    have "c_currentEpoch ?s' = cur" using 3(1) by (simp add: epochs_def)
    then show ?thesis using votesOrdered_vote [OF _ 3(1) cur(1) 3(2,3)] assms(1) cur(2) by (simp add: bounded_def)
  qed
qed

lemma step_bounded:
  assumes "node_step s i s'" and "sober i" and "bounded L k s" and "k < 2 ^ 62"
  shows "bounded L (Suc k) s'"
  using assms(1)
proof cases
  case (packet link hdr)
  then show ?thesis using bounded_packet [OF assms(3,4)] assms(2) by (simp add: sober_def)
next
  case (cron dial)
  then show ?thesis using bounded_moves [OF assms(3,4)] cron_epochs [of dial s] by blast
next
  case sleep
  then show ?thesis using bounded_moves [OF assms(3,4)] sleep_epochs [of s] by blast
next
  case (accept conn)
  then show ?thesis using bounded_same [OF assms(3)] bounded_Suc by simp
next
  case (link_up up link)
  then show ?thesis using bounded_same [OF assms(3)] bounded_Suc by simp
next
  case (client_command filters table denied junk c res c')
  then have "epochs s' = epochs s"
    using epochs_of.process_calm [of s "epochs s" filters table denied junk c "(res, c', s')"] by simp
  then show ?thesis using bounded_same [OF assms(3)] bounded_Suc by blast
next
  case (admin plain norm_ip fault argv replies)
  then have "\<not> hardReset argv" using assms(2) by (simp add: sober_def)
  then show ?thesis
    using bounded_moves [OF assms(3,4)] command_epochs [of argv plain norm_ip fault s] admin by simp
next
  case elsewhere
  then have "epochs s' = epochs s" by (simp add: spine_def epochs_def)
  then show ?thesis using bounded_same [OF assms(3)] bounded_Suc by blast
qed

lemma run_bounded:
  "node_run s ins s' \<Longrightarrow> bounded L 0 s \<Longrightarrow> \<forall>i \<in> set ins. sober i \<Longrightarrow> length ins \<le> 2 ^ 62 \<Longrightarrow>
     bounded L (length ins) s'"
proof (induction rule: node_run.induct)
  case (step s ins s1 i s2)
  then have "bounded L (length ins) s1" "sober i" "length ins < 2 ^ 62" by simp_all
  then show ?case using step_bounded [OF step.hyps(2)] by simp
qed simp

section \<open>From the first start on\<close>

text \<open>A server without configuration file, with a port that leaves room for the bus, that has sent nothing.\<close>

definition freshServer :: "(redisServer \<Rightarrow> redisServer option) \<Rightarrow> redisServer \<Rightarrow> bool" where
  "freshServer loadConfig s \<longleftrightarrow> loadConfig (initFields s) = None \<and>
     (if s_tls_cluster s then s_tls_port s else s_port s) \<le> 55535 \<and> s_out s = []"

text \<open>The two halves of \<open>clusterInit\<close>: finding the configuration, and what follows.\<close>

definition newConfig :: "redisServer \<Rightarrow> redisServer" where
  "newConfig s = (let (p, sa) = createClusterNode None (CLUSTER_NODE_MYSELF OR CLUSTER_NODE_MASTER) s
     in clusterSaveConfigOrDie True (clusterAddNode p (sa\<lparr>c_myself := p\<rparr>)))"

definition finishInit :: "redisServer \<Rightarrow> redisServer" where
  "finishInit s =
     (let port = (if s_tls_cluster s then s_tls_port s else s_port s)
      in if port > 65535 - CLUSTER_PORT_INCR then panic_with ProcessExit s
         else
           let (aport, apport, acport) = deriveAnnouncedPorts s;
               s1 = upd_node (c_myself s) (\<lambda>n. n\<lparr>n_port := aport, n_pport := apport, n_cport := acport\<rparr>) s
           in clusterUpdateMyselfFlags (resetManualFailover (s1\<lparr>c_mf_end := 0\<rparr>)))"

lemma clusterInit_halves:
  "clusterInit loadConfig s =
     finishInit (case loadConfig (initFields s) of Some s' \<Rightarrow> s' | None \<Rightarrow> newConfig (initFields s))"
  unfolding clusterInit_def finishInit_def newConfig_def initFields_def Let_def ..

lemma finishInit_keeps: "knows m s \<Longrightarrow> knows m (finishInit s)" "epochs (finishInit s) = epochs s"
  by (simp_all add: finishInit_def Let_def split: prod.split)

lemma newConfig_knows:
  "knows (c_myself (newConfig s)) (newConfig s) \<and> epochs (newConfig s) = epochs s"
proof -
  obtain name sr where r: "getRandomHexChars CLUSTER_NAMELEN s = (name, sr)" by force
  define p where "p = c_next sr"
  define n where "n = newClusterNode name (CLUSTER_NODE_MYSELF OR CLUSTER_NODE_MASTER) sr"
  define sa where "sa = (snd (allocNode n sr))\<lparr>c_myself := p\<rparr>"
  have c: "createClusterNode None (CLUSTER_NODE_MYSELF OR CLUSTER_NODE_MASTER) s = (p, snd (allocNode n sr))"
    by (simp add: createClusterNode_def r allocNode_def n_def p_def)
  have "epochs sr = epochs s"
    using epochs_of.randomHex_rule [of s "epochs s" CLUSTER_NAMELEN] r by simp
  moreover have "epochs sa = epochs sr" by (simp add: sa_def allocNode_def epochs_def)
  moreover have "knows p sa"
    by (simp add: knows_def sa_def allocNode_def p_def n_def newClusterNode_def nd_def flag_simps hasFlag_simps)
  moreover have "newConfig s = clusterSaveConfigOrDie True (clusterAddNode p sa)"
    by (simp add: newConfig_def c sa_def)
  ultimately have "knows p (newConfig s) \<and> epochs (newConfig s) = epochs s" by simp
  then show ?thesis by (auto simp: knows_def)
qed

lemma first_start_knows:
  assumes "loadConfig (initFields s) = None"
  defines "s' \<equiv> clusterInit loadConfig s"
  shows "knows (c_myself s') s'" "epochs s' = (0, 0, votesIn (s_out s))"
proof -
  have s': "s' = finishInit (newConfig (initFields s))" by (simp add: s'_def clusterInit_halves assms(1))
  note k = newConfig_knows [of "initFields s"] finishInit_keeps(1) [of _ "newConfig (initFields s)"]
  have "knows (c_myself (newConfig (initFields s))) s'" using k by (simp add: s')
  then show "knows (c_myself s') s'" by (simp add: knows_def)
  have "epochs (initFields s) = (0, 0, votesIn (s_out s))"
    by (simp add: initFields_def clusterCloseAllSlots_def epochs_def)
  then show "epochs s' = (0, 0, votesIn (s_out s))" using k by (simp add: s' finishInit_keeps)
qed

lemma finishInit_core: "core (finishInit s) = core s"
  by (simp add: finishInit_def frame_simps Let_def split: prod.split)

lemma finishInit_alive: "s_panic (finishInit s) = None \<Longrightarrow>
  s_panic s = None \<and> (if s_tls_cluster s then s_tls_port s else s_port s) \<le> 55535"
  by (auto simp: finishInit_def panic_with_def CLUSTER_PORT_INCR_def Let_def split: prod.splits if_splits)

lemma finishInit_panic:
  "(if s_tls_cluster s then s_tls_port s else s_port s) \<le> 55535 \<Longrightarrow> s_panic (finishInit s) = s_panic s"
  by (auto simp: finishInit_def CLUSTER_PORT_INCR_def Let_def split: prod.splits if_splits)

lemma newConfig_ports:
  "(if s_tls_cluster (newConfig s) then s_tls_port (newConfig s) else s_port (newConfig s)) =
   (if s_tls_cluster s then s_tls_port s else s_port s)"
proof -
  obtain name sr where r: "getRandomHexChars CLUSTER_NAMELEN s = (name, sr)" by force
  note f = random_name [OF r, THEN conjunct2]
  have "s_tls_cluster sr = s_tls_cluster s" "s_tls_port sr = s_tls_port s" "s_port sr = s_port s"
    by (subst f, simp)+
  then show ?thesis
    by (simp add: newConfig_def createClusterNode_def r allocNode_def clusterAddNode_def clusterSaveConfigOrDie_def
        emit_def panic_with_def Let_def)
qed

text \<open>A node that started has consistent tables, whatever the file of the configuration held.\<close>

lemma started_tables:
  assumes "s_panic s0 = None" and alive: "s_panic (clusterInit (clusterLoadConfig file) s0) = None"
  defines "s \<equiv> clusterInit (clusterLoadConfig file) s0"
  shows "cluster_ok s \<and> knows (c_myself s) s"
proof (cases "clusterLoadConfig file (initFields s0)")
  case None
  have "s = finishInit (newConfig (initFields s0))" by (simp add: s_def clusterInit_halves None)
  then have "(if s_tls_cluster (initFields s0) then s_tls_port (initFields s0) else s_port (initFields s0)) \<le> 55535"
    using finishInit_alive [of "newConfig (initFields s0)"] alive
    unfolding s_def [symmetric] newConfig_ports by simp
  then have "(if s_tls_cluster s0 then s_tls_port s0 else s_port s0) \<le> 55535"
    by (simp add: initFields_def clusterCloseAllSlots_def split: if_splits)
  then show ?thesis
    using first_start [of "clusterLoadConfig file" s0] first_start_knows(1) [of "clusterLoadConfig file" s0] None
    by (simp add: s_def)
next
  case (Some t)
  have s: "s = finishInit t" by (simp add: s_def clusterInit_halves Some)
  have "s_panic t = None" using finishInit_alive [of t] alive unfolding s_def [symmetric] s by blast
  moreover have "s_panic (initFields s0) = None" "c_nodes (initFields s0) = []" "c_slots (initFields s0) = (\<lambda>_. None)"
    using assms(1) by (simp_all add: initFields_def clusterCloseAllSlots_def)
  ultimately have t: "cluster_ok t" "knowsItself t" using loaded_tables [OF Some] by blast+
  then have "c_myself t < c_next t" by (simp add: cluster_ok_def names_ok_def)
  then have "knows (c_myself t) t" using t(2) by (simp add: knows_def knowsItself_def me_def)
  then have "knows (c_myself t) s" unfolding s by (rule finishInit_keeps)
  moreover have "cluster_ok s" unfolding s by (rule cluster_ok_keep [OF t(1) finishInit_core])
  ultimately show ?thesis by (simp add: knows_def)
qed


text \<open>
  C2. The safety of elections rests on this: from its first start on, whatever happens, the votes that
  a node gives have strictly increasing epochs, so it votes at most once in an epoch, and only in
  epochs up to its current one. The run must be shorter than 2 ^ 62 steps with received epochs below
  2 ^ 63 (the counter is not near its wrap-around), and without CLUSTER RESET HARD, which forgets
  the epoch of the last vote.
\<close>

theorem votes_have_increasing_epochs:
  assumes "freshServer loadConfig s0" and "node_run (clusterInit loadConfig s0) ins s"
    and "\<forall>i \<in> set ins. sober i" and "length ins \<le> 2 ^ 62"
  shows "sorted_wrt (<) (map snd (votesIn (s_out s))) \<and>
    (\<forall>(l, e) \<in> set (votesIn (s_out s)). e \<le> c_lastVoteEpoch s) \<and> c_lastVoteEpoch s \<le> c_currentEpoch s"
proof -
  let ?s = "clusterInit loadConfig s0"
  have "epochs ?s = (0, 0, [])" using first_start_knows(2) assms(1) by (simp add: freshServer_def)
  then have "bounded 0 0 ?s" by (simp add: bounded_def votesOrdered_def epochs_def)
  then show ?thesis using run_bounded [OF assms(2), of 0] assms(3,4) by (auto simp: bounded_def votesOrdered_def)
qed

text \<open>The default server starts without a file and works before its first sleep.\<close>

lemma default_load: "clusterLoadConfig NoFile = (\<lambda>_. None)"
  by (simp add: clusterLoadConfig_def fun_eq_iff)

lemma default_starts: "freshServer (clusterLoadConfig NoFile) zeroServer"
  by (simp add: freshServer_def zeroServer_def default_load)

lemma default_alive: "s_panic zeroServer = None" "s_panic (clusterInit (clusterLoadConfig NoFile) zeroServer) = None"
proof -
  show "s_panic zeroServer = None" by (simp add: zeroServer_def)
  then show "s_panic (clusterInit (clusterLoadConfig NoFile) zeroServer) = None"
    using first_start [of "\<lambda>_. None" zeroServer] by (simp add: zeroServer_def default_load Let_def)
qed

lemma default_run:
  "node_run (clusterInit (clusterLoadConfig NoFile) zeroServer) [BeforeSleep]
     (clusterBeforeSleep (clusterInit (clusterLoadConfig NoFile) zeroServer))"
  using node_run.step [OF node_run.start node_step.sleep [OF default_alive(2)]] by simp


theorem votes_have_increasing_epochs_witness:
  "let s = clusterBeforeSleep (clusterInit (clusterLoadConfig NoFile) zeroServer) in c_lastVoteEpoch s \<le> c_currentEpoch s"
  using votes_have_increasing_epochs [OF default_starts default_run] by (simp add: Let_def sober_def)

end
