(* ===== verification/SavedText.thy ===== *)
theory SavedText
  imports NodesConf
begin

text \<open>
  The text that \<open>clusterSaveConfig\<close> writes, seen by the functions that read it back: the file splits
  into one line per node and the line of the epochs, a line splits into its words, and each word is
  read as the value it was printed from. The read functions are those of \<open>NodesConf\<close>.
\<close>

section \<open>Words without separators\<close>

text \<open>A word that survives the reader: not empty, no blank, quote or NUL.\<close>

definition cleanWord :: "string \<Rightarrow> bool" where
  "cleanWord w \<longleftrightarrow> plainWord w \<and> CHR 0x00 \<notin> set w"

definition cleanChars :: "string \<Rightarrow> bool" where
  "cleanChars w \<longleftrightarrow> (\<forall>ch \<in> set w. \<not> isSpace ch \<and> ch \<noteq> CHR 0x22 \<and> ch \<noteq> CHR 0x27 \<and> ch \<noteq> CHR 0x00)"

lemma cleanWord_chars: "cleanWord w \<longleftrightarrow> w \<noteq> [] \<and> cleanChars w"
  by (auto simp: cleanWord_def plainWord_def cleanChars_def)

lemma cleanChars_simps [simp]:
  "cleanChars []" "cleanChars (u @ w) \<longleftrightarrow> cleanChars u \<and> cleanChars w"
  "cleanChars (ch # w) \<longleftrightarrow> (\<not> isSpace ch \<and> ch \<noteq> CHR 0x22 \<and> ch \<noteq> CHR 0x27 \<and> ch \<noteq> CHR 0x00) \<and> cleanChars w"
  by (auto simp: cleanChars_def)

lemma cleanChars_take: "cleanChars w \<Longrightarrow> cleanChars (take k w)"
  by (auto simp: cleanChars_def dest: in_set_takeD)

lemma decimal_clean [simp]: "cleanChars (decimal v)"
proof -
  have "\<not> isDigit (CHR 0x00)" by code_simp
  then show ?thesis
    using decimal_plain [of v] decimal_chars [of "CHR 0x00" v] by (auto simp: plainWord_def cleanChars_def)
qed

lemma isSpace_numerals [simp]:
  "\<not> isSpace (CHR '':'')" "\<not> isSpace (CHR ''@'')" "\<not> isSpace (CHR ''-'')" "\<not> isSpace (CHR ''['')"
  "\<not> isSpace (CHR '']'')" "\<not> isSpace (CHR ''<'')" "\<not> isSpace (CHR ''>'')" "\<not> isSpace (CHR '','')"
  "isSpace (CHR 0x0A)"
  by code_simp+

lemma cstr_clean: "cleanChars w \<Longrightarrow> cstr w = w"
  by (rule cstr_id) (auto simp: cleanChars_def)

section \<open>The lines of a file\<close>

lemma nextLine_line:
  assumes "CHR 0x0A \<notin> set w" and "Suc (length w) < maxline"
  shows "nextLine (w @ CHR 0x0A # r) = w @ [CHR 0x0A]"
proof -
  have "Suc (length w) \<le> maxline - 1" using assms(2) by simp
  then obtain k where "maxline - 1 = Suc (length w + k)" using less_eq_Suc_le nat_le_iff_add by auto
  moreover have "takeWhile (\<lambda>c. c \<noteq> CHR 0x0A) (w @ CHR 0x0A # r') = w" for r'
    using assms(1) by (subst takeWhile_append2) auto
  ultimately show ?thesis by (simp add: nextLine_def Let_def)
qed

lemma fileLines_line:
  "CHR 0x0A \<notin> set w \<Longrightarrow> Suc (length w) < maxline \<Longrightarrow>
   fileLines (w @ CHR 0x0A # r) = (w @ [CHR 0x0A]) # fileLines r"
  by (simp add: fileLines.simps [of "w @ CHR 0x0A # r"] nextLine_line)

lemma fileLines_lines:
  "\<forall>w \<in> set ws. CHR 0x0A \<notin> set w \<and> Suc (length w) < maxline \<Longrightarrow>
   fileLines (concat (map (\<lambda>w. w @ [CHR 0x0A]) ws) @ r) = map (\<lambda>w. w @ [CHR 0x0A]) ws @ fileLines r"
  by (induction ws) (simp_all add: fileLines_line)

lemma fileLines_padding: "fileLines (replicate k (CHR 0x0A)) = replicate k [CHR 0x0A]"
proof (induction k)
  case (Suc k)
  then show ?case
    using fileLines_line [of "[]" "replicate k (CHR 0x0A)"] by (simp add: maxline_def CLUSTER_SLOTS_def)
qed (simp add: fileLines.simps)

lemma foldE_padding: "foldE loadLine (replicate k [CHR 0x0A]) st = Inr st"
  by (induction k) (auto simp: andThen_def loadLine_def split: prod.splits)

section \<open>Splitting at a character\<close>

lemma takeWhile_stop: "ch \<notin> set a \<Longrightarrow> takeWhile (\<lambda>c. c \<noteq> ch) (a @ ch # r) = a"
  by (subst takeWhile_append2) auto

lemma strchr_at: "cleanChars (a @ ch # r) \<Longrightarrow> ch \<notin> set a \<Longrightarrow> strchr ch (a @ ch # r) = Some (a, r)"
  by (simp add: strchr_def cstr_clean takeWhile_stop Let_def del: cleanChars_simps)

lemma strchr_none: "cleanChars a \<Longrightarrow> ch \<notin> set a \<Longrightarrow> strchr ch a = None"
  by (simp add: strchr_def cstr_clean Let_def)

lemma strrchr_at: "cleanChars (a @ ch # r) \<Longrightarrow> ch \<notin> set r \<Longrightarrow> strrchr ch (a @ ch # r) = Some (a, r)"
  by (simp add: strrchr_def cstr_clean takeWhile_stop Let_def del: cleanChars_simps)

lemma decimal_no [simp]:
  "CHR '':'' \<notin> set (decimal v)" "CHR ''@'' \<notin> set (decimal v)" "CHR '','' \<notin> set (decimal v)"
  "CHR ''['' \<notin> set (decimal v)"
proof -
  have "\<not> isDigit (CHR '':'')" "\<not> isDigit (CHR ''@'')" "\<not> isDigit (CHR '','')" "\<not> isDigit (CHR ''['')" by code_simp+
  then show "CHR '':'' \<notin> set (decimal v)" "CHR ''@'' \<notin> set (decimal v)" "CHR '','' \<notin> set (decimal v)"
    "CHR ''['' \<notin> set (decimal v)"
    using decimal_chars [of _ v] by fastforce+
qed

lemma digits_no_minus: "CHR ''-'' \<notin> set (digits n)"
  using digits_are_digits isDigit_minus by blast

lemma decimal_nat: "decimal (int n) = digits n"
  by (simp add: decimal_def)

lemma atoi_digits: "n < 2 ^ 31 \<Longrightarrow> atoi (digits n) = int n"
  using atoi_decimal [of "int n" "[]"] by (simp add: decimal_nat)

text \<open>The address field.\<close>

definition addressWord :: "clusterNode \<Rightarrow> string" where
  "addressWord x = n_ip x @ '':'' @ decimal (n_port x) @ ''@'' @ decimal (n_cport x)"

lemma loadAddress_word:
  assumes "cleanChars (n_ip x)" and "Suc (length (n_ip x)) \<le> NET_IP_STR_LEN"
    and "- (2 ^ 31) \<le> n_port x" "n_port x < 2 ^ 31" "- (2 ^ 31) \<le> n_cport x" "n_cport x < 2 ^ 31"
  shows "loadAddress n (addressWord x) s =
    Inr (upd_node n (\<lambda>y. y\<lparr>n_ip := n_ip x, n_port := n_port x, n_cport := n_cport x\<rparr>) s)"
proof -
  let ?r = "decimal (n_port x) @ CHR ''@'' # decimal (n_cport x)"
  have "strrchr (CHR '':'') (n_ip x @ CHR '':'' # ?r) = Some (n_ip x, ?r)"
    using assms(1) by (intro strrchr_at) simp_all
  moreover have "strchr (CHR ''@'') ?r = Some (decimal (n_port x), decimal (n_cport x))"
    by (intro strchr_at) simp_all
  moreover have "atoi (decimal (n_port x)) = n_port x" "atoi (decimal (n_cport x)) = n_cport x"
    using atoi_decimal [of _ "[]"] assms(3-6) by simp_all
  ultimately show ?thesis using assms(2) by (simp add: loadAddress_def addressWord_def)
qed

section \<open>Flags\<close>

definition savedFlags :: "(u32 \<times> string) list" where
  "savedFlags =
     [(CLUSTER_NODE_MYSELF, ''myself''), (CLUSTER_NODE_MASTER, ''master''), (CLUSTER_NODE_SLAVE, ''slave''),
      (CLUSTER_NODE_PFAIL, ''fail?''), (CLUSTER_NODE_FAIL, ''fail''), (CLUSTER_NODE_HANDSHAKE, ''handshake''),
      (CLUSTER_NODE_NOADDR, ''noaddr''), (CLUSTER_NODE_NOFAILOVER, ''nofailover'')]"

definition flagNames :: "u32 \<Rightarrow> string list" where
  "flagNames w = map snd (filter (\<lambda>(b, name). hasFlag w b) savedFlags)"

fun joined :: "string list \<Rightarrow> string" where
  "joined [] = []"
| "joined [w] = w"
| "joined (w # ws) = w @ '','' @ joined ws"

lemma hasFlag_ucast16:
  assumes "b < 65536" shows "hasFlag (ucast w :: u16) (ucast b) \<longleftrightarrow> hasFlag w (b :: u32)"
proof -
  have "n < 16" if "bit b n" for n
  proof (rule ccontr)
    assume "\<not> n < 16"
    moreover have "take_bit 16 b = b"
      using assms unfolding take_bit_eq_mod by (simp add: word_uint_eq_iff uint_mod word_less_def)
    then have "bit (take_bit 16 b) n" using that by simp
    ultimately show False by (simp add: bit_take_bit_iff)
  qed
  then show ?thesis by (auto simp: hasFlag_bit bit_ucast_iff dest: bit_imp_le_length)
qed

lemma fold_names:
  "fold (\<lambda>(b, name) ci. if P b then ci @ name else ci) tab ci =
   ci @ concat (map snd (filter (\<lambda>(b, name). P b) tab))"
  by (induction tab arbitrary: ci) auto

lemma butlast_joined: "ws \<noteq> [] \<Longrightarrow> butlast (concat (map (\<lambda>w. w @ '','') ws)) = joined ws"
  by (induction ws rule: joined.induct) (auto simp: butlast_append)

lemma flagsTable: "redisNodeFlagsTable = map (\<lambda>(b, name). (ucast b, name @ '','')) savedFlags"
  by (simp add: redisNodeFlagsTable_def savedFlags_def)

lemma savedFlags_small: "(b, name) \<in> set savedFlags \<Longrightarrow> b < 65536"
  by (auto simp: savedFlags_def flag_simps)

lemma flags_text:
  "representClusterNodeFlags ci (ucast w) = ci @ joined (if flagNames w = [] then [''noflags''] else flagNames w)"
proof -
  have "filter (\<lambda>(b, name). hasFlag (ucast w :: u16) b) redisNodeFlagsTable =
    map (\<lambda>(b, name). (ucast b, name @ '','')) (filter (\<lambda>(b, name). hasFlag w b) savedFlags)"
    unfolding flagsTable filter_map by (intro arg_cong [where f = "map _"] filter_cong refl)
      (auto simp: hasFlag_ucast16 savedFlags_small)
  then have "map snd (filter (\<lambda>(b, name). hasFlag (ucast w :: u16) b) redisNodeFlagsTable) =
    map (\<lambda>w. w @ '','') (flagNames w)"
    by (simp add: flagNames_def case_prod_beta comp_def)
  then have f: "fold (\<lambda>(b, name) ci. if hasFlag (ucast w :: u16) b then ci @ name else ci) redisNodeFlagsTable ci =
    ci @ concat (map (\<lambda>w. w @ '','') (flagNames w))"
    by (simp add: fold_names)
  show ?thesis
  proof (cases "flagNames w = []")
    case True
    then show ?thesis by (simp add: representClusterNodeFlags_def f Let_def butlast_append)
  next
    case False
    then have "concat (map (\<lambda>w. w @ '','') (flagNames w)) \<noteq> []" by (cases "flagNames w") auto
    then show ?thesis
      using butlast_joined [OF False] False by (simp add: representClusterNodeFlags_def f Let_def butlast_append del: concat_eq_Nil_conv)
  qed
qed

lemma flagWords_joined:
  "ws \<noteq> [] \<Longrightarrow> \<forall>w \<in> set ws. cleanChars w \<and> CHR '','' \<notin> set w \<Longrightarrow> flagWords (joined ws) = ws"
proof (induction ws rule: joined.induct)
  case (2 w)
  then show ?case by (simp add: flagWords.simps strchr_none cstr_clean)
next
  case (3 w v vs)
  have "cleanChars (joined ws)" if "\<forall>w \<in> set ws. cleanChars w" for ws
    using that by (induction ws rule: joined.induct) auto
  then have "strchr (CHR '','') (w @ CHR '','' # joined (v # vs)) = Some (w, joined (v # vs))"
    using 3 by (intro strchr_at) auto
  then show ?case using 3 by (simp add: flagWords.simps [of "w @ CHR '','' # joined (v # vs)"])
qed simp

lemma flagNames_clean:
  assumes "w \<in> set (if flagNames f = [] then [''noflags''] else flagNames f)"
  shows "cleanWord w \<and> CHR '','' \<notin> set w"
proof -
  have "set (flagNames f) \<subseteq> set (map snd savedFlags)" by (auto simp: flagNames_def)
  then have w: "w = ''noflags'' \<or> w \<in> set (map snd savedFlags)" using assms by (auto split: if_splits)
  have "list_all (\<lambda>w. cleanWord w \<and> CHR '','' \<notin> set w) (''noflags'' # map snd savedFlags)"
    by (simp add: savedFlags_def cleanWord_chars isSpace_def)
  with w show ?thesis by (auto simp: list_all_iff)
qed

section \<open>The line of a node\<close>

definition rangeWord :: "nat \<Rightarrow> nat \<Rightarrow> string" where
  "rangeWord a b = (if a = b then digits a else digits a @ CHR ''-'' # digits b)"

definition openWords :: "redisServer \<Rightarrow> nat \<Rightarrow> string list" where
  "openWords s j =
     (case c_migrating_slots_to s j of
        Some p \<Rightarrow> [CHR ''['' # digits j @ ''->-'' @ n_name (nd s p) @ '']'']
      | None \<Rightarrow>
          (case c_importing_slots_from s j of
             Some p \<Rightarrow> [CHR ''['' # digits j @ ''-<-'' @ n_name (nd s p) @ '']'']
           | None \<Rightarrow> []))"

text \<open>The epoch that is written for a node: that of its master when it is a slave.\<close>

definition savedEpoch :: "redisServer \<Rightarrow> nid \<Rightarrow> u64" where
  "savedEpoch s p =
     (case n_slaveof (nd s p) of
        Some m \<Rightarrow> if nodeIsSlave (nd s p) then n_configEpoch (nd s m) else n_configEpoch (nd s p)
      | None \<Rightarrow> n_configEpoch (nd s p))"

definition slotWords :: "redisServer \<Rightarrow> nid \<Rightarrow> string list" where
  "slotWords s p =
     map (\<lambda>(q, a, b). rangeWord a b) (runs (onlySlots p (c_slots s))) @
     (if hasFlag (n_flags (nd s p)) CLUSTER_NODE_MYSELF
      then concat (map (openWords s) [0..<CLUSTER_SLOTS]) else [])"

definition nodeWords :: "redisServer \<Rightarrow> nid \<Rightarrow> string list" where
  "nodeWords s p =
     (let x = nd s p in
      [n_name x, addressWord x,
       joined (if flagNames (n_flags x) = [] then [''noflags''] else flagNames (n_flags x)),
       (case n_slaveof x of Some m \<Rightarrow> n_name (nd s m) | None \<Rightarrow> ''-''),
       decimal (n_ping_sent x), decimal (n_pong_received x), decimal (uint (savedEpoch s p)),
       (if n_link x \<noteq> None \<or> hasFlag (n_flags x) CLUSTER_NODE_MYSELF then ''connected'' else ''disconnected'')]
      @ slotWords s p)"

text \<open>The nodes that are written.\<close>

definition savedNodes :: "redisServer \<Rightarrow> nid set" where
  "savedNodes s = {p \<in> live s. \<not> nodeInHandshake (nd s p)}"

definition goodName :: "string \<Rightarrow> bool" where
  "goodName w \<longleftrightarrow> length w = CLUSTER_NAMELEN \<and> cleanChars w \<and> hd w \<noteq> CHR ''-''"

definition goodNode :: "clusterNode \<Rightarrow> bool" where
  "goodNode x \<longleftrightarrow> goodName (n_name x) \<and> cleanChars (n_ip x) \<and> Suc (length (n_ip x)) \<le> NET_IP_STR_LEN \<and>
     - (2 ^ 31) \<le> n_port x \<and> n_port x < 2 ^ 31 \<and> - (2 ^ 31) \<le> n_cport x \<and> n_cport x < 2 ^ 31 \<and>
     \<bar>n_ping_sent x\<bar> < 2 ^ 63 \<and> \<bar>n_pong_received x\<bar> < 2 ^ 63"

definition closedUnder :: "redisServer \<Rightarrow> nid set \<Rightarrow> bool" where
  "closedUnder s S \<longleftrightarrow> (\<forall>p \<in> S. \<forall>m. n_slaveof (nd s p) = Some m \<longrightarrow> m \<in> S) \<and>
     (\<forall>j < CLUSTER_SLOTS. \<forall>p. c_migrating_slots_to s j = Some p \<or> c_importing_slots_from s j = Some p \<longrightarrow> p \<in> S)"

text \<open>
  A state whose text can be read back: the fields of the nodes fit the C types and hold no blanks,
  the nodes that others refer to are written too, and exactly this node has the flag myself.
\<close>

definition savable :: "redisServer \<Rightarrow> bool" where
  "savable s \<longleftrightarrow> cluster_ok s \<and> c_myself s \<in> savedNodes s \<and> closedUnder s (savedNodes s) \<and>
     (\<forall>p \<in> savedNodes s. goodNode (nd s p)) \<and>
     (\<forall>p \<in> savedNodes s. hasFlag (n_flags (nd s p)) CLUSTER_NODE_MYSELF \<longleftrightarrow> p = c_myself s)"

lemma unwords_append [simp]: "unwords (u @ v) = unwords u @ unwords v"
  by (simp add: unwords_def)

lemma unwords_simps [simp]: "unwords [] = []" "unwords (w # ws) = CHR '' '' # w @ unwords ws"
  by (simp_all add: unwords_def)

lemma runsText_words: "runsText rs = unwords (map (\<lambda>(q, a, b). rangeWord a b) rs)"
  by (induction rs) (auto simp: runsText_def rangeText_def rangeWord_def decimal_nat)

lemma openSlotText_words:
  assumes "\<And>p. c_migrating_slots_to s j = Some p \<or> c_importing_slots_from s j = Some p \<Longrightarrow> goodName (n_name (nd s p))"
  shows "openSlotText s j = unwords (openWords s j)"
proof -
  have "take CLUSTER_NAMELEN (cstr (n_name (nd s p))) = n_name (nd s p)"
    if "c_migrating_slots_to s j = Some p \<or> c_importing_slots_from s j = Some p" for p
    using assms [OF that] by (simp add: goodName_def cstr_clean)
  then show ?thesis by (simp add: openSlotText_def openWords_def decimal_nat split: option.split)
qed

lemma saved_good: "savable s \<Longrightarrow> p \<in> savedNodes s \<Longrightarrow> goodNode (nd s p)"
  by (simp add: savable_def)

lemma saved_master: "savable s \<Longrightarrow> p \<in> savedNodes s \<Longrightarrow> n_slaveof (nd s p) = Some m \<Longrightarrow> m \<in> savedNodes s"
  by (auto simp: savable_def closedUnder_def)

lemma saved_open:
  "savable s \<Longrightarrow> j < CLUSTER_SLOTS \<Longrightarrow> c_migrating_slots_to s j = Some p \<or> c_importing_slots_from s j = Some p \<Longrightarrow>
   p \<in> savedNodes s"
  unfolding savable_def closedUnder_def by blast

lemma description_words:
  assumes "savable s" and "p \<in> savedNodes s"
  shows "clusterGenNodeDescription None p False s = hd (nodeWords s p) @ unwords (tl (nodeWords s p))"
proof -
  let ?x = "nd s p"
  have p: "cluster_ok s" "p \<in> live s" using assms by (simp_all add: savable_def savedNodes_def)
  have slots: "(if n_numslots ?x > 0 then ci @ slotsOfNodeText p s else ci) =
    ci @ unwords (map (\<lambda>(q, a, b). rangeWord a b) (runs (onlySlots p (c_slots s))))" for ci
    using slotsOfNodeText_runs [OF p] numslots_runs [OF p]
    by (cases "runs (onlySlots p (c_slots s)) = []") (simp_all add: runsText_words)
  have "openSlotText s j = unwords (openWords s j)" if "j < CLUSTER_SLOTS" for j
    using openSlotText_words saved_good [OF assms(1) saved_open [OF assms(1) that]] by (simp add: goodNode_def)
  then have "concat (map (openSlotText s) js) = unwords (concat (map (openWords s) js))"
    if "\<forall>j \<in> set js. j < CLUSTER_SLOTS" for js
    using that by (induction js) auto
  then have opened: "concat (map (openSlotText s) [0..<CLUSTER_SLOTS]) = unwords (concat (map (openWords s) [0..<CLUSTER_SLOTS]))"
    by simp
  have name: "take CLUSTER_NAMELEN (n_name ?x) = n_name ?x"
    using saved_good [OF assms] by (simp add: goodNode_def goodName_def)
  have master: "take CLUSTER_NAMELEN (n_name (nd s m)) = n_name (nd s m)" if "n_slaveof ?x = Some m" for m
    using saved_good [OF assms(1) saved_master [OF assms that]] by (simp add: goodNode_def goodName_def)
  show ?thesis
    unfolding clusterGenNodeDescription_def Let_def flags_text opened nodeWords_def slotWords_def
    by (simp add: slots name master addressWord_def savedEpoch_def split: option.split)
qed
 
section \<open>The line fits the buffer and splits into its words\<close>

lemma joined_clean: "\<forall>w \<in> set ws. cleanChars w \<Longrightarrow> cleanChars (joined ws)"
  by (induction ws rule: joined.induct) auto

lemma joined_nonempty: "ws \<noteq> [] \<Longrightarrow> \<forall>w \<in> set ws. w \<noteq> [] \<Longrightarrow> joined ws \<noteq> []"
  by (cases ws rule: joined.cases) auto

lemma flagsWord_clean: "cleanWord (joined (if flagNames f = [] then [''noflags''] else flagNames f))"
  using flagNames_clean [of _ f] unfolding cleanWord_chars
  by (intro conjI joined_clean joined_nonempty) (auto simp: cleanWord_chars)

lemma digits_clean: "cleanChars (digits n)" "digits n \<noteq> []"
  using decimal_clean [of "int n"] digits_nonempty [of n] by (simp_all only: decimal_nat not_False_eq_True)

lemma rangeWord_clean: "cleanWord (rangeWord a b)"
  by (simp add: rangeWord_def cleanWord_chars digits_clean)

lemma goodName_clean: "goodName w \<Longrightarrow> cleanWord w"
  by (auto simp: goodName_def cleanWord_chars CLUSTER_NAMELEN_def)

lemma openWords_clean:
  assumes "savable s" and "j < CLUSTER_SLOTS" and "w \<in> set (openWords s j)"
  shows "cleanWord w \<and> length w \<le> 50"
proof -
  have good: "goodName (n_name (nd s p))" if "c_migrating_slots_to s j = Some p \<or> c_importing_slots_from s j = Some p" for p
    using saved_good [OF assms(1) saved_open [OF assms(1,2) that]] by (simp add: goodNode_def)
  have "length (digits j) \<le> Suc 4" using assms(2) by (intro digits_length) (simp add: CLUSTER_SLOTS_def)
  then show ?thesis
    using assms(3) good
    by (auto simp: openWords_def cleanWord_chars digits_clean goodName_def CLUSTER_NAMELEN_def split: option.splits)
qed

lemma slotWords_clean: "savable s \<Longrightarrow> w \<in> set (slotWords s p) \<Longrightarrow> cleanWord w"
  using rangeWord_clean openWords_clean by (auto simp: slotWords_def split: if_splits)

lemma nodeWords_clean:
  assumes "savable s" and "p \<in> savedNodes s" and "w \<in> set (nodeWords s p)"
  shows "cleanWord w"
proof -
  have x: "goodNode (nd s p)" using saved_good assms by blast
  have "cleanWord (case n_slaveof (nd s p) of Some m \<Rightarrow> n_name (nd s m) | None \<Rightarrow> ''-'')"
    using saved_good [OF assms(1) saved_master [OF assms(1,2)]] goodName_clean
    by (cases "n_slaveof (nd s p)") (simp_all add: goodNode_def cleanWord_chars [of "''-''"])
  moreover have "cleanWord (addressWord (nd s p))" "cleanWord (n_name (nd s p))"
    using x by (auto simp: goodNode_def addressWord_def cleanWord_chars goodName_clean dest: goodName_clean)
  moreover have "cleanWord ''connected''" "cleanWord ''disconnected''" by (simp_all add: cleanWord_chars isSpace_def)
  moreover have "cleanWord (decimal v)" for v by (simp add: cleanWord_chars)
  moreover note flagsWord_clean
  ultimately show ?thesis
    using assms(3) slotWords_clean [OF assms(1)] unfolding nodeWords_def Let_def by (auto simp del: if_image_distrib)
qed

definition total :: "string list \<Rightarrow> nat" where
  "total ws = length (unwords ws)"

lemma total_simps [simp]: "total [] = 0" "total (w # ws) = Suc (length w) + total ws" "total (u @ v) = total u + total v"
  by (simp_all add: total_def)

lemma total_le: "\<forall>w \<in> set ws. length w \<le> k \<Longrightarrow> total ws \<le> length ws * Suc k"
  by (induction ws) auto

lemma decimal_length:
  assumes "\<bar>v\<bar> < 10 ^ Suc k" shows "length (decimal v) \<le> Suc (Suc k)"
proof -
  have "nat \<bar>v\<bar> < 10 ^ Suc k" using assms by (simp add: nat_less_iff)
  then have "length (digits (nat \<bar>v\<bar>)) \<le> Suc k" by (rule digits_length)
  then show ?thesis by (auto simp: decimal_def)
qed

lemma joined_length: "length (joined ws) \<le> total ws"
  by (induction ws rule: joined.induct) auto

lemma total_filter: "total (map snd (filter P ws)) \<le> total (map snd ws)"
  by (induction ws) auto

lemma flagsWord_length: "length (joined (if flagNames f = [] then [''noflags''] else flagNames f)) \<le> 60"
proof -
  have "total (flagNames f) \<le> total (map snd savedFlags)" unfolding flagNames_def by (rule total_filter)
  also have "\<dots> \<le> 60" by (simp add: savedFlags_def)
  finally show ?thesis using joined_length [of "flagNames f"] by auto
qed

lemma runs_count: "length (runs slots) \<le> CLUSTER_SLOTS"
proof -
  let ?f = "\<lambda>r :: nid \<times> nat \<times> nat. fst (snd r)"
  have b: "?f r \<le> snd (snd r) \<and> snd (snd r) < CLUSTER_SLOTS" if "r \<in> set (runs slots)" for r
    using runs_exact [of slots] that by (auto simp: maximalRun_def)
  have "distinct (map ?f rs)" if "sorted_wrt before rs" "\<forall>r \<in> set rs. ?f r \<le> snd (snd r)" for rs
    using that
  proof (induction rs)
    case (Cons r rs)
    have "?f r < ?f x" if "x \<in> set rs" for x
      using Cons.prems that by (auto simp: before_def intro: le_less_trans)
    then have "?f r \<notin> ?f ` set rs" by (metis (no_types, lifting) image_iff less_irrefl)
    then show ?case using Cons by simp
  qed simp
  then have "distinct (map ?f (runs slots))" using runs_exact [of slots] b by blast
  moreover have "set (map ?f (runs slots)) \<subseteq> {..<CLUSTER_SLOTS}" using b by (auto intro: le_less_trans)
  ultimately show ?thesis using card_mono [of "{..<CLUSTER_SLOTS}" "set (map ?f (runs slots))"]
    by (simp add: distinct_card del: set_map)
qed

lemma slotWords_total:
  assumes "savable s" shows "total (slotWords s p) \<le> CLUSTER_SLOTS * 12 + CLUSTER_SLOTS * 51"
proof -
  let ?rs = "runs (onlySlots p (c_slots s))"
  have "length (rangeWord a b) \<le> 11" if "(q, a, b) \<in> set ?rs" for q a b
  proof -
    have "a < 10 ^ Suc 4" "b < 10 ^ Suc 4"
      using that runs_exact [of "onlySlots p (c_slots s)"] by (auto simp: maximalRun_def CLUSTER_SLOTS_def)
    then show ?thesis using digits_length [of a 4] digits_length [of b 4] by (simp add: rangeWord_def)
  qed
  then have "\<forall>w \<in> set (map (\<lambda>(q, a, b). rangeWord a b) ?rs). length w \<le> 11" by auto
  from total_le [OF this] have "total (map (\<lambda>(q, a, b). rangeWord a b) ?rs) \<le> length ?rs * 12" by simp
  also have "\<dots> \<le> CLUSTER_SLOTS * 12" using runs_count by simp
  finally have 1: "total (map (\<lambda>(q, a, b). rangeWord a b) ?rs) \<le> CLUSTER_SLOTS * 12" .
  have "total (openWords s j) \<le> 51" if "j < CLUSTER_SLOTS" for j
    using openWords_clean [OF assms that] by (auto simp: openWords_def split: option.splits)
  then have "total (concat (map (openWords s) js)) \<le> length js * 51" if "\<forall>j \<in> set js. j < CLUSTER_SLOTS" for js
    using that by (induction js) force+
  from this [of "[0..<CLUSTER_SLOTS]"] 1 show ?thesis by (simp add: slotWords_def)
qed

lemma nodeWords_total:
  assumes "savable s" and "p \<in> savedNodes s"
  shows "total (nodeWords s p) < maxline"
proof -
  let ?x = "nd s p"
  have x: "goodNode ?x" using saved_good assms by blast
  have d: "length (decimal v) \<le> 21" if "\<bar>v\<bar> < 2 ^ 64" for v
    using decimal_length [of v 19] that by simp
  have "uint (savedEpoch s p) < 2 ^ 64" using uint_bounded [of "savedEpoch s p"] by simp
  then have "length (decimal (uint (savedEpoch s p))) \<le> 21" using d by simp
  moreover have "length (decimal (n_ping_sent ?x)) \<le> 21" "length (decimal (n_pong_received ?x)) \<le> 21"
    "length (decimal (n_port ?x)) \<le> 21" "length (decimal (n_cport ?x)) \<le> 21"
    using x by (auto simp: goodNode_def intro!: d)
  moreover have "length (case n_slaveof ?x of Some m \<Rightarrow> n_name (nd s m) | None \<Rightarrow> ''-'') \<le> 40"
    using saved_good [OF assms(1) saved_master [OF assms]]
    by (auto simp: goodNode_def goodName_def CLUSTER_NAMELEN_def split: option.split)
  moreover have "length (n_name ?x) = 40" "length (n_ip ?x) \<le> 45"
    using x by (simp_all add: goodNode_def goodName_def CLUSTER_NAMELEN_def NET_IP_STR_LEN_def)
  moreover note flagsWord_length [of "n_flags ?x"] slotWords_total [OF assms(1), of p]
  moreover define fw where "fw = joined (if flagNames (n_flags ?x) = [] then [''noflags''] else flagNames (n_flags ?x))"
  moreover define mw where "mw = (case n_slaveof ?x of Some m \<Rightarrow> n_name (nd s m) | None \<Rightarrow> ''-'')"
  moreover define lw where "lw = (if n_link ?x \<noteq> None \<or> hasFlag (n_flags ?x) CLUSTER_NODE_MYSELF
      then ''connected'' else ''disconnected'')"
  moreover have "length lw \<le> 12" by (simp add: lw_def)
  moreover have "nodeWords s p = [n_name ?x, addressWord ?x, fw, mw, decimal (n_ping_sent ?x),
      decimal (n_pong_received ?x), decimal (uint (savedEpoch s p)), lw] @ slotWords s p"
    unfolding nodeWords_def Let_def fw_def mw_def lw_def ..
  ultimately show ?thesis by (simp add: addressWord_def maxline_def CLUSTER_SLOTS_def)
qed

definition nodeLine :: "redisServer \<Rightarrow> nid \<Rightarrow> string" where
  "nodeLine s p = hd (nodeWords s p) @ unwords (tl (nodeWords s p))"

lemma clean_line:
  assumes "\<forall>w \<in> set (v # ws). cleanWord w"
  shows "CHR 0x0A \<notin> set (v @ unwords ws)" and "CHR 0x00 \<notin> set (v @ unwords ws)"
proof -
  have "CHR 0x0A \<notin> set w \<and> CHR 0x00 \<notin> set w" if "cleanWord w" for w
    using that isSpace_numerals(9) unfolding cleanWord_chars cleanChars_def by blast
  then have "\<forall>w \<in> set (v # ws). CHR 0x0A \<notin> set w \<and> CHR 0x00 \<notin> set w" using assms by blast
  then have "CHR 0x0A \<notin> set (v @ unwords ws) \<and> CHR 0x00 \<notin> set (v @ unwords ws)"
    by (induction ws) auto
  then show "CHR 0x0A \<notin> set (v @ unwords ws)" "CHR 0x00 \<notin> set (v @ unwords ws)" by blast+
qed

lemma nodeLine_reads:
  assumes "savable s" and "p \<in> savedNodes s"
  shows "CHR 0x0A \<notin> set (nodeLine s p) \<and> Suc (length (nodeLine s p)) < maxline \<and>
    sdssplitargs (cstr (nodeLine s p @ [CHR 0x0A])) = Some (nodeWords s p)"
proof -
  obtain v ws where w: "nodeWords s p = v # ws" by (simp add: nodeWords_def Let_def)
  have clean: "\<forall>w \<in> set (v # ws). cleanWord w" using nodeWords_clean [OF assms] w by simp
  have line: "nodeLine s p = v @ unwords ws" by (simp add: nodeLine_def w)
  have "Suc (length (nodeLine s p)) = total (nodeWords s p)" by (simp add: w line) (simp add: total_def)
  moreover have "cstr (nodeLine s p @ [CHR 0x0A]) = v @ unwords ws @ [CHR 0x0A]"
    using clean_line(2) [OF clean] by (simp add: line cstr_id)
  moreover have "\<forall>w \<in> set (v # ws). plainWord w" using clean by (simp add: cleanWord_def)
  ultimately show ?thesis
    using nodeWords_total [OF assms] clean_line(1) [OF clean] split_words by (simp add: w line)
qed

end
