(* ===== verification/SavedConfig.thy ===== *)
theory SavedConfig
  imports SavedText
begin

text \<open>
  A node that is started again from the file it saved: the abstract configuration of a server (what
  it knows of each node, by name, and the owners of the slots, by name), the effect on it of every
  step of the loader, and the theorem that the file gives the configuration back.
\<close>

section \<open>The configuration by names\<close>

record nodeView =
  v_ip :: string
  v_port :: int
  v_cport :: int
  v_flags :: u32
  v_epoch :: u64
  v_master :: "string option"

text \<open>The flags that have a name in the file.\<close>

definition namedFlags :: u32 where "namedFlags = 639"

definition viewOf :: "redisServer \<Rightarrow> clusterNode \<Rightarrow> nodeView" where
  "viewOf s x = \<lparr>v_ip = n_ip x, v_port = n_port x, v_cport = n_cport x, v_flags = n_flags x AND namedFlags,
     v_epoch = n_configEpoch x, v_master = map_option (\<lambda>m. n_name (nd s m)) (n_slaveof x)\<rparr>"

definition blankView :: nodeView where
  "blankView = \<lparr>v_ip = [], v_port = 0, v_cport = 0, v_flags = 0, v_epoch = 0, v_master = None\<rparr>"

record conf =
  cf_node :: "string \<Rightarrow> nodeView option"
  cf_slot :: "nat \<Rightarrow> string option"
  cf_migrating :: "nat \<Rightarrow> string option"
  cf_importing :: "nat \<Rightarrow> string option"

definition nameIn :: "redisServer \<Rightarrow> nid option \<Rightarrow> string option" where
  "nameIn s p = map_option (\<lambda>q. n_name (nd s q)) p"

definition confOf :: "redisServer \<Rightarrow> conf" where
  "confOf s = \<lparr>cf_node = (\<lambda>k. map_option (\<lambda>p. viewOf s (nd s p)) (dictFind (c_nodes s) k)),
     cf_slot = (\<lambda>j. nameIn s (c_slots s j)),
     cf_migrating = (\<lambda>j. nameIn s (c_migrating_slots_to s j)),
     cf_importing = (\<lambda>j. nameIn s (c_importing_slots_from s j))\<rparr>"

lemmas conf_simps = confOf_def conf.simps

text \<open>All references lead to nodes of the table.\<close>

definition refs_ok :: "redisServer \<Rightarrow> bool" where
  "refs_ok s \<longleftrightarrow> tables_ok s \<and> (\<forall>p \<in> live s. \<forall>m. n_slaveof (nd s p) = Some m \<longrightarrow> m \<in> live s) \<and>
     (\<forall>j p. c_slots s j = Some p \<or> c_migrating_slots_to s j = Some p \<or> c_importing_slots_from s j = Some p
        \<longrightarrow> p \<in> live s)"

lemma refs_okD:
  assumes "refs_ok s"
  shows "tables_ok s" "p \<in> live s \<Longrightarrow> n_slaveof (nd s p) = Some m \<Longrightarrow> m \<in> live s"
    "c_slots s j = Some p \<Longrightarrow> p \<in> live s" "c_migrating_slots_to s j = Some p \<Longrightarrow> p \<in> live s"
    "c_importing_slots_from s j = Some p \<Longrightarrow> p \<in> live s"
  using assms unfolding refs_ok_def by blast+

lemma tables_name: "tables_ok s \<Longrightarrow> dictFind (c_nodes s) k = Some p \<Longrightarrow> n_name (nd s p) = k"
  by (auto simp: tables_ok_def dictFind_def dictOk_def dest: map_of_SomeD)

lemma find_live: "dictFind (c_nodes s) k = Some p \<Longrightarrow> p \<in> live s"
  by (simp add: live_def dictFind_vals)

section \<open>The steps of the loader on the configuration\<close>

definition addView :: "string \<Rightarrow> conf \<Rightarrow> conf" where
  "addView k c = (if cf_node c k = None then c\<lparr>cf_node := (cf_node c)(k := Some blankView)\<rparr> else c)"

definition updView :: "string \<Rightarrow> (nodeView \<Rightarrow> nodeView) \<Rightarrow> conf \<Rightarrow> conf" where
  "updView k g c = c\<lparr>cf_node := (cf_node c)(k := map_option g (cf_node c k))\<rparr>"

text \<open>What a step keeps: the references, and the addresses of the nodes that are known.\<close>

definition knownStill :: "redisServer \<Rightarrow> redisServer \<Rightarrow> bool" where
  "knownStill s s' \<longleftrightarrow> refs_ok s' \<and> (\<forall>k p. dictFind (c_nodes s) k = Some p \<longrightarrow> dictFind (c_nodes s') k = Some p)"

lemma knownStill_trans: "knownStill s s' \<Longrightarrow> knownStill s' s'' \<Longrightarrow> knownStill s s''"
  by (simp add: knownStill_def)

lemma addBlank_conf:
  assumes ok: "refs_ok s" and free: "dictFind (c_nodes s) k = None"
  shows "knownStill s (addBlank k s) \<and> confOf (addBlank k s) = addView k (confOf s)"
proof -
  let ?s = "addBlank k s"
  note t = refs_okD(1) [OF ok]
  note b = addBlank_ok [OF t free]
  have old: "q \<noteq> c_next s" if "q \<in> live s" for q using t that by (auto simp: tables_ok_def)
  have nd: "nd ?s q = nd s q" if "q \<in> live s" for q using b(3) old that by blast
  have same: "c_slots ?s = c_slots s" "c_migrating_slots_to ?s = c_migrating_slots_to s"
    "c_importing_slots_from ?s = c_importing_slots_from s" by (simp_all add: addBlank_def)
  have find: "dictFind (c_nodes ?s) k' = (if k' = k then Some (c_next s) else dictFind (c_nodes s) k')" for k'
    by (simp add: addBlank_def dictFind_dictReplace)
  have names: "nameIn ?s p = nameIn s p" if "\<And>q. p = Some q \<Longrightarrow> q \<in> live s" for p
    using that nd by (cases p) (simp_all add: nameIn_def)
  have view: "viewOf ?s (nd s q) = viewOf s (nd s q)" if "q \<in> live s" for q
    using names [of "n_slaveof (nd s q)"] refs_okD(2) [OF ok that] by (simp add: viewOf_def nameIn_def)
  have "cf_node (confOf ?s) k' = cf_node (addView k (confOf s)) k'" for k'
  proof (cases "k' = k")
    case True
    then show ?thesis using free b(4)
      by (simp add: conf_simps addView_def find viewOf_def blankView_def newClusterNode_def)
  next
    case False
    then show ?thesis using free nd view find_live [of s k']
      by (cases "dictFind (c_nodes s) k'") (simp_all add: conf_simps addView_def find)
  qed
  moreover have "cf_slot (confOf ?s) = cf_slot (addView k (confOf s))"
    "cf_migrating (confOf ?s) = cf_migrating (addView k (confOf s))"
    "cf_importing (confOf ?s) = cf_importing (addView k (confOf s))"
    using refs_okD(3-5) [OF ok] names by (simp_all add: conf_simps addView_def same)
  moreover have "refs_ok ?s"
    unfolding refs_ok_def same b(2)
    using b(1,4) nd refs_okD(2-5) [OF ok] by (auto simp: newClusterNode_def)
  ultimately show ?thesis using find free by (auto simp: knownStill_def intro!: conf.equality)
qed

lemma lookup_conf:
  assumes "refs_ok s" and "CLUSTER_NAMELEN \<le> length w" and "take CLUSTER_NAMELEN w = k"
  obtains n s1 where "lookupOrCreate w s = Inr (n, s1)" "knownStill s s1" "dictFind (c_nodes s1) k = Some n"
    "confOf s1 = addView k (confOf s)"
proof -
  have k: "conf_name w = k" using assms(2,3) by (simp add: conf_name_def)
  have "nodeName w = Inr k" using assms(2) k by (simp add: nodeName_def conf_name_def)
  then have "\<exists>n s1. lookupOrCreate w s = Inr (n, s1)"
    by (auto simp: lookupOrCreate_def andThen_def Let_def split: option.split prod.split)
  then obtain n s1 where l: "lookupOrCreate w s = Inr (n, s1)" by blast
  show ?thesis
  proof (cases "dictFind (c_nodes s) k")
    case None
    then have "n = c_next s" "s1 = addBlank k s" using lookupOrCreate_cases [OF l] k by auto
    then show ?thesis using that [OF l] addBlank_conf [OF assms(1) None] by (simp add: addBlank_def dictFind_dictReplace)
  next
    case (Some q)
    then have "n = q" "s1 = s" using lookupOrCreate_cases [OF l] k by auto
    then show ?thesis using that [OF l] Some assms(1) by (simp add: knownStill_def addView_def conf_simps)
  qed
qed

lemma upd_conf:
  assumes ok: "refs_ok s" and n: "dictFind (c_nodes s) k = Some n"
    and core: "core (upd_node n f s) = core s"
    and f: "viewOf s (f (nd s n)) = g (viewOf s (nd s n))"
    and m: "\<And>m. n_slaveof (f (nd s n)) = Some m \<Longrightarrow> m \<in> live s"
  shows "knownStill s (upd_node n f s) \<and> confOf (upd_node n f s) = updView k g (confOf s)"
proof -
  let ?s = "upd_node n f s"
  note t = refs_okD(1) [OF ok]
  have names: "n_name (nd ?s q) = n_name (nd s q)" for q using core by (simp add: core_def nd_def fun_eq_iff)
  have view: "viewOf ?s x = viewOf s x" for x by (simp add: viewOf_def names)
  have live: "live ?s = live s" by (simp add: live_def)
  have other: "q \<noteq> n" if "dictFind (c_nodes s) k' = Some q" "k' \<noteq> k" for k' q
    using tables_name [OF t] that n by metis
  have "cf_node (confOf ?s) k' = cf_node (updView k g (confOf s)) k'" for k'
  proof (cases "k' = k")
    case True
    then show ?thesis using n f by (simp add: conf_simps updView_def nd_upd_node view)
  next
    case False
    then show ?thesis using other [of k']
      by (cases "dictFind (c_nodes s) k'") (simp_all add: conf_simps updView_def nd_upd_node view)
  qed
  then have "confOf ?s = updView k g (confOf s)"
    by (auto simp: conf_simps updView_def nameIn_def names intro!: conf.equality)
  moreover have "refs_ok ?s"
    using tables_ok_core [OF core] t refs_okD(2-5) [OF ok] m
    unfolding refs_ok_def live by (auto simp: nd_upd_node)
  ultimately show ?thesis by (simp add: knownStill_def)
qed

lemma updView_id: "(\<And>v. g v = v) \<Longrightarrow> updView k g c = c"
proof -
  assume "\<And>v. g v = v"
  then have "map_option g v = v" for v by (cases v) simp_all
  then show ?thesis by (simp add: updView_def)
qed

lemma updView_comp: "updView k g (updView k h c) = updView k (g \<circ> h) c"
  by (simp add: updView_def option.map_comp)

lemma updView_cong: "(\<And>v. g v = h v) \<Longrightarrow> updView k g c = updView k h c"
  by (simp add: updView_def) (metis ext)

lemma myself_conf [simp]: "confOf (s\<lparr>c_myself := n\<rparr>) = confOf s" "refs_ok (s\<lparr>c_myself := n\<rparr>) = refs_ok s"
proof -
  have nd: "nd (s\<lparr>c_myself := n\<rparr>) p = nd s p" "live (s\<lparr>c_myself := n\<rparr>) = live s" for p
    by (simp_all add: nd_def live_def)
  then show "confOf (s\<lparr>c_myself := n\<rparr>) = confOf s" by (simp add: confOf_def nameIn_def viewOf_def)
  have "tables_ok (s\<lparr>c_myself := n\<rparr>) = tables_ok s" by (simp add: tables_ok_def slots_ok_def nd)
  then show "refs_ok (s\<lparr>c_myself := n\<rparr>) = refs_ok s" by (simp add: refs_ok_def nd)
qed

subsection \<open>Flags\<close>

definition addFlags :: "u32 \<Rightarrow> nodeView \<Rightarrow> nodeView" where
  "addFlags b v = v\<lparr>v_flags := v_flags v OR (b AND namedFlags)\<rparr>"

lemma addFlags_OR: "addFlags a (addFlags b v) = addFlags (b OR a) v"
  by (simp add: addFlags_def bit.conj_disj_distrib2 or.assoc)

lemma addFlags_zero: "addFlags 0 v = v"
  by (simp add: addFlags_def)

lemma viewOf_flags:
  "n_flags x' = n_flags x OR b \<Longrightarrow> n_ip x' = n_ip x \<Longrightarrow> n_port x' = n_port x \<Longrightarrow> n_cport x' = n_cport x \<Longrightarrow>
   n_configEpoch x' = n_configEpoch x \<Longrightarrow> n_slaveof x' = n_slaveof x \<Longrightarrow>
   viewOf s x' = addFlags b (viewOf s x)"
  by (simp add: viewOf_def addFlags_def bit.conj_disj_distrib2)

lemma setFlag_fields [simp]: "n_ip (setFlag b x) = n_ip x" "n_port (setFlag b x) = n_port x"
  "n_cport (setFlag b x) = n_cport x"
  by (simp_all add: setFlag_def)

lemma flag_conf:
  assumes "refs_ok s" and "dictFind (c_nodes s) k = Some n" and "\<And>x. n_flags (f x) = n_flags x OR b"
    and "\<And>x. viewOf s (f x) = addFlags b (viewOf s x)" and "\<And>x. n_slaveof (f x) = n_slaveof x"
    and "core (upd_node n f s) = core s"
  shows "knownStill s (upd_node n f s) \<and> confOf (upd_node n f s) = updView k (addFlags b) (confOf s)"
  using assms(4-6) refs_okD(2) [OF assms(1) find_live [OF assms(2)]]
  by (intro upd_conf [OF assms(1,2)]) simp_all

lemma lower_flags:
  "map tolowerc ''myself'' = ''myself''" "map tolowerc ''master'' = ''master''" "map tolowerc ''slave'' = ''slave''"
  "map tolowerc ''fail?'' = ''fail?''" "map tolowerc ''fail'' = ''fail''" "map tolowerc ''handshake'' = ''handshake''"
  "map tolowerc ''noaddr'' = ''noaddr''" "map tolowerc ''nofailover'' = ''nofailover''"
  "map tolowerc ''noflags'' = ''noflags''"
  by code_simp+

lemma loadFlag_saved:
  assumes "(b, name) \<in> set savedFlags" and "b = CLUSTER_NODE_MYSELF \<longrightarrow> my = None"
  shows "loadFlag n name (my, s) = Inr (if b = CLUSTER_NODE_MYSELF then Some n else my,
    upd_node n (if b = CLUSTER_NODE_FAIL then (\<lambda>x. (setFlag b x)\<lparr>n_fail_time := s_mstime s\<rparr>) else setFlag b)
      (if b = CLUSTER_NODE_MYSELF then s\<lparr>c_myself := n\<rparr> else s))"
proof -
  have "map tolowerc name = name" using assms(1) unfolding savedFlags_def by (auto simp only: set_simps lower_flags)
  then have c: "strcaseeq name w \<longleftrightarrow> name = map tolowerc w" for w by (simp only: strcaseeq_def)
  from assms(1) show ?thesis
    unfolding loadFlag_def c lower_flags savedFlags_def set_simps
    by (elim insertE emptyE) (simp_all add: flag_simps assms(2) [unfolded flag_simps])
qed

lemma loadFlag_conf:
  assumes ok: "refs_ok s" and n: "dictFind (c_nodes s) k = Some n" and b: "(b, name) \<in> set savedFlags"
    and my: "b = CLUSTER_NODE_MYSELF \<longrightarrow> my = None"
  obtains s1 where "loadFlag n name (my, s) = Inr (if b = CLUSTER_NODE_MYSELF then Some n else my, s1)"
    "knownStill s s1" "confOf s1 = updView k (addFlags b) (confOf s)"
proof -
  define s0 where "s0 = (if b = CLUSTER_NODE_MYSELF then s\<lparr>c_myself := n\<rparr> else s)"
  define f where "f = (if b = CLUSTER_NODE_FAIL then (\<lambda>x. (setFlag b x)\<lparr>n_fail_time := s_mstime s\<rparr>) else setFlag b)"
  have s0: "refs_ok s0" "dictFind (c_nodes s0) k = Some n" "confOf s0 = confOf s" "c_nodes s0 = c_nodes s"
    using ok n by (simp_all add: s0_def)
  have "viewOf s0 (f x) = addFlags b (viewOf s0 x)" for x by (rule viewOf_flags) (simp_all add: f_def)
  then have "knownStill s0 (upd_node n f s0) \<and> confOf (upd_node n f s0) = updView k (addFlags b) (confOf s0)"
    by (intro flag_conf [OF s0(1,2)]) (simp_all add: f_def frame_simps)
  then have "knownStill s (upd_node n f s0) \<and> confOf (upd_node n f s0) = updView k (addFlags b) (confOf s)"
    using s0 by (simp add: knownStill_def)
  moreover have "loadFlag n name (my, s) = Inr (if b = CLUSTER_NODE_MYSELF then Some n else my, upd_node n f s0)"
    unfolding s0_def f_def by (rule loadFlag_saved [OF b my])
  ultimately show ?thesis using that by blast
qed

definition flagsUnion :: "(u32 \<times> string) list \<Rightarrow> u32" where
  "flagsUnion es = fold (\<lambda>(b, name) w. w OR b) es 0"

lemma flagsUnion_fold: "fold (\<lambda>(b, name) w. w OR b) es w = w OR flagsUnion es"
proof (induction es arbitrary: w)
  case (Cons e es)
  obtain b name where e: "e = (b, name)" by force
  have "fold (\<lambda>(b, name) w. w OR b) es (0 OR b) = (0 OR b) OR flagsUnion es" by (rule Cons.IH)
  then have "flagsUnion (e # es) = b OR flagsUnion es" by (simp add: flagsUnion_def e)
  then show ?case using Cons.IH by (simp add: e ac_simps)
qed (simp add: flagsUnion_def)

lemma flagsUnion_Cons: "flagsUnion ((b, name) # es) = b OR flagsUnion es"
  using flagsUnion_fold [of es b] by (simp add: flagsUnion_def)

lemma loadFlags_conf:
  assumes "refs_ok s" and "dictFind (c_nodes s) k = Some n" and "set es \<subseteq> set savedFlags"
    and "distinct (map fst es)" and "CLUSTER_NODE_MYSELF \<in> fst ` set es \<Longrightarrow> my = None"
  shows "\<exists>s1. foldE (loadFlag n) (map snd es) (my, s) =
      Inr (if CLUSTER_NODE_MYSELF \<in> fst ` set es then Some n else my, s1) \<and>
    knownStill s s1 \<and> confOf s1 = updView k (addFlags (flagsUnion es)) (confOf s)"
  using assms
proof (induction es arbitrary: s my)
  case Nil
  then have "knownStill s s" "updView k (addFlags (flagsUnion [])) (confOf s) = confOf s"
    by (simp_all add: knownStill_def updView_id flagsUnion_def addFlags_zero)
  then show ?case by simp
next
  case (Cons e es)
  obtain b name where e: "e = (b, name)" by force
  define my1 where "my1 = (if b = CLUSTER_NODE_MYSELF then Some n else my)"
  obtain s1 where 1: "loadFlag n name (my, s) = Inr (my1, s1)" "knownStill s s1"
    "confOf s1 = updView k (addFlags b) (confOf s)"
  proof -
    have "(b, name) \<in> set savedFlags" "b = CLUSTER_NODE_MYSELF \<longrightarrow> my = None"
      using Cons.prems(3,5) by (simp_all add: e)
    then show thesis using loadFlag_conf [OF Cons.prems(1,2), of b name my] that unfolding my1_def by blast
  qed
  have "refs_ok s1" "dictFind (c_nodes s1) k = Some n" using 1(2) Cons.prems(2) by (simp_all add: knownStill_def)
  moreover have "CLUSTER_NODE_MYSELF \<in> fst ` set es \<Longrightarrow> my1 = None"
    using Cons.prems(4,5) by (auto simp: my1_def e)
  ultimately obtain s2 where 2: "foldE (loadFlag n) (map snd es) (my1, s1) =
      Inr (if CLUSTER_NODE_MYSELF \<in> fst ` set es then Some n else my1, s2)" "knownStill s1 s2"
    "confOf s2 = updView k (addFlags (flagsUnion es)) (confOf s1)"
    using Cons.IH [of s1 my1] Cons.prems by auto
  have "confOf s2 = updView k (addFlags (flagsUnion (e # es))) (confOf s)"
    unfolding 2(3) 1(3) updView_comp e flagsUnion_Cons by (rule updView_cong) (simp add: addFlags_OR)
  moreover have "foldE (loadFlag n) (map snd (e # es)) (my, s) =
      Inr (if CLUSTER_NODE_MYSELF \<in> fst ` set (e # es) then Some n else my, s2)"
    using 1(1) 2(1) by (auto simp: e my1_def andThen_def)
  ultimately show ?case using knownStill_trans [OF 1(2) 2(2)] by blast
qed

lemma one_flag: "(if hasFlag w (2 ^ i) then 2 ^ i else 0) = w AND (2 ^ i :: u32)"
proof (cases "bit w i")
  case True
  then have "w AND 2 ^ i = 2 ^ i" by (intro bit_word_eqI) (auto simp: bit_and_iff bit_exp_iff)
  with True show ?thesis by (auto simp: hasFlag_def)
next
  case False
  then have "w AND 2 ^ i = 0" by (simp add: and_exp_eq_0_iff_not_bit)
  then show ?thesis by (simp add: hasFlag_def)
qed

lemma one_flag': "b = 2 ^ i \<Longrightarrow> (if hasFlag w b then b else 0) = w AND (b :: u32)"
  by (simp only: one_flag)

lemma one_flags:
  "(if hasFlag w 1 then 1 else 0) = w AND (1 :: u32)" "(if hasFlag w 2 then 2 else 0) = w AND (2 :: u32)"
  "(if hasFlag w 4 then 4 else 0) = w AND (4 :: u32)" "(if hasFlag w 8 then 8 else 0) = w AND (8 :: u32)"
  "(if hasFlag w 16 then 16 else 0) = w AND (16 :: u32)" "(if hasFlag w 32 then 32 else 0) = w AND (32 :: u32)"
  "(if hasFlag w 64 then 64 else 0) = w AND (64 :: u32)" "(if hasFlag w 512 then 512 else 0) = w AND (512 :: u32)"
  by (rule one_flag' [of _ 0], simp) (rule one_flag' [of _ 1], simp, rule one_flag' [of _ 2], simp,
      rule one_flag' [of _ 3], simp, rule one_flag' [of _ 4], simp, rule one_flag' [of _ 5], simp,
      rule one_flag' [of _ 6], simp, rule one_flag' [of _ 9], simp)

lemma flagsUnion_filter:
  "flagsUnion (filter (\<lambda>(b, name). hasFlag w b) ((b, name) # es)) =
   (if hasFlag w b then b else 0) OR flagsUnion (filter (\<lambda>(b, name). hasFlag w b) es)"
  by (simp add: flagsUnion_Cons)

lemma flagsUnion_saved: "flagsUnion (filter (\<lambda>(b, name). hasFlag w b) savedFlags) = w AND namedFlags"
proof -
  have "flagsUnion (filter (\<lambda>(b, name). hasFlag w b) savedFlags) =
    (w AND 16) OR (w AND 1) OR (w AND 2) OR (w AND 4) OR (w AND 8) OR (w AND 32) OR (w AND 64) OR (w AND 512)"
    unfolding savedFlags_def flagsUnion_filter flag_simps one_flags by (simp add: flagsUnion_def ac_simps)
  also have "\<dots> = w AND namedFlags"
    by (simp only: bit.conj_disj_distrib [symmetric] namedFlags_def) simp
  finally show ?thesis .
qed
subsection \<open>Master\<close>

lemma addSlave_conf:
  assumes ok: "refs_ok s" and m: "dictFind (c_nodes s) k = Some m"
  shows "knownStill s (snd (clusterNodeAddSlave m n s)) \<and> confOf (snd (clusterNodeAddSlave m n s)) = confOf s"
proof (cases "n \<in> set (n_slaves (nd s m))")
  case True
  then show ?thesis using ok by (simp add: clusterNodeAddSlave_def knownStill_def)
next
  case False
  define f where "f = (\<lambda>x. setFlag CLUSTER_NODE_MIGRATE_TO (x\<lparr>n_slaves := n_slaves x @ [n]\<rparr>))"
  have "viewOf s (f x) = addFlags 256 (viewOf s x)" for x
    by (rule viewOf_flags) (simp_all add: f_def flag_simps)
  then have v: "viewOf s (f x) = viewOf s x" for x by (simp add: addFlags_def namedFlags_def)
  have "knownStill s (upd_node m f s) \<and> confOf (upd_node m f s) = updView k (\<lambda>v. v) (confOf s)"
    using refs_okD(2) [OF ok find_live [OF m]] by (intro upd_conf [OF ok m]) (simp_all add: v, simp_all add: f_def frame_simps)
  then show ?thesis using False by (simp add: clusterNodeAddSlave_def f_def updView_id)
qed

lemma loadMaster_conf:
  assumes ok: "refs_ok s" and n: "dictFind (c_nodes s) k = Some n"
    and w: "length w = CLUSTER_NAMELEN" "hd w \<noteq> CHR ''-''"
  obtains s1 where "loadMaster n w s = Inr s1" "knownStill s s1"
    "confOf s1 = updView k (\<lambda>v. v\<lparr>v_master := Some w\<rparr>) (addView w (confOf s))"
proof -
  obtain m s2 where l: "lookupOrCreate w s = Inr (m, s2)" "knownStill s s2" "dictFind (c_nodes s2) w = Some m"
    "confOf s2 = addView w (confOf s)"
    using lookup_conf [OF ok, of w w] w(1) by auto
  define f :: "clusterNode \<Rightarrow> clusterNode" where "f = (\<lambda>x. x\<lparr>n_slaveof := Some m\<rparr>)"
  have 2: "refs_ok s2" "dictFind (c_nodes s2) k = Some n" using l(2) n by (simp_all add: knownStill_def)
  have "n_name (nd s2 m) = w" using tables_name [OF refs_okD(1) [OF 2(1)] l(3)] .
  then have f: "viewOf s2 (f x) = (viewOf s2 x)\<lparr>v_master := Some w\<rparr>" for x by (simp add: viewOf_def f_def)
  have 3: "knownStill s2 (upd_node n f s2) \<and>
    confOf (upd_node n f s2) = updView k (\<lambda>v. v\<lparr>v_master := Some w\<rparr>) (confOf s2)"
    using find_live [OF l(3)] by (intro upd_conf [OF 2]) (simp_all add: f, simp_all add: f_def frame_simps)
  define s4 where "s4 = snd (clusterNodeAddSlave m n (upd_node n f s2))"
  have 4: "knownStill (upd_node n f s2) s4 \<and> confOf s4 = confOf (upd_node n f s2)"
    unfolding s4_def using 3 l(3) by (intro addSlave_conf [of _ w]) (simp_all add: knownStill_def)
  have "w \<noteq> []" using w(1) by (auto simp: CLUSTER_NAMELEN_def)
  then have "loadMaster n w s = Inr s4"
    using w(2) l(1) by (simp add: loadMaster_def andThen_def s4_def f_def)
  moreover have "knownStill s s4" using knownStill_trans l(2) 3 4 by blast
  ultimately show ?thesis using that 3 4 l(4) by simp
qed

subsection \<open>Slots\<close>

definition giveSlots :: "string \<Rightarrow> nat set \<Rightarrow> conf \<Rightarrow> conf" where
  "giveSlots k J c = c\<lparr>cf_slot := (\<lambda>j. if j \<in> J \<and> cf_slot c j = None then Some k else cf_slot c j)\<rparr>"

lemma giveSlots_simps: "giveSlots k {} c = c" "giveSlots k I (giveSlots k J c) = giveSlots k (J \<union> I) c"
  by (auto simp: giveSlots_def fun_eq_iff intro!: conf.equality)

lemma addSlot_conf:
  assumes ok: "refs_ok s" and n: "dictFind (c_nodes s) k = Some n" and j: "j < CLUSTER_SLOTS"
  defines "s' \<equiv> snd (clusterAddSlot n j s)"
  shows "knownStill s s' \<and> confOf s' = giveSlots k {j} (confOf s)"
proof (cases "c_slots s j")
  case (Some q)
  then show ?thesis
    using ok by (auto simp: s'_def clusterAddSlot_def knownStill_def giveSlots_def conf_simps nameIn_def fun_eq_iff intro!: conf.equality)
next
  case None
  note t = refs_okD(1) [OF ok]
  have "widens s s'" unfolding s'_def by (rule addSlot_widens [OF t find_live [OF n] j])
  then have t': "tables_ok s'" by (rule growsD)
  define f where "f = (\<lambda>p. nd s' p)"
  have nd: "n_name (nd s' p) = n_name (nd s p)" "n_ip (nd s' p) = n_ip (nd s p)"
    "n_port (nd s' p) = n_port (nd s p)" "n_cport (nd s' p) = n_cport (nd s p)"
    "n_configEpoch (nd s' p) = n_configEpoch (nd s p)" "n_slaveof (nd s' p) = n_slaveof (nd s p)"
    "n_flags (nd s' p) AND namedFlags = n_flags (nd s p) AND namedFlags" for p
    using None
    by (simp_all add: s'_def clusterAddSlot_def clusterNodeSetSlotBit_def Let_def nd_def upd_node_def
        setFlag_def flag_simps namedFlags_def bit.conj_disj_distrib2)
  have same: "c_nodes s' = c_nodes s" "c_slots s' = (c_slots s)(j := Some n)"
    "c_migrating_slots_to s' = c_migrating_slots_to s" "c_importing_slots_from s' = c_importing_slots_from s"
    "live s' = live s"
    using None by (simp_all add: s'_def clusterAddSlot_def clusterNodeSetSlotBit_def Let_def live_def)
  have names: "nameIn s' p = nameIn s p" for p by (simp add: nameIn_def nd)
  have "viewOf s' (nd s' p) = viewOf s (nd s p)" for p by (simp add: viewOf_def nd)
  then have "confOf s' = giveSlots k {j} (confOf s)"
    using None tables_name [OF t n]
    by (auto simp: conf_simps giveSlots_def same names nameIn_def nd fun_eq_iff intro!: conf.equality)
  moreover have "refs_ok s'"
    using t' refs_okD(2-5) [OF ok] find_live [OF n] unfolding refs_ok_def same nd by (auto split: if_splits)
  ultimately show ?thesis by (simp add: knownStill_def same)
qed

lemma addSlots_conf:
  "refs_ok s \<Longrightarrow> dictFind (c_nodes s) k = Some n \<Longrightarrow> \<forall>j \<in> set js. j < CLUSTER_SLOTS \<Longrightarrow>
   knownStill s (fold (\<lambda>j s. snd (clusterAddSlot n j s)) js s) \<and>
   confOf (fold (\<lambda>j s. snd (clusterAddSlot n j s)) js s) = giveSlots k (set js) (confOf s)"
proof (induction js arbitrary: s)
  case Nil
  then show ?case by (simp add: knownStill_def giveSlots_simps)
next
  case (Cons j js)
  let ?s = "snd (clusterAddSlot n j s)"
  have 1: "knownStill s ?s" "confOf ?s = giveSlots k {j} (confOf s)"
    using addSlot_conf [OF Cons.prems(1,2), of j] Cons.prems(3) by simp_all
  have "refs_ok ?s" "dictFind (c_nodes ?s) k = Some n" using 1(1) Cons.prems(2) by (simp_all add: knownStill_def)
  from Cons.IH [OF this] Cons.prems(3) show ?case
    using knownStill_trans [OF 1(1)] by (simp add: 1(2) giveSlots_simps)
qed

lemma loadRange:
  assumes "a \<le> b" and "b < CLUSTER_SLOTS"
  shows "loadSlots n (rangeWord a b) s = Inr (fold (\<lambda>j s. snd (clusterAddSlot n j s)) [a..<Suc b] s)"
proof -
  let ?w = "rangeWord a b"
  have small: "a < 2 ^ 31" "b < 2 ^ 31" using assms by (simp_all add: CLUSTER_SLOTS_def)
  have "(case strchr (CHR ''-'') ?w of Some (u, v) \<Rightarrow> (atoi u, atoi v) | None \<Rightarrow> (atoi ?w, atoi ?w)) = (int a, int b)"
  proof (cases "a = b")
    case True
    then show ?thesis
      by (simp add: rangeWord_def strchr_none digits_clean digits_no_minus atoi_digits [OF small(2)])
  next
    case False
    have "strchr (CHR ''-'') (digits a @ CHR ''-'' # digits b) = Some (digits a, digits b)"
      by (rule strchr_at) (simp_all add: digits_clean digits_no_minus)
    then show ?thesis using False atoi_digits [OF small(1)] atoi_digits [OF small(2)] by (simp add: rangeWord_def)
  qed
  moreover have "hd ?w \<noteq> CHR ''[''"
  proof -
    obtain ch u where d: "digits a = ch # u" "isDigit ch" by (rule digits_first)
    have "\<not> isDigit (CHR ''['')" by code_simp
    with d show ?thesis by (auto simp: rangeWord_def)
  qed
  ultimately show ?thesis using assms by (simp add: loadSlots_def del: upt_Suc)
qed

lemma loadRanges_conf:
  assumes "refs_ok s" and "dictFind (c_nodes s) k = Some n" and "\<forall>(q, a, b) \<in> set rs. a \<le> b \<and> b < CLUSTER_SLOTS"
  shows "\<exists>s1. foldE (loadSlots n) (map (\<lambda>(q, a, b). rangeWord a b) rs) s = Inr s1 \<and> knownStill s s1 \<and>
    confOf s1 = giveSlots k (\<Union>(q, a, b) \<in> set rs. {a..b}) (confOf s)"
  using assms
proof (induction rs arbitrary: s)
  case Nil
  then show ?case by (simp add: knownStill_def giveSlots_simps)
next
  case (Cons r rs)
  obtain q a b where r: "r = (q, a, b)" by (metis prod_cases3)
  have ab: "a \<le> b" "b < CLUSTER_SLOTS" using Cons.prems(3) by (simp_all add: r)
  define s1 where "s1 = fold (\<lambda>j s. snd (clusterAddSlot n j s)) [a..<Suc b] s"
  have "set [a..<Suc b] = {a..b}" by auto
  then have 1: "knownStill s s1" "confOf s1 = giveSlots k {a..b} (confOf s)"
    using addSlots_conf [OF Cons.prems(1,2), of "[a..<Suc b]"] ab unfolding s1_def by (simp_all del: upt_Suc)
  have "refs_ok s1" "dictFind (c_nodes s1) k = Some n" using 1(1) Cons.prems(2) by (simp_all add: knownStill_def)
  then obtain s2 where 2: "foldE (loadSlots n) (map (\<lambda>(q, a, b). rangeWord a b) rs) s1 = Inr s2" "knownStill s1 s2"
    "confOf s2 = giveSlots k (\<Union>(q, a, b) \<in> set rs. {a..b}) (confOf s1)"
    using Cons.IH [of s1] Cons.prems(3) by auto
  have "foldE (loadSlots n) (map (\<lambda>(q, a, b). rangeWord a b) (r # rs)) s = Inr s2"
    using 2(1) by (simp add: r loadRange [OF ab] andThen_def s1_def del: upt_Suc)
  then show ?case using knownStill_trans [OF 1(1) 2(2)] by (simp add: 2(3) 1(2) giveSlots_simps r)
qed

text \<open>The ranges of a node cover exactly its slots.\<close>

lemma ranges_cover:
  "(\<Union>(q, a, b) \<in> set (runs (onlySlots p slots)). {a..b}) = {j. j < CLUSTER_SLOTS \<and> slots j = Some p}"
proof -
  have r: "set (runs (onlySlots p slots)) = {(q, a, b). maximalRun (onlySlots p slots) q a b}" using runs_exact by blast
  have "j < CLUSTER_SLOTS \<and> slots j = Some p" if "maximalRun (onlySlots p slots) q a b" "a \<le> j" "j \<le> b" for q a b j
    using that by (auto simp: maximalRun_def onlySlots_def split: if_splits)
  moreover have "\<exists>a b. maximalRun (onlySlots p slots) p a b \<and> a \<le> j \<and> j \<le> b" if "j < CLUSTER_SLOTS" "slots j = Some p" for j
    using that in_some_run [of j "onlySlots p slots" p] by (simp add: onlySlots_def)
  ultimately show ?thesis unfolding r by fastforce
qed
subsection \<open>Open slots\<close>

definition openEffect :: "redisServer \<Rightarrow> nat \<Rightarrow> conf \<Rightarrow> conf" where
  "openEffect s j c =
     (case nameIn s (c_migrating_slots_to s j) of
        Some k \<Rightarrow> addView k (c\<lparr>cf_migrating := (cf_migrating c)(j := Some k)\<rparr>)
      | None \<Rightarrow>
          (case nameIn s (c_importing_slots_from s j) of
             Some k \<Rightarrow> addView k (c\<lparr>cf_importing := (cf_importing c)(j := Some k)\<rparr>)
           | None \<Rightarrow> c))"

lemma addView_other [simp]:
  "addView k (c\<lparr>cf_migrating := m\<rparr>) = (addView k c)\<lparr>cf_migrating := m\<rparr>"
  "addView k (c\<lparr>cf_importing := m\<rparr>) = (addView k c)\<lparr>cf_importing := m\<rparr>"
  "cf_migrating (addView k c) = cf_migrating c" "cf_importing (addView k c) = cf_importing c"
  "cf_slot (addView k c) = cf_slot c"
  by (simp_all add: addView_def)

lemma open_conf:
  assumes ok: "refs_ok s" and m: "dictFind (c_nodes s) k = Some m"
  shows "knownStill s (s\<lparr>c_migrating_slots_to := (c_migrating_slots_to s)(j := Some m)\<rparr>)"
    and "confOf (s\<lparr>c_migrating_slots_to := (c_migrating_slots_to s)(j := Some m)\<rparr>) =
      (confOf s)\<lparr>cf_migrating := (cf_migrating (confOf s))(j := Some k)\<rparr>"
    and "knownStill s (s\<lparr>c_importing_slots_from := (c_importing_slots_from s)(j := Some m)\<rparr>)"
    and "confOf (s\<lparr>c_importing_slots_from := (c_importing_slots_from s)(j := Some m)\<rparr>) =
      (confOf s)\<lparr>cf_importing := (cf_importing (confOf s))(j := Some k)\<rparr>"
proof -
  let ?m = "s\<lparr>c_migrating_slots_to := (c_migrating_slots_to s)(j := Some m)\<rparr>"
  let ?i = "s\<lparr>c_importing_slots_from := (c_importing_slots_from s)(j := Some m)\<rparr>"
  have nd: "nd ?m p = nd s p" "nd ?i p = nd s p" "live ?m = live s" "live ?i = live s" for p
    by (simp_all add: nd_def live_def)
  have names: "nameIn ?m p = nameIn s p" "nameIn ?i p = nameIn s p" "viewOf ?m x = viewOf s x" "viewOf ?i x = viewOf s x" for p x
    by (simp_all add: nameIn_def viewOf_def nd)
  have k: "nameIn s (Some m) = Some k" using tables_name [OF refs_okD(1) [OF ok] m] by (simp add: nameIn_def)
  show "confOf ?m = (confOf s)\<lparr>cf_migrating := (cf_migrating (confOf s))(j := Some k)\<rparr>"
    "confOf ?i = (confOf s)\<lparr>cf_importing := (cf_importing (confOf s))(j := Some k)\<rparr>"
    using k by (auto simp: confOf_def names nd intro!: conf.equality)
  have "tables_ok ?m" "tables_ok ?i"
    using refs_okD(1) [OF ok] tables_ok_core [of ?m s] tables_ok_core [of ?i s] by (simp_all add: frame_simps)
  then have "refs_ok ?m" "refs_ok ?i"
    using refs_okD(2-5) [OF ok] find_live [OF m] unfolding refs_ok_def nd by auto
  then show "knownStill s ?m" "knownStill s ?i" by (simp_all add: knownStill_def)
qed

lemma loadOpen:
  assumes ok: "refs_ok s" and w: "goodName k" and j: "j < CLUSTER_SLOTS" and d: "d = CHR ''>'' \<or> d = CHR ''<''"
  shows "\<exists>s1. loadSlots n (CHR ''['' # digits j @ CHR ''-'' # d # CHR ''-'' # k @ '']'') s = Inr s1 \<and> knownStill s s1 \<and>
    confOf s1 = (let c = addView k (confOf s) in
      if d = CHR ''>'' then c\<lparr>cf_migrating := (cf_migrating c)(j := Some k)\<rparr>
      else c\<lparr>cf_importing := (cf_importing c)(j := Some k)\<rparr>)"
proof -
  let ?r = "d # CHR ''-'' # k @ '']''"
  have len: "length k = CLUSTER_NAMELEN" "cleanChars k" using w by (simp_all add: goodName_def)
  then obtain cn s2 where l: "lookupOrCreate (k @ '']'') s = Inr (cn, s2)" "knownStill s s2"
    "dictFind (c_nodes s2) k = Some cn" "confOf s2 = addView k (confOf s)"
    using lookup_conf [OF ok, of "k @ '']''" k] by auto
  have at: "strchr (CHR ''-'') ((CHR ''['' # digits j) @ CHR ''-'' # ?r) = Some (CHR ''['' # digits j, ?r)"
  proof (rule strchr_at)
    show "cleanChars ((CHR ''['' # digits j) @ CHR ''-'' # ?r)"
      using d len(2) digits_clean(1) [of j] by (elim disjE) simp_all
    show "CHR ''-'' \<notin> set (CHR ''['' # digits j)" using digits_no_minus by simp
  qed
  have n: "atoi (digits j) = int j" using j by (intro atoi_digits) (simp add: CLUSTER_SLOTS_def)
  have load: "loadSlots n (CHR ''['' # digits j @ CHR ''-'' # ?r) s =
      Inr (if d = CHR ''>'' then s2\<lparr>c_migrating_slots_to := (c_migrating_slots_to s2)(j := Some cn)\<rparr>
           else s2\<lparr>c_importing_slots_from := (c_importing_slots_from s2)(j := Some cn)\<rparr>)"
    using j l(1) at n by (simp add: loadSlots_def loadOpenSlot_def andThen_def)
  have "refs_ok s2" using l(2) by (simp add: knownStill_def)
  note o = open_conf [OF this l(3), of j]
  show ?thesis
  proof (cases "d = CHR ''>''")
    case True
    then show ?thesis using load o(2) knownStill_trans [OF l(2) o(1)] by (simp add: l(4) Let_def)
  next
    case False
    then show ?thesis using load o(4) knownStill_trans [OF l(2) o(3)] by (simp add: l(4) Let_def)
  qed
qed

lemma loadOpens_conf:
  assumes s: "savable s" and t: "refs_ok t" and js: "\<forall>j \<in> set js. j < CLUSTER_SLOTS"
  shows "\<exists>t1. foldE (loadSlots n) (concat (map (openWords s) js)) t = Inr t1 \<and> knownStill t t1 \<and>
    confOf t1 = fold (openEffect s) js (confOf t)"
  using t js
proof (induction js arbitrary: t)
  case Nil
  then show ?case by (simp add: knownStill_def)
next
  case (Cons j js)
  have j: "j < CLUSTER_SLOTS" using Cons.prems by simp
  have good: "goodName (n_name (nd s p))" if "c_migrating_slots_to s j = Some p \<or> c_importing_slots_from s j = Some p" for p
    using saved_good [OF s saved_open [OF s j that]] by (simp add: goodNode_def)
  have one: "\<exists>t1. foldE (loadSlots n) (openWords s j) t = Inr t1 \<and> knownStill t t1 \<and> confOf t1 = openEffect s j (confOf t)"
  proof (cases "c_migrating_slots_to s j")
    case (Some p)
    from loadOpen [OF Cons.prems(1) good [OF disjI1 [OF Some]] j, of "CHR ''>''" n] show ?thesis
      by (auto simp: openWords_def openEffect_def nameIn_def Some andThen_def Let_def)
  next
    case None
    show ?thesis
    proof (cases "c_importing_slots_from s j")
      case (Some p)
      from loadOpen [OF Cons.prems(1) good [OF disjI2 [OF Some]] j, of "CHR ''<''" n] show ?thesis
        by (auto simp: openWords_def openEffect_def nameIn_def Some None andThen_def Let_def)
    next
      assume "c_importing_slots_from s j = None"
      with None Cons.prems(1) show ?thesis
        by (simp add: openWords_def openEffect_def nameIn_def knownStill_def)
    qed
  qed
  then obtain t1 where 1: "foldE (loadSlots n) (openWords s j) t = Inr t1" "knownStill t t1"
    "confOf t1 = openEffect s j (confOf t)" by blast
  then obtain t2 where 2: "foldE (loadSlots n) (concat (map (openWords s) js)) t1 = Inr t2" "knownStill t1 t2"
    "confOf t2 = fold (openEffect s) js (confOf t1)"
    using Cons.IH [of t1] Cons.prems by (auto simp: knownStill_def)
  have "foldE (loadSlots n) (concat (map (openWords s) (j # js))) t = Inr t2"
    using 1(1) 2(1) by (simp add: foldE_append andThen_def)
  moreover have "knownStill t t2" by (rule knownStill_trans [OF 1(2) 2(2)])
  moreover have "confOf t2 = fold (openEffect s) (j # js) (confOf t)" by (simp add: 2(3) 1(3))
  ultimately show ?case by blast
qed

section \<open>The line of a node\<close>

definition nodeEffect :: "redisServer \<Rightarrow> nid \<Rightarrow> conf \<Rightarrow> conf" where
  "nodeEffect s p c =
     (let x = nd s p; k = n_name x;
          c1 = updView k (\<lambda>v. v\<lparr>v_ip := n_ip x, v_port := n_port x, v_cport := n_cport x\<rparr>) (addView k c);
          c2 = updView k (addFlags (n_flags x)) c1;
          c3 = (case nameIn s (n_slaveof x) of
                  None \<Rightarrow> c2
                | Some m \<Rightarrow> updView k (\<lambda>v. v\<lparr>v_master := Some m\<rparr>) (addView m c2));
          c4 = updView k (\<lambda>v. v\<lparr>v_epoch := savedEpoch s p\<rparr>) c3;
          c5 = giveSlots k {j. j < CLUSTER_SLOTS \<and> c_slots s j = Some p} c4
      in if p = c_myself s then fold (openEffect s) [0..<CLUSTER_SLOTS] c5 else c5)"

lemma flagNames_eq: "flagNames w = map snd (filter (\<lambda>(b, name). hasFlag w b) savedFlags)"
  by (simp add: flagNames_def)

lemma addFlags_named: "addFlags (w AND namedFlags) = addFlags w"
  by (simp add: addFlags_def fun_eq_iff and.assoc)

lemma loadFlagWord_conf:
  assumes ok: "refs_ok t" and n: "dictFind (c_nodes t) k = Some n"
    and my: "hasFlag w CLUSTER_NODE_MYSELF \<longrightarrow> my = None"
  obtains t1 where "foldE (loadFlag n) (flagWords (joined (if flagNames w = [] then [''noflags''] else flagNames w))) (my, t) =
      Inr (if hasFlag w CLUSTER_NODE_MYSELF then Some n else my, t1)"
    "knownStill t t1" "confOf t1 = updView k (addFlags w) (confOf t)"
proof -
  let ?es = "filter (\<lambda>(b, name). hasFlag w b) savedFlags"
  let ?ws = "if flagNames w = [] then [''noflags''] else flagNames w"
  have words: "flagWords (joined ?ws) = ?ws"
    using flagNames_clean [of _ w] by (intro flagWords_joined) (auto simp: cleanWord_chars)
  have mine: "CLUSTER_NODE_MYSELF \<in> fst ` set ?es \<longleftrightarrow> hasFlag w CLUSTER_NODE_MYSELF"
    by (force simp: savedFlags_def flag_simps)
  have "distinct (map fst savedFlags)" by (simp add: savedFlags_def flag_simps)
  then have "distinct (map fst ?es)" by (rule distinct_map_filter)
  then obtain t1 where t1: "foldE (loadFlag n) (map snd ?es) (my, t) =
      Inr (if hasFlag w CLUSTER_NODE_MYSELF then Some n else my, t1)"
    "knownStill t t1" "confOf t1 = updView k (addFlags w) (confOf t)"
    using loadFlags_conf [OF ok n, of ?es my] my unfolding mine flagsUnion_saved addFlags_named by auto
  have "foldE (loadFlag n) ?ws (my, t) = foldE (loadFlag n) (map snd ?es) (my, t)"
  proof (cases "flagNames w = []")
    case True
    have c: "strcaseeq ''noflags'' v \<longleftrightarrow> ''noflags'' = map tolowerc v" for v by (simp only: strcaseeq_def lower_flags)
    have "loadFlag n ''noflags'' (my, t) = Inr (my, t)" unfolding loadFlag_def c lower_flags by simp
    moreover have "map snd ?es = []" using True unfolding flagNames_eq .
    ultimately show ?thesis using True by (simp add: andThen_def)
  next
    case False
    then show ?thesis by (simp add: flagNames_eq)
  qed
  then show ?thesis using that t1 words by simp
qed

lemma times_conf:
  assumes "refs_ok t" and "dictFind (c_nodes t) k = Some n"
  shows "knownStill t (loadTimes n a b (decimal (uint e)) t) \<and>
    confOf (loadTimes n a b (decimal (uint e)) t) = updView k (\<lambda>v. v\<lparr>v_epoch := e\<rparr>) (confOf t)"
  unfolding loadTimes_def strtoull_decimal using refs_okD(2) [OF assms(1) find_live [OF assms(2)]]
  by (intro upd_conf [OF assms]) (simp_all add: viewOf_def frame_simps)
lemma loadSlotWords_conf:
  assumes s: "savable s" and p: "p \<in> savedNodes s" and t: "refs_ok t" and n: "dictFind (c_nodes t) k = Some n"
  obtains t1 where "foldE (loadSlots n) (slotWords s p) t = Inr t1" "knownStill t t1"
    "confOf t1 = (let c = giveSlots k {j. j < CLUSTER_SLOTS \<and> c_slots s j = Some p} (confOf t)
       in if p = c_myself s then fold (openEffect s) [0..<CLUSTER_SLOTS] c else c)"
proof -
  let ?rs = "runs (onlySlots p (c_slots s))"
  have "\<forall>(q, a, b) \<in> set ?rs. a \<le> b \<and> b < CLUSTER_SLOTS"
    using runs_exact [of "onlySlots p (c_slots s)"] by (auto simp: maximalRun_def)
  from loadRanges_conf [OF t n this] obtain t0 where
    0: "foldE (loadSlots n) (map (\<lambda>(q, a, b). rangeWord a b) ?rs) t = Inr t0" "knownStill t t0"
    "confOf t0 = giveSlots k {j. j < CLUSTER_SLOTS \<and> c_slots s j = Some p} (confOf t)"
    unfolding ranges_cover by blast
  have mine: "hasFlag (n_flags (nd s p)) CLUSTER_NODE_MYSELF \<longleftrightarrow> p = c_myself s"
    using s p by (simp add: savable_def)
  show ?thesis
  proof (cases "p = c_myself s")
    case True
    have "refs_ok t0" using 0(2) by (simp add: knownStill_def)
    from loadOpens_conf [OF s this, of "[0..<CLUSTER_SLOTS]" n] obtain t1 where
      1: "foldE (loadSlots n) (concat (map (openWords s) [0..<CLUSTER_SLOTS])) t0 = Inr t1" "knownStill t0 t1"
      "confOf t1 = fold (openEffect s) [0..<CLUSTER_SLOTS] (confOf t0)" by auto
    have "foldE (loadSlots n) (slotWords s p) t = Inr t1"
      using 0(1) 1(1) True mine by (simp add: slotWords_def foldE_append andThen_def)
    then show ?thesis using that knownStill_trans [OF 0(2) 1(2)] True by (simp add: 1(3) 0(3) Let_def)
  next
    case False
    then have "slotWords s p = map (\<lambda>(q, a, b). rangeWord a b) ?rs" using mine by (simp add: slotWords_def)
    then show ?thesis using that [OF _ 0(2)] 0(1,3) False by (simp add: Let_def)
  qed
qed

lemma loadMasterWord_conf:
  assumes s: "savable s" and p: "p \<in> savedNodes s" and t: "refs_ok t" and n: "dictFind (c_nodes t) k = Some n"
  obtains t1 where
    "loadMaster n (case n_slaveof (nd s p) of Some m \<Rightarrow> n_name (nd s m) | None \<Rightarrow> ''-'') t = Inr t1" "knownStill t t1"
    "confOf t1 = (case nameIn s (n_slaveof (nd s p)) of
       None \<Rightarrow> confOf t | Some m \<Rightarrow> updView k (\<lambda>v. v\<lparr>v_master := Some m\<rparr>) (addView m (confOf t)))"
proof (cases "n_slaveof (nd s p)")
  case None
  then show ?thesis using that [of t] t by (simp add: loadMaster_def nameIn_def knownStill_def)
next
  case (Some m)
  have "goodName (n_name (nd s m))" using saved_good [OF s saved_master [OF s p Some]] by (simp add: goodNode_def)
  then obtain t1 where "loadMaster n (n_name (nd s m)) t = Inr t1" "knownStill t t1"
    "confOf t1 = updView k (\<lambda>v. v\<lparr>v_master := Some (n_name (nd s m))\<rparr>) (addView (n_name (nd s m)) (confOf t))"
    using loadMaster_conf [OF t n] by (auto simp: goodName_def)
  then show ?thesis using that Some by (simp add: nameIn_def)
qed

lemma loadAddressWord_conf:
  assumes x: "goodNode x" and t: "refs_ok t" and n: "dictFind (c_nodes t) k = Some n"
  obtains t1 where "loadAddress n (addressWord x) t = Inr t1" "knownStill t t1"
    "confOf t1 = updView k (\<lambda>v. v\<lparr>v_ip := n_ip x, v_port := n_port x, v_cport := n_cport x\<rparr>) (confOf t)"
proof -
  let ?f = "\<lambda>y. y\<lparr>n_ip := n_ip x, n_port := n_port x, n_cport := n_cport x\<rparr>"
  have "knownStill t (upd_node n ?f t) \<and> confOf (upd_node n ?f t) =
    updView k (\<lambda>v. v\<lparr>v_ip := n_ip x, v_port := n_port x, v_cport := n_cport x\<rparr>) (confOf t)"
    using refs_okD(2) [OF t find_live [OF n]]
    by (intro upd_conf [OF t n]) (simp_all add: viewOf_def frame_simps)
  moreover have "loadAddress n (addressWord x) t = Inr (upd_node n ?f t)"
    using x by (intro loadAddress_word) (simp_all add: goodNode_def)
  ultimately show ?thesis using that by blast
qed

lemma loadNode_conf:
  assumes s: "savable s" and p: "p \<in> savedNodes s" and t: "refs_ok t" and my: "p = c_myself s \<longrightarrow> my = None"
  obtains t1 where
    "loadNode (nodeWords s p) (my, t) =
       Inr (if p = c_myself s then dictFind (c_nodes t1) (n_name (nd s p)) else my, t1)"
    "knownStill t t1" "confOf t1 = nodeEffect s p (confOf t)"
proof -
  let ?x = "nd s p"
  define k where "k = n_name ?x"
  have x: "goodNode ?x" by (rule saved_good [OF s p])
  then have len: "length k = CLUSTER_NAMELEN" by (simp add: k_def goodNode_def goodName_def)
  have mine: "hasFlag (n_flags ?x) CLUSTER_NODE_MYSELF \<longleftrightarrow> p = c_myself s" using s p by (simp add: savable_def)
  define fw where "fw = joined (if flagNames (n_flags ?x) = [] then [''noflags''] else flagNames (n_flags ?x))"
  define mw where "mw = (case n_slaveof ?x of Some m \<Rightarrow> n_name (nd s m) | None \<Rightarrow> ''-'')"
  have stay: "refs_ok t'' \<and> dictFind (c_nodes t'') k = Some n"
    if "knownStill t' t''" "dictFind (c_nodes t') k = Some n" for t' t'' n
    using that by (simp add: knownStill_def)
  obtain n t0 where 0: "lookupOrCreate k t = Inr (n, t0)" "knownStill t t0" "dictFind (c_nodes t0) k = Some n"
    "confOf t0 = addView k (confOf t)"
    using lookup_conf [OF t, of k k] len by auto
  have n0: "refs_ok t0" "dictFind (c_nodes t0) k = Some n" using 0(2,3) by (simp_all add: knownStill_def)
  obtain t1 where 1: "loadAddress n (addressWord ?x) t0 = Inr t1" "knownStill t0 t1"
    "confOf t1 = updView k (\<lambda>v. v\<lparr>v_ip := n_ip ?x, v_port := n_port ?x, v_cport := n_cport ?x\<rparr>) (confOf t0)"
    by (rule loadAddressWord_conf [OF x n0])
  note n1 = stay [OF 1(2) n0(2)]
  obtain t2 where 2: "foldE (loadFlag n) (flagWords fw) (my, t1) = Inr (if p = c_myself s then Some n else my, t2)"
    "knownStill t1 t2" "confOf t2 = updView k (addFlags (n_flags ?x)) (confOf t1)"
    using loadFlagWord_conf [OF n1 [THEN conjunct1] n1 [THEN conjunct2], of "n_flags ?x" my] my
    unfolding mine fw_def by auto
  note n2 = stay [OF 2(2) n1 [THEN conjunct2]]
  obtain t3 where 3: "loadMaster n mw t2 = Inr t3" "knownStill t2 t3"
    "confOf t3 = (case nameIn s (n_slaveof ?x) of
       None \<Rightarrow> confOf t2 | Some m \<Rightarrow> updView k (\<lambda>v. v\<lparr>v_master := Some m\<rparr>) (addView m (confOf t2)))"
    unfolding mw_def by (rule loadMasterWord_conf [OF s p n2 [THEN conjunct1] n2 [THEN conjunct2]])
  note n3 = stay [OF 3(2) n2 [THEN conjunct2]]
  define t4 where "t4 = loadTimes n (decimal (n_ping_sent ?x)) (decimal (n_pong_received ?x))
      (decimal (uint (savedEpoch s p))) t3"
  have 4: "knownStill t3 t4" "confOf t4 = updView k (\<lambda>v. v\<lparr>v_epoch := savedEpoch s p\<rparr>) (confOf t3)"
    using times_conf [OF n3 [THEN conjunct1] n3 [THEN conjunct2]] by (simp_all add: t4_def)
  note n4 = stay [OF 4(1) n3 [THEN conjunct2]]
  obtain t5 where 5: "foldE (loadSlots n) (slotWords s p) t4 = Inr t5" "knownStill t4 t5"
    "confOf t5 = (let c = giveSlots k {j. j < CLUSTER_SLOTS \<and> c_slots s j = Some p} (confOf t4)
       in if p = c_myself s then fold (openEffect s) [0..<CLUSTER_SLOTS] c else c)"
    by (rule loadSlotWords_conf [OF s p n4 [THEN conjunct1] n4 [THEN conjunct2]])
  note n5 = stay [OF 5(2) n4 [THEN conjunct2]]
  define words where "words = nodeWords s p"
  have w: "words ! 0 = k" "words ! 1 = addressWord ?x" "words ! 2 = fw" "words ! 3 = mw"
    "words ! 4 = decimal (n_ping_sent ?x)" "words ! 5 = decimal (n_pong_received ?x)"
    "words ! 6 = decimal (uint (savedEpoch s p))" "drop 8 words = slotWords s p"
    by (simp_all add: words_def nodeWords_def Let_def k_def fw_def mw_def del: if_image_distrib)
  have "loadNode words (my, t) = Inr (if p = c_myself s then Some n else my, t5)"
    unfolding loadNode_def w t4_def [symmetric] by (simp add: andThen_def 0(1) 1(1) 2(1) 3(1) 5(1) t4_def [symmetric])
  then have "loadNode words (my, t) = Inr (if p = c_myself s then dictFind (c_nodes t5) k else my, t5)" using n5 by simp
  moreover have "knownStill t t5" using 0(2) 1(2) 2(2) 3(2) 4(1) 5(2) knownStill_trans by blast
  moreover have "confOf t5 = nodeEffect s p (confOf t)"
    unfolding nodeEffect_def Let_def k_def [symmetric] 5(3) 4(2) 3(3) 2(3) 1(3) 0(4) by (simp split: option.split)
  ultimately show ?thesis using that unfolding words_def k_def by blast
qed
section \<open>All lines\<close>

definition savedView :: "redisServer \<Rightarrow> nid \<Rightarrow> nodeView" where
  "savedView s p = (viewOf s (nd s p))\<lparr>v_epoch := savedEpoch s p\<rparr>"

abbreviation namesOf :: "redisServer \<Rightarrow> nid set \<Rightarrow> string set" where
  "namesOf s P \<equiv> (\<lambda>p. n_name (nd s p)) ` P"

text \<open>The configuration when the lines of the nodes P were read.\<close>

definition readSoFar :: "redisServer \<Rightarrow> nid set \<Rightarrow> conf \<Rightarrow> bool" where
  "readSoFar s P c \<longleftrightarrow>
     (\<forall>p \<in> P. cf_node c (n_name (nd s p)) = Some (savedView s p)) \<and>
     (\<forall>k. k \<notin> namesOf s P \<longrightarrow> cf_node c k = None \<or> cf_node c k = Some blankView \<and> k \<in> namesOf s (savedNodes s)) \<and>
     cf_slot c = (\<lambda>j. if j < CLUSTER_SLOTS \<and> c_slots s j \<in> Some ` P then nameIn s (c_slots s j) else None) \<and>
     cf_migrating c = (\<lambda>j. if j < CLUSTER_SLOTS \<and> c_myself s \<in> P then nameIn s (c_migrating_slots_to s j) else None) \<and>
     cf_importing c = (\<lambda>j. if j < CLUSTER_SLOTS \<and> c_myself s \<in> P \<and> c_migrating_slots_to s j = None
                           then nameIn s (c_importing_slots_from s j) else None)"

text \<open>Blank entries for names of a set are added.\<close>

definition blanksAdded :: "string set \<Rightarrow> conf \<Rightarrow> conf \<Rightarrow> bool" where
  "blanksAdded K c c' \<longleftrightarrow> (\<forall>k. cf_node c' k = cf_node c k \<or>
     cf_node c k = None \<and> cf_node c' k = Some blankView \<and> k \<in> K)"

lemma blanksAdded_refl: "cf_node c' = cf_node c \<Longrightarrow> blanksAdded K c c'"
  by (simp add: blanksAdded_def)

lemma blanksAdded_trans: "blanksAdded K c c' \<Longrightarrow> blanksAdded K c' c'' \<Longrightarrow> blanksAdded K c c''"
  unfolding blanksAdded_def by metis

lemma blanksAdded_some: "blanksAdded K c c' \<Longrightarrow> cf_node c k = Some v \<Longrightarrow> cf_node c' k = Some v"
  unfolding blanksAdded_def by (metis option.distinct(1))

lemma addView_blanks: "k \<in> K \<Longrightarrow> blanksAdded K c (addView k c)"
  by (simp add: blanksAdded_def addView_def)

lemma openEffect_fields:
  "cf_slot (openEffect s j c) = cf_slot c"
  "cf_migrating (openEffect s j c) = (if c_migrating_slots_to s j = None then cf_migrating c
     else (cf_migrating c)(j := nameIn s (c_migrating_slots_to s j)))"
  "cf_importing (openEffect s j c) = (if c_migrating_slots_to s j \<noteq> None \<or> c_importing_slots_from s j = None
     then cf_importing c else (cf_importing c)(j := nameIn s (c_importing_slots_from s j)))"
  by (auto simp: openEffect_def nameIn_def split: option.split)

lemma openEffect_blanks:
  assumes "savable s" and "j < CLUSTER_SLOTS"
  shows "blanksAdded (namesOf s (savedNodes s)) c (openEffect s j c)"
proof -
  let ?K = "namesOf s (savedNodes s)"
  have k: "n_name (nd s p) \<in> ?K" if "c_migrating_slots_to s j = Some p \<or> c_importing_slots_from s j = Some p" for p
    using saved_open [OF assms that] by blast
  have add: "blanksAdded ?K c ((addView a c)\<lparr>cf_migrating := m\<rparr>)" "blanksAdded ?K c ((addView a c)\<lparr>cf_importing := m\<rparr>)"
    if "a \<in> ?K" for a m
    using addView_blanks [OF that, of c] by (simp_all add: blanksAdded_def)
  show ?thesis
    using k add by (auto simp: openEffect_def nameIn_def blanksAdded_refl split: option.split)
qed

lemma openEffects:
  assumes "savable s" and "\<forall>j \<in> set js. j < CLUSTER_SLOTS"
  shows "blanksAdded (namesOf s (savedNodes s)) c (fold (openEffect s) js c) \<and>
    cf_slot (fold (openEffect s) js c) = cf_slot c \<and>
    cf_migrating (fold (openEffect s) js c) = (\<lambda>j. if j \<in> set js \<and> c_migrating_slots_to s j \<noteq> None
      then nameIn s (c_migrating_slots_to s j) else cf_migrating c j) \<and>
    cf_importing (fold (openEffect s) js c) = (\<lambda>j. if j \<in> set js \<and> c_migrating_slots_to s j = None \<and> c_importing_slots_from s j \<noteq> None
      then nameIn s (c_importing_slots_from s j) else cf_importing c j)"
  using assms(2)
proof (induction js arbitrary: c)
  case Nil
  then show ?case by (simp add: blanksAdded_refl)
next
  case (Cons j js)
  have j: "j < CLUSTER_SLOTS" and js: "\<forall>j \<in> set js. j < CLUSTER_SLOTS" using Cons.prems by auto
  note ih = Cons.IH [OF js, of "openEffect s j c"]
  have "blanksAdded (namesOf s (savedNodes s)) c (fold (openEffect s) (j # js) c)"
    using blanksAdded_trans [OF openEffect_blanks [OF assms(1) j]] ih by simp
  then show ?case using ih by (auto simp: openEffect_fields fun_eq_iff)
qed

lemma names_inj:
  assumes "cluster_ok s" and "p \<in> live s" and "q \<in> live s" and "n_name (nd s p) = n_name (nd s q)"
  shows "p = q"
proof -
  have "names_ok s" using assms(1) by (simp add: cluster_ok_def)
  from liveD [OF this assms(2)] liveD [OF this assms(3)] assms(4) show ?thesis by (metis option.inject)
qed

lemma updView_fields [simp]:
  "cf_slot (updView k g c) = cf_slot c" "cf_migrating (updView k g c) = cf_migrating c"
  "cf_importing (updView k g c) = cf_importing c"
  "cf_node (updView k g c) k' = (if k' = k then map_option g (cf_node c k) else cf_node c k')"
  by (simp_all add: updView_def)

lemma giveSlots_fields [simp]:
  "cf_node (giveSlots k J c) = cf_node c" "cf_migrating (giveSlots k J c) = cf_migrating c"
  "cf_importing (giveSlots k J c) = cf_importing c"
  "cf_slot (giveSlots k J c) j = (if j \<in> J \<and> cf_slot c j = None then Some k else cf_slot c j)"
  by (simp_all add: giveSlots_def)

text \<open>The entry of the node itself, before its slots are read.\<close>

definition entryEffect :: "redisServer \<Rightarrow> nid \<Rightarrow> conf \<Rightarrow> conf" where
  "entryEffect s p c =
     (let x = nd s p; k = n_name x;
          c1 = updView k (\<lambda>v. v\<lparr>v_ip := n_ip x, v_port := n_port x, v_cport := n_cport x\<rparr>) (addView k c);
          c2 = updView k (addFlags (n_flags x)) c1;
          c3 = (case nameIn s (n_slaveof x) of
                  None \<Rightarrow> c2
                | Some m \<Rightarrow> updView k (\<lambda>v. v\<lparr>v_master := Some m\<rparr>) (addView m c2))
      in updView k (\<lambda>v. v\<lparr>v_epoch := savedEpoch s p\<rparr>) c3)"

lemma nodeEffect_entry:
  "nodeEffect s p c =
     (let c' = giveSlots (n_name (nd s p)) {j. j < CLUSTER_SLOTS \<and> c_slots s j = Some p} (entryEffect s p c)
      in if p = c_myself s then fold (openEffect s) [0..<CLUSTER_SLOTS] c' else c')"
  unfolding nodeEffect_def entryEffect_def Let_def ..

lemma entryEffect_fields:
  assumes "savable s" and "p \<in> savedNodes s" and "cf_node c (n_name (nd s p)) \<in> {None, Some blankView}"
  shows "cf_slot (entryEffect s p c) = cf_slot c" "cf_migrating (entryEffect s p c) = cf_migrating c"
    "cf_importing (entryEffect s p c) = cf_importing c"
    "cf_node (entryEffect s p c) (n_name (nd s p)) = Some (savedView s p)"
    "k \<noteq> n_name (nd s p) \<Longrightarrow> cf_node (entryEffect s p c) k = cf_node c k \<or>
       cf_node c k = None \<and> cf_node (entryEffect s p c) k = Some blankView \<and> k \<in> namesOf s (savedNodes s)"
proof -
  let ?k = "n_name (nd s p)"
  have blank: "cf_node (addView ?k c) ?k = Some blankView" using assms(3) by (auto simp: addView_def)
  have keep: "cf_node (addView m c') ?k = cf_node c' ?k" if "cf_node c' ?k \<noteq> None" for m c'
    using that by (auto simp: addView_def)
  have master: "m \<in> namesOf s (savedNodes s)" if "nameIn s (n_slaveof (nd s p)) = Some m" for m
    using that saved_master [OF assms(1,2)] by (auto simp: nameIn_def)
  show "cf_slot (entryEffect s p c) = cf_slot c" "cf_migrating (entryEffect s p c) = cf_migrating c"
    "cf_importing (entryEffect s p c) = cf_importing c"
    by (simp_all add: entryEffect_def Let_def split: option.split)
  show "cf_node (entryEffect s p c) ?k = Some (savedView s p)"
    by (cases "n_slaveof (nd s p)")
      (simp_all add: entryEffect_def Let_def blank keep nameIn_def savedView_def viewOf_def blankView_def addFlags_def)
  show "k \<noteq> ?k \<Longrightarrow> cf_node (entryEffect s p c) k = cf_node c k \<or>
       cf_node c k = None \<and> cf_node (entryEffect s p c) k = Some blankView \<and> k \<in> namesOf s (savedNodes s)"
    using master by (auto simp: entryEffect_def Let_def addView_def split: option.split)
qed

lemma nodeEffect_read:
  assumes s: "savable s" and p: "p \<in> savedNodes s - P" and P: "P \<subseteq> savedNodes s" and c: "readSoFar s P c"
  shows "readSoFar s (insert p P) (nodeEffect s p c)"
proof -
  let ?k = "n_name (nd s p)" and ?K = "namesOf s (savedNodes s)"
  have inj: "q = r" if "q \<in> savedNodes s" "r \<in> savedNodes s" "n_name (nd s q) = n_name (nd s r)" for q r
    using names_inj [of s q r] that s by (simp add: savable_def savedNodes_def)
  have new: "?k \<notin> namesOf s P" using inj p P by blast
  then have "cf_node c ?k \<in> {None, Some blankView}" using c by (auto simp: readSoFar_def)
  note e = entryEffect_fields [OF s _ this] 
  have e: "cf_slot (entryEffect s p c) = cf_slot c" "cf_migrating (entryEffect s p c) = cf_migrating c"
    "cf_importing (entryEffect s p c) = cf_importing c"
    "cf_node (entryEffect s p c) ?k = Some (savedView s p)"
    "k \<noteq> ?k \<Longrightarrow> cf_node (entryEffect s p c) k = cf_node c k \<or>
       cf_node c k = None \<and> cf_node (entryEffect s p c) k = Some blankView \<and> k \<in> ?K" for k
    using e p by blast+
  define c1 where "c1 = giveSlots ?k {j. j < CLUSTER_SLOTS \<and> c_slots s j = Some p} (entryEffect s p c)"
  define c2 where "c2 = nodeEffect s p c"
  have c2: "c2 = (if p = c_myself s then fold (openEffect s) [0..<CLUSTER_SLOTS] c1 else c1)"
    unfolding c2_def c1_def nodeEffect_entry Let_def ..
  note o = openEffects [OF s, of "[0..<CLUSTER_SLOTS]" c1]
  have b: "blanksAdded ?K c1 c2" using o by (simp add: c2 blanksAdded_refl)
  have known: "cf_node c2 (n_name (nd s q)) = Some (savedView s q)" if "q \<in> insert p P" for q
  proof -
    have "cf_node c1 (n_name (nd s q)) = Some (savedView s q)"
    proof (cases "q = p")
      case True
      then show ?thesis by (simp add: c1_def e(4))
    next
      case False
      then have q: "q \<in> P" using that by simp
      then have "n_name (nd s q) \<in> namesOf s P" by (rule imageI)
      then have "n_name (nd s q) \<noteq> ?k" using new by metis
      moreover have "cf_node c (n_name (nd s q)) = Some (savedView s q)" using c q by (simp add: readSoFar_def)
      ultimately show ?thesis using e(5) [of "n_name (nd s q)"] by (simp add: c1_def)
    qed
    then show ?thesis by (rule blanksAdded_some [OF b])
  qed
  have others: "cf_node c2 k = None \<or> cf_node c2 k = Some blankView \<and> k \<in> ?K" if "k \<notin> namesOf s (insert p P)" for k
  proof -
    have "cf_node c k = None \<or> cf_node c k = Some blankView \<and> k \<in> ?K" using c that by (simp add: readSoFar_def)
    then have "cf_node c1 k = None \<or> cf_node c1 k = Some blankView \<and> k \<in> ?K"
      using e(5) [of k] that by (auto simp: c1_def)
    then show ?thesis using b unfolding blanksAdded_def by metis
  qed
  have slots: "cf_slot c2 = (\<lambda>j. if j < CLUSTER_SLOTS \<and> c_slots s j \<in> Some ` insert p P then nameIn s (c_slots s j) else None)"
  proof -
    have "cf_slot c2 = cf_slot c1" using o by (simp add: c2)
    moreover have "cf_slot c = (\<lambda>j. if j < CLUSTER_SLOTS \<and> c_slots s j \<in> Some ` P then nameIn s (c_slots s j) else None)"
      using c by (simp add: readSoFar_def)
    ultimately show ?thesis using p by (auto simp: c1_def e(1) nameIn_def fun_eq_iff)
  qed
  have opened: "cf_migrating c2 = (\<lambda>j. if j < CLUSTER_SLOTS \<and> c_myself s \<in> insert p P then nameIn s (c_migrating_slots_to s j) else None)"
    "cf_importing c2 = (\<lambda>j. if j < CLUSTER_SLOTS \<and> c_myself s \<in> insert p P \<and> c_migrating_slots_to s j = None
                           then nameIn s (c_importing_slots_from s j) else None)"
  proof -
    have c1: "cf_migrating c1 = cf_migrating c" "cf_importing c1 = cf_importing c" by (simp_all add: c1_def e(2,3))
    have old: "cf_migrating c = (\<lambda>j. if j < CLUSTER_SLOTS \<and> c_myself s \<in> P then nameIn s (c_migrating_slots_to s j) else None)"
      "cf_importing c = (\<lambda>j. if j < CLUSTER_SLOTS \<and> c_myself s \<in> P \<and> c_migrating_slots_to s j = None
         then nameIn s (c_importing_slots_from s j) else None)"
      using c by (simp_all add: readSoFar_def)
    have none: "nameIn s None = None" by (simp add: nameIn_def)
    show "cf_migrating c2 = (\<lambda>j. if j < CLUSTER_SLOTS \<and> c_myself s \<in> insert p P then nameIn s (c_migrating_slots_to s j) else None)"
      using o [THEN conjunct2, THEN conjunct2, THEN conjunct1] p
      by (cases "p = c_myself s") (auto simp: c2 c1 old none fun_eq_iff simp del: not_None_eq)
    show "cf_importing c2 = (\<lambda>j. if j < CLUSTER_SLOTS \<and> c_myself s \<in> insert p P \<and> c_migrating_slots_to s j = None
         then nameIn s (c_importing_slots_from s j) else None)"
      using o [THEN conjunct2, THEN conjunct2, THEN conjunct2] p
      by (cases "p = c_myself s") (auto simp: c2 c1 old none fun_eq_iff simp del: not_None_eq)
  qed
  show ?thesis unfolding readSoFar_def c2_def [symmetric] using known others slots opened by blast
qed
lemma foldE_cong: "(\<And>x st. x \<in> set xs \<Longrightarrow> f x st = g x st) \<Longrightarrow> foldE f xs st = foldE g xs st"
proof (induction xs arbitrary: st)
  case (Cons x xs)
  then have "f x st = g x st" "\<And>st. foldE f xs st = foldE g xs st" by simp_all
  then show ?case by (simp add: andThen_def split: sum.split)
qed simp

lemma isWord_lengths: "isWord a w \<Longrightarrow> length (cstr a) = length w"
  unfolding isWord_def strcaseeq_def by (metis length_map)

text \<open>A line of a node is handed to \<open>loadNode\<close>.\<close>

lemma loadLine_node:
  assumes s: "savable s" and p: "p \<in> savedNodes s"
  shows "loadLine (nodeLine s p @ [CHR 0x0A]) st = loadNode (nodeWords s p) st"
proof -
  let ?name = "n_name (nd s p)"
  have g: "goodName ?name" using saved_good [OF s p] by (simp add: goodNode_def)
  then have len: "length ?name = 40" and clean: "cleanChars ?name" by (simp_all add: goodName_def CLUSTER_NAMELEN_def)
  have words: "nodeWords s p \<noteq> []" "nodeWords s p ! 0 = ?name" "\<not> length (nodeWords s p) < 8"
    by (simp_all add: nodeWords_def Let_def)
  obtain ch r where ch: "?name = ch # r" using len by (cases ?name) auto
  then have "ch \<noteq> CHR 0x0A" "ch \<noteq> CHR 0x00" using clean isSpace_numerals(9) by auto
  moreover have "(nodeLine s p @ [CHR 0x0A]) ! 0 = ch" by (simp add: nodeLine_def nodeWords_def Let_def ch)
  moreover have "\<not> isWord ?name ''vars''" using isWord_lengths [of ?name "''vars''"] len cstr_clean [OF clean] by auto
  ultimately show ?thesis
    using nodeLine_reads [OF s p] words by (simp add: loadLine_def split: prod.split)
qed

lemma loadNodes_conf:
  assumes s: "savable s"
  shows "distinct ps \<Longrightarrow> set ps \<subseteq> savedNodes s \<Longrightarrow> P \<subseteq> savedNodes s \<Longrightarrow> set ps \<inter> P = {} \<Longrightarrow> refs_ok t \<Longrightarrow>
    my = (if c_myself s \<in> P then dictFind (c_nodes t) (n_name (me s)) else None) \<Longrightarrow> readSoFar s P (confOf t) \<Longrightarrow>
    \<exists>t1. foldE (\<lambda>p. loadNode (nodeWords s p)) ps (my, t) =
        Inr (if c_myself s \<in> P \<union> set ps then dictFind (c_nodes t1) (n_name (me s)) else None, t1) \<and>
      knownStill t t1 \<and> readSoFar s (P \<union> set ps) (confOf t1)"
proof (induction ps arbitrary: P t my)
  case Nil
  then show ?case by (simp add: knownStill_def)
next
  case (Cons p ps)
  have p: "p \<in> savedNodes s" "p \<notin> P" using Cons.prems by auto
  then have first: "p = c_myself s \<longrightarrow> my = None" using Cons.prems(6) by auto
  define my1 :: "redisServer \<Rightarrow> nid option" where "my1 = (\<lambda>t1. if p = c_myself s then dictFind (c_nodes t1) (n_name (nd s p)) else my)"
  obtain t1 where 1: "loadNode (nodeWords s p) (my, t) = Inr (my1 t1, t1)"
    "knownStill t t1" "confOf t1 = nodeEffect s p (confOf t)"
    using loadNode_conf [OF s p(1) Cons.prems(5) first] unfolding my1_def by blast
  have found: "dictFind (c_nodes t) (n_name (me s)) = dictFind (c_nodes t1) (n_name (me s))" if m: "c_myself s \<in> P"
  proof -
    have "cf_node (confOf t) (n_name (nd s (c_myself s))) = Some (savedView s (c_myself s))"
      using Cons.prems(7) m by (simp add: readSoFar_def)
    then obtain q where "dictFind (c_nodes t) (n_name (me s)) = Some q" by (auto simp: confOf_def me_def)
    then show ?thesis using 1(2) by (simp add: knownStill_def)
  qed
  have my1: "my1 t1 = (if c_myself s \<in> insert p P then dictFind (c_nodes t1) (n_name (me s)) else None)"
    using Cons.prems(6) found p by (auto simp: my1_def me_def)
  have "readSoFar s (insert p P) (confOf t1)"
    unfolding 1(3) using p Cons.prems(3,7) by (intro nodeEffect_read [OF s]) auto
  moreover have "refs_ok t1" using 1(2) by (simp add: knownStill_def)
  ultimately obtain t2 where 2: "foldE (\<lambda>p. loadNode (nodeWords s p)) ps (my1 t1, t1) =
        Inr (if c_myself s \<in> insert p P \<union> set ps then dictFind (c_nodes t2) (n_name (me s)) else None, t2)"
    "knownStill t1 t2" "readSoFar s (insert p P \<union> set ps) (confOf t2)"
    using Cons.IH [of "insert p P" t1 "my1 t1"] Cons.prems my1 p by auto
  have u: "insert p P \<union> set ps = P \<union> set (p # ps)" by auto
  have "foldE (\<lambda>p. loadNode (nodeWords s p)) (p # ps) (my, t) =
        Inr (if c_myself s \<in> P \<union> set (p # ps) then dictFind (c_nodes t2) (n_name (me s)) else None, t2)"
    unfolding u [symmetric] using 1(1) 2(1) by (simp add: andThen_def)
  then show ?case using knownStill_trans [OF 1(2) 2(2)] 2(3) unfolding u by blast
qed

text \<open>The line of the epochs.\<close>

definition varsWords :: "redisServer \<Rightarrow> string list" where
  "varsWords s = [''vars'', ''currentEpoch'', decimal (uint (c_currentEpoch s)),
     ''lastVoteEpoch'', decimal (uint (c_lastVoteEpoch s))]"

definition varsLine :: "redisServer \<Rightarrow> string" where
  "varsLine s = hd (varsWords s) @ unwords (tl (varsWords s))"

lemma vars_clean: "\<forall>w \<in> set (varsWords s). cleanWord w"
  by (simp add: varsWords_def cleanWord_chars isSpace_def)

lemma varsLine_length: "Suc (length (varsLine s)) < maxline"
proof -
  have "length (decimal (uint (w :: u64))) \<le> 21" for w
    using decimal_length [of "uint w" 19] uint_bounded [of w] by simp
  from this [of "c_currentEpoch s"] this [of "c_lastVoteEpoch s"] show ?thesis
    by (simp add: varsLine_def varsWords_def maxline_def CLUSTER_SLOTS_def)
qed

lemma loadLine_vars:
  "loadLine (varsLine s @ [CHR 0x0A]) (my, t) =
     Inr (my, t\<lparr>c_currentEpoch := c_currentEpoch s, c_lastVoteEpoch := c_lastVoteEpoch s\<rparr>)"
proof -
  let ?ws = "tl (varsWords s)"
  have w: "varsWords s = ''vars'' # ?ws" by (simp add: varsWords_def)
  have clean: "\<forall>w \<in> set (''vars'' # ?ws). cleanWord w" using vars_clean [of s] w by simp
  then have "\<forall>w \<in> set (''vars'' # ?ws). plainWord w" by (simp add: cleanWord_def)
  note split = split_words [OF this]
  have hd: "hd (varsWords s) = ''vars''" by (simp add: varsWords_def)
  have "cstr (varsLine s @ [CHR 0x0A]) = ''vars'' @ unwords ?ws @ [CHR 0x0A]"
    using clean_line(2) [OF clean] unfolding varsLine_def hd by (simp add: cstr_id)
  then have "sdssplitargs (cstr (varsLine s @ [CHR 0x0A])) = Some (varsWords s)"
    unfolding w [symmetric] by (simp only: split) (simp only: w [symmetric])
  moreover have "isWord ''vars'' ''vars''" "isWord ''currentEpoch'' ''currentEpoch''"
    "isWord ''lastVoteEpoch'' ''lastVoteEpoch''" "\<not> isWord ''lastVoteEpoch'' ''currentEpoch''"
    by code_simp+
  moreover have "(varsLine s @ [CHR 0x0A]) ! 0 = CHR ''v''" by (simp add: varsLine_def varsWords_def)
  ultimately show ?thesis
    by (simp add: loadLine_def) (simp add: varsWords_def strtoull_decimal)
qed

section \<open>The whole file\<close>

definition savedConf :: "redisServer \<Rightarrow> conf" where
  "savedConf s = \<lparr>
     cf_node = (\<lambda>k. case dictFind (c_nodes s) k of
        None \<Rightarrow> None | Some p \<Rightarrow> if nodeInHandshake (nd s p) then None else Some (savedView s p)),
     cf_slot = (\<lambda>j. case c_slots s j of
        None \<Rightarrow> None
      | Some p \<Rightarrow> if CLUSTER_SLOTS \<le> j \<or> nodeInHandshake (nd s p) then None else Some (n_name (nd s p))),
     cf_migrating = (\<lambda>j. if j < CLUSTER_SLOTS then nameIn s (c_migrating_slots_to s j) else None),
     cf_importing = (\<lambda>j. if j < CLUSTER_SLOTS \<and> c_migrating_slots_to s j = None
                        then nameIn s (c_importing_slots_from s j) else None)\<rparr>"

lemma read_all:
  assumes s: "savable s" and c: "readSoFar s (savedNodes s) c"
  shows "c = savedConf s"
proof (rule conf.equality)
  have ok: "cluster_ok s" and me: "c_myself s \<in> savedNodes s" using s by (simp_all add: savable_def)
  have names: "names_ok s" using ok by (simp add: cluster_ok_def)
  have "cf_node c k = cf_node (savedConf s) k" for k
  proof (cases "k \<in> namesOf s (savedNodes s)")
    case True
    then obtain p where p: "p \<in> savedNodes s" "k = n_name (nd s p)" by blast
    then have "p \<in> live s" "\<not> nodeInHandshake (nd s p)" by (simp_all add: savedNodes_def)
    then have "dictFind (c_nodes s) k = Some p" using liveD [OF names] p(2) by simp
    then show ?thesis using c p \<open>\<not> nodeInHandshake (nd s p)\<close> by (simp add: readSoFar_def savedConf_def)
  next
    case False
    then have "cf_node c k = None" using c by (auto simp: readSoFar_def)
    moreover have "nodeInHandshake (nd s p)" if "dictFind (c_nodes s) k = Some p" for p
    proof (rule ccontr)
      assume "\<not> nodeInHandshake (nd s p)"
      then have "p \<in> savedNodes s" using find_live [OF that] by (simp add: savedNodes_def)
      moreover have "tables_ok s" using ok by (simp add: cluster_ok_tables)
      then have "n_name (nd s p) = k" using tables_name that by blast
      ultimately show False using False by blast
    qed
    ultimately show ?thesis by (auto simp: savedConf_def split: option.split)
  qed
  then show "cf_node c = cf_node (savedConf s)" by blast
  have "cf_slot c j = cf_slot (savedConf s) j" for j
  proof -
    have "c_slots s j = Some p \<Longrightarrow> j < CLUSTER_SLOTS \<Longrightarrow> p \<in> savedNodes s \<longleftrightarrow> \<not> nodeInHandshake (nd s p)" for p
      using slot_owner_live [of s j p] ok by (simp add: cluster_ok_def savedNodes_def)
    then show ?thesis using c by (cases "c_slots s j") (auto simp: readSoFar_def savedConf_def nameIn_def)
  qed
  then show "cf_slot c = cf_slot (savedConf s)" by blast
  show "cf_migrating c = cf_migrating (savedConf s)" "cf_importing c = cf_importing (savedConf s)"
    using c me by (simp_all add: readSoFar_def savedConf_def)
qed simp
lemma nodeInHandshake_flag: "nodeInHandshake x \<longleftrightarrow> hasFlag (n_flags x) CLUSTER_NODE_HANDSHAKE"
  by (simp add: nodeInHandshake_def)

definition savedOrder :: "redisServer \<Rightarrow> nid list" where
  "savedOrder s = filter (\<lambda>p. \<not> nodeInHandshake (nd s p)) (dictVals (c_nodes s))"

lemma savedOrder_set: "set (savedOrder s) = savedNodes s"
  by (auto simp: savedOrder_def savedNodes_def live_def)

lemma savedOrder_distinct:
  assumes "cluster_ok s" shows "distinct (savedOrder s)"
proof -
  have names: "\<forall>(k, p) \<in> set (c_nodes s). n_name (nd s p) = k" and keys: "distinct (map fst (c_nodes s))"
    using assms by (simp_all add: cluster_ok_def names_ok_def dictOk_def)
  have "map (\<lambda>p. n_name (nd s p)) (dictVals (c_nodes s)) = map fst (c_nodes s)"
    using names by (auto simp: dictVals_def)
  then have "distinct (dictVals (c_nodes s))" using keys by (metis distinct_map)
  then show ?thesis by (simp add: savedOrder_def)
qed

lemma configText_lines:
  assumes s: "savable s"
  shows "configText s = concat (map (\<lambda>w. w @ [CHR 0x0A]) (map (nodeLine s) (savedOrder s) @ [varsLine s]))"
proof -
  have ok: "cluster_ok s" using s by (simp add: savable_def)
  have "clusterGenNodeDescription None p False s = nodeLine s p" if "p \<in> set (savedOrder s)" for p
    using description_words [OF s] that by (simp add: savedOrder_set nodeLine_def)
  then have nodes: "clusterGenNodesDescription CLUSTER_NODE_HANDSHAKE False s =
      concat (map (\<lambda>w. w @ [CHR 0x0A]) (map (nodeLine s) (savedOrder s)))"
    unfolding nodes_text_lines [OF ok] nodeInHandshake_flag [symmetric] savedOrder_def [symmetric]
    by (simp add: comp_def cong: map_cong)
  have "varsLine s @ [CHR 0x0A] = ''vars currentEpoch '' @ decimal (uint (c_currentEpoch s)) @
     '' lastVoteEpoch '' @ decimal (uint (c_lastVoteEpoch s)) @ [CHR 0x0A]"
    by (simp add: varsLine_def varsWords_def)
  then show ?thesis by (simp add: configText_def nodes)
qed

lemma savedText_loads:
  assumes s: "savable s"
  shows "foldE loadLine (fileLines (configText s @ replicate k (CHR 0x0A))) st =
    andThen (foldE (\<lambda>p. loadNode (nodeWords s p)) (savedOrder s) st)
      (\<lambda>(my, t). Inr (my, t\<lparr>c_currentEpoch := c_currentEpoch s, c_lastVoteEpoch := c_lastVoteEpoch s\<rparr>))"
proof -
  let ?ls = "map (nodeLine s) (savedOrder s) @ [varsLine s]"
  have v: "varsWords s = ''vars'' # tl (varsWords s)" by (simp add: varsWords_def)
  then have "\<forall>w \<in> set (''vars'' # tl (varsWords s)). cleanWord w" using vars_clean [of s] by simp
  from clean_line(1) [OF this] have vars: "CHR 0x0A \<notin> set (varsLine s)" using v by (simp add: varsLine_def varsWords_def)
  then have "\<forall>w \<in> set ?ls. CHR 0x0A \<notin> set w \<and> Suc (length w) < maxline"
    using nodeLine_reads [OF s] varsLine_length by (auto simp: savedOrder_set)
  then have lines: "fileLines (configText s @ replicate k (CHR 0x0A)) =
      map (\<lambda>w. w @ [CHR 0x0A]) ?ls @ replicate k [CHR 0x0A]"
    using fileLines_lines [of ?ls] by (simp only: configText_lines [OF s] fileLines_padding)
  have map: "foldE loadLine (map (\<lambda>p. nodeLine s p @ [CHR 0x0A]) ps) st = foldE (\<lambda>p. loadNode (nodeWords s p)) ps st"
    if "set ps \<subseteq> savedNodes s" for ps st
    using that by (induction ps arbitrary: st) (auto simp: loadLine_node [OF s] andThen_def split: sum.split)
  show ?thesis
    unfolding lines by (simp add: foldE_append map [unfolded comp_def] savedOrder_set comp_def split: sum.split)
      (simp add: andThen_def loadLine_vars foldE_padding split: sum.split prod.split)
qed

text \<open>The state in which \<open>clusterLoadConfig\<close> starts: empty tables.\<close>

definition emptyTables :: "redisServer \<Rightarrow> bool" where
  "emptyTables s \<longleftrightarrow> c_nodes s = [] \<and> c_slots s = (\<lambda>_. None) \<and> c_migrating_slots_to s = (\<lambda>_. None) \<and>
     c_importing_slots_from s = (\<lambda>_. None) \<and> s_panic s = None"

lemma emptyTables_start:
  assumes "emptyTables t" shows "refs_ok t" and "readSoFar s {} (confOf t)" and "loading_ok (settings t) (None, t)"
proof -
  have e: "c_nodes t = []" "c_slots t = (\<lambda>_. None)" "c_migrating_slots_to t = (\<lambda>_. None)"
    "c_importing_slots_from t = (\<lambda>_. None)" "s_panic t = None" using assms by (simp_all add: emptyTables_def)
  have live: "live t = {}" by (simp add: live_def dictVals_def e)
  have "tables_ok t" by (simp add: tables_ok_def slots_ok_def live e) (simp add: dictOk_def)
  then show "refs_ok t" "loading_ok (settings t) (None, t)" by (simp_all add: refs_ok_def live e loading_ok_def)
  show "readSoFar s {} (confOf t)" by (simp add: readSoFar_def confOf_def e nameIn_def dictFind_def)
qed

lemma initFields_empty: "s_panic s = None \<Longrightarrow> emptyTables (initFields s)"
  by (simp add: emptyTables_def initFields_def clusterCloseAllSlots_def)
lemma loaded_epochs:
  assumes ok: "cluster_ok s" and t: "tables_ok t" and c: "confOf t = savedConf s"
  shows "(\<lambda>q. n_configEpoch (nd t q)) ` live t = savedEpoch s ` savedNodes s"
proof -
  have node: "map_option (\<lambda>q. viewOf t (nd t q)) (dictFind (c_nodes t) k) = (case dictFind (c_nodes s) k of
      None \<Rightarrow> None | Some p \<Rightarrow> if nodeInHandshake (nd s p) then None else Some (savedView s p))" for k
    using c by (simp add: confOf_def savedConf_def fun_eq_iff)
  have epoch: "v_epoch (viewOf t x) = n_configEpoch x" "v_epoch (savedView s p) = savedEpoch s p" for x p
    by (simp_all add: viewOf_def savedView_def)
  have find: "dictFind (c_nodes t) (n_name (nd t q)) = Some q" if "q \<in> live t" for q
    using that t by (auto simp: tables_ok_def live_def dictVals_def dictFind_def dictOk_def)
  have "\<exists>p \<in> savedNodes s. n_configEpoch (nd t q) = savedEpoch s p" if q: "q \<in> live t" for q
  proof -
    obtain p where p: "dictFind (c_nodes s) (n_name (nd t q)) = Some p" "\<not> nodeInHandshake (nd s p)"
      "savedView s p = viewOf t (nd t q)"
      using node [of "n_name (nd t q)"] find [OF q] by (auto split: option.splits if_splits)
    then have "n_configEpoch (nd t q) = savedEpoch s p" using epoch by metis
    then show ?thesis using p find_live [OF p(1)] by (auto simp: savedNodes_def)
  qed
  moreover have "\<exists>q \<in> live t. n_configEpoch (nd t q) = savedEpoch s p" if "p \<in> savedNodes s" for p
  proof -
    have p: "p \<in> live s" "\<not> nodeInHandshake (nd s p)" using that by (simp_all add: savedNodes_def)
    then have "dictFind (c_nodes s) (n_name (nd s p)) = Some p" using liveD ok by (simp add: cluster_ok_def)
    then obtain q where "dictFind (c_nodes t) (n_name (nd s p)) = Some q" "viewOf t (nd t q) = savedView s p"
      using node [of "n_name (nd s p)"] p(2) by auto
    then show ?thesis using find_live epoch by metis
  qed
  ultimately show ?thesis by (auto simp: image_iff) metis
qed

lemma payload_padding: "\<exists>k. configPayload old s = configText s @ replicate k (CHR 0x0A)"
  by (auto simp: configPayload_def Let_def intro: exI [of _ 0])

lemma saved_loads_back:
  assumes s: "savable s" and t0: "emptyTables t0"
  obtains t where "clusterLoadConfig (FileOf (configPayload old s)) t0 = Some t" "s_panic t = None"
    "confOf t = savedConf s" "n_name (me t) = n_name (me s)" "c_lastVoteEpoch t = c_lastVoteEpoch s"
    "c_currentEpoch t = Max (insert (c_currentEpoch s) (savedEpoch s ` savedNodes s))"
proof -
  have ok: "cluster_ok s" and me: "c_myself s \<in> savedNodes s" using s by (simp_all add: savable_def)
  note e = emptyTables_start [OF t0]
  obtain k where payload: "configPayload old s = configText s @ replicate k (CHR 0x0A)" using payload_padding by blast
  obtain t1 where 1: "foldE (\<lambda>p. loadNode (nodeWords s p)) (savedOrder s) (None, t0) =
        Inr (dictFind (c_nodes t1) (n_name (me s)), t1)"
    "knownStill t0 t1" "readSoFar s (savedNodes s) (confOf t1)"
    using loadNodes_conf [OF s savedOrder_distinct [OF ok], of "{}" t0 None] e(1,2) me by (auto simp: savedOrder_set)
  define t2 where "t2 = t1\<lparr>c_currentEpoch := c_currentEpoch s, c_lastVoteEpoch := c_lastVoteEpoch s\<rparr>"
  have conf: "confOf t1 = savedConf s" by (rule read_all [OF s 1(3)])
  have "cf_node (confOf t1) (n_name (nd s (c_myself s))) \<noteq> None" using 1(3) me by (simp add: readSoFar_def)
  then obtain q where q: "dictFind (c_nodes t1) (n_name (me s)) = Some q" by (auto simp: confOf_def me_def)
  have load: "foldE loadLine (fileLines (configPayload old s)) (None, t0) = Inr (Some q, t2)"
    unfolding payload savedText_loads [OF s] 1(1) q by (simp add: andThen_def t2_def)
  have inv: "loading_ok (settings t0) (Some q, t2)"
    using foldE_invariant [OF _ load, of "loading_ok (settings t0)"] loadLine_ok e(3) by blast
  have same: "nd t2 p = nd t1 p" "live t2 = live t1" "c_nodes t2 = c_nodes t1" for p
    by (simp_all add: t2_def nd_def live_def)
  have tables: "tables_ok t1" using refs_okD(1) 1(2) by (simp add: knownStill_def)
  have max: "clusterGetMaxEpoch t2 = Max (insert (c_currentEpoch s) (savedEpoch s ` savedNodes s))"
    unfolding clusterGetMaxEpoch_max same loaded_epochs [OF ok tables conf] by (simp add: t2_def)
  define t where "t = (if clusterGetMaxEpoch t2 > c_currentEpoch t2
    then t2\<lparr>c_currentEpoch := clusterGetMaxEpoch t2\<rparr> else t2)"
  have "\<not> clusterGetMaxEpoch t2 < c_currentEpoch t2" by (simp add: clusterGetMaxEpoch_def Let_def)
  then have cur: "c_currentEpoch t = clusterGetMaxEpoch t2" by (auto simp: t_def)
  have "clusterGenNodesDescription CLUSTER_NODE_HANDSHAKE False s @ ''vars'' @ r \<noteq> []" for r by simp
  then have "configPayload old s \<noteq> []" by (simp add: payload configText_def)
  then have "clusterLoadConfig (FileOf (configPayload old s)) t0 = Some t"
    by (simp add: clusterLoadConfig_def load t_def)
  moreover have "s_panic t = None" using inv by (simp add: loading_ok_def t_def)
  moreover have "confOf t = savedConf s"
    unfolding conf [symmetric] by (simp add: t_def t2_def confOf_def nameIn_def viewOf_def nd_def)
  moreover have "n_name (me t) = n_name (me s)"
  proof -
    have "c_myself t = q" "nd t q = nd t1 q" using inv by (simp_all add: loading_ok_def t_def t2_def nd_def)
    then show ?thesis using tables_name [OF tables q] by (simp add: me_def)
  qed
  moreover have "c_lastVoteEpoch t = c_lastVoteEpoch s" by (simp add: t_def t2_def)
  ultimately show ?thesis using that cur max by simp
qed


text \<open>
  A pair of nodes: this node, a master with slot 5 that migrates slot 7 to its slave, written over a
  longer file.
\<close>

definition savedMaster :: clusterNode where
  "savedMaster = node_a\<lparr>n_configEpoch := 3, n_ip := ''10.0.0.1'', n_port := 7000, n_cport := 17000\<rparr>"

definition savedSlave :: clusterNode where
  "savedSlave = zeroNode\<lparr>n_flags := CLUSTER_NODE_SLAVE, n_slaveof := Some 0, n_ip := ''10.0.0.2'', n_port := 7000,
     n_cport := 17000, n_pong_received := 12\<rparr>"

definition savedPair :: redisServer where
  "savedPair = (snd (clusterAddSlot 0 5 (pair_cluster savedMaster savedSlave)))
     \<lparr>c_migrating_slots_to := (\<lambda>_. None)(7 := Some 1), c_currentEpoch := 4, c_lastVoteEpoch := 2\<rparr>"

lemma addSlot_node:
  assumes "c_slots s j = None" and "s' = snd (clusterAddSlot p j s)"
  shows "q \<noteq> p \<Longrightarrow> nd s' q = nd s q" and "live s' = live s" and "c_myself s' = c_myself s"
    and "\<exists>b n f. nd s' p = (nd s p)\<lparr>n_slots := b, n_numslots := n, n_flags := n_flags (nd s p) OR f\<rparr> \<and>
           (f = 0 \<or> f = CLUSTER_NODE_MIGRATE_TO)"
proof -
  show "q \<noteq> p \<Longrightarrow> nd s' q = nd s q" "live s' = live s" "c_myself s' = c_myself s"
    using assms by (simp_all add: clusterAddSlot_def clusterNodeSetSlotBit_def Let_def nd_upd_node nd_def live_def)
  have "nd s' p = (nd s p)\<lparr>n_slots := n_slots (nd s' p), n_numslots := n_numslots (nd s' p),
      n_flags := n_flags (nd s p) OR f\<rparr>"
    if "n_flags (nd s' p) = n_flags (nd s p) OR f" for f
    using that assms by (auto simp: clusterAddSlot_def clusterNodeSetSlotBit_def Let_def nd_def upd_node_def setFlag_def)
  moreover have "n_flags (nd s' p) = n_flags (nd s p) OR 0 \<or> n_flags (nd s' p) = n_flags (nd s p) OR CLUSTER_NODE_MIGRATE_TO"
    using assms by (simp add: clusterAddSlot_def clusterNodeSetSlotBit_def Let_def nd_def upd_node_def setFlag_def)
  ultimately show "\<exists>b n f. nd s' p = (nd s p)\<lparr>n_slots := b, n_numslots := n, n_flags := n_flags (nd s p) OR f\<rparr> \<and>
           (f = 0 \<or> f = CLUSTER_NODE_MIGRATE_TO)" by blast
qed

lemma savedPair_fields:
  "cluster_ok savedPair" "live savedPair = {0, 1}" "c_myself savedPair = 0"
  "nd savedPair (Suc 0) = savedSlave\<lparr>n_name := nameB\<rparr>" "c_slots savedPair = (\<lambda>_. None)(5 := Some 0)"
  "c_migrating_slots_to savedPair = (\<lambda>_. None)(7 := Some 1)" "c_importing_slots_from savedPair = (\<lambda>_. None)"
  "c_currentEpoch savedPair = 4" "c_lastVoteEpoch savedPair = 2"
  "\<exists>b n f. nd savedPair 0 = savedMaster\<lparr>n_name := nameA, n_slots := b, n_numslots := n, n_flags := n_flags savedMaster OR f\<rparr> \<and>
     (f = 0 \<or> f = CLUSTER_NODE_MIGRATE_TO)"
proof -
  define b where "b = pair_cluster savedMaster savedSlave"
  define s where "s = snd (clusterAddSlot 0 5 b)"
  have "c_slots b 5 = None" by (simp add: b_def pair_start)
  note n = addSlot_node [OF this s_def]
  have sp: "savedPair = s\<lparr>c_migrating_slots_to := (\<lambda>_. None)(7 := Some 1), c_currentEpoch := 4, c_lastVoteEpoch := 2\<rparr>"
    by (simp add: savedPair_def s_def b_def)
  have nd: "nd savedPair q = nd s q" "live savedPair = live s" "core savedPair = core s" for q
    by (simp_all add: sp nd_def live_def core_def)
  have "cluster_ok b" unfolding b_def
    by (rule pair_cluster_ok) (simp_all add: savedMaster_def savedSlave_def node_a_def zeroNode_def)
  then have "cluster_ok s" unfolding s_def by (rule clusterAddSlot_ok) (simp_all add: b_def CLUSTER_SLOTS_def)
  then show "cluster_ok savedPair" using cluster_ok_keep nd(3) by blast
  show "live savedPair = {0, 1}" "nd savedPair (Suc 0) = savedSlave\<lparr>n_name := nameB\<rparr>"
    using n by (simp_all add: nd b_def)
  show "c_myself savedPair = 0" "c_slots savedPair = (\<lambda>_. None)(5 := Some 0)"
    "c_migrating_slots_to savedPair = (\<lambda>_. None)(7 := Some 1)" "c_currentEpoch savedPair = 4" "c_lastVoteEpoch savedPair = 2"
    using n by (simp_all add: sp) (simp_all add: s_def b_def)
  show "c_importing_slots_from savedPair = (\<lambda>_. None)"
    by (simp add: sp s_def b_def clusterAddSlot_def clusterNodeSetSlotBit_def Let_def pair_cluster_def zeroServer_def)
  show "\<exists>b n f. nd savedPair 0 = savedMaster\<lparr>n_name := nameA, n_slots := b, n_numslots := n, n_flags := n_flags savedMaster OR f\<rparr> \<and>
     (f = 0 \<or> f = CLUSTER_NODE_MIGRATE_TO)"
    using n(4) by (auto simp: nd b_def)
qed

lemma names_good: "goodName nameA" "goodName nameB"
  by (simp_all add: goodName_def nameA_def nameB_def CLUSTER_NAMELEN_def cleanChars_def isSpace_def)

lemma savedPair_savable: "savable savedPair"
proof -
  obtain b n f where x: "nd savedPair 0 = savedMaster\<lparr>n_name := nameA, n_slots := b, n_numslots := n, n_flags := n_flags savedMaster OR f\<rparr>"
    and f: "f = 0 \<or> f = CLUSTER_NODE_MIGRATE_TO" using savedPair_fields(10) by blast
  note y = savedPair_fields(4)
  have flags: "hasFlag (n_flags (nd savedPair 0)) CLUSTER_NODE_MYSELF" "\<not> nodeInHandshake (nd savedPair 0)"
    "\<not> nodeInHandshake (nd savedPair (Suc 0))" "\<not> hasFlag (n_flags (nd savedPair (Suc 0))) CLUSTER_NODE_MYSELF"
    using f by (auto simp: nodeInHandshake_def x y savedMaster_def savedSlave_def node_a_def flag_simps hasFlag_simps)
  have saved: "savedNodes savedPair = {0, 1}"
    using flags by (auto simp: savedNodes_def savedPair_fields)
  have good: "goodNode (nd savedPair 0)" "goodNode (nd savedPair (Suc 0))"
    by (simp_all add: x y goodNode_def names_good savedMaster_def savedSlave_def node_a_def zeroNode_def NET_IP_STR_LEN_def
        cleanChars_def isSpace_def)
  have refs: "closedUnder savedPair {0, 1}"
    by (auto simp: closedUnder_def savedPair_fields x y savedMaster_def savedSlave_def node_a_def zeroNode_def split: if_splits)
  show ?thesis
    unfolding savable_def saved using good flags refs by (simp add: savedPair_fields)
qed

lemma zeroServer_empty: "emptyTables zeroServer"
  by (simp add: emptyTables_def zeroServer_def)


end
