(* ===== verification/Restart.thy ===== *)
theory Restart
  imports Node SavedConfig
begin

text \<open>
  A node that stops and starts again from the file it saved: its runs continue the elections of its
  former life.
\<close>

lemma restart_loads:
  assumes "savable s" and "s_panic s0 = None" and "s_out s0 = []"
    and t: "t = clusterInit (clusterLoadConfig (FileOf (configPayload old s))) s0"
  shows "epochs t = (Max (insert (c_currentEpoch s) (savedEpoch s ` savedNodes s)), c_lastVoteEpoch s, []) \<and>
    ((if s_tls_cluster s0 then s_tls_port s0 else s_port s0) \<le> 55535 \<longrightarrow> s_panic t = None)"
proof -
  let ?t0 = "initFields s0" and ?load = "clusterLoadConfig (FileOf (configPayload old s))"
  have t0: "emptyTables ?t0" by (rule initFields_empty [OF assms(2)])
  obtain t1 where 1: "?load ?t0 = Some t1" "s_panic t1 = None" "c_lastVoteEpoch t1 = c_lastVoteEpoch s"
    "c_currentEpoch t1 = Max (insert (c_currentEpoch s) (savedEpoch s ` savedNodes s))"
    by (rule saved_loads_back [OF assms(1) t0, of old])
  have "settings t1 = settings ?t0"
    using loaded_tables [OF 1(1,2)] t0 by (simp add: emptyTables_def)
  then have set: "s_out t1 = []" "s_tls_cluster t1 = s_tls_cluster s0" "s_tls_port t1 = s_tls_port s0" "s_port t1 = s_port s0"
    using assms(3) by (simp_all add: settings_def initFields_def clusterCloseAllSlots_def)
  have "epochs t1 = (Max (insert (c_currentEpoch s) (savedEpoch s ` savedNodes s)), c_lastVoteEpoch s, [])"
    using 1(3,4) set(1) by (simp add: epochs_def)
  moreover have "t = finishInit t1" by (simp add: t clusterInit_halves 1(1))
  ultimately show ?thesis using finishInit_panic [of t1] 1(2) set by (simp add: finishInit_keeps)
qed

text \<open>
  C5. A vote survives a restart: a node that is started from the file of its configuration never votes
  again in an epoch in which it had voted when the file was written, nor in an earlier one, and its
  new votes have strictly increasing epochs, whatever happens in the run. The bounds are those of the
  run of a node that starts for the first time.
\<close>

theorem restarted_node_votes_anew:
  assumes "savable s" and "c_lastVoteEpoch s \<le> c_currentEpoch s" and "c_currentEpoch s < 2 ^ 63"
    and "\<forall>p \<in> savedNodes s. savedEpoch s p < 2 ^ 63" and "s_panic s0 = None" and "s_out s0 = []"
    and "node_run (clusterInit (clusterLoadConfig (FileOf (configPayload old s))) s0) ins s'"
    and "\<forall>i \<in> set ins. sober i" and "length ins \<le> 2 ^ 62"
  shows "sorted_wrt (<) (map snd (votesIn (s_out s'))) \<and>
    (\<forall>(l, e) \<in> set (votesIn (s_out s')). c_lastVoteEpoch s < e)"
proof -
  let ?t = "clusterInit (clusterLoadConfig (FileOf (configPayload old s))) s0"
  let ?E = "insert (c_currentEpoch s) (savedEpoch s ` savedNodes s)"
  have e: "epochs ?t = (Max ?E, c_lastVoteEpoch s, [])" using restart_loads [OF assms(1,5,6) refl] by simp
  have fin: "finite ?E" by (simp add: savedNodes_def live_def)
  then have "Max ?E \<in> ?E" by (intro Max_in) auto
  then have "Max ?E < 2 ^ 63" using assms(3,4) by auto
  moreover have "c_lastVoteEpoch s \<le> Max ?E" using assms(2) fin by (auto intro: order_trans Max_ge)
  ultimately have "bounded (c_lastVoteEpoch s) 0 ?t"
    using e by (simp add: bounded_def votesOrdered_def epochs_def word_less_nat_alt)
  from run_bounded [OF assms(7) this assms(8,9)] show ?thesis by (auto simp: bounded_def votesOrdered_def)
qed

theorem restarted_node_votes_anew_witness:
  "let s = clusterBeforeSleep (clusterInit (clusterLoadConfig (FileOf (configPayload 0 savedPair))) zeroServer)
   in filter (\<lambda>(l, e). e \<le> 2) (votesIn (s_out s)) = []"
proof -
  let ?t = "clusterInit (clusterLoadConfig (FileOf (configPayload 0 savedPair))) zeroServer"
  have z: "s_panic zeroServer = None" "s_out zeroServer = []" by (simp_all add: zeroServer_def)
  have "s_panic ?t = None"
    using restart_loads [OF savedPair_savable z refl, of 0] by (simp add: zeroServer_def)
  then have run: "node_run ?t [BeforeSleep] (clusterBeforeSleep ?t)"
    using node_run.step [OF node_run.start node_step.sleep] by simp
  have e: "c_lastVoteEpoch savedPair = 2" "c_currentEpoch savedPair = 4" by (simp_all add: savedPair_fields)
  have "n_configEpoch (nd savedPair 0) = 3" "n_slaveof (nd savedPair 0) = None" "n_slaveof (nd savedPair (Suc 0)) = Some 0"
    "n_configEpoch (nd savedPair (Suc 0)) = 0"
    using savedPair_fields(4,10) by (auto simp: savedMaster_def savedSlave_def node_a_def zeroNode_def)
  then have "savedEpoch savedPair p < 2 ^ 63" if "p \<in> savedNodes savedPair" for p
    using that by (auto simp: savedNodes_def savedPair_fields(2) savedEpoch_def)
  then show ?thesis
    using restarted_node_votes_anew [OF savedPair_savable _ _ _ z run] e
    by (auto simp: filter_empty_conv sober_def not_le Let_def)
qed

end
