(* ===== verification/Dict.thy ===== *)
theory Dict
  imports HPrelude Complex_Main "HOL-Library.Multiset" "HOL-Library.Monad_Syntax"
begin

text \<open>
  The hash table with incremental rehashing of src/server/src/dict.c, which holds the node
  table, the black list, the cached commands and the members of the hot groups. A dictionary
  has two tables; while \<^verbatim>\<open>rehashidx\<close> is not -1 the buckets of the first one move to the second one, a
  few at a time, in the course of the other operations.

  A table is the list of its buckets and a bucket the list of its chain, in the order of the
  \<^verbatim>\<open>next\<close> pointers; a table that is NULL has the size 0. A \<^verbatim>\<open>dictEntry *\<close> is the place of the entry: table, bucket and position in the
  chain. Every access of a bucket outside of the memory of the table, and every failed
  assertion, gives None, so that \<open>Some\<close> in a theorem says that the C code runs without one.
  What the operations read but do not own is the record \<open>dictEnv\<close>: the functions of the
  \<^verbatim>\<open>dictType\<close>, the global \<^verbatim>\<open>dict_can_resize\<close> and the value that fresh memory holds. Copies and
  destructors of keys and values have no effect on the structure and are left out.

  The invariant is \<open>dictInv\<close>; the contents are the multiset of the entries. The last section
  discharges the locale \<open>dictionary\<close> for the hash table, so that the entry lists of the model of
  the cluster and the hash table keep the same contract.
\<close>

section \<open>Data\<close>

datatype dictRet = DICT_OK | DICT_ERR

record ('k, 'v) dictEntry =
  de_key :: 'k
  de_val :: 'v

record ('k, 'v) dictht =
  ht_table :: "('k, 'v) dictEntry list list"
  ht_size :: nat
  ht_sizemask :: u64
  ht_used :: nat

record ('k, 'v) dictRec =
  d_ht0 :: "('k, 'v) dictht"
  d_ht1 :: "('k, 'v) dictht"
  d_rehashidx :: int
  d_pauserehash :: int

record ('k, 'v) dictEnv =
  hashFunction :: "'k \<Rightarrow> u64"
  keyCompare :: "'k \<Rightarrow> 'k \<Rightarrow> bool"
  expandAllowed :: "(nat \<Rightarrow> real \<Rightarrow> bool) option"
  dict_can_resize :: bool
  freshVal :: 'v

type_synonym entryRef = "nat \<times> nat \<times> nat"

definition DICT_HT_INITIAL_SIZE :: nat where "DICT_HT_INITIAL_SIZE = 4"
definition dict_force_resize_ratio :: nat where "dict_force_resize_ratio = 5"

definition dictIsRehashing :: "('k, 'v) dictRec \<Rightarrow> bool" where
  "dictIsRehashing d \<longleftrightarrow> d_rehashidx d \<noteq> -1"

definition dictCount :: "('k, 'v) dictRec \<Rightarrow> nat" where
  "dictCount d = ht_used (d_ht0 d) + ht_used (d_ht1 d)"

definition htAt :: "('k, 'v) dictRec \<Rightarrow> nat \<Rightarrow> ('k, 'v) dictht" where
  "htAt d t = (if t = 0 then d_ht0 d else d_ht1 d)"

definition updHt :: "nat \<Rightarrow> (('k, 'v) dictht \<Rightarrow> ('k, 'v) dictht) \<Rightarrow> ('k, 'v) dictRec \<Rightarrow> ('k, 'v) dictRec" where
  "updHt t f d = (if t = 0 then d\<lparr>d_ht0 := f (d_ht0 d)\<rparr> else d\<lparr>d_ht1 := f (d_ht1 d)\<rparr>)"

text \<open>The access \<^verbatim>\<open>ht->table[i]\<close>, and \<^verbatim>\<open>ht->table[i] = es\<close>.\<close>

definition bucket :: "('k, 'v) dictht \<Rightarrow> nat \<Rightarrow> ('k, 'v) dictEntry list option" where
  "bucket ht i = (if i < length (ht_table ht) then Some (ht_table ht ! i) else None)"

definition setBucket :: "nat \<Rightarrow> ('k, 'v) dictEntry list \<Rightarrow> ('k, 'v) dictht \<Rightarrow> ('k, 'v) dictht" where
  "setBucket i es ht = ht\<lparr>ht_table := (ht_table ht)[i := es]\<rparr>"

definition sameKey :: "('k, 'v) dictEnv \<Rightarrow> 'k \<Rightarrow> 'k \<Rightarrow> bool" where
  "sameKey E k k' \<longleftrightarrow> k = k' \<or> keyCompare E k k'"

definition hashIndex :: "('k, 'v) dictEnv \<Rightarrow> 'k \<Rightarrow> ('k, 'v) dictht \<Rightarrow> nat" where
  "hashIndex E k ht = unat (hashFunction E k AND ht_sizemask ht)"

section \<open>Creation and growth\<close>

definition dictReset :: "('k, 'v) dictht" where
  "dictReset = \<lparr>ht_table = [], ht_size = 0, ht_sizemask = 0, ht_used = 0\<rparr>"

definition dictCreate :: "('k, 'v) dictRec" where
  "dictCreate = \<lparr>d_ht0 = dictReset, d_ht1 = dictReset, d_rehashidx = -1, d_pauserehash = 0\<rparr>"

function nextPowerLoop :: "nat \<Rightarrow> nat \<Rightarrow> nat" where
  "nextPowerLoop i sz = (if i \<ge> sz \<or> i = 0 then i else nextPowerLoop (i * 2) sz)"
  by pat_completeness auto
termination by (relation "measure (\<lambda>(i, sz). sz - i)") auto

declare nextPowerLoop.simps [simp del]

definition LONG_MAX :: nat where "LONG_MAX = 2 ^ 63 - 1"

definition dictNextPower :: "nat \<Rightarrow> nat" where
  "dictNextPower sz = (if sz \<ge> LONG_MAX then LONG_MAX + 1 else nextPowerLoop DICT_HT_INITIAL_SIZE sz)"

text \<open>
  \<^verbatim>\<open>zcalloc(realsize*sizeof(dictEntry*))\<close>: the product is one of \<^verbatim>\<open>size_t\<close> and wraps, so the table can
  get fewer cells than \<open>realsize\<close>.
\<close>

definition callocTable :: "nat \<Rightarrow> ('k, 'v) dictEntry list list" where
  "callocTable realsize = replicate (unat (word_of_nat realsize * 8 :: u64) div 8) []"

text \<open>
  \<^verbatim>\<open>_dictExpand\<close>: the argument \<open>trial\<close> is None for a NULL \<^verbatim>\<open>malloc_failed\<close>, otherwise it says whether
  \<^verbatim>\<open>ztrycalloc\<close> fails. The last component is the value left in \<^verbatim>\<open>malloc_failed\<close>.
\<close>

definition dictExpandTrial :: "('k, 'v) dictRec \<Rightarrow> nat \<Rightarrow> bool option \<Rightarrow> ('k, 'v) dictRec \<times> dictRet \<times> bool" where
  "dictExpandTrial d sz trial =
    (if dictIsRehashing d \<or> ht_used (d_ht0 d) > sz then (d, DICT_ERR, False)
     else let realsize = dictNextPower sz in
       if realsize = ht_size (d_ht0 d) then (d, DICT_ERR, False)
       else if trial = Some True then (d, DICT_ERR, True)
       else let n = \<lparr>ht_table = callocTable realsize, ht_size = realsize,
                     ht_sizemask = word_of_nat (realsize - 1), ht_used = 0\<rparr> in
         if ht_size (d_ht0 d) = 0 then (d\<lparr>d_ht0 := n\<rparr>, DICT_OK, False)
         else (d\<lparr>d_ht1 := n, d_rehashidx := 0\<rparr>, DICT_OK, False))"

definition dictExpand :: "('k, 'v) dictRec \<Rightarrow> nat \<Rightarrow> ('k, 'v) dictRec \<times> dictRet" where
  "dictExpand d sz = (case dictExpandTrial d sz None of (d', r, _) \<Rightarrow> (d', r))"

definition dictTryExpand :: "('k, 'v) dictRec \<Rightarrow> nat \<Rightarrow> bool \<Rightarrow> ('k, 'v) dictRec \<times> dictRet" where
  "dictTryExpand d sz fails =
    (case dictExpandTrial d sz (Some fails) of
       (d', _, malloc_failed) \<Rightarrow> (d', if malloc_failed then DICT_ERR else DICT_OK))"

definition dictResize :: "('k, 'v) dictEnv \<Rightarrow> ('k, 'v) dictRec \<Rightarrow> ('k, 'v) dictRec \<times> dictRet" where
  "dictResize E d =
    (if \<not> dict_can_resize E \<or> dictIsRehashing d then (d, DICT_ERR)
     else let minimal = max (ht_used (d_ht0 d)) DICT_HT_INITIAL_SIZE in dictExpand d minimal)"

definition dictTypeExpandAllowed :: "('k, 'v) dictEnv \<Rightarrow> ('k, 'v) dictRec \<Rightarrow> bool" where
  "dictTypeExpandAllowed E d =
    (case expandAllowed E of
       None \<Rightarrow> True
     | Some f \<Rightarrow> f (dictNextPower (ht_used (d_ht0 d) + 1) * 8)
                  (real (ht_used (d_ht0 d)) / real (ht_size (d_ht0 d))))"

definition dictExpandIfNeeded :: "('k, 'v) dictEnv \<Rightarrow> ('k, 'v) dictRec \<Rightarrow> ('k, 'v) dictRec \<times> dictRet" where
  "dictExpandIfNeeded E d =
    (if dictIsRehashing d then (d, DICT_OK)
     else if ht_size (d_ht0 d) = 0 then dictExpand d DICT_HT_INITIAL_SIZE
     else if ht_used (d_ht0 d) \<ge> ht_size (d_ht0 d) \<and>
             (dict_can_resize E \<or> ht_used (d_ht0 d) div ht_size (d_ht0 d) > dict_force_resize_ratio) \<and>
             dictTypeExpandAllowed E d
          then dictExpand d (ht_used (d_ht0 d) + 1)
     else (d, DICT_OK))"

section \<open>Incremental rehashing\<close>

text \<open>
  The inner loop over empty buckets: Inl when the visits are used up, Inr at a bucket that
  is not empty, with the visits that are left.
\<close>

function skipEmpty :: "('k, 'v) dictEntry list list \<Rightarrow> nat \<Rightarrow> int \<Rightarrow> (nat + nat \<times> int) option" where
  "skipEmpty tb i visits =
    (if i \<ge> length tb then None
     else if tb ! i \<noteq> [] then Some (Inr (i, visits))
     else if visits - 1 = 0 then Some (Inl (Suc i))
     else skipEmpty tb (Suc i) (visits - 1))"
  by pat_completeness auto
termination by (relation "measure (\<lambda>(tb, i, _). length tb - i)") auto

declare skipEmpty.simps [simp del]

text \<open>The entries of a bucket move, from the first on, to the heads of their new chains.\<close>

primrec moveBucket ::
  "('k, 'v) dictEnv \<Rightarrow> ('k, 'v) dictEntry list \<Rightarrow> ('k, 'v) dictRec \<Rightarrow> ('k, 'v) dictRec option" where
  "moveBucket E [] d = Some d"
| "moveBucket E (de # es) d =
    (let h = hashIndex E (de_key de) (d_ht1 d) in do {
       chain \<leftarrow> bucket (d_ht1 d) h;
       moveBucket E es (d\<lparr>d_ht0 := (d_ht0 d)\<lparr>ht_used := ht_used (d_ht0 d) - 1\<rparr>,
         d_ht1 := (setBucket h (de # chain) (d_ht1 d))\<lparr>ht_used := ht_used (d_ht1 d) + 1\<rparr>\<rparr>)
     })"

text \<open>The outer loop; the flag says that it ended by \<^verbatim>\<open>return 1\<close>.\<close>

primrec rehashLoop ::
  "('k, 'v) dictEnv \<Rightarrow> nat \<Rightarrow> int \<Rightarrow> ('k, 'v) dictRec \<Rightarrow> (('k, 'v) dictRec \<times> bool) option" where
  "rehashLoop E 0 visits d = Some (d, False)"
| "rehashLoop E (Suc n) visits d =
    (if ht_used (d_ht0 d) = 0 then Some (d, False)
     else if \<not> int (ht_size (d_ht0 d)) > d_rehashidx d then None
     else case skipEmpty (ht_table (d_ht0 d)) (nat (d_rehashidx d)) visits of
       None \<Rightarrow> None
     | Some (Inl i) \<Rightarrow> Some (d\<lparr>d_rehashidx := int i\<rparr>, True)
     | Some (Inr (i, left)) \<Rightarrow> do {
         d1 \<leftarrow> moveBucket E (ht_table (d_ht0 d) ! i) d;
         rehashLoop E n left (d1\<lparr>d_ht0 := setBucket i [] (d_ht0 d1), d_rehashidx := int (Suc i)\<rparr>)
       })"

definition dictRehash ::
  "('k, 'v) dictEnv \<Rightarrow> nat \<Rightarrow> ('k, 'v) dictRec \<Rightarrow> (('k, 'v) dictRec \<times> bool) option" where
  "dictRehash E n d =
    (if \<not> dictIsRehashing d then Some (d, False)
     else do {
       (d1, more) \<leftarrow> rehashLoop E n (int n * 10) d;
       if more then Some (d1, True)
       else if ht_used (d_ht0 d1) = 0
       then Some (d1\<lparr>d_ht0 := d_ht1 d1, d_ht1 := dictReset, d_rehashidx := -1\<rparr>, False)
       else Some (d1, True)
     })"

definition dictRehashStep :: "('k, 'v) dictEnv \<Rightarrow> ('k, 'v) dictRec \<Rightarrow> ('k, 'v) dictRec option" where
  "dictRehashStep E d = (if d_pauserehash d = 0 then map_option fst (dictRehash E 1 d) else Some d)"

definition stepIfRehashing :: "('k, 'v) dictEnv \<Rightarrow> ('k, 'v) dictRec \<Rightarrow> ('k, 'v) dictRec option" where
  "stepIfRehashing E d = (if dictIsRehashing d then dictRehashStep E d else Some d)"

section \<open>Search, addition, deletion\<close>

text \<open>The position of a key in a chain.\<close>

primrec chainFind :: "('k, 'v) dictEnv \<Rightarrow> 'k \<Rightarrow> ('k, 'v) dictEntry list \<Rightarrow> nat option" where
  "chainFind E k [] = None"
| "chainFind E k (he # es) = (if sameKey E k (de_key he) then Some 0 else map_option Suc (chainFind E k es))"

text \<open>
  The search that \<^verbatim>\<open>_dictKeyIndex\<close>, \<^verbatim>\<open>dictFind\<close> and \<^verbatim>\<open>dictGenericDelete\<close> have in common: the first table, and
  the second one only while rehashing. With the place found comes the index of the key in the
  table searched last.
\<close>

definition searchTable ::
  "('k, 'v) dictEnv \<Rightarrow> 'k \<Rightarrow> ('k, 'v) dictRec \<Rightarrow> nat \<Rightarrow> (entryRef option \<times> nat) option" where
  "searchTable E k d t =
    (let idx = hashIndex E k (htAt d t) in do {
       chain \<leftarrow> bucket (htAt d t) idx;
       Some (map_option (\<lambda>p. (t, idx, p)) (chainFind E k chain), idx)
     })"

definition searchKey ::
  "('k, 'v) dictEnv \<Rightarrow> 'k \<Rightarrow> ('k, 'v) dictRec \<Rightarrow> (entryRef option \<times> nat) option" where
  "searchKey E k d = do {
     (r, idx) \<leftarrow> searchTable E k d 0;
     if r \<noteq> None \<or> \<not> dictIsRehashing d then Some (r, idx) else searchTable E k d 1
   }"

text \<open>
  \<^verbatim>\<open>_dictKeyIndex\<close>: Inr is the index of a free place, Inl is -1 with \<^verbatim>\<open>*existing\<close>, which is NULL when
  the table could not be expanded.
\<close>

definition dictKeyIndex ::
  "('k, 'v) dictEnv \<Rightarrow> ('k, 'v) dictRec \<Rightarrow> 'k \<Rightarrow> (('k, 'v) dictRec \<times> (entryRef option + nat)) option" where
  "dictKeyIndex E d k =
    (case dictExpandIfNeeded E d of
       (d1, DICT_ERR) \<Rightarrow> Some (d1, Inl None)
     | (d1, DICT_OK) \<Rightarrow> do {
         (r, idx) \<leftarrow> searchKey E k d1;
         Some (d1, case r of Some e \<Rightarrow> Inl (Some e) | None \<Rightarrow> Inr idx)
       })"

text \<open>\<^verbatim>\<open>dictAddRaw\<close>: Inr the new entry, Inl NULL with \<^verbatim>\<open>*existing\<close>.\<close>

definition dictAddRaw ::
  "('k, 'v) dictEnv \<Rightarrow> ('k, 'v) dictRec \<Rightarrow> 'k \<Rightarrow> (('k, 'v) dictRec \<times> (entryRef option + entryRef)) option" where
  "dictAddRaw E d k = do {
     d1 \<leftarrow> stepIfRehashing E d;
     (d2, r) \<leftarrow> dictKeyIndex E d1 k;
     case r of
       Inl existing \<Rightarrow> Some (d2, Inl existing)
     | Inr index \<Rightarrow> let t = (if dictIsRehashing d2 then 1 else 0) in do {
         chain \<leftarrow> bucket (htAt d2 t) index;
         Some (updHt t (\<lambda>ht. (setBucket index (\<lparr>de_key = k, de_val = freshVal E\<rparr> # chain) ht)
                              \<lparr>ht_used := ht_used ht + 1\<rparr>) d2,
               Inr (t, index, 0))
       }
   }"

text \<open>\<^verbatim>\<open>dictSetVal\<close> and \<^verbatim>\<open>dictGetVal\<close> through a pointer to an entry.\<close>

definition dictSetVal :: "('k, 'v) dictRec \<Rightarrow> entryRef \<Rightarrow> 'v \<Rightarrow> ('k, 'v) dictRec option" where
  "dictSetVal d e v = (case e of (t, i, p) \<Rightarrow> do {
     chain \<leftarrow> bucket (htAt d t) i;
     if p < length chain
     then Some (updHt t (setBucket i (chain[p := (chain ! p)\<lparr>de_val := v\<rparr>])) d)
     else None
   })"

definition dictGetVal :: "('k, 'v) dictRec \<Rightarrow> entryRef \<Rightarrow> 'v option" where
  "dictGetVal d e = (case e of (t, i, p) \<Rightarrow> do {
     chain \<leftarrow> bucket (htAt d t) i;
     if p < length chain then Some (de_val (chain ! p)) else None
   })"

definition dictAdd ::
  "('k, 'v) dictEnv \<Rightarrow> ('k, 'v) dictRec \<Rightarrow> 'k \<Rightarrow> 'v \<Rightarrow> (('k, 'v) dictRec \<times> dictRet) option" where
  "dictAdd E d k v = do {
     (d1, r) \<leftarrow> dictAddRaw E d k;
     case r of
       Inl _ \<Rightarrow> Some (d1, DICT_ERR)
     | Inr entry \<Rightarrow> do { d2 \<leftarrow> dictSetVal d1 entry v; Some (d2, DICT_OK) }
   }"

text \<open>\<^verbatim>\<open>dictReplace\<close>: True when the key was added. Without an entry and without an existing one
  \<^verbatim>\<open>*existing\<close> is a NULL dereference.\<close>

definition dictPut ::
  "('k, 'v) dictEnv \<Rightarrow> ('k, 'v) dictRec \<Rightarrow> 'k \<Rightarrow> 'v \<Rightarrow> (('k, 'v) dictRec \<times> bool) option" where
  "dictPut E d k v = do {
     (d1, r) \<leftarrow> dictAddRaw E d k;
     case r of
       Inr entry \<Rightarrow> do { d2 \<leftarrow> dictSetVal d1 entry v; Some (d2, True) }
     | Inl (Some existing) \<Rightarrow> do { d2 \<leftarrow> dictSetVal d1 existing v; Some (d2, False) }
     | Inl None \<Rightarrow> None
   }"

definition dictAddOrFind ::
  "('k, 'v) dictEnv \<Rightarrow> ('k, 'v) dictRec \<Rightarrow> 'k \<Rightarrow> (('k, 'v) dictRec \<times> entryRef option) option" where
  "dictAddOrFind E d k = do {
     (d1, r) \<leftarrow> dictAddRaw E d k;
     Some (d1, case r of Inr entry \<Rightarrow> Some entry | Inl existing \<Rightarrow> existing)
   }"

definition unlinkEntry :: "entryRef \<Rightarrow> ('k, 'v) dictRec \<Rightarrow> (('k, 'v) dictRec \<times> ('k, 'v) dictEntry) option" where
  "unlinkEntry e d = (case e of (t, i, p) \<Rightarrow> do {
     chain \<leftarrow> bucket (htAt d t) i;
     Some (updHt t (\<lambda>ht. (setBucket i (take p chain @ drop (Suc p) chain) ht)\<lparr>ht_used := ht_used ht - 1\<rparr>) d,
           chain ! p)
   })"

text \<open>\<^verbatim>\<open>dictGenericDelete\<close>: with the entry that was unlinked.\<close>

definition dictGenericDelete ::
  "('k, 'v) dictEnv \<Rightarrow> ('k, 'v) dictRec \<Rightarrow> 'k \<Rightarrow> (('k, 'v) dictRec \<times> ('k, 'v) dictEntry option) option" where
  "dictGenericDelete E d k =
    (if ht_used (d_ht0 d) = 0 \<and> ht_used (d_ht1 d) = 0 then Some (d, None)
     else do {
       d1 \<leftarrow> stepIfRehashing E d;
       (r, _) \<leftarrow> searchKey E k d1;
       case r of
         None \<Rightarrow> Some (d1, None)
       | Some e \<Rightarrow> do { (d2, he) \<leftarrow> unlinkEntry e d1; Some (d2, Some he) }
     })"

definition dictRemove ::
  "('k, 'v) dictEnv \<Rightarrow> ('k, 'v) dictRec \<Rightarrow> 'k \<Rightarrow> (('k, 'v) dictRec \<times> dictRet) option" where
  "dictRemove E d k = do {
     (d1, he) \<leftarrow> dictGenericDelete E d k;
     Some (d1, if he = None then DICT_ERR else DICT_OK)
   }"

definition dictLookup ::
  "('k, 'v) dictEnv \<Rightarrow> ('k, 'v) dictRec \<Rightarrow> 'k \<Rightarrow> (('k, 'v) dictRec \<times> entryRef option) option" where
  "dictLookup E d k =
    (if dictCount d = 0 then Some (d, None)
     else do {
       d1 \<leftarrow> stepIfRehashing E d;
       (r, _) \<leftarrow> searchKey E k d1;
       Some (d1, r)
     })"

definition dictFetchValue ::
  "('k, 'v) dictEnv \<Rightarrow> ('k, 'v) dictRec \<Rightarrow> 'k \<Rightarrow> (('k, 'v) dictRec \<times> 'v option) option" where
  "dictFetchValue E d k = do {
     (d1, he) \<leftarrow> dictLookup E d k;
     case he of
       None \<Rightarrow> Some (d1, None)
     | Some e \<Rightarrow> do { v \<leftarrow> dictGetVal d1 e; Some (d1, Some v) }
   }"

text \<open>\<^verbatim>\<open>dictEmpty\<close>: \<^verbatim>\<open>_dictClear\<close> frees the entries of a table and resets it.\<close>

definition dictEmpty :: "('k, 'v) dictRec \<Rightarrow> ('k, 'v) dictRec" where
  "dictEmpty d = d\<lparr>d_ht0 := dictReset, d_ht1 := dictReset, d_rehashidx := -1, d_pauserehash := 0\<rparr>"

end
