(* ===== verification/DictInv.thy ===== *)
theory DictInv
  imports Dict
begin

text \<open>
  The invariant of the hash table, and that growing and rehashing keep it together with the
  multiset of the entries. A table has 0 or a power of two buckets, at most \<open>2 ^ 60\<close> (so many fit
  in memory, see \<open>DictMap\<close>), every entry is in the bucket of its hash, no key is there twice,
  and while rehashing the buckets before \<^verbatim>\<open>rehashidx\<close> are empty.
\<close>

section \<open>Contents and invariant\<close>

definition entries :: "('k, 'v) dictRec \<Rightarrow> ('k, 'v) dictEntry list" where
  "entries d = concat (ht_table (d_ht0 d)) @ concat (ht_table (d_ht1 d))"

abbreviation ents :: "('k, 'v) dictRec \<Rightarrow> ('k, 'v) dictEntry multiset" where
  "ents d \<equiv> mset (entries d)"

definition contents :: "('k, 'v) dictRec \<Rightarrow> 'k \<Rightarrow> 'v option" where
  "contents d = map_of (map (\<lambda>e. (de_key e, de_val e)) (entries d))"

definition tableOk :: "('k, 'v) dictEnv \<Rightarrow> ('k, 'v) dictht \<Rightarrow> bool" where
  "tableOk E ht \<longleftrightarrow>
     length (ht_table ht) = ht_size ht \<and> ht_used ht = length (concat (ht_table ht)) \<and>
     (ht_size ht = 0 \<and> ht_sizemask ht = 0 \<or>
      (\<exists>n \<le> 60. ht_size ht = 2 ^ n \<and> ht_sizemask ht = mask n)) \<and>
     (\<forall>i < ht_size ht. \<forall>e \<in> set (ht_table ht ! i). hashIndex E (de_key e) ht = i)"

definition dictInv :: "('k, 'v) dictEnv \<Rightarrow> ('k, 'v) dictRec \<Rightarrow> bool" where
  "dictInv E d \<longleftrightarrow> tableOk E (d_ht0 d) \<and> tableOk E (d_ht1 d) \<and> distinct (map de_key (entries d)) \<and>
     (if dictIsRehashing d
      then 0 \<le> d_rehashidx d \<and> nat (d_rehashidx d) \<le> ht_size (d_ht0 d) \<and>
           0 < ht_size (d_ht0 d) \<and> 0 < ht_size (d_ht1 d) \<and>
           (\<forall>i < nat (d_rehashidx d). ht_table (d_ht0 d) ! i = [])
      else d_ht1 d = dictReset)"

text \<open>Keys are compared by their content.\<close>

definition byContent :: "('k, 'v) dictEnv \<Rightarrow> bool" where
  "byContent E \<longleftrightarrow> (\<forall>k k'. keyCompare E k k' \<longrightarrow> k = k')"

lemma sameKey_iff: "byContent E \<Longrightarrow> sameKey E k k' \<longleftrightarrow> k = k'"
  by (auto simp: byContent_def sameKey_def)

lemma mset_concat_update:
  assumes "i < length t"
  shows "mset (concat (t[i := xs])) + mset (t ! i) = mset (concat t) + mset xs"
  using assms
proof (induction t arbitrary: i)
  case (Cons a t)
  then show ?case by (cases i) (auto simp: ac_simps add.left_cancel)
qed simp

lemma length_concat_update:
  "i < length t \<Longrightarrow> length (concat (t[i := xs])) + length (t ! i) = length (concat t) + length xs"
  by (drule mset_concat_update [of i t xs]) (metis size_mset size_union)

lemma bucket_Some: "i < length (ht_table ht) \<Longrightarrow> bucket ht i = Some (ht_table ht ! i)"
  by (simp add: bucket_def)

lemma setBucket_simps [simp]:
  "ht_table (setBucket i es ht) = (ht_table ht)[i := es]" "ht_size (setBucket i es ht) = ht_size ht"
  "ht_sizemask (setBucket i es ht) = ht_sizemask ht" "ht_used (setBucket i es ht) = ht_used ht"
  by (simp_all add: setBucket_def)

lemma hashIndex_bound:
  assumes "tableOk E ht" and "0 < ht_size ht"
  shows "hashIndex E k ht < ht_size ht"
proof -
  obtain n where n: "n \<le> 60" "ht_size ht = 2 ^ n" "ht_sizemask ht = mask n"
    using assms by (auto simp: tableOk_def)
  have "unat (hashFunction E k AND mask n) < 2 ^ n"
    using n by (simp flip: take_bit_eq_mask add: unsigned_take_bit_eq)
  with n show ?thesis by (simp add: hashIndex_def)
qed

lemma hashIndex_cong: "ht_sizemask ht = ht_sizemask ht' \<Longrightarrow> hashIndex E k ht = hashIndex E k ht'"
  by (simp add: hashIndex_def)

lemma tableOk_reset: "tableOk E dictReset"
  by (simp add: tableOk_def dictReset_def)

text \<open>A chain is replaced by another one whose keys belong to the bucket.\<close>

lemma tableOk_update:
  assumes ok: "tableOk E ht" and i: "i < ht_size ht" and keys: "\<forall>e \<in> set es. hashIndex E (de_key e) ht = i"
    and used: "u + length (ht_table ht ! i) = ht_used ht + length es"
  shows "tableOk E ((setBucket i es ht)\<lparr>ht_used := u\<rparr>)"
proof -
  let ?ht = "(setBucket i es ht)\<lparr>ht_used := u\<rparr>"
  have len: "length (ht_table ht) = ht_size ht" and cnt: "ht_used ht = length (concat (ht_table ht))"
    using ok by (simp_all add: tableOk_def)
  have "u = length (concat ((ht_table ht)[i := es]))"
    using length_concat_update [of i "ht_table ht" es] i len used cnt by linarith
  moreover have "hashIndex E k ?ht = hashIndex E k ht" for k by (rule hashIndex_cong) simp
  ultimately show ?thesis
    using ok i keys len by (auto simp: tableOk_def nth_list_update)
qed

lemma ents_updHt:
  assumes "i < length (ht_table (htAt d t))"
  shows "ents (updHt t (\<lambda>ht. (setBucket i es ht)\<lparr>ht_used := f ht\<rparr>) d) + mset (ht_table (htAt d t) ! i)
    = ents d + mset es"
  using mset_concat_update [OF assms, of es] assms
  by (auto simp: entries_def updHt_def htAt_def ac_simps split: if_splits)

section \<open>Growth keeps the contents\<close>

lemma nextPowerLoop_power:
  assumes "a \<le> b" and "sz \<le> 2 ^ b"
  shows "\<exists>c. a \<le> c \<and> c \<le> b \<and> nextPowerLoop (2 ^ a) sz = 2 ^ c \<and> sz \<le> 2 ^ c"
  using assms
proof (induction "b - a" arbitrary: a)
  case 0
  then have "nextPowerLoop (2 ^ a) sz = 2 ^ a" by (simp add: nextPowerLoop.simps [of "2 ^ a"])
  with 0 show ?case by auto
next
  case (Suc m)
  show ?case
  proof (cases "sz \<le> 2 ^ a")
    case True
    with Suc.prems show ?thesis by (auto simp: nextPowerLoop.simps [of "2 ^ a"])
  next
    case False
    then have step: "nextPowerLoop (2 ^ a) sz = nextPowerLoop (2 ^ Suc a) sz"
      by (simp add: nextPowerLoop.simps [of "2 ^ a"] mult.commute)
    have "m = b - Suc a" "Suc a \<le> b" using Suc.hyps(2) by auto
    from Suc.hyps(1) [OF this Suc.prems(2)] show ?thesis
      unfolding step by (metis Suc_leD)
  qed
qed

lemma dictNextPower_power:
  assumes "sz \<le> 2 ^ 60"
  shows "\<exists>c. 2 \<le> c \<and> c \<le> 60 \<and> dictNextPower sz = 2 ^ c \<and> sz \<le> 2 ^ c"
proof -
  have "\<not> sz \<ge> LONG_MAX" using assms by (simp add: LONG_MAX_def)
  then show ?thesis
    using nextPowerLoop_power [of 2 60 sz] assms by (simp add: dictNextPower_def DICT_HT_INITIAL_SIZE_def)
qed

lemma callocTable_power: "n \<le> 60 \<Longrightarrow> callocTable (2 ^ n) = replicate (2 ^ n) []"
proof -
  assume n: "n \<le> 60"
  have "word_of_nat (2 ^ n) * 8 = (word_of_nat (2 ^ n * 8) :: u64)" by simp
  moreover have "(2::nat) ^ n * 8 < 2 ^ 64"
    using power_increasing [OF n, of "2::nat"] by simp
  ultimately have "unat (word_of_nat (2 ^ n) * 8 :: u64) = 2 ^ n * 8"
    by (simp only: unat_of_nat) simp
  then show ?thesis by (simp add: callocTable_def)
qed

lemma mask_of_size: "(word_of_nat (2 ^ n - 1) :: u64) = mask n"
  by (simp add: mask_eq_exp_minus_1 of_nat_diff)

lemma freshTable_ok:
  assumes "n \<le> 60"
  shows "tableOk E \<lparr>ht_table = callocTable (2 ^ n), ht_size = 2 ^ n,
    ht_sizemask = word_of_nat (2 ^ n - 1), ht_used = 0\<rparr>"
  unfolding mask_of_size using assms by (auto simp: tableOk_def callocTable_power)

lemma dictExpand_ok:
  assumes inv: "dictInv E d" and sz: "sz \<le> 2 ^ 60" and idle: "\<not> dictIsRehashing d"
  shows "dictInv E (fst (dictExpand d sz)) \<and> entries (fst (dictExpand d sz)) = entries d
    \<and> d_pauserehash (fst (dictExpand d sz)) = d_pauserehash d"
proof -
  obtain c where c: "c \<le> 60" "dictNextPower sz = 2 ^ c" using dictNextPower_power [OF sz] by blast
  note fresh = freshTable_ok [OF c(1), of E]
  note cells = callocTable_power [OF c(1)]
  have idx: "d_rehashidx d = -1" using idle by (simp add: dictIsRehashing_def)
  have d1: "d_ht1 d = dictReset" using inv idle by (simp add: dictInv_def)
  have empty: "ht_size (d_ht0 d) = 0 \<Longrightarrow> ht_table (d_ht0 d) = []"
    using inv by (auto simp: dictInv_def tableOk_def)
  have d0: "tableOk E (d_ht0 d)" "distinct (map de_key (entries d))" using inv by (simp_all add: dictInv_def)
  let ?n = "\<lparr>ht_table = callocTable (2 ^ c), ht_size = 2 ^ c,
    ht_sizemask = word_of_nat (2 ^ c - 1), ht_used = 0\<rparr> :: ('a, 'b) dictht"
  have grown: "fst (dictExpand d sz) =
    (if sz < ht_used (d_ht0 d) \<or> 2 ^ c = ht_size (d_ht0 d) then d
     else if ht_size (d_ht0 d) = 0 then d\<lparr>d_ht0 := ?n\<rparr> else d\<lparr>d_ht1 := ?n, d_rehashidx := 0\<rparr>)"
    using idle by (simp add: dictExpand_def dictExpandTrial_def Let_def c(2) del: of_nat_diff)
  consider "sz < ht_used (d_ht0 d) \<or> 2 ^ c = ht_size (d_ht0 d)"
    | "ht_size (d_ht0 d) = 0" "fst (dictExpand d sz) = d\<lparr>d_ht0 := ?n\<rparr>"
    | "0 < ht_size (d_ht0 d)" "fst (dictExpand d sz) = d\<lparr>d_ht1 := ?n, d_rehashidx := 0\<rparr>"
    by (cases "sz < ht_used (d_ht0 d) \<or> 2 ^ c = ht_size (d_ht0 d)"; cases "ht_size (d_ht0 d) = 0")
      (simp_all only: grown if_True if_False neq0_conv)
  then show ?thesis
  proof cases
    case 1
    then show ?thesis using inv unfolding grown by simp
  next
    case 2
    then show ?thesis
      using d0 d1 idx fresh empty
      by (simp add: cells dictInv_def entries_def dictIsRehashing_def tableOk_reset)
  next
    case 3
    then show ?thesis
      using d0 d1 idx fresh
      by (simp add: cells dictInv_def entries_def dictIsRehashing_def dictReset_def)
  qed
qed

lemma dictExpand_performed:
  assumes "\<not> dictIsRehashing d" and "ht_used (d_ht0 d) \<le> sz" and "sz \<le> 2 ^ 60" and "ht_size (d_ht0 d) < max sz 4"
  shows "snd (dictExpand d sz) = DICT_OK \<and> 0 < ht_size (d_ht0 (fst (dictExpand d sz)))"
proof -
  obtain c where c: "2 \<le> c" "dictNextPower sz = 2 ^ c" "sz \<le> 2 ^ c"
    using dictNextPower_power [OF assms(3)] by blast
  have "(4::nat) \<le> 2 ^ c" using power_increasing [OF c(1), of "2::nat"] by simp
  then have "dictNextPower sz \<noteq> ht_size (d_ht0 d)" using assms(4) c by simp
  then show ?thesis
    using assms c by (auto simp: dictExpand_def dictExpandTrial_def Let_def)
qed

lemma dictExpandIfNeeded_ok:
  assumes inv: "dictInv E d" and room: "dictCount d < 2 ^ 60"
  shows "\<exists>d'. dictExpandIfNeeded E d = (d', DICT_OK) \<and> dictInv E d' \<and> entries d' = entries d
    \<and> d_pauserehash d' = d_pauserehash d \<and> 0 < ht_size (d_ht0 d')" (is "\<exists>d'. ?P d'")
proof -
  have grows: "?P (fst (dictExpand d sz))"
    if "dictExpandIfNeeded E d = dictExpand d sz" "\<not> dictIsRehashing d" "sz \<le> 2 ^ 60"
      "ht_used (d_ht0 d) \<le> sz" "ht_size (d_ht0 d) < max sz 4" for sz
    using dictExpand_ok [OF inv that(3,2)] dictExpand_performed [OF that(2,4,3,5)] that(1)
    by (auto simp: prod_eq_iff)
  have small: "ht_used (d_ht0 d) + 1 \<le> 2 ^ 60" using room by (simp add: dictCount_def)
  consider "dictIsRehashing d" | "\<not> dictIsRehashing d" "ht_size (d_ht0 d) = 0"
    | "\<not> dictIsRehashing d" "0 < ht_size (d_ht0 d)" "dictExpandIfNeeded E d = (d, DICT_OK)"
    | "\<not> dictIsRehashing d" "0 < ht_size (d_ht0 d)" "ht_size (d_ht0 d) \<le> ht_used (d_ht0 d)"
      "dictExpandIfNeeded E d = dictExpand d (ht_used (d_ht0 d) + 1)"
    using that by (cases "ht_used (d_ht0 d) \<ge> ht_size (d_ht0 d) \<and> (dict_can_resize E \<or>
      ht_used (d_ht0 d) div ht_size (d_ht0 d) > dict_force_resize_ratio) \<and> dictTypeExpandAllowed E d")
      (auto simp: dictExpandIfNeeded_def)
  then show ?thesis
  proof cases
    case 1
    then have "?P d" using inv by (simp add: dictExpandIfNeeded_def dictInv_def)
    then show ?thesis ..
  next
    case 2
    then have "ht_used (d_ht0 d) = 0" using inv by (auto simp: dictInv_def tableOk_def)
    with 2 have "?P (fst (dictExpand d DICT_HT_INITIAL_SIZE))"
      by (intro grows) (simp_all add: dictExpandIfNeeded_def DICT_HT_INITIAL_SIZE_def)
    then show ?thesis ..
  next
    case 3
    then have "?P d" using inv by simp
    then show ?thesis ..
  next
    case 4
    then have "?P (fst (dictExpand d (ht_used (d_ht0 d) + 1)))"
      using small by (intro grows) auto
    then show ?thesis ..
  qed
qed

section \<open>Rehashing keeps the contents\<close>

lemma distinct_keys_mset: "mset xs = mset ys \<Longrightarrow> distinct (map de_key xs) = distinct (map de_key ys)"
  by (metis mset_map mset_eq_imp_distinct_iff)

lemma skipEmpty_ok:
  assumes "\<exists>j. i \<le> j \<and> j < length tb \<and> tb ! j \<noteq> []"
  shows "(\<exists>i'. skipEmpty tb i visits = Some (Inl i') \<and> i' \<le> length tb \<and> i \<le> i' \<and>
            (\<forall>k. i \<le> k \<and> k < i' \<longrightarrow> tb ! k = [])) \<or>
         (\<exists>i' left. skipEmpty tb i visits = Some (Inr (i', left)) \<and> i' < length tb \<and> i \<le> i' \<and>
            (\<forall>k. i \<le> k \<and> k < i' \<longrightarrow> tb ! k = []))"
  using assms
proof (induction tb i visits rule: skipEmpty.induct)
  case (1 tb i visits)
  note unfolded = skipEmpty.simps [of tb i visits]
  show ?case
  proof (cases "tb ! i \<noteq> [] \<or> visits - 1 = 0")
    case True
    with 1(2) show ?thesis by (auto simp: unfolded less_Suc_eq_le dest: le_antisym)
  next
    case False
    from 1(2) obtain j where j: "i \<le> j" "j < length tb" "tb ! j \<noteq> []" by blast
    then have "Suc i \<le> j" using False by (metis le_antisym not_less_eq_eq)
    with j False have "skipEmpty tb i visits = skipEmpty tb (Suc i) (visits - 1)" "\<not> length tb \<le> i"
      "\<exists>j \<ge> Suc i. j < length tb \<and> tb ! j \<noteq> []"
      by (auto simp: unfolded)
    moreover have "i \<le> k \<Longrightarrow> k < i' \<Longrightarrow> \<forall>k. Suc i \<le> k \<and> k < i' \<longrightarrow> tb ! k = [] \<Longrightarrow> tb ! k = []" for k i'
      using False by (cases "k = i") auto
    ultimately show ?thesis
      using 1(1) False by (metis Suc_leD)
  qed
qed

lemma moveBucket_ok:
  assumes "tableOk E (d_ht1 d)" and "0 < ht_size (d_ht1 d)"
  shows "\<exists>h1. moveBucket E es d = Some (d\<lparr>d_ht0 := (d_ht0 d)\<lparr>ht_used := ht_used (d_ht0 d) - length es\<rparr>, d_ht1 := h1\<rparr>)
     \<and> tableOk E h1 \<and> ht_size h1 = ht_size (d_ht1 d)
     \<and> mset (concat (ht_table h1)) = mset (concat (ht_table (d_ht1 d))) + mset es"
  using assms
proof (induction es arbitrary: d)
  case Nil
  then show ?case by (auto intro!: exI [of _ "d_ht1 d"])
next
  case (Cons e es)
  let ?i = "hashIndex E (de_key e) (d_ht1 d)"
  let ?h1 = "(setBucket ?i (e # ht_table (d_ht1 d) ! ?i) (d_ht1 d))\<lparr>ht_used := ht_used (d_ht1 d) + 1\<rparr>"
  let ?d = "d\<lparr>d_ht0 := (d_ht0 d)\<lparr>ht_used := ht_used (d_ht0 d) - 1\<rparr>, d_ht1 := ?h1\<rparr>"
  have i: "?i < ht_size (d_ht1 d)" by (rule hashIndex_bound [OF Cons.prems])
  have len: "length (ht_table (d_ht1 d)) = ht_size (d_ht1 d)" using Cons.prems by (simp add: tableOk_def)
  have ok: "tableOk E ?h1"
    by (rule tableOk_update) (use Cons.prems i in \<open>auto simp: tableOk_def\<close>)
  have ms: "mset (concat (ht_table ?h1)) = add_mset e (mset (concat (ht_table (d_ht1 d))))"
    using mset_concat_update [of ?i "ht_table (d_ht1 d)" "e # ht_table (d_ht1 d) ! ?i"] i len
    by simp
  have "moveBucket E (e # es) d = moveBucket E es ?d"
    using i len by (simp add: bucket_Some Let_def)
  moreover from Cons.IH [of ?d] obtain h where
    "moveBucket E es ?d = Some (?d\<lparr>d_ht0 := (d_ht0 ?d)\<lparr>ht_used := ht_used (d_ht0 ?d) - length es\<rparr>, d_ht1 := h\<rparr>)"
    "tableOk E h" "ht_size h = ht_size ?h1"
    "mset (concat (ht_table h)) = mset (concat (ht_table ?h1)) + mset es"
    using ok i by auto
  ultimately show ?case using ms by (intro exI [of _ h]) auto
qed

lemma some_bucket_left:
  assumes inv: "dictInv E d" and "dictIsRehashing d" and used: "ht_used (d_ht0 d) \<noteq> 0"
  shows "\<exists>j. nat (d_rehashidx d) \<le> j \<and> j < length (ht_table (d_ht0 d)) \<and> ht_table (d_ht0 d) ! j \<noteq> []"
proof (rule ccontr)
  assume none: "\<not> ?thesis"
  have "ht_table (d_ht0 d) ! j = []" if "j < length (ht_table (d_ht0 d))" for j
    using inv assms(2) that none by (cases "j < nat (d_rehashidx d)") (auto simp: dictInv_def)
  then have "\<forall>es \<in> set (ht_table (d_ht0 d)). es = []" by (auto simp: in_set_conv_nth)
  then have "concat (ht_table (d_ht0 d)) = []" by simp
  then show False using inv used by (simp add: dictInv_def tableOk_def)
qed

text \<open>What a part of the rehashing keeps.\<close>

definition sameContents :: "('k, 'v) dictEnv \<Rightarrow> ('k, 'v) dictRec \<Rightarrow> ('k, 'v) dictRec \<Rightarrow> bool" where
  "sameContents E d d' \<longleftrightarrow> dictInv E d' \<and> ents d' = ents d \<and> d_pauserehash d' = d_pauserehash d"

lemma bucket_moved:
  assumes inv: "dictInv E d" and re: "dictIsRehashing d"
    and i: "i < length (ht_table (d_ht0 d))" "nat (d_rehashidx d) \<le> i"
    and skipped: "\<forall>k. nat (d_rehashidx d) \<le> k \<and> k < i \<longrightarrow> ht_table (d_ht0 d) ! k = []"
  shows "\<exists>d1. moveBucket E (ht_table (d_ht0 d) ! i) d = Some d1 \<and>
    dictIsRehashing (d1\<lparr>d_ht0 := setBucket i [] (d_ht0 d1), d_rehashidx := int (Suc i)\<rparr>) \<and>
    sameContents E d (d1\<lparr>d_ht0 := setBucket i [] (d_ht0 d1), d_rehashidx := int (Suc i)\<rparr>)"
proof -
  let ?es = "ht_table (d_ht0 d) ! i"
  have t0: "tableOk E (d_ht0 d)" and t1: "tableOk E (d_ht1 d)" "0 < ht_size (d_ht1 d)"
    and dist: "distinct (map de_key (entries d))"
    and front: "\<forall>k < nat (d_rehashidx d). ht_table (d_ht0 d) ! k = []"
    using inv re by (simp_all add: dictInv_def)
  have len: "length (ht_table (d_ht0 d)) = ht_size (d_ht0 d)"
    and used: "ht_used (d_ht0 d) = length (concat (ht_table (d_ht0 d)))"
    using t0 by (simp_all add: tableOk_def)
  obtain h1 where h1: "moveBucket E ?es d =
      Some (d\<lparr>d_ht0 := (d_ht0 d)\<lparr>ht_used := ht_used (d_ht0 d) - length ?es\<rparr>, d_ht1 := h1\<rparr>)"
    "tableOk E h1" "ht_size h1 = ht_size (d_ht1 d)"
    "mset (concat (ht_table h1)) = mset (concat (ht_table (d_ht1 d))) + mset ?es"
    using moveBucket_ok [OF t1] by blast
  let ?h0 = "(setBucket i [] (d_ht0 d))\<lparr>ht_used := ht_used (d_ht0 d) - length ?es\<rparr>"
  let ?d = "d\<lparr>d_ht0 := ?h0, d_ht1 := h1, d_rehashidx := int (Suc i)\<rparr>"
  let ?d1 = "d\<lparr>d_ht0 := (d_ht0 d)\<lparr>ht_used := ht_used (d_ht0 d) - length ?es\<rparr>, d_ht1 := h1\<rparr>"
  note ms = mset_concat_update [OF i(1), of "[]"]
  have "length ?es \<le> ht_used (d_ht0 d)"
    using length_concat_update [OF i(1), of "[]"] used by simp
  then have h0: "tableOk E ?h0"
    by (intro tableOk_update) (use t0 i len in auto)
  have same: "ents ?d = ents d"
    using ms h1(4) by (simp add: entries_def ac_simps)
  have "\<forall>k < Suc i. (ht_table (d_ht0 d))[i := []] ! k = []"
    using i front skipped by (metis less_Suc_eq not_less nth_list_update_eq nth_list_update_neq)
  then have "dictInv E ?d"
    unfolding dictInv_def
    using h0 h1 t1 i len dist distinct_keys_mset [OF same]
    by (simp add: dictIsRehashing_def nat_add_distrib)
  moreover have "dictIsRehashing ?d" by (simp add: dictIsRehashing_def)
  moreover have "?d1\<lparr>d_ht0 := setBucket i [] (d_ht0 ?d1), d_rehashidx := int (Suc i)\<rparr> = ?d"
    by (simp add: setBucket_def)
  ultimately show ?thesis
    using h1(1) same by (intro exI [of _ ?d1]) (simp only: sameContents_def, simp)
qed

lemma rehashLoop_ok:
  assumes "dictInv E d" and "dictIsRehashing d"
  shows "\<exists>d' b. rehashLoop E n visits d = Some (d', b) \<and> dictIsRehashing d' \<and> sameContents E d d'"
  using assms
proof (induction n arbitrary: visits d)
  case 0
  then show ?case by (intro exI [of _ d] exI [of _ False]) (simp add: sameContents_def)
next
  case (Suc n)
  show ?case
  proof (cases "ht_used (d_ht0 d) = 0")
    case True
    with Suc.prems show ?thesis by (intro exI [of _ d] exI [of _ False]) (simp add: sameContents_def)
  next
    case False
    let ?tb = "ht_table (d_ht0 d)" and ?r = "nat (d_rehashidx d)"
    note left = some_bucket_left [OF Suc.prems False]
    have front: "0 \<le> d_rehashidx d" "length ?tb = ht_size (d_ht0 d)" "\<forall>k < ?r. ?tb ! k = []"
      using Suc.prems by (simp_all add: dictInv_def tableOk_def)
    then have assertion: "d_rehashidx d < int (ht_size (d_ht0 d))" using left by auto
    from skipEmpty_ok [OF left, of visits] show ?thesis
    proof (elim disjE exE conjE)
      fix i
      assume i: "skipEmpty ?tb ?r visits = Some (Inl i)" "i \<le> length ?tb" "?r \<le> i"
        "\<forall>k. ?r \<le> k \<and> k < i \<longrightarrow> ?tb ! k = []"
      have "\<forall>k < i. ?tb ! k = []" using i(4) front(3) by (metis not_less)
      then have "sameContents E d (d\<lparr>d_rehashidx := int i\<rparr>)" "dictIsRehashing (d\<lparr>d_rehashidx := int i\<rparr>)"
        using Suc.prems i front by (auto simp: sameContents_def dictInv_def dictIsRehashing_def entries_def)
      then show ?thesis using i False assertion by auto
    next
      fix i l
      assume i: "skipEmpty ?tb ?r visits = Some (Inr (i, l))" "i < length ?tb" "?r \<le> i"
        "\<forall>k. ?r \<le> k \<and> k < i \<longrightarrow> ?tb ! k = []"
      obtain d1 where d1: "moveBucket E (?tb ! i) d = Some d1"
        and re: "dictIsRehashing (d1\<lparr>d_ht0 := setBucket i [] (d_ht0 d1), d_rehashidx := int (Suc i)\<rparr>)"
        and same: "sameContents E d (d1\<lparr>d_ht0 := setBucket i [] (d_ht0 d1), d_rehashidx := int (Suc i)\<rparr>)"
        using bucket_moved [OF Suc.prems i(2,3,4)] by blast
      from same have "dictInv E (d1\<lparr>d_ht0 := setBucket i [] (d_ht0 d1), d_rehashidx := int (Suc i)\<rparr>)"
        by (simp add: sameContents_def)
      from Suc.IH [OF this re, of l] show ?thesis
        using d1 i False assertion same by (auto simp: sameContents_def)
    qed
  qed
qed

lemma dictRehash_ok:
  assumes inv: "dictInv E d"
  shows "\<exists>d' b. dictRehash E n d = Some (d', b) \<and> sameContents E d d'"
proof (cases "dictIsRehashing d")
  case True
  obtain d1 b where d1: "rehashLoop E n (int n * 10) d = Some (d1, b)" "dictIsRehashing d1" "sameContents E d d1"
    using rehashLoop_ok [OF inv True] by blast
  show ?thesis
  proof (cases "\<not> b \<and> ht_used (d_ht0 d1) = 0")
    case False
    then show ?thesis using d1 True by (auto simp: dictRehash_def)
  next
    case done': True
    let ?d = "d1\<lparr>d_ht0 := d_ht1 d1, d_ht1 := dictReset, d_rehashidx := -1\<rparr>"
    have inv1: "dictInv E d1" using d1 by (simp add: sameContents_def)
    then have "concat (ht_table (d_ht0 d1)) = []" using done' by (simp add: dictInv_def tableOk_def)
    then have "entries ?d = entries d1" by (simp add: entries_def dictReset_def)
    moreover from this have "dictInv E ?d"
      using inv1 by (simp add: dictInv_def dictIsRehashing_def tableOk_reset)
    ultimately have "sameContents E d ?d" using d1 by (simp add: sameContents_def)
    then show ?thesis using d1 True done' by (auto simp: dictRehash_def)
  qed
next
  case False
  then show ?thesis
    using inv by (intro exI [of _ d] exI [of _ False]) (simp add: dictRehash_def sameContents_def)
qed

lemma stepIfRehashing_ok:
  assumes "dictInv E d"
  obtains d' where "stepIfRehashing E d = Some d'" and "sameContents E d d'"
  using dictRehash_ok [OF assms, of 1] assms that
  by (fastforce simp: stepIfRehashing_def dictRehashStep_def sameContents_def split: if_splits)

section \<open>Rehashing for some milliseconds\<close>

text \<open>The readings of the clock are a stream; one is taken at the start and one after each round.\<close>

partial_function (option) rehashRounds ::
  "('k, 'v) dictEnv \<Rightarrow> (nat \<Rightarrow> int) \<Rightarrow> int \<Rightarrow> nat \<Rightarrow> int \<Rightarrow> ('k, 'v) dictRec \<Rightarrow> (('k, 'v) dictRec \<times> int) option" where
  "rehashRounds E clock ms n rehashes d = do {
     (d1, more) \<leftarrow> dictRehash E 100 d;
     (if \<not> more then Some (d1, rehashes)
      else if clock n - clock 0 > ms then Some (d1, rehashes + 100)
      else rehashRounds E clock ms (Suc n) (rehashes + 100) d1)
   }"

definition dictRehashMilliseconds ::
  "('k, 'v) dictEnv \<Rightarrow> (nat \<Rightarrow> int) \<Rightarrow> ('k, 'v) dictRec \<Rightarrow> int \<Rightarrow> (('k, 'v) dictRec \<times> int) option" where
  "dictRehashMilliseconds E clock d ms =
    (if d_pauserehash d > 0 then Some (d, 0) else rehashRounds E clock ms 1 0 d)"

lemma sameContents_trans: "sameContents E d d1 \<Longrightarrow> sameContents E d1 d2 \<Longrightarrow> sameContents E d d2"
  by (simp add: sameContents_def)

lemma rehashRounds_ok:
  assumes "dictInv E d" and "clock m - clock 0 > ms" and "n \<le> m"
  shows "\<exists>d' r. rehashRounds E clock ms n rehashes d = Some (d', r) \<and> sameContents E d d'"
  using assms(1,3)
proof (induction "m - n" arbitrary: n d rehashes)
  case 0
  obtain d1 b where d1: "dictRehash E 100 d = Some (d1, b)" "sameContents E d d1"
    using dictRehash_ok [OF 0(2)] by blast
  have "n = m" using 0 by simp
  then show ?case using d1 assms(2) by (subst rehashRounds.simps) auto
next
  case (Suc k)
  obtain d1 b where d1: "dictRehash E 100 d = Some (d1, b)" "sameContents E d d1"
    using dictRehash_ok [OF Suc.prems(1)] by blast
  have "k = m - Suc n" "Suc n \<le> m" "dictInv E d1" using Suc.hyps(2) d1(2) by (simp_all add: sameContents_def)
  from Suc.hyps(1) [OF this(1,3,2), of "rehashes + 100"] show ?case
    using d1 by (subst rehashRounds.simps) (auto intro: sameContents_trans)
qed

text \<open>When the clock goes on the call returns, and it keeps the contents.\<close>

lemma dictRehashMilliseconds_ok:
  assumes "dictInv E d" and "clock m - clock 0 > ms" and "1 \<le> m"
  shows "\<exists>d' r. dictRehashMilliseconds E clock d ms = Some (d', r) \<and> sameContents E d d'"
  using rehashRounds_ok [OF assms] assms(1) by (auto simp: dictRehashMilliseconds_def sameContents_def)

end
