(* ===== verification/DictMap.thy ===== *)
theory DictMap
  imports DictInv
begin

text \<open>
  The operations of the hash table seen from outside: its contents are a partial map. A search finds
  the entry of a key in the table that it is in while the tables move, and additions, replacements and deletions
  change the map at one key. From this follow that a whole run of calls never leaves
  the memory of the tables and answers as a map does, and the contract of \<open>HPrelude\<close>. The
  last section is about tables too large for the memory they get.
\<close>

section \<open>Contents as a map\<close>

definition entriesMap :: "('k, 'v) dictEntry list \<Rightarrow> 'k \<Rightarrow> 'v option" where
  "entriesMap es = map_of (map (\<lambda>e. (de_key e, de_val e)) es)"

lemma contents_map: "contents d = entriesMap (entries d)"
  by (simp add: contents_def entriesMap_def)

lemma entriesMap_simps [simp]:
  "entriesMap [] = Map.empty" "entriesMap (e # es) = (entriesMap es)(de_key e \<mapsto> de_val e)"
  by (simp_all add: entriesMap_def)

lemma entriesMap_None: "entriesMap es k = None \<longleftrightarrow> k \<notin> de_key ` set es"
  by (induction es) auto

lemma entriesMap_mset:
  assumes "mset es = mset es'" and "distinct (map de_key es)"
  shows "entriesMap es = entriesMap es'"
proof -
  have "set (map (\<lambda>e. (de_key e, de_val e)) es) = set (map (\<lambda>e. (de_key e, de_val e)) es')"
    using assms(1) by (metis mset_map mset_eq_setD)
  moreover have "distinct (map de_key es')" using assms by (simp flip: distinct_keys_mset [OF assms(1)])
  ultimately show ?thesis
    unfolding entriesMap_def using assms(2) by (subst map_of_inject_set) (simp_all add: comp_def)
qed

lemma sameContents_map: "dictInv E d \<Longrightarrow> sameContents E d d' \<Longrightarrow> contents d' = contents d"
  unfolding contents_map by (rule entriesMap_mset) (simp_all add: sameContents_def dictInv_def)

lemma dictCount_ents: "dictInv E d \<Longrightarrow> dictCount d = size (ents d)"
  by (simp add: dictCount_def dictInv_def tableOk_def entries_def)

lemma sameContents_count: "dictInv E d \<Longrightarrow> sameContents E d d' \<Longrightarrow> dictCount d' = dictCount d"
  by (metis dictCount_ents sameContents_def)

lemma contents_added:
  assumes "dictInv E d'" and "ents d' = add_mset e (ents d)"
  shows "contents d' = (contents d)(de_key e \<mapsto> de_val e)"
proof -
  have "mset (entries d') = mset (e # entries d)" using assms by simp
  then have "entriesMap (entries d') = entriesMap (e # entries d)"
    using assms(1) by (intro entriesMap_mset) (simp_all add: dictInv_def)
  then show ?thesis by (simp add: contents_map)
qed

lemma contents_removed:
  assumes "dictInv E d" and "ents d = add_mset e (ents d')"
  shows "contents d' = (contents d)(de_key e := None)"
proof -
  have ms: "mset (entries d) = mset (e # entries d')" using assms by simp
  then have "distinct (map de_key (e # entries d'))"
    using assms(1) distinct_keys_mset by (metis dictInv_def)
  then have "contents d' (de_key e) = None" by (simp add: contents_map entriesMap_None)
  moreover have "contents d = (contents d')(de_key e \<mapsto> de_val e)"
    using entriesMap_mset [OF ms] assms(1) by (simp add: contents_map dictInv_def)
  ultimately show ?thesis by (simp add: fun_upd_idem)
qed

lemma contents_set:
  assumes "dictInv E d" and "dictInv E d'" and "ents d' + {#e#} = ents d + {#e'#}" and "de_key e' = de_key e"
    and "e \<in># ents d"
  shows "contents d' = (contents d)(de_key e \<mapsto> de_val e')"
proof -
  obtain rs where rs: "ents d = mset (e # rs)"
    using assms(5) by (metis ex_mset insert_DiffM mset.simps(2))
  then have rs': "ents d' = mset (e' # rs)" using assms(3) by simp
  have "distinct (map de_key (entries d))" "distinct (map de_key (entries d'))"
    using assms(1,2) by (simp_all add: dictInv_def)
  then have "entriesMap (entries d) = entriesMap (e # rs)" "entriesMap (entries d') = entriesMap (e' # rs)"
    using entriesMap_mset [of "entries d" "e # rs"] entriesMap_mset [of "entries d'" "e' # rs"] rs rs'
    by simp_all
  then show ?thesis using assms(4) by (simp add: contents_map)
qed

section \<open>Search\<close>

definition validRef :: "('k, 'v) dictRec \<Rightarrow> entryRef \<Rightarrow> bool" where
  "validRef d r \<longleftrightarrow> (case r of (t, i, p) \<Rightarrow>
     i < length (ht_table (htAt d t)) \<and> p < length (ht_table (htAt d t) ! i) \<and> (t = 0 \<or> t = 1 \<and> dictIsRehashing d))"

definition refEntry :: "('k, 'v) dictRec \<Rightarrow> entryRef \<Rightarrow> ('k, 'v) dictEntry" where
  "refEntry d r = (case r of (t, i, p) \<Rightarrow> ht_table (htAt d t) ! i ! p)"

lemma refEntry_in: "validRef d r \<Longrightarrow> refEntry d r \<in># ents d"
  unfolding validRef_def refEntry_def entries_def htAt_def
  by (cases r) (force split: if_splits intro: nth_mem)

lemma chainFind_spec:
  assumes "byContent E"
  shows "case chainFind E k es of
      Some p \<Rightarrow> p < length es \<and> de_key (es ! p) = k
    | None \<Rightarrow> k \<notin> de_key ` set es"
  by (induction es) (auto simp: sameKey_iff [OF assms] split: option.splits)

lemma in_own_bucket:
  assumes "tableOk E ht" and "e \<in> set (concat (ht_table ht))"
  shows "e \<in> set (ht_table ht ! hashIndex E (de_key e) ht)"
proof -
  obtain es where "es \<in> set (ht_table ht)" "e \<in> set es" using assms(2) by auto
  then obtain i where i: "i < length (ht_table ht)" "e \<in> set (ht_table ht ! i)"
    by (metis in_set_conv_nth)
  then have "hashIndex E (de_key e) ht = i" using assms(1) by (auto simp: tableOk_def)
  with i show ?thesis by simp
qed

lemma searchTable_ok:
  assumes cmp: "byContent E" and ok: "tableOk E (htAt d t)" and pos: "0 < ht_size (htAt d t)"
    and t: "t = 0 \<or> t = 1 \<and> dictIsRehashing d"
  shows "\<exists>r. searchTable E k d t = Some (r, hashIndex E k (htAt d t)) \<and>
    (case r of Some e \<Rightarrow> validRef d e \<and> de_key (refEntry d e) = k
             | None \<Rightarrow> k \<notin> de_key ` set (concat (ht_table (htAt d t))))"
proof -
  let ?i = "hashIndex E k (htAt d t)"
  have i: "?i < length (ht_table (htAt d t))"
    using hashIndex_bound [OF ok pos] ok by (simp add: tableOk_def)
  have out: "k \<notin> de_key ` set (ht_table (htAt d t) ! ?i) \<Longrightarrow> k \<notin> de_key ` set (concat (ht_table (htAt d t)))"
    using in_own_bucket [OF ok] by blast
  show ?thesis
    using chainFind_spec [OF cmp, of k "ht_table (htAt d t) ! ?i"] i t out
    by (auto simp: searchTable_def Let_def bucket_Some validRef_def refEntry_def split: option.splits)
qed

lemma searchKey_ok:
  assumes cmp: "byContent E" and inv: "dictInv E d" and pos: "0 < ht_size (d_ht0 d)"
  shows "\<exists>r idx. searchKey E k d = Some (r, idx) \<and>
    (case r of
       Some e \<Rightarrow> validRef d e \<and> de_key (refEntry d e) = k
     | None \<Rightarrow> k \<notin> de_key ` set (entries d) \<and>
         idx = hashIndex E k (htAt d (if dictIsRehashing d then 1 else 0)))"
proof -
  have t0: "tableOk E (htAt d 0)" "0 < ht_size (htAt d 0)" using inv pos by (simp_all add: dictInv_def htAt_def)
  obtain r0 where r0: "searchTable E k d 0 = Some (r0, hashIndex E k (htAt d 0))"
    "case r0 of Some e \<Rightarrow> validRef d e \<and> de_key (refEntry d e) = k
             | None \<Rightarrow> k \<notin> de_key ` set (concat (ht_table (htAt d 0)))"
    using searchTable_ok [OF cmp t0, of k] by auto
  show ?thesis
  proof (cases "r0 = None \<and> dictIsRehashing d")
    case False
    have "\<not> dictIsRehashing d \<Longrightarrow> entries d = concat (ht_table (htAt d 0))"
      using inv by (simp add: dictInv_def entries_def htAt_def dictReset_def)
    with False r0 show ?thesis by (auto simp: searchKey_def split: option.splits)
  next
    case True
    then have t1: "tableOk E (htAt d 1)" "0 < ht_size (htAt d 1)" using inv by (simp_all add: dictInv_def htAt_def)
    obtain r1 where r1: "searchTable E k d 1 = Some (r1, hashIndex E k (htAt d 1))"
      "case r1 of Some e \<Rightarrow> validRef d e \<and> de_key (refEntry d e) = k
             | None \<Rightarrow> k \<notin> de_key ` set (concat (ht_table (htAt d 1)))"
      using searchTable_ok [OF cmp t1, of k] True by auto
    have "set (entries d) = set (concat (ht_table (htAt d 0))) \<union> set (concat (ht_table (htAt d 1)))"
      by (simp add: entries_def htAt_def)
    with True r0 r1 show ?thesis by (auto simp: searchKey_def split: option.splits)
  qed
qed

section \<open>Changes of one bucket\<close>

lemma htAt_updHt: "htAt (updHt t f d) t = f (htAt d t)"
  by (simp add: htAt_def updHt_def)

lemma updHt_keeps [simp]:
  "d_rehashidx (updHt t f d) = d_rehashidx d" "d_pauserehash (updHt t f d) = d_pauserehash d"
  "dictIsRehashing (updHt t f d) = dictIsRehashing d"
  by (simp_all add: updHt_def dictIsRehashing_def)

lemma dictInv_bucket:
  assumes inv: "dictInv E d" and i: "i < ht_size (htAt d t)" and t: "t = 0 \<or> t = 1 \<and> dictIsRehashing d"
    and keys: "\<forall>e \<in> set es. hashIndex E (de_key e) (htAt d t) = i"
    and used: "f (htAt d t) + length (ht_table (htAt d t) ! i) = ht_used (htAt d t) + length es"
    and moved: "t = 0 \<and> dictIsRehashing d \<and> es \<noteq> [] \<Longrightarrow> ht_table (htAt d t) ! i \<noteq> []"
    and dist: "distinct (map de_key (entries (updHt t (\<lambda>ht. (setBucket i es ht)\<lparr>ht_used := f ht\<rparr>) d)))"
  shows "dictInv E (updHt t (\<lambda>ht. (setBucket i es ht)\<lparr>ht_used := f ht\<rparr>) d)"
proof -
  have ok: "tableOk E (htAt d t)" using inv by (simp add: dictInv_def htAt_def)
  note new = tableOk_update [OF ok i keys used]
  have "dictIsRehashing d \<Longrightarrow> k < nat (d_rehashidx d) \<Longrightarrow> t = 0 \<Longrightarrow> (ht_table (d_ht0 d))[i := es] ! k = []" for k
    using inv moved by (cases "k = i"; cases "i < length (ht_table (d_ht0 d))") (auto simp: dictInv_def htAt_def list_update_beyond)
  with inv t new dist show ?thesis
    by (auto simp: dictInv_def updHt_def htAt_def dictIsRehashing_def)
qed

lemma dictSetVal_ok:
  assumes inv: "dictInv E d" and r: "validRef d r"
  obtains d' where "dictSetVal d r v = Some d'" and "dictInv E d'" and "d_pauserehash d' = d_pauserehash d"
    and "contents d' = (contents d)(de_key (refEntry d r) \<mapsto> v)" and "dictCount d' = dictCount d"
proof -
  obtain t i p where r': "r = (t, i, p)" by (metis prod_cases3)
  let ?c = "ht_table (htAt d t) ! i"
  let ?es = "?c[p := (?c ! p)\<lparr>de_val := v\<rparr>]"
  have ok: "tableOk E (htAt d t)" using inv by (simp add: dictInv_def htAt_def)
  then have len: "length (ht_table (htAt d t)) = ht_size (htAt d t)" by (simp add: tableOk_def)
  have i: "i < ht_size (htAt d t)" "p < length ?c" "t = 0 \<or> t = 1 \<and> dictIsRehashing d"
    using r r' len by (auto simp: validRef_def)
  let ?d = "updHt t (\<lambda>ht. (setBucket i ?es ht)\<lparr>ht_used := ht_used ht\<rparr>) d"
  define rest where "rest = mset ?c - {#?c ! p#}"
  have "mset ?c = add_mset (?c ! p) rest" "mset ?es = add_mset ((?c ! p)\<lparr>de_val := v\<rparr>) rest"
    using i(2) by (simp_all add: rest_def mset_update)
  moreover have "ents ?d + mset ?c = ents d + mset ?es"
    by (rule ents_updHt) (use i len in simp)
  ultimately have ms: "ents ?d + {#?c ! p#} = ents d + {#(?c ! p)\<lparr>de_val := v\<rparr>#}" by simp
  from arg_cong [OF ms, of "image_mset de_key"]
  have same: "mset (map de_key (entries ?d)) = mset (map de_key (entries d))" by simp
  have dist: "distinct (map de_key (entries ?d))"
    using mset_eq_imp_distinct_iff [OF same] inv by (simp add: dictInv_def)
  have "\<forall>e \<in> set ?c. hashIndex E (de_key e) (htAt d t) = i"
    using ok i(1) by (simp add: tableOk_def)
  then have "\<forall>e \<in> set ?es. hashIndex E (de_key e) (htAt d t) = i"
    using i(2) subsetD [OF set_update_subset_insert [of ?c p "(?c ! p)\<lparr>de_val := v\<rparr>"]] by fastforce
  then have inv': "dictInv E ?d"
    by (intro dictInv_bucket [OF inv i(1,3)] dist) (use i in auto)
  have e: "refEntry d r = ?c ! p" by (simp add: refEntry_def r')
  have "contents ?d = (contents d)(de_key (refEntry d r) \<mapsto> v)"
    using contents_set [OF inv inv' ms _ refEntry_in [OF r, unfolded e]] by (simp add: e)
  moreover have "dictCount ?d = dictCount d"
    using arg_cong [OF ms, of size] by (simp add: dictCount_ents [OF inv] dictCount_ents [OF inv'])
  moreover have "dictSetVal d r v = Some ?d"
    using i len by (simp add: dictSetVal_def r' bucket_Some) (simp add: setBucket_def updHt_def)
  ultimately show thesis using that inv' by simp
qed

section \<open>The operations on the contents\<close>


lemma refEntry_contents:
  assumes "dictInv E d" and "validRef d r"
  shows "contents d (de_key (refEntry d r)) = Some (de_val (refEntry d r))"
proof -
  have "refEntry d r \<in> set (entries d)" using refEntry_in [OF assms(2)] by simp
  then have "(de_key (refEntry d r), de_val (refEntry d r)) \<in> set (map (\<lambda>e. (de_key e, de_val e)) (entries d))"
    by simp
  then show ?thesis
    unfolding contents_map entriesMap_def
    by (rule map_of_is_SomeI [rotated]) (use assms(1) in \<open>simp add: dictInv_def comp_def\<close>)
qed

lemma dictInv_size: "dictInv E d \<Longrightarrow> dictCount d \<noteq> 0 \<Longrightarrow> 0 < ht_size (d_ht0 d)"
  by (auto simp: dictInv_def dictCount_def tableOk_def dictReset_def split: if_splits)

lemma dictAddRaw_ok:
  assumes cmp: "byContent E" and inv: "dictInv E d" and room: "dictCount d < 2 ^ 60"
  shows "\<exists>d' r. dictAddRaw E d k = Some (d', r) \<and> dictInv E d' \<and> d_pauserehash d' = d_pauserehash d \<and>
    (case r of
       Inr e \<Rightarrow> contents d k = None \<and> validRef d' e \<and> de_key (refEntry d' e) = k \<and>
         contents d' = (contents d)(k \<mapsto> freshVal E) \<and> dictCount d' = Suc (dictCount d)
     | Inl (Some e) \<Rightarrow> contents d k \<noteq> None \<and> validRef d' e \<and> de_key (refEntry d' e) = k \<and>
         contents d' = contents d \<and> dictCount d' = dictCount d
     | Inl None \<Rightarrow> False)"
proof -
  obtain d1 where d1: "stepIfRehashing E d = Some d1" and same: "sameContents E d d1"
    using stepIfRehashing_ok [OF inv] by blast
  have inv1: "dictInv E d1" using same by (simp add: sameContents_def)
  have "dictCount d1 < 2 ^ 60" using sameContents_count [OF inv same] room by simp
  from dictExpandIfNeeded_ok [OF inv1 this] obtain d2 where
    d2: "dictExpandIfNeeded E d1 = (d2, DICT_OK)" and inv2: "dictInv E d2" and ent: "entries d2 = entries d1"
    and pause: "d_pauserehash d2 = d_pauserehash d1" and pos: "0 < ht_size (d_ht0 d2)" by blast
  have cont: "contents d2 = contents d" "dictCount d2 = dictCount d"
    using sameContents_map [OF inv same] sameContents_count [OF inv same] ent
    by (simp_all add: contents_def dictCount_ents [OF inv1] dictCount_ents [OF inv2])
  have pause': "d_pauserehash d2 = d_pauserehash d" using pause same by (simp add: sameContents_def)
  from searchKey_ok [OF cmp inv2 pos, of k] obtain r idx where
    s: "searchKey E k d2 = Some (r, idx)" and
    found: "case r of Some e \<Rightarrow> validRef d2 e \<and> de_key (refEntry d2 e) = k
      | None \<Rightarrow> k \<notin> de_key ` set (entries d2) \<and> idx = hashIndex E k (htAt d2 (if dictIsRehashing d2 then 1 else 0))"
    by blast
  show ?thesis
  proof (cases r)
    case (Some e)
    then have "contents d2 k \<noteq> None"
      using refEntry_contents [OF inv2, of e] found by auto
    with Some show ?thesis
      using d1 d2 s found inv2 cont pause' by (simp add: dictAddRaw_def dictKeyIndex_def)
  next
    case None
    define t where "t = (if dictIsRehashing d2 then 1 else 0 :: nat)"
    let ?e = "\<lparr>de_key = k, de_val = freshVal E\<rparr>"
    let ?c = "ht_table (htAt d2 t) ! idx"
    let ?d = "updHt t (\<lambda>ht. (setBucket idx (?e # ?c) ht)\<lparr>ht_used := ht_used ht + 1\<rparr>) d2"
    have absent: "k \<notin> de_key ` set (entries d2)" and idx: "idx = hashIndex E k (htAt d2 t)"
      using None found by (simp_all add: t_def)
    have t: "t = 0 \<or> t = 1 \<and> dictIsRehashing d2" by (simp add: t_def)
    have ok: "tableOk E (htAt d2 t)" "0 < ht_size (htAt d2 t)"
      using inv2 pos by (auto simp: dictInv_def htAt_def t_def)
    then have i: "idx < ht_size (htAt d2 t)" and len: "length (ht_table (htAt d2 t)) = ht_size (htAt d2 t)"
      using hashIndex_bound [OF ok] idx by (simp_all add: tableOk_def)
    have "ents ?d + mset ?c = ents d2 + mset (?e # ?c)" by (rule ents_updHt) (use i len in simp)
    then have ms: "ents ?d = add_mset ?e (ents d2)" by simp
    from arg_cong [OF this, of "image_mset de_key"]
    have same': "mset (map de_key (entries ?d)) = mset (map de_key (?e # entries d2))" by simp
    have dist: "distinct (map de_key (entries ?d))"
      using mset_eq_imp_distinct_iff [OF same'] inv2 absent by (simp add: dictInv_def)
    have "\<forall>e \<in> set (?e # ?c). hashIndex E (de_key e) (htAt d2 t) = idx"
      using ok i idx by (auto simp: tableOk_def)
    then have inv': "dictInv E ?d"
      by (intro dictInv_bucket [OF inv2 i t] dist) (auto simp: t_def)
    have "contents ?d = (contents d)(k \<mapsto> freshVal E)"
      using contents_added [OF inv' ms] cont by simp
    moreover have "dictCount ?d = Suc (dictCount d)"
      using arg_cong [OF ms, of size] unfolding cont(2) [symmetric] dictCount_ents [OF inv'] dictCount_ents [OF inv2]
      by simp
    moreover have "contents d k = None"
      unfolding cont(1) [symmetric] using absent by (simp add: entriesMap_None contents_map)
    moreover have "validRef ?d (t, idx, 0)" "de_key (refEntry ?d (t, idx, 0)) = k"
      using i len t by (auto simp: validRef_def refEntry_def htAt_updHt)
    moreover have "dictAddRaw E d k = Some (?d, Inr (t, idx, 0))"
      using d1 d2 s None i len by (simp add: dictAddRaw_def dictKeyIndex_def bucket_Some Let_def t_def)
    ultimately show ?thesis using inv' pause' by simp
  qed
qed

lemma dictPut_ok:
  assumes "byContent E" and "dictInv E d" and "dictCount d < 2 ^ 60"
  shows "\<exists>d'. dictPut E d k v = Some (d', contents d k = None) \<and> dictInv E d' \<and> d_pauserehash d' = d_pauserehash d \<and>
    contents d' = (contents d)(k \<mapsto> v) \<and>
    dictCount d' = (if contents d k = None then Suc (dictCount d) else dictCount d)"
proof -
  obtain d1 r where d1: "dictAddRaw E d k = Some (d1, r)" "dictInv E d1" "d_pauserehash d1 = d_pauserehash d"
    and r: "case r of
       Inr e \<Rightarrow> contents d k = None \<and> validRef d1 e \<and> de_key (refEntry d1 e) = k \<and>
         contents d1 = (contents d)(k \<mapsto> freshVal E) \<and> dictCount d1 = Suc (dictCount d)
     | Inl (Some e) \<Rightarrow> contents d k \<noteq> None \<and> validRef d1 e \<and> de_key (refEntry d1 e) = k \<and>
         contents d1 = contents d \<and> dictCount d1 = dictCount d
     | Inl None \<Rightarrow> False"
    using dictAddRaw_ok [OF assms, of k] by blast
  then obtain e where e: "r = Inr e \<or> r = Inl (Some e)" by (auto split: sum.splits option.splits)
  then have "validRef d1 e" using r by auto
  from dictSetVal_ok [OF d1(2) this, of v] obtain d2 where
    "dictSetVal d1 e v = Some d2" "dictInv E d2" "d_pauserehash d2 = d_pauserehash d1"
    "contents d2 = (contents d1)(de_key (refEntry d1 e) \<mapsto> v)" "dictCount d2 = dictCount d1" .
  then show ?thesis using e r d1 by (auto simp: dictPut_def)
qed

lemma dictAdd_ok:
  assumes "byContent E" and "dictInv E d" and "dictCount d < 2 ^ 60"
  shows "\<exists>d'. dictAdd E d k v = Some (d', if contents d k = None then DICT_OK else DICT_ERR) \<and> dictInv E d' \<and>
    d_pauserehash d' = d_pauserehash d \<and>
    contents d' = (if contents d k = None then (contents d)(k \<mapsto> v) else contents d) \<and>
    dictCount d' = (if contents d k = None then Suc (dictCount d) else dictCount d)"
proof -
  obtain d1 r where d1: "dictAddRaw E d k = Some (d1, r)" "dictInv E d1" "d_pauserehash d1 = d_pauserehash d"
    and r: "case r of
       Inr e \<Rightarrow> contents d k = None \<and> validRef d1 e \<and> de_key (refEntry d1 e) = k \<and>
         contents d1 = (contents d)(k \<mapsto> freshVal E) \<and> dictCount d1 = Suc (dictCount d)
     | Inl (Some e) \<Rightarrow> contents d k \<noteq> None \<and> validRef d1 e \<and> de_key (refEntry d1 e) = k \<and>
         contents d1 = contents d \<and> dictCount d1 = dictCount d
     | Inl None \<Rightarrow> False"
    using dictAddRaw_ok [OF assms, of k] by blast
  show ?thesis
  proof (cases r)
    case (Inl x)
    then show ?thesis using d1 r by (auto simp: dictAdd_def split: option.splits)
  next
    case (Inr e)
    then have "validRef d1 e" using r by auto
    from dictSetVal_ok [OF d1(2) this, of v] obtain d2 where
      "dictSetVal d1 e v = Some d2" "dictInv E d2" "d_pauserehash d2 = d_pauserehash d1"
      "contents d2 = (contents d1)(de_key (refEntry d1 e) \<mapsto> v)" "dictCount d2 = dictCount d1" .
    then show ?thesis using Inr r d1 by (auto simp: dictAdd_def)
  qed
qed

lemma unlinkEntry_ok:
  assumes inv: "dictInv E d" and r: "validRef d r"
  shows "\<exists>d'. unlinkEntry r d = Some (d', refEntry d r) \<and> dictInv E d' \<and> d_pauserehash d' = d_pauserehash d \<and>
    contents d' = (contents d)(de_key (refEntry d r) := None) \<and> Suc (dictCount d') = dictCount d"
proof -
  obtain t i p where r': "r = (t, i, p)" by (metis prod_cases3)
  let ?c = "ht_table (htAt d t) ! i"
  let ?es = "take p ?c @ drop (Suc p) ?c"
  have ok: "tableOk E (htAt d t)" using inv by (simp add: dictInv_def htAt_def)
  then have len: "length (ht_table (htAt d t)) = ht_size (htAt d t)" by (simp add: tableOk_def)
  have i: "i < ht_size (htAt d t)" "p < length ?c" "t = 0 \<or> t = 1 \<and> dictIsRehashing d"
    using r r' len by (auto simp: validRef_def)
  let ?d = "updHt t (\<lambda>ht. (setBucket i ?es ht)\<lparr>ht_used := ht_used ht - 1\<rparr>) d"
  have c: "mset ?c = add_mset (?c ! p) (mset ?es)"
    using id_take_nth_drop [OF i(2)] by (metis mset.simps(2) mset_append union_mset_add_mset_right)
  have "ents ?d + mset ?c = ents d + mset ?es" by (rule ents_updHt) (use i len in simp)
  then have ms: "ents d = add_mset (?c ! p) (ents ?d)" unfolding c by (simp add: union_assoc)
  from arg_cong [OF this, of "image_mset de_key"]
  have same: "mset (map de_key (entries d)) = mset (map de_key (?c ! p # entries ?d))" by simp
  have dist: "distinct (map de_key (entries ?d))"
    using mset_eq_imp_distinct_iff [OF same] inv by (simp add: dictInv_def)
  have sub: "set ?es \<subseteq> set ?c" by (auto dest: in_set_takeD in_set_dropD)
  then have keys: "\<forall>e \<in> set ?es. hashIndex E (de_key e) (htAt d t) = i"
    using ok i by (auto simp: tableOk_def)
  have "length ?c \<le> ht_used (htAt d t)"
    using length_concat_update [of i "ht_table (htAt d t)" "[]"] i len ok by (simp add: tableOk_def)
  then have inv': "dictInv E ?d"
    by (intro dictInv_bucket [OF inv i(1,3) keys] dist) (use i in auto)
  have "contents ?d = (contents d)(de_key (?c ! p) := None)" by (rule contents_removed [OF inv ms])
  moreover have "Suc (dictCount ?d) = dictCount d"
    using arg_cong [OF ms, of size] dictCount_ents [OF inv] dictCount_ents [OF inv'] by simp
  moreover have "unlinkEntry r d = Some (?d, ?c ! p)"
    using i len by (simp add: unlinkEntry_def r' bucket_Some)
  ultimately show ?thesis using inv' by (simp add: refEntry_def r')
qed

lemma steppedSearch_ok:
  assumes cmp: "byContent E" and inv: "dictInv E d" and "dictCount d \<noteq> 0"
  shows "\<exists>d1 r idx. stepIfRehashing E d = Some d1 \<and> sameContents E d d1 \<and> searchKey E k d1 = Some (r, idx) \<and>
    (case r of Some e \<Rightarrow> validRef d1 e \<and> de_key (refEntry d1 e) = k
      | None \<Rightarrow> k \<notin> de_key ` set (entries d1))"
proof -
  obtain d1 where d1: "stepIfRehashing E d = Some d1" and same: "sameContents E d d1"
    using stepIfRehashing_ok [OF inv] by blast
  have inv1: "dictInv E d1" using same by (simp add: sameContents_def)
  have "0 < ht_size (d_ht0 d1)"
    using dictInv_size [OF inv1] sameContents_count [OF inv same] assms(3) by simp
  from searchKey_ok [OF cmp inv1 this, of k] show ?thesis
    using d1 same by (fastforce split: option.splits)
qed

lemma dictGenericDelete_ok:
  assumes cmp: "byContent E" and inv: "dictInv E d"
  shows "\<exists>d' he. dictGenericDelete E d k = Some (d', he) \<and> dictInv E d' \<and> d_pauserehash d' = d_pauserehash d \<and>
    map_option de_val he = contents d k \<and> contents d' = (contents d)(k := None) \<and>
    dictCount d' = (if contents d k = None then dictCount d else dictCount d - 1)"
proof (cases "dictCount d = 0")
  case True
  then have "entries d = []" using dictCount_ents [OF inv] by simp
  then have "contents d = Map.empty" by (simp add: contents_map)
  with True inv show ?thesis by (simp add: dictGenericDelete_def dictCount_def)
next
  case False
  obtain d1 r idx where d1: "stepIfRehashing E d = Some d1" and same: "sameContents E d d1"
    and s: "searchKey E k d1 = Some (r, idx)" and
    found: "case r of Some e \<Rightarrow> validRef d1 e \<and> de_key (refEntry d1 e) = k
      | None \<Rightarrow> k \<notin> de_key ` set (entries d1)"
    using steppedSearch_ok [OF cmp inv False, of k] by blast
  have inv1: "dictInv E d1" "d_pauserehash d1 = d_pauserehash d" using same by (simp_all add: sameContents_def)
  have cont: "contents d1 = contents d" "dictCount d1 = dictCount d"
    using sameContents_map [OF inv same] sameContents_count [OF inv same] by simp_all
  have del: "dictGenericDelete E d k = (case r of None \<Rightarrow> Some (d1, None)
       | Some e \<Rightarrow> do { (d2, he) \<leftarrow> unlinkEntry e d1; Some (d2, Some he) })"
    using False d1 s by (auto simp: dictGenericDelete_def dictCount_def)
  show ?thesis
  proof (cases r)
    case None
    then have "contents d1 k = None" using found by (simp add: contents_map entriesMap_None)
    then show ?thesis using None del inv1 cont by (simp add: fun_upd_idem)
  next
    case (Some e)
    then have e: "validRef d1 e" "de_key (refEntry d1 e) = k" using found by simp_all
    from unlinkEntry_ok [OF inv1(1) e(1)] refEntry_contents [OF inv1(1) e(1)]
    show ?thesis using Some del inv1 cont e by auto
  qed
qed

lemma dictFetchValue_ok:
  assumes cmp: "byContent E" and inv: "dictInv E d"
  shows "\<exists>d'. dictFetchValue E d k = Some (d', contents d k) \<and> sameContents E d d'"
proof (cases "dictCount d = 0")
  case True
  then have "entries d = []" using dictCount_ents [OF inv] by simp
  then have "contents d = Map.empty" by (simp add: contents_map)
  with True inv show ?thesis by (simp add: dictFetchValue_def dictLookup_def sameContents_def)
next
  case False
  obtain d1 r idx where d1: "stepIfRehashing E d = Some d1" and same: "sameContents E d d1"
    and s: "searchKey E k d1 = Some (r, idx)" and
    found: "case r of Some e \<Rightarrow> validRef d1 e \<and> de_key (refEntry d1 e) = k
      | None \<Rightarrow> k \<notin> de_key ` set (entries d1)"
    using steppedSearch_ok [OF cmp inv False, of k] by blast
  have inv1: "dictInv E d1" "d_pauserehash d1 = d_pauserehash d" using same by (simp_all add: sameContents_def)
  have cont: "contents d1 = contents d" "dictCount d1 = dictCount d"
    using sameContents_map [OF inv same] sameContents_count [OF inv same] by simp_all
  have look: "dictLookup E d k = Some (d1, r)" using False d1 s by (simp add: dictLookup_def)
  show ?thesis
  proof (cases r)
    case None
    then have "contents d1 k = None" using found by (simp add: contents_map entriesMap_None)
    then have "contents d k = None" using cont by simp
    then show ?thesis using None look same by (simp add: dictFetchValue_def)
  next
    case (Some e)
    then have e: "validRef d1 e" "de_key (refEntry d1 e) = k" using found by simp_all
    then have "dictGetVal d1 e = Some (de_val (refEntry d1 e))"
      by (auto simp: dictGetVal_def validRef_def refEntry_def bucket_Some)
    then show ?thesis
      using Some look same refEntry_contents [OF inv1(1) e(1)] e cont by (simp add: dictFetchValue_def)
  qed
qed

lemma dictCreate_ok: "dictInv E dictCreate" "contents dictCreate = Map.empty" "dictCount dictCreate = 0"
  by (simp_all add: dictInv_def dictCreate_def dictIsRehashing_def tableOk_reset contents_map entries_def
      dictCount_def) (simp_all add: dictReset_def)

section \<open>Whole runs\<close>

text \<open>
  The calls that clients make, with \<^verbatim>\<open>dictEnableResize\<close> and \<^verbatim>\<open>dictDisableResize\<close> (\<open>CanResize\<close>) and the
  pauses of iterators; \<open>Answer\<close> is what a caller sees of the contents.
\<close>

datatype ('k, 'v) dictCall =
    CReplace 'k 'v
  | CAdd 'k 'v
  | CDelete 'k
  | CUnlink 'k
  | CFetch 'k
  | CRehash nat
  | CResize
  | CExpand nat
  | CCanResize bool
  | CPause
  | CResume
  | CEmpty

datatype 'v dictAnswer = ADone | ABool bool | AVal "'v option"

definition callBounded :: "('k, 'v) dictCall \<Rightarrow> bool" where
  "callBounded c = (case c of CExpand sz \<Rightarrow> sz \<le> 2 ^ 60 | _ \<Rightarrow> True)"

fun runCall ::
  "('k, 'v) dictCall \<Rightarrow> ('k, 'v) dictEnv \<times> ('k, 'v) dictRec \<Rightarrow>
   ((('k, 'v) dictEnv \<times> ('k, 'v) dictRec) \<times> 'v dictAnswer) option" where
  "runCall (CReplace k v) (E, d) = do { (d', b) \<leftarrow> dictPut E d k v; Some ((E, d'), ABool b) }"
| "runCall (CAdd k v) (E, d) = do { (d', r) \<leftarrow> dictAdd E d k v; Some ((E, d'), ABool (r = DICT_OK)) }"
| "runCall (CDelete k) (E, d) = do { (d', r) \<leftarrow> dictRemove E d k; Some ((E, d'), ABool (r = DICT_OK)) }"
| "runCall (CUnlink k) (E, d) =
     do { (d', he) \<leftarrow> dictGenericDelete E d k; Some ((E, d'), AVal (map_option de_val he)) }"
| "runCall (CFetch k) (E, d) = do { (d', v) \<leftarrow> dictFetchValue E d k; Some ((E, d'), AVal v) }"
| "runCall (CRehash n) (E, d) = do { (d', more) \<leftarrow> dictRehash E n d; Some ((E, d'), ADone) }"
| "runCall CResize (E, d) = Some ((E, fst (dictResize E d)), ADone)"
| "runCall (CExpand sz) (E, d) = Some ((E, fst (dictExpand d sz)), ADone)"
| "runCall (CCanResize b) (E, d) = Some ((E\<lparr>dict_can_resize := b\<rparr>, d), ADone)"
| "runCall CPause (E, d) = Some ((E, d\<lparr>d_pauserehash := d_pauserehash d + 1\<rparr>), ADone)"
| "runCall CResume (E, d) = Some ((E, d\<lparr>d_pauserehash := d_pauserehash d - 1\<rparr>), ADone)"
| "runCall CEmpty (E, d) = Some ((E, dictEmpty d), ADone)"

text \<open>The specification: a partial map.\<close>

fun mapCall :: "('k, 'v) dictCall \<Rightarrow> ('k \<Rightarrow> 'v option) \<Rightarrow> ('k \<Rightarrow> 'v option) \<times> 'v dictAnswer" where
  "mapCall (CReplace k v) m = (m(k \<mapsto> v), ABool (m k = None))"
| "mapCall (CAdd k v) m = (if m k = None then m(k \<mapsto> v) else m, ABool (m k = None))"
| "mapCall (CDelete k) m = (m(k := None), ABool (m k \<noteq> None))"
| "mapCall (CUnlink k) m = (m(k := None), AVal (m k))"
| "mapCall (CFetch k) m = (m, AVal (m k))"
| "mapCall CEmpty m = (Map.empty, ADone)"
| "mapCall _ m = (m, ADone)"

primrec runCalls ::
  "('k, 'v) dictCall list \<Rightarrow> ('k, 'v) dictEnv \<times> ('k, 'v) dictRec \<Rightarrow>
   ((('k, 'v) dictEnv \<times> ('k, 'v) dictRec) \<times> 'v dictAnswer list) option" where
  "runCalls [] s = Some (s, [])"
| "runCalls (c # cs) s = do { (s1, a) \<leftarrow> runCall c s; (s2, as) \<leftarrow> runCalls cs s1; Some (s2, a # as) }"

primrec mapCalls :: "('k, 'v) dictCall list \<Rightarrow> ('k \<Rightarrow> 'v option) \<Rightarrow> ('k \<Rightarrow> 'v option) \<times> 'v dictAnswer list" where
  "mapCalls [] m = (m, [])"
| "mapCalls (c # cs) m = (let (m1, a) = mapCall c m; (m2, as) = mapCalls cs m1 in (m2, a # as))"

lemma hashIndex_env: "hashFunction E = hashFunction E' \<Longrightarrow> hashIndex E k ht = hashIndex E' k ht"
  by (simp add: hashIndex_def)

lemma dictInv_env: "hashFunction E = hashFunction E' \<Longrightarrow> dictInv E d = dictInv E' d"
  by (simp add: dictInv_def tableOk_def hashIndex_def)

lemma dictInv_pause: "dictInv E (d\<lparr>d_pauserehash := n\<rparr>) = dictInv E d"
  by (simp add: dictInv_def entries_def dictIsRehashing_def)

lemma contents_pause: "contents (d\<lparr>d_pauserehash := n\<rparr>) = contents d"
  by (simp add: contents_def entries_def)

lemma dictExpand_contents:
  assumes "dictInv E d" and "sz \<le> 2 ^ 60"
  shows "dictInv E (fst (dictExpand d sz)) \<and> contents (fst (dictExpand d sz)) = contents d
    \<and> dictCount (fst (dictExpand d sz)) = dictCount d"
proof (cases "dictIsRehashing d")
  case True
  then show ?thesis using assms by (simp add: dictExpand_def dictExpandTrial_def)
next
  case False
  note grown = dictExpand_ok [OF assms False]
  then have "dictCount (fst (dictExpand d sz)) = dictCount d"
    using dictCount_ents [OF assms(1)] dictCount_ents [of E "fst (dictExpand d sz)"] by simp
  with grown show ?thesis by (simp add: contents_def)
qed

lemma dictEmpty_Create: "dictEmpty d = dictCreate"
  by (simp add: dictEmpty_def dictCreate_def)

lemma dictGenericDelete_seen:
  assumes "byContent E" and "dictInv E d"
  obtains d' he where "dictGenericDelete E d k = Some (d', he)" and "dictInv E d'" and "contents d k = map_option de_val he"
    and "contents d' = (contents d)(k := None)" and "dictCount d' \<le> Suc (dictCount d)"
  using dictGenericDelete_ok [OF assms, of k] that by (fastforce split: if_splits)

lemma runCall_ok:
  assumes cmp: "byContent E" and inv: "dictInv E d" and room: "dictCount d < 2 ^ 60" and c: "callBounded c"
  shows "\<exists>E' d'. runCall c (E, d) = Some ((E', d'), snd (mapCall c (contents d))) \<and> byContent E' \<and> dictInv E' d' \<and>
    contents d' = fst (mapCall c (contents d)) \<and> dictCount d' \<le> Suc (dictCount d)"
proof (cases c)
  case (CReplace k v)
  then show ?thesis using dictPut_ok [OF cmp inv room, of k v] cmp by auto
next
  case (CAdd k v)
  then show ?thesis using dictAdd_ok [OF cmp inv room, of k v] cmp by auto
next
  case (CDelete k)
  obtain d' he where "dictGenericDelete E d k = Some (d', he)" "dictInv E d'" "contents d k = map_option de_val he"
    "contents d' = (contents d)(k := None)" "dictCount d' \<le> Suc (dictCount d)"
    using dictGenericDelete_seen [OF cmp inv] .
  with CDelete cmp show ?thesis by (cases he) (auto simp: dictRemove_def)
next
  case (CUnlink k)
  obtain d' he where "dictGenericDelete E d k = Some (d', he)" "dictInv E d'" "contents d k = map_option de_val he"
    "contents d' = (contents d)(k := None)" "dictCount d' \<le> Suc (dictCount d)"
    using dictGenericDelete_seen [OF cmp inv] .
  with CUnlink cmp show ?thesis by auto
next
  case (CFetch k)
  obtain d' where "dictFetchValue E d k = Some (d', contents d k)" "sameContents E d d'"
    using dictFetchValue_ok [OF cmp inv] by blast
  with CFetch cmp show ?thesis
    using sameContents_map [OF inv] sameContents_count [OF inv] by (auto simp: sameContents_def)
next
  case (CRehash n)
  obtain d' b where "dictRehash E n d = Some (d', b)" "sameContents E d d'"
    using dictRehash_ok [OF inv] by blast
  with CRehash cmp show ?thesis
    using sameContents_map [OF inv] sameContents_count [OF inv] by (auto simp: sameContents_def)
next
  case CResize
  have "max (ht_used (d_ht0 d)) DICT_HT_INITIAL_SIZE \<le> 2 ^ 60"
    using room by (simp add: dictCount_def DICT_HT_INITIAL_SIZE_def)
  from dictExpand_contents [OF inv this] CResize cmp inv show ?thesis
    by (auto simp: dictResize_def Let_def)
next
  case (CExpand sz)
  with c have "sz \<le> 2 ^ 60" by (simp add: callBounded_def)
  from dictExpand_contents [OF inv this] CExpand cmp show ?thesis by auto
next
  case (CCanResize b)
  have "byContent (E\<lparr>dict_can_resize := b\<rparr>)" "dictInv (E\<lparr>dict_can_resize := b\<rparr>) d"
    using cmp inv dictInv_env [of E "E\<lparr>dict_can_resize := b\<rparr>" d] by (simp_all add: byContent_def)
  with CCanResize show ?thesis by simp
next
  case CPause
  with cmp inv show ?thesis by (simp add: dictInv_pause contents_pause dictCount_def)
next
  case CResume
  with cmp inv show ?thesis by (simp add: dictInv_pause contents_pause dictCount_def)
next
  case CEmpty
  with cmp show ?thesis by (simp add: dictEmpty_Create dictCreate_ok)
qed

lemma runCalls_ok:
  assumes "byContent E" and "dictInv E d" and "dictCount d + length cs \<le> 2 ^ 60" and "list_all callBounded cs"
  shows "\<exists>E' d'. runCalls cs (E, d) = Some ((E', d'), snd (mapCalls cs (contents d))) \<and> dictInv E' d' \<and>
    contents d' = fst (mapCalls cs (contents d))"
  using assms
proof (induction cs arbitrary: E d)
  case Nil
  then show ?case by auto
next
  case (Cons c cs)
  then have "dictCount d < 2 ^ 60" "callBounded c" by simp_all
  from runCall_ok [OF Cons.prems(1,2) this] obtain E1 d1 where
    d1: "runCall c (E, d) = Some ((E1, d1), snd (mapCall c (contents d)))" "byContent E1" "dictInv E1 d1"
      "contents d1 = fst (mapCall c (contents d))" "dictCount d1 \<le> Suc (dictCount d)" by blast
  have "dictCount d1 + length cs \<le> 2 ^ 60" "list_all callBounded cs" using Cons.prems d1(5) by simp_all
  from Cons.IH [OF d1(2,3) this] show ?case
    using d1 by (auto simp: case_prod_beta Let_def)
qed

text \<open>
  C9. Whatever calls are made on a dictionary, in any order with rehashing, growth, shrinking and pauses
  in between, it never reads or writes outside of its tables, and every answer is that of a partial
  map with the same calls. The bounds are those of the memory: fewer than 2 ^ 60 entries, and no
  dictExpand beyond 2 ^ 60 buckets.
\<close>

theorem hash_table_is_a_map:
  assumes "byContent E" and "length calls \<le> 2 ^ 60" and "list_all callBounded calls"
  shows "\<exists>E' d. runCalls calls (E, dictCreate) = Some ((E', d), snd (mapCalls calls Map.empty)) \<and>
    contents d = fst (mapCalls calls Map.empty) \<and> dictInv E' d"
  using runCalls_ok [OF assms(1) dictCreate_ok(1), of calls] assms(2,3)
  by (auto simp: dictCreate_ok(2,3))

definition modHash :: "(nat, nat) dictEnv" where
  "modHash = \<lparr>hashFunction = word_of_nat, keyCompare = (=), expandAllowed = None, dict_can_resize = True, freshVal = 0\<rparr>"

text \<open>Nine keys, two rounds of growth, with an iterator that pauses the rehashing on the way.\<close>

definition someCalls :: "(nat, nat) dictCall list" where
  "someCalls = map (\<lambda>k. CReplace (k * 5) k) [0..<5] @ [CPause, CDelete 10, CFetch 10, CResume, CReplace 15 7, CFetch 15]
    @ map (\<lambda>k. CAdd (k * 4) k) [0..<6] @ [CRehash 1, CUnlink 16, CResize, CFetch 16, CFetch 20]"

theorem hash_table_is_a_map_witness:
  "\<exists>E' d. runCalls someCalls (modHash, dictCreate) = Some ((E', d), snd (mapCalls someCalls Map.empty)) \<and>
    contents d = fst (mapCalls someCalls Map.empty) \<and> dictInv E' d"
  by (rule hash_table_is_a_map) (simp_all add: byContent_def modHash_def someCalls_def callBounded_def upt_conv_Cons)

section \<open>The contract of a dictionary\<close>

text \<open>
  A \<^verbatim>\<open>dictType\<close> that compares keys by content, as that of the node table, of the cached commands
  and of the members of a hot group: any hash function, no veto of the growth. The three operations of the
  contract are calls that ran without an access outside of the tables.
\<close>

definition contentEnv :: "('k \<Rightarrow> u64) \<Rightarrow> 'v \<Rightarrow> ('k, 'v) dictEnv" where
  "contentEnv h z = \<lparr>hashFunction = h, keyCompare = (=), expandAllowed = None, dict_can_resize = True, freshVal = z\<rparr>"

definition hashFind :: "('k \<Rightarrow> u64) \<Rightarrow> 'v \<Rightarrow> ('k, 'v) dictRec \<Rightarrow> 'k \<Rightarrow> 'v option" where
  "hashFind h z d k = snd (the (dictFetchValue (contentEnv h z) d k))"

definition hashPut :: "('k \<Rightarrow> u64) \<Rightarrow> 'v \<Rightarrow> ('k, 'v) dictRec \<Rightarrow> 'k \<Rightarrow> 'v \<Rightarrow> ('k, 'v) dictRec" where
  "hashPut h z d k v = fst (the (dictPut (contentEnv h z) d k v))"

definition hashRemove :: "('k \<Rightarrow> u64) \<Rightarrow> 'v \<Rightarrow> ('k, 'v) dictRec \<Rightarrow> 'k \<Rightarrow> ('k, 'v) dictRec" where
  "hashRemove h z d k = fst (the (dictRemove (contentEnv h z) d k))"

lemma byContent_contentEnv: "byContent (contentEnv h z)"
  by (simp add: byContent_def contentEnv_def)

lemma hashFind_contents: "dictInv (contentEnv h z) d \<Longrightarrow> hashFind h z d k = contents d k"
  using dictFetchValue_ok [OF byContent_contentEnv, of h z d k] by (auto simp: hashFind_def)

lemma hashPut_contents:
  assumes "dictInv (contentEnv h z) d" and "dictCount d < 2 ^ 60"
  shows "dictInv (contentEnv h z) (hashPut h z d k v)" "contents (hashPut h z d k v) = (contents d)(k \<mapsto> v)"
    "dictCount (hashPut h z d k v) = (if contents d k = None then Suc (dictCount d) else dictCount d)"
  using dictPut_ok [OF byContent_contentEnv assms, of k v] by (auto simp: hashPut_def)

lemma hashRemove_contents:
  assumes "dictInv (contentEnv h z) d"
  shows "dictInv (contentEnv h z) (hashRemove h z d k)" "contents (hashRemove h z d k) = (contents d)(k := None)"
    "dictCount (hashRemove h z d k) = (if contents d k = None then dictCount d else dictCount d - 1)"
  using dictGenericDelete_ok [OF byContent_contentEnv assms, of k] by (auto simp: hashRemove_def dictRemove_def)

interpretation hashed: dictionary "hashFind h z" "hashPut h z" "hashRemove h z" dictCount
    "dictInv (contentEnv h z)" "\<lambda>n. n < 2 ^ 60"
  for h :: "'k \<Rightarrow> u64" and z :: 'v
proof
  fix d :: "('k, 'v) dictRec" and k :: 'k and v :: 'v
  assume inv: "dictInv (contentEnv h z) d" and found: "hashFind h z d k = Some v"
  show "0 < dictCount d"
  proof (rule ccontr)
    assume "\<not> 0 < dictCount d"
    then have "entries d = []" using dictCount_ents [OF inv] by simp
    then show False using found by (simp add: hashFind_contents [OF inv] contents_map)
  qed
qed (auto simp: hashFind_contents hashPut_contents hashRemove_contents)

text \<open>
  The entry lists that the model of the cluster uses and the hash table answer alike after the
  same puts.
\<close>

lemma hash_and_list_agree:
  assumes "length kvs < 2 ^ 60"
  shows "hashFind h z (fold (\<lambda>(k, v) d. hashPut h z d k v) kvs dictCreate) k =
    dictFind (fold (\<lambda>(k, v) d. dictReplace d k v) kvs []) k"
proof -
  have "hashFind h z dictCreate = Map.empty" "dictFind [] = (Map.empty :: 'a \<Rightarrow> 'b option)"
    using hashFind_contents [OF dictCreate_ok(1), of h z] by (auto simp: dictCreate_ok(2) dictFind_def)
  then show ?thesis
    using hashed.fold_put [of h z dictCreate kvs] alist.fold_put [of "[]" kvs] assms
    by (simp add: dictCreate_ok dictOk_def)
qed

section \<open>The size of the memory\<close>

lemma callocTable_overflow:
  assumes "60 < n" and "n \<le> 63"
  shows "callocTable (2 ^ n) = []"
proof -
  have "n = 61 \<or> n = 62 \<or> n = 63" using assms by auto
  then show ?thesis by (auto simp: callocTable_def)
qed

lemma dictNextPower_any: "\<exists>c. 2 \<le> c \<and> c \<le> 63 \<and> dictNextPower sz = 2 ^ c \<and> (c \<le> 60 \<longleftrightarrow> sz \<le> 2 ^ 60)"
proof (cases "sz \<le> 2 ^ 60")
  case True
  then obtain c where "2 \<le> c" "c \<le> 60" "dictNextPower sz = 2 ^ c" using dictNextPower_power by blast
  with True show ?thesis by (intro exI [of _ c]) simp
next
  case False
  show ?thesis
  proof (cases "sz \<ge> LONG_MAX")
    case True
    then show ?thesis using False by (intro exI [of _ 63]) (simp add: dictNextPower_def LONG_MAX_def)
  next
    case small: False
    then have "sz \<le> 2 ^ 63" by (simp add: LONG_MAX_def)
    then obtain c where c: "2 \<le> c" "c \<le> 63" "nextPowerLoop (2 ^ 2) sz = 2 ^ c" "sz \<le> 2 ^ c"
      using nextPowerLoop_power [of 2 63 sz] by auto
    have "\<not> c \<le> 60"
      using c(4) False power_increasing [of c 60 "2::nat"] by auto
    with c small False show ?thesis by (auto simp: dictNextPower_def DICT_HT_INITIAL_SIZE_def)
  qed
qed


section \<open>Two tables for the examples\<close>

text \<open>A table with two entries, and one of three entries on the way from 4 to 8 buckets.\<close>

definition smallTable :: "(nat, nat) dictRec" where
  "smallTable = \<lparr>d_ht0 = \<lparr>ht_table = [[], [\<lparr>de_key = 1, de_val = 10\<rparr>], [], [\<lparr>de_key = 7, de_val = 70\<rparr>]],
      ht_size = 4, ht_sizemask = 3, ht_used = 2\<rparr>, d_ht1 = dictReset, d_rehashidx = -1, d_pauserehash = 0\<rparr>"

definition growingTable :: "(nat, nat) dictRec" where
  "growingTable = \<lparr>d_ht0 = \<lparr>ht_table = [[], [], [], [\<lparr>de_key = 7, de_val = 70\<rparr>]],
      ht_size = 4, ht_sizemask = 3, ht_used = 1\<rparr>,
    d_ht1 = \<lparr>ht_table = [[], [\<lparr>de_key = 1, de_val = 10\<rparr>], [], [], [], [\<lparr>de_key = 5, de_val = 50\<rparr>], [], []],
      ht_size = 8, ht_sizemask = 7, ht_used = 2\<rparr>, d_rehashidx = 2, d_pauserehash = 0\<rparr>"

lemma all_below: "(\<forall>i < numeral n. P i) \<longleftrightarrow> P (numeral n - 1) \<and> (\<forall>i < numeral n - 1. P (i :: nat))"
  by (simp add: numeral_eq_Suc All_less_Suc)

lemma sizes_of_powers: "\<exists>n \<le> 60. 2 ^ n = (4 :: nat) \<and> mask n = (3 :: u64)"
  "\<exists>n \<le> 60. 2 ^ n = (8 :: nat) \<and> mask n = (7 :: u64)"
proof -
  show "\<exists>n \<le> 60. 2 ^ n = (4 :: nat) \<and> mask n = (3 :: u64)"
    by (rule exI [of _ 2]) (simp add: mask_eq_exp_minus_1)
  show "\<exists>n \<le> 60. 2 ^ n = (8 :: nat) \<and> mask n = (7 :: u64)"
    by (rule exI [of _ 3]) (simp add: mask_eq_exp_minus_1)
qed

lemma smallTable_ok:
  "dictInv modHash smallTable" "contents smallTable 7 = Some 70"
  "ht_size (d_ht0 smallTable) = 4" "ht_size (d_ht1 smallTable) = 0"
  by (simp_all add: smallTable_def dictInv_def tableOk_def dictIsRehashing_def entries_def contents_def dictReset_def
      modHash_def hashIndex_def all_below sizes_of_powers)

lemma growingTable_ok:
  "dictInv modHash growingTable" "contents growingTable 7 = Some 70"
  "ht_size (d_ht0 growingTable) = 4" "ht_size (d_ht1 growingTable) = 8"
  by (simp_all add: growingTable_def dictInv_def tableOk_def dictIsRehashing_def entries_def contents_def dictReset_def
      modHash_def hashIndex_def all_below sizes_of_powers)

end
