(* ===== verification/DictScan.thy ===== *)
theory DictScan
  imports DictMap
begin

text \<open>
  \<^verbatim>\<open>dictScan\<close>, the iteration without a state behind SCAN: its cursor counts from the high bits down, so that it
  goes on when the table has grown or shrunk, or is being rehashed, between two calls. In the order
  of the reversed bits (\<open>place\<close>) a call covers a whole interval of hash values, whatever
  the size of the tables.
\<close>

section \<open>The reverse cursor\<close>

function revLoop :: "nat \<Rightarrow> u64 \<Rightarrow> u64 \<Rightarrow> u64" where
  "revLoop s msk v =
    (let s' = s div 2 in
     if s' > 0
     then let msk' = msk XOR push_bit s' msk;
              v' = (drop_bit s' v AND msk') OR (push_bit s' v AND NOT msk') in revLoop s' msk' v'
     else v)"
  by pat_completeness auto
termination by (relation "measure fst") auto

declare revLoop.simps [simp del]

definition revBits :: "u64 \<Rightarrow> u64" where
  "revBits v = revLoop 64 (NOT 0) v"

definition swapBits :: "nat \<Rightarrow> u64 \<Rightarrow> u64 \<Rightarrow> u64" where
  "swapBits s msk v = (drop_bit s v AND msk) OR (push_bit s v AND NOT msk)"

lemma revLoop_step: "0 < s \<Longrightarrow> revLoop (2 * s) msk v =
    revLoop s (msk XOR push_bit s msk) (swapBits s (msk XOR push_bit s msk) v)"
  by (simp add: revLoop.simps [of "2 * s"] Let_def swapBits_def)

lemma rev_masks:
  "(NOT 0 XOR push_bit 32 (NOT 0) :: u64) = 0xFFFFFFFF"
  "(0xFFFFFFFF XOR push_bit 16 0xFFFFFFFF :: u64) = 0xFFFF0000FFFF"
  "(0xFFFF0000FFFF XOR push_bit 8 0xFFFF0000FFFF :: u64) = 0xFF00FF00FF00FF"
  "(0xFF00FF00FF00FF XOR push_bit 4 0xFF00FF00FF00FF :: u64) = 0xF0F0F0F0F0F0F0F"
  "(0xF0F0F0F0F0F0F0F XOR push_bit 2 0xF0F0F0F0F0F0F0F :: u64) = 0x3333333333333333"
  "(0x3333333333333333 XOR push_bit 1 0x3333333333333333 :: u64) = 0x5555555555555555"
  by code_simp+

lemma revLoop_steps:
  "revLoop 64 (NOT 0) v = revLoop 32 0xFFFFFFFF (swapBits 32 0xFFFFFFFF v)"
  "revLoop 32 0xFFFFFFFF v = revLoop 16 0xFFFF0000FFFF (swapBits 16 0xFFFF0000FFFF v)"
  "revLoop 16 0xFFFF0000FFFF v = revLoop 8 0xFF00FF00FF00FF (swapBits 8 0xFF00FF00FF00FF v)"
  "revLoop 8 0xFF00FF00FF00FF v = revLoop 4 0xF0F0F0F0F0F0F0F (swapBits 4 0xF0F0F0F0F0F0F0F v)"
  "revLoop 4 0xF0F0F0F0F0F0F0F v = revLoop 2 0x3333333333333333 (swapBits 2 0x3333333333333333 v)"
  "revLoop 2 0x3333333333333333 v = revLoop 1 0x5555555555555555 (swapBits 1 0x5555555555555555 v)"
  "revLoop 1 msk v = v"
  using revLoop_step [of 32 "NOT 0" v, unfolded rev_masks] revLoop_step [of 16 "0xFFFFFFFF" v, unfolded rev_masks]
    revLoop_step [of 8 "0xFFFF0000FFFF" v, unfolded rev_masks]
    revLoop_step [of 4 "0xFF00FF00FF00FF" v, unfolded rev_masks]
    revLoop_step [of 2 "0xF0F0F0F0F0F0F0F" v, unfolded rev_masks]
    revLoop_step [of 1 "0x3333333333333333" v, unfolded rev_masks]
  by (simp_all add: revLoop.simps [of "Suc 0"])

lemma revBits_swaps:
  "revBits v = swapBits 1 0x5555555555555555 (swapBits 2 0x3333333333333333 (swapBits 4 0xF0F0F0F0F0F0F0F
     (swapBits 8 0xFF00FF00FF00FF (swapBits 16 0xFFFF0000FFFF (swapBits 32 0xFFFFFFFF v)))))"
  by (simp only: revBits_def revLoop_steps)

definition swapIndex :: "nat \<Rightarrow> nat \<Rightarrow> nat" where
  "swapIndex s n = (if even (n div s) then n + s else n - s)"

lemma swapBits_bit:
  assumes "list_all (\<lambda>n. bit msk n = even (n div s)) [0..<64]" and "n < 64" and "0 < s"
  shows "bit (swapBits s msk v) n \<longleftrightarrow> swapIndex s n < 64 \<and> bit v (swapIndex s n)"
proof -
  have "bit msk n = even (n div s)" using assms by (simp add: list_all_iff)
  moreover have "odd (n div s) \<Longrightarrow> s \<le> n" by (metis div_less even_zero not_less)
  ultimately show ?thesis
    using assms by (auto simp: swapBits_def swapIndex_def bit_simps add.commute dest: bit_imp_le_length)
qed

lemma mask_bits:
  "list_all (\<lambda>n. bit (0xFFFFFFFF :: u64) n = even (n div 32)) [0..<64]"
  "list_all (\<lambda>n. bit (0xFFFF0000FFFF :: u64) n = even (n div 16)) [0..<64]"
  "list_all (\<lambda>n. bit (0xFF00FF00FF00FF :: u64) n = even (n div 8)) [0..<64]"
  "list_all (\<lambda>n. bit (0xF0F0F0F0F0F0F0F :: u64) n = even (n div 4)) [0..<64]"
  "list_all (\<lambda>n. bit (0x3333333333333333 :: u64) n = even (n div 2)) [0..<64]"
  "list_all (\<lambda>n. bit (0x5555555555555555 :: u64) n = even (n div 1)) [0..<64]"
  by code_simp+

definition swapsOk :: "nat \<Rightarrow> bool" where
  "swapsOk n \<longleftrightarrow> swapIndex 1 n < 64 \<and> swapIndex 2 (swapIndex 1 n) < 64 \<and>
     swapIndex 4 (swapIndex 2 (swapIndex 1 n)) < 64 \<and>
     swapIndex 8 (swapIndex 4 (swapIndex 2 (swapIndex 1 n))) < 64 \<and>
     swapIndex 16 (swapIndex 8 (swapIndex 4 (swapIndex 2 (swapIndex 1 n)))) < 64 \<and>
     swapIndex 32 (swapIndex 16 (swapIndex 8 (swapIndex 4 (swapIndex 2 (swapIndex 1 n))))) = 63 - n"

lemma swapsOk_all: "list_all swapsOk [0..<64]"
  by (simp add: upt_conv_Cons swapsOk_def swapIndex_def)

lemma swapIndex_all: "n < 64 \<Longrightarrow> swapsOk n"
  using swapsOk_all by (simp add: list_all_iff)

text \<open>The loop reverses the 64 bits.\<close>

lemma bit_revBits:
  assumes "n < 64"
  shows "bit (revBits v) n = bit v (63 - n)"
proof -
  have "63 - n < 64" by simp
  with swapIndex_all [OF assms, unfolded swapsOk_def] assms show ?thesis
    by (simp add: revBits_swaps swapBits_bit [OF mask_bits(1)] swapBits_bit [OF mask_bits(2)]
      swapBits_bit [OF mask_bits(3)] swapBits_bit [OF mask_bits(4)] swapBits_bit [OF mask_bits(5)]
      swapBits_bit [OF mask_bits(6)] del: One_nat_def)
qed

lemma revBits_revBits: "revBits (revBits v) = v"
  by (rule bit_word_eqI) (simp add: bit_revBits)

lemma revBits_zero: "revBits v = 0 \<longleftrightarrow> v = 0"
proof
  have "revBits 0 = 0" by (rule bit_word_eqI) (simp add: bit_revBits)
  then show "v = 0 \<Longrightarrow> revBits v = 0" by simp
  from \<open>revBits 0 = 0\<close> show "revBits v = 0 \<Longrightarrow> v = 0" by (metis revBits_revBits)
qed

definition scanNext :: "u64 \<Rightarrow> u64 \<Rightarrow> u64" where
  "scanNext m v = (let v1 = v OR NOT m in revBits (revBits v1 + 1))"

text \<open>The place of a cursor in the order of the scan; 0 as the result of a step is the end.\<close>

definition place :: "u64 \<Rightarrow> nat" where
  "place v = unat (revBits v)"

definition endOf :: "u64 \<Rightarrow> nat" where
  "endOf v = (if v = 0 then 2 ^ 64 else place v)"

definition blockEnd :: "nat \<Rightarrow> nat \<Rightarrow> nat" where
  "blockEnd j r = (r div 2 ^ j + 1) * 2 ^ j"

lemma place_bound: "place v < 2 ^ 64"
  using unsigned_less [of "revBits v", where ?'a = nat] by (simp add: place_def)

lemma revBits_fill:
  "n \<le> 64 \<Longrightarrow> revBits (v OR NOT (mask n)) = revBits v OR mask (64 - n)"
  by (rule bit_word_eqI) (auto simp: bit_revBits bit_simps)

lemma unat_or_mask:
  fixes r :: u64
  assumes "j \<le> 64"
  shows "unat (r OR mask j) + 1 = blockEnd j (unat r)"
proof -
  have "unat (r OR mask j) = unat r OR mask j"
    by (rule bit_eqI) (use assms in \<open>auto simp: bit_simps\<close>)
  moreover have "drop_bit j (unat r OR mask j) = drop_bit j (unat r)"
    by (rule bit_eqI) (simp add: bit_simps)
  moreover have "take_bit j (unat r OR mask j) = mask j"
    by (rule bit_eqI) (auto simp: bit_simps)
  ultimately have "unat (r OR mask j) = push_bit j (drop_bit j (unat r)) + mask j"
    using bits_ident [of j "unat r OR mask j"] by simp
  then show ?thesis
    by (simp add: blockEnd_def push_bit_eq_mult drop_bit_eq_div mask_eq_exp_minus_1)
qed

lemma endOf_scanNext:
  assumes "n \<le> 64"
  shows "endOf (scanNext (mask n) v) = blockEnd (64 - n) (place v)"
proof -
  let ?x = "revBits v OR mask (64 - n)"
  have e: "unat ?x + 1 = blockEnd (64 - n) (place v)"
    unfolding place_def by (rule unat_or_mask) simp
  have s: "scanNext (mask n) v = revBits (?x + 1)"
    using assms by (simp add: scanNext_def revBits_fill)
  show ?thesis
  proof (cases "?x + 1 = 0")
    case True
    then have "?x = -1" by (simp add: eq_neg_iff_add_eq_0)
    then have "unat ?x + 1 = 2 ^ 64" by (simp add: unsigned_minus_1_eq_mask mask_eq_exp_minus_1)
    with True e show ?thesis by (simp add: s endOf_def revBits_zero)
  next
    case False
    then have "unat (?x + 1) = unat ?x + 1" by (metis add.commute unatSuc Suc_eq_plus1)
    with False e show ?thesis by (simp add: s endOf_def revBits_zero place_def revBits_revBits)
  qed
qed

lemma same_block_same_bucket:
  assumes "place h div 2 ^ (64 - n) = place v div 2 ^ (64 - n)" and n: "n \<le> 64"
  shows "h AND mask n = v AND mask n"
proof (rule bit_word_eqI)
  fix i
  assume "i < LENGTH(64)"
  then have i: "i < 64" by simp
  have "drop_bit (64 - n) (unat (revBits h)) = drop_bit (64 - n) (unat (revBits v))"
    using assms by (simp add: place_def drop_bit_eq_div)
  then have "bit (drop_bit (64 - n) (unat (revBits h))) k = bit (drop_bit (64 - n) (unat (revBits v))) k" for k
    by (rule arg_cong)
  then have shifted: "bit (revBits h) (64 - n + k) = bit (revBits v) (64 - n + k)" for k
    by (simp add: bit_drop_bit_eq bit_unsigned_iff)
  have "bit (revBits h) k = bit (revBits v) k" if "64 - n \<le> k" for k
    using shifted [of "k - (64 - n)"] that by simp
  from this [of "63 - i"] show "bit (h AND mask n) i = bit (v AND mask n) i"
    using i n by (auto simp: bit_simps bit_revBits)
qed

lemma blockEnd_greater: "r < blockEnd j r"
  by (simp add: blockEnd_def) (metis add.commute div_mult_mod_eq mod_less_divisor nat_add_left_cancel_less pos2 zero_less_power)

lemma in_block:
  assumes "r \<le> x" and "x < blockEnd j r"
  shows "x div 2 ^ j = r div 2 ^ j"
proof (rule antisym)
  show "r div 2 ^ j \<le> x div 2 ^ j" using assms(1) by (rule div_le_mono)
  have "x div 2 ^ j < r div 2 ^ j + 1"
    using assms(2) unfolding blockEnd_def by (rule less_mult_imp_div_less)
  then show "x div 2 ^ j \<le> r div 2 ^ j" by simp
qed

text \<open>One step covers the hashes from its cursor to the next one.\<close>

lemma step_covers:
  assumes "n \<le> 64" and "place v \<le> place h" and "place h < endOf (scanNext (mask n) v)"
  shows "h AND mask n = v AND mask n"
  using assms by (intro same_block_same_bucket in_block) (simp_all add: endOf_scanNext)

lemma blockEnd_mono:
  assumes "i \<le> j"
  shows "blockEnd i r \<le> blockEnd j r"
proof -
  obtain k where k: "(2::nat) ^ j = 2 ^ i * 2 ^ k" using assms by (metis le_Suc_ex power_add)
  define q where "q = r div 2 ^ j"
  have "r < (q + 1) * 2 ^ j" using blockEnd_greater [of r j] by (simp only: blockEnd_def q_def)
  also have "\<dots> = (q + 1) * 2 ^ k * 2 ^ i" by (simp only: k mult.assoc mult.commute [of "2 ^ k"])
  finally have "r div 2 ^ i < (q + 1) * 2 ^ k" by (rule less_mult_imp_div_less)
  then have "(r div 2 ^ i + 1) * 2 ^ i \<le> (q + 1) * 2 ^ k * 2 ^ i"
    by (intro mult_right_mono) auto
  also have "\<dots> = (q + 1) * 2 ^ j" by (simp only: k mult.assoc mult.commute [of "2 ^ k"])
  finally show ?thesis by (simp only: blockEnd_def q_def)
qed

lemma revBits_OR: "revBits (a OR b) = revBits a OR revBits b"
  by (rule bit_word_eqI) (simp add: bit_revBits bit_simps)

lemma scanNext_advances:
  assumes "scanNext m v \<noteq> 0"
  shows "place v < place (scanNext m v)"
proof -
  let ?x = "revBits v OR revBits (NOT m)"
  have s: "scanNext m v = revBits (?x + 1)" by (simp add: scanNext_def revBits_OR)
  then have "?x + 1 \<noteq> 0" using assms by (simp add: revBits_zero)
  then have "unat (?x + 1) = unat ?x + 1" by (metis add.commute unatSuc Suc_eq_plus1)
  moreover have "uint (revBits v) \<le> uint ?x"
    by (simp add: unsigned_or_eq or_greater_eq)
  then have "unat (revBits v) \<le> unat ?x" by (simp add: nat_mono flip: nat_uint_eq)
  ultimately show ?thesis by (simp add: s place_def revBits_revBits)
qed

section \<open>Scanning\<close>

text \<open>
  The do-while loop over the expansions of the cursor in the larger table: the entries in the
  order of the calls of \<^verbatim>\<open>fn\<close>, and the cursor it ends with.
\<close>

function scanLarger ::
  "('k, 'v) dictht \<Rightarrow> u64 \<Rightarrow> u64 \<Rightarrow> u64 \<Rightarrow> (('k, 'v) dictEntry list \<times> u64) option" where
  "scanLarger t1 m0 m1 v = do {
     chain \<leftarrow> bucket t1 (unat (v AND m1));
     (let v' = scanNext m1 v in
      if v' AND (m0 XOR m1) \<noteq> 0
      then do { (es, w) \<leftarrow> scanLarger t1 m0 m1 v'; Some (chain @ es, w) }
      else Some (chain, v'))
   }"
  by pat_completeness auto
termination
proof (relation "measure (\<lambda>(_, _, _, v). 2 ^ 64 - place v)")
  fix t1 :: "('k, 'v) dictht" and m0 m1 v v' :: u64
  assume v: "v' = scanNext m1 v" and "v' AND (m0 XOR m1) \<noteq> 0"
  then have "v' \<noteq> 0" by auto
  then show "((t1, m0, m1, v'), t1, m0, m1, v) \<in> measure (\<lambda>(_, _, _, v). 2 ^ 64 - place v)"
    using scanNext_advances [of m1 v] place_bound [of v] v by simp
qed simp

declare scanLarger.simps [simp del]

definition dictScan ::
  "('k, 'v) dictRec \<Rightarrow> u64 \<Rightarrow> (('k, 'v) dictEntry list \<times> u64) option" where
  "dictScan d v =
    (if dictCount d = 0 then Some ([], 0)
     else if \<not> dictIsRehashing d
     then let t0 = d_ht0 d; m0 = ht_sizemask t0 in
       do { chain \<leftarrow> bucket t0 (unat (v AND m0)); Some (chain, scanNext m0 v) }
     else let (t0, t1) = (if ht_size (d_ht0 d) > ht_size (d_ht1 d) then (d_ht1 d, d_ht0 d) else (d_ht0 d, d_ht1 d));
              m0 = ht_sizemask t0; m1 = ht_sizemask t1 in
       do {
         chain \<leftarrow> bucket t0 (unat (v AND m0));
         (es, w) \<leftarrow> scanLarger t1 m0 m1 v;
         Some (chain @ es, w)
       })"

text \<open>A whole iteration, with the dictionary as it is at each of the calls.\<close>

primrec scanRun ::
  "('k, 'v) dictRec list \<Rightarrow> u64 \<Rightarrow> (('k, 'v) dictEntry list \<times> u64) option" where
  "scanRun [] v = Some ([], v)"
| "scanRun (d # ds) v = do {
     (es, v') \<leftarrow> dictScan d v;
     if v' = 0 then Some (es, 0) else do { (es', w) \<leftarrow> scanRun ds v'; Some (es @ es', w) }
   }"

text \<open>The part of a scan from \<open>v\<close> to \<open>w\<close> gives every entry of a table whose place is in between.\<close>

definition covers ::
  "('k, 'v) dictEnv \<Rightarrow> ('k, 'v) dictht \<Rightarrow> u64 \<Rightarrow> u64 \<Rightarrow> ('k, 'v) dictEntry list \<Rightarrow> bool" where
  "covers E ht v w es \<longleftrightarrow>
     (\<forall>e \<in> set (concat (ht_table ht)). let p = place (hashFunction E (de_key e)) in
        place v \<le> p \<and> p < endOf w \<longrightarrow> e \<in> set es)"

lemma tableOk_mask:
  assumes "tableOk E ht" and "0 < ht_size ht"
  obtains n where "n \<le> 60" and "ht_size ht = 2 ^ n" and "ht_sizemask ht = mask n"
  using assms by (auto simp: tableOk_def)

lemma cursor_bucket:
  assumes "tableOk E ht" and "ht_size ht = 2 ^ n" and "ht_sizemask ht = mask n" and "n \<le> 60"
  shows "bucket ht (unat (v AND mask n)) = Some (ht_table ht ! unat (v AND mask n))"
proof -
  have "unat (v AND mask n) < 2 ^ n"
    using assms(4) by (simp flip: take_bit_eq_mask add: unsigned_take_bit_eq)
  then show ?thesis using assms by (simp add: bucket_Some tableOk_def)
qed

lemma bucket_covers:
  assumes ok: "tableOk E ht" and m: "ht_sizemask ht = mask n" "n \<le> 60"
    and w: "endOf w \<le> endOf (scanNext (mask n) v)"
  shows "covers E ht v w (ht_table ht ! unat (v AND mask n))"
  unfolding covers_def
proof (intro ballI, unfold Let_def, intro impI)
  fix e
  assume e: "e \<in> set (concat (ht_table ht))"
    and p: "place v \<le> place (hashFunction E (de_key e)) \<and> place (hashFunction E (de_key e)) < endOf w"
  then have "hashFunction E (de_key e) AND mask n = v AND mask n"
    using w m by (intro step_covers) auto
  then show "e \<in> set (ht_table ht ! unat (v AND mask n))"
    using in_own_bucket [OF ok e] m by (simp add: hashIndex_def)
qed

lemma covers_append:
  assumes "covers E ht v u es" and "u \<noteq> 0 \<Longrightarrow> covers E ht u w es'" and "u = 0 \<Longrightarrow> w = 0"
  shows "covers E ht v w (es @ es')"
proof (cases "u = 0")
  case True
  with assms show ?thesis by (auto simp: covers_def Let_def)
next
  case False
  then have "endOf u = place u" by (simp add: endOf_def)
  with assms(1) assms(2) [OF False] show ?thesis
    by (auto simp: covers_def Let_def) (metis not_less)
qed

lemma between_masks:
  assumes v': "v' AND (mask n0 XOR mask n1) \<noteq> 0" and n: "n0 \<le> n1" "n1 \<le> 64"
  shows "place v' mod 2 ^ (64 - n0) \<noteq> 0"
proof -
  obtain i where i: "bit (v' AND (mask n0 XOR mask n1)) i" using v' bit_word_eqI [of "v' AND (mask n0 XOR mask n1)" 0] by auto
  then have "i < 64" using bit_imp_le_length by fastforce
  with i n have "n0 \<le> i" "bit v' i" by (auto simp: bit_simps)
  then have "bit (unat (revBits v')) (63 - i)" "63 - i < 64 - n0"
    using \<open>i < 64\<close> by (auto simp: bit_unsigned_iff bit_revBits)
  then have "take_bit (64 - n0) (unat (revBits v')) \<noteq> 0"
    by (metis bit_take_bit_iff bit_0_eq bot_fun_def bot_bool_def)
  then show ?thesis by (simp add: place_def take_bit_eq_mod)
qed

lemma scanLarger_ok:
  assumes "tableOk E t1" and "ht_size t1 = 2 ^ n1" and "ht_sizemask t1 = mask n1" and "n1 \<le> 60" and "n0 \<le> n1"
  shows "\<exists>es w. scanLarger t1 (mask n0) (mask n1) v = Some (es, w) \<and> covers E t1 v w es \<and>
    blockEnd (64 - n1) (place v) \<le> endOf w \<and> endOf w \<le> blockEnd (64 - n0) (place v)"
proof (induction "2 ^ 64 - place v" arbitrary: v rule: less_induct)
  case less
  let ?v = "scanNext (mask n1) v" and ?c = "ht_table t1 ! unat (v AND mask n1)"
  note unfolded = scanLarger.simps [of t1 "mask n0" "mask n1" v]
  have chain: "bucket t1 (unat (v AND mask n1)) = Some ?c" by (rule cursor_bucket [OF assms(1-4)])
  have step: "endOf ?v = blockEnd (64 - n1) (place v)" using assms by (simp add: endOf_scanNext)
  have in0: "blockEnd (64 - n1) (place v) \<le> blockEnd (64 - n0) (place v)"
    using assms by (intro blockEnd_mono) simp
  have cov: "covers E t1 v ?v ?c" by (rule bucket_covers) (use assms in auto)
  show ?case
  proof (cases "?v AND (mask n0 XOR mask n1) \<noteq> 0")
    case False
    then show ?thesis using unfolded chain cov step in0 by simp
  next
    case True
    then have nz: "?v \<noteq> 0" by auto
    then have eo: "endOf ?v = place ?v" by (simp add: endOf_def)
    have adv: "place v < place ?v" by (rule scanNext_advances [OF nz])
    have "2 ^ 64 - place ?v < 2 ^ 64 - place v" using adv place_bound [of v] by simp
    from less [OF this] obtain es w where
      rest: "scanLarger t1 (mask n0) (mask n1) ?v = Some (es, w)" "covers E t1 ?v w es"
        "blockEnd (64 - n1) (place ?v) \<le> endOf w" "endOf w \<le> blockEnd (64 - n0) (place ?v)" by blast
    have "place ?v mod 2 ^ (64 - n0) \<noteq> 0" using between_masks [OF True] assms by simp
    moreover have "place ?v \<le> blockEnd (64 - n0) (place v)" using step eo in0 by simp
    moreover have "blockEnd (64 - n0) (place v) mod 2 ^ (64 - n0) = 0" by (simp add: blockEnd_def)
    ultimately have "place ?v < blockEnd (64 - n0) (place v)" by (metis le_neq_implies_less)
    then have "place ?v div 2 ^ (64 - n0) = place v div 2 ^ (64 - n0)"
      using adv by (intro in_block) simp_all
    then have same: "blockEnd (64 - n0) (place ?v) = blockEnd (64 - n0) (place v)" by (simp add: blockEnd_def)
    have "covers E t1 v w (?c @ es)" by (rule covers_append [OF cov]) (use rest nz in auto)
    moreover have "blockEnd (64 - n1) (place v) \<le> endOf w"
      using rest(3) blockEnd_greater [of "place ?v" "64 - n1"] step eo by linarith
    ultimately show ?thesis using unfolded chain rest True same by simp
  qed
qed

lemma covers_empty: "covers E dictReset v w es"
  by (simp add: covers_def dictReset_def)

lemma covers_more: "covers E ht v w es \<Longrightarrow> set es \<subseteq> set es' \<Longrightarrow> covers E ht v w es'"
  by (auto simp: covers_def Let_def)

lemma exponent_le: "(2::nat) ^ n \<le> 2 ^ K \<Longrightarrow> n \<le> K"
  by (rule power_le_imp_le_exp [of 2]) simp_all

lemma dictScan_two:
  assumes t0: "tableOk E t0" "ht_size t0 = 2 ^ n0" "ht_sizemask t0 = mask n0" "n0 \<le> 60"
    and t1: "tableOk E t1" "ht_size t1 = 2 ^ n1" "ht_sizemask t1 = mask n1" "n1 \<le> 60" and le: "n0 \<le> n1"
  shows "\<exists>es w. (do { chain \<leftarrow> bucket t0 (unat (v AND mask n0)); (es, w) \<leftarrow> scanLarger t1 (mask n0) (mask n1) v;
      Some (chain @ es, w) }) = Some (es, w) \<and> covers E t0 v w es \<and> covers E t1 v w es \<and>
    blockEnd (64 - n1) (place v) \<le> endOf w"
proof -
  let ?c = "ht_table t0 ! unat (v AND mask n0)"
  obtain es w where es: "scanLarger t1 (mask n0) (mask n1) v = Some (es, w)" "covers E t1 v w es"
    "blockEnd (64 - n1) (place v) \<le> endOf w" "endOf w \<le> blockEnd (64 - n0) (place v)"
    using scanLarger_ok [OF t1 le] by blast
  have "covers E t0 v w ?c"
    by (rule bucket_covers) (use t0 es(4) in \<open>simp_all add: endOf_scanNext\<close>)
  then have "covers E t0 v w (?c @ es)" "covers E t1 v w (?c @ es)"
    using es(2) by (auto intro: covers_more)
  then show ?thesis using es by (simp add: cursor_bucket [OF t0])
qed

text \<open>A call gives every entry whose place is between the two cursors.\<close>

lemma dictScan_ok:
  assumes inv: "dictInv E d" and ne: "dictCount d \<noteq> 0"
    and K: "ht_size (d_ht0 d) \<le> 2 ^ K" "ht_size (d_ht1 d) \<le> 2 ^ K"
  shows "\<exists>es w. dictScan d v = Some (es, w) \<and> covers E (d_ht0 d) v w es \<and> covers E (d_ht1 d) v w es \<and>
    blockEnd (64 - K) (place v) \<le> endOf w"
proof -
  have oks: "tableOk E (d_ht0 d)" "tableOk E (d_ht1 d)" using inv by (simp_all add: dictInv_def)
  obtain n0 where n0: "n0 \<le> 60" "ht_size (d_ht0 d) = 2 ^ n0" "ht_sizemask (d_ht0 d) = mask n0"
    using tableOk_mask [OF oks(1) dictInv_size [OF inv ne]] by blast
  have K0: "n0 \<le> K" using K(1) n0 by (metis exponent_le)
  show ?thesis
  proof (cases "dictIsRehashing d")
    case False
    then have "d_ht1 d = dictReset" using inv by (simp add: dictInv_def)
    moreover have "covers E (d_ht0 d) v (scanNext (mask n0) v) (ht_table (d_ht0 d) ! unat (v AND mask n0))"
      by (rule bucket_covers) (use oks n0 in auto)
    moreover have "blockEnd (64 - K) (place v) \<le> endOf (scanNext (mask n0) v)"
      using n0 K0 by (simp add: endOf_scanNext blockEnd_mono)
    ultimately show ?thesis
      using False ne n0 by (simp add: dictScan_def covers_empty Let_def cursor_bucket [OF oks(1) n0(2,3,1)])
  next
    case True
    then have "0 < ht_size (d_ht1 d)" using inv by (simp add: dictInv_def)
    then obtain n1 where n1: "n1 \<le> 60" "ht_size (d_ht1 d) = 2 ^ n1" "ht_sizemask (d_ht1 d) = mask n1"
      using tableOk_mask [OF oks(2)] by blast
    have K1: "n1 \<le> K" using K(2) n1 by (metis exponent_le)
    have end0: "blockEnd (64 - K) (place v) \<le> blockEnd (64 - n0) (place v)"
      and end1: "blockEnd (64 - K) (place v) \<le> blockEnd (64 - n1) (place v)"
      using K0 K1 by (simp_all add: blockEnd_mono)
    show ?thesis
    proof (cases "n0 \<le> n1")
      case le: True
      then have "\<not> ht_size (d_ht0 d) > ht_size (d_ht1 d)" using n0 n1 by (simp add: power_increasing)
      then show ?thesis
        using dictScan_two [OF oks(1) n0(2,3,1) oks(2) n1(2,3,1) le, of v] ne True n0 n1 end1
        by (auto simp: dictScan_def intro: le_trans)
    next
      case gt: False
      then have "ht_size (d_ht0 d) > ht_size (d_ht1 d)" "n1 \<le> n0" using n0 n1 by simp_all
      then show ?thesis
        using dictScan_two [OF oks(2) n1(2,3,1) oks(1) n0(2,3,1), of v] ne True n0 n1 end0
        by (auto simp: dictScan_def intro: le_trans)
    qed
  qed
qed

lemma contents_entry:
  assumes "contents d k \<noteq> None"
  shows "\<exists>e \<in> set (concat (ht_table (d_ht0 d))) \<union> set (concat (ht_table (d_ht1 d))). de_key e = k"
proof -
  have "k \<in> de_key ` set (entries d)" using assms by (metis contents_map entriesMap_None)
  then show ?thesis by (auto simp: entries_def)
qed

lemma scanRun_ok:
  assumes "\<And>d. d \<in> set ds \<Longrightarrow>
      dictInv E d \<and> contents d k \<noteq> None \<and> ht_size (d_ht0 d) \<le> 2 ^ K \<and> ht_size (d_ht1 d) \<le> 2 ^ K"
  shows "\<exists>es w. scanRun ds v = Some (es, w) \<and>
    (w = 0 \<and> ds \<noteq> [] \<and> place v \<le> place (hashFunction E k) \<longrightarrow> k \<in> de_key ` set es) \<and>
    (2 ^ 64 \<le> (place v div 2 ^ (64 - K) + length ds) * 2 ^ (64 - K) \<longrightarrow> w = 0)"
  using assms
proof (induction ds arbitrary: v)
  case Nil
  have "place v div 2 ^ (64 - K) * 2 ^ (64 - K) \<le> place v" by simp
  then have "place v div 2 ^ (64 - K) * 2 ^ (64 - K) < 2 ^ 64" using place_bound [of v] by linarith
  then show ?case by simp
next
  case (Cons d ds)
  let ?j = "64 - K" and ?p = "place (hashFunction E k)"
  have d: "dictInv E d" "contents d k \<noteq> None" "ht_size (d_ht0 d) \<le> 2 ^ K" "ht_size (d_ht1 d) \<le> 2 ^ K"
    using Cons.prems by simp_all
  then have ne: "dictCount d \<noteq> 0"
    using dictCount_ents [OF d(1)] by (auto simp: contents_map)
  obtain es u where es: "dictScan d v = Some (es, u)" "covers E (d_ht0 d) v u es" "covers E (d_ht1 d) v u es"
    "blockEnd ?j (place v) \<le> endOf u"
    using dictScan_ok [OF d(1) ne d(3,4)] by blast
  obtain e where e: "de_key e = k"
    "e \<in> set (concat (ht_table (d_ht0 d))) \<union> set (concat (ht_table (d_ht1 d)))"
    using contents_entry [OF d(2)] by blast
  then have hit: "place v \<le> ?p \<Longrightarrow> ?p < endOf u \<Longrightarrow> k \<in> de_key ` set es"
    using es(2,3) by (fastforce simp: covers_def Let_def)
  show ?case
  proof (cases "u = 0")
    case True
    then show ?thesis using es hit place_bound by (simp add: endOf_def)
  next
    case False
    then have eo: "endOf u = place u" by (simp add: endOf_def)
    obtain es' w where rest: "scanRun ds u = Some (es', w)"
      "w = 0 \<and> ds \<noteq> [] \<and> place u \<le> ?p \<longrightarrow> k \<in> de_key ` set es'"
      "2 ^ 64 \<le> (place u div 2 ^ ?j + length ds) * 2 ^ ?j \<longrightarrow> w = 0"
      using Cons.IH [of u] Cons.prems by auto
    have "ds = [] \<Longrightarrow> w = u" using rest(1) by simp
    then have found: "w = 0 \<and> place v \<le> ?p \<longrightarrow> k \<in> de_key ` set (es @ es')"
      using hit rest(2) eo False by (cases "?p < place u") auto
    have "place v div 2 ^ ?j + 1 \<le> place u div 2 ^ ?j"
      using es(4) unfolding eo blockEnd_def by (metis div_le_mono nonzero_mult_div_cancel_right power_not_zero zero_neq_numeral)
    then have "(place v div 2 ^ ?j + length (d # ds)) * 2 ^ ?j \<le> (place u div 2 ^ ?j + length ds) * 2 ^ ?j"
      by (intro mult_right_mono) auto
    then have "2 ^ 64 \<le> (place v div 2 ^ ?j + length (d # ds)) * 2 ^ ?j \<longrightarrow> w = 0"
      using rest(3) by linarith
    then show ?thesis using es False rest(1) found by simp
  qed
qed

text \<open>
  C10. An iteration with dictScan returns every key that is there during all of it, even when the
  dictionary changes between the calls in any way: other keys come and go, the table grows, shrinks
  and is rehashed. It ends after at most as many calls as the largest of the tables has buckets.
\<close>

theorem scan_misses_nothing:
  assumes "\<forall>d \<in> set ds. dictInv E d \<and> contents d k \<noteq> None \<and>
      ht_size (d_ht0 d) \<le> 2 ^ K \<and> ht_size (d_ht1 d) \<le> 2 ^ K"
    and "2 ^ K \<le> length ds" and "K \<le> 60"
  shows "\<exists>es. scanRun ds 0 = Some (es, 0) \<and> k \<in> de_key ` set es"
proof -
  have "revBits 0 = 0" using revBits_zero by simp
  then have z: "place 0 = 0" by (simp add: place_def)
  obtain es w where es: "scanRun ds 0 = Some (es, w)" "w = 0 \<and> ds \<noteq> [] \<longrightarrow> k \<in> de_key ` set es"
    "2 ^ 64 \<le> (place 0 div 2 ^ (64 - K) + length ds) * 2 ^ (64 - K) \<longrightarrow> w = 0"
    using scanRun_ok [of ds E k K 0] assms(1) z by auto
  have "(2::nat) ^ 64 = 2 ^ K * 2 ^ (64 - K)" using assms(3) by (simp flip: power_add)
  also have "\<dots> \<le> length ds * 2 ^ (64 - K)" using assms(2) by (rule mult_right_mono) simp
  finally have "w = 0" using es(3) z by simp
  moreover have "ds \<noteq> []" using assms(2) by auto
  ultimately show ?thesis using es by auto
qed

theorem scan_misses_nothing_witness:
  "\<exists>es. scanRun (smallTable # replicate 7 growingTable) 0 = Some (es, 0) \<and> 7 \<in> de_key ` set es"
  by (rule scan_misses_nothing [where E = modHash and K = 3]) (auto simp: smallTable_ok growingTable_ok)

end
