(* ===== verification/DictIter.thy ===== *)
theory DictIter
  imports DictMap
begin

text \<open>
  Iterators: \<^verbatim>\<open>dictNext\<close> and the loops of cluster.c over a safe iterator, which delete entries on the way. Such
  a loop sees every entry once, in the order of the tables, and what it deletes is what is missing at the
  end. This is why the model of the cluster has such loops as folds over the entries at their begin.
\<close>

record 'k dictIterator =
  it_index :: int
  it_table :: nat
  it_safe :: bool
  it_entry :: "'k option"
  it_nextEntry :: "'k option"
  it_fingerprint :: u64

definition fingerprintStep :: "u64 \<Rightarrow> u64 \<Rightarrow> u64" where
  "fingerprintStep n hash0 =
    (let hash1 = hash0 + n;
         hash2 = NOT hash1 + push_bit 21 hash1;
         hash3 = hash2 XOR signed_drop_bit 24 hash2;
         hash4 = (hash3 + push_bit 3 hash3) + push_bit 8 hash3;
         hash5 = hash4 XOR signed_drop_bit 14 hash4;
         hash6 = (hash5 + push_bit 2 hash5) + push_bit 4 hash5;
         hash7 = hash6 XOR signed_drop_bit 28 hash6
     in hash7 + push_bit 31 hash7)"

definition dictFingerprint :: "(('k, 'v) dictht \<Rightarrow> u64) \<Rightarrow> ('k, 'v) dictRec \<Rightarrow> u64" where
  "dictFingerprint addr d =
    fold fingerprintStep
      [addr (d_ht0 d), word_of_nat (ht_size (d_ht0 d)), word_of_nat (ht_used (d_ht0 d)),
       addr (d_ht1 d), word_of_nat (ht_size (d_ht1 d)), word_of_nat (ht_used (d_ht1 d))] 0"

definition dictGetIterator :: "'k dictIterator" where
  "dictGetIterator = \<lparr>it_index = -1, it_table = 0, it_safe = False, it_entry = None, it_nextEntry = None,
     it_fingerprint = 0\<rparr>"

definition dictGetSafeIterator :: "'k dictIterator" where
  "dictGetSafeIterator = dictGetIterator\<lparr>it_safe := True\<rparr>"

definition iterBegins :: "'k dictIterator \<Rightarrow> bool" where
  "iterBegins it \<longleftrightarrow> it_index it = -1 \<and> it_table it = 0"

definition beginIteration ::
  "(('k, 'v) dictht \<Rightarrow> u64) \<Rightarrow> 'k dictIterator \<Rightarrow> ('k, 'v) dictRec \<Rightarrow> 'k dictIterator \<times> ('k, 'v) dictRec" where
  "beginIteration addr it d =
    (if iterBegins it
     then if it_safe it then (it, d\<lparr>d_pauserehash := d_pauserehash d + 1\<rparr>)
          else (it\<lparr>it_fingerprint := dictFingerprint addr d\<rparr>, d)
     else (it, d))"

text \<open>
  The entry that a pointer means during an iteration, found by its key in the chain, and \<^verbatim>\<open>entry->next\<close>; None
  when it is not there any more.
\<close>

fun entryNext :: "'k \<Rightarrow> ('k, 'v) dictEntry list \<Rightarrow> (('k, 'v) dictEntry \<times> 'k option) option" where
  "entryNext k [] = None"
| "entryNext k (e # es) =
     (if de_key e = k then Some (e, case es of [] \<Rightarrow> None | e' # _ \<Rightarrow> Some (de_key e')) else entryNext k es)"

definition iterChain :: "'k dictIterator \<Rightarrow> ('k, 'v) dictRec \<Rightarrow> ('k, 'v) dictEntry list option" where
  "iterChain it d = bucket (htAt d (it_table it)) (nat (it_index it))"

definition giveEntry ::
  "'k \<Rightarrow> 'k dictIterator \<Rightarrow> ('k, 'v) dictRec \<Rightarrow> (('k dictIterator \<times> ('k, 'v) dictRec) \<times> ('k, 'v) dictEntry option) option" where
  "giveEntry k it d = do {
     chain \<leftarrow> iterChain it d;
     (e, nxt) \<leftarrow> entryNext k chain;
     Some ((it\<lparr>it_entry := Some k, it_nextEntry := nxt\<rparr>, d), Some e)
   }"

text \<open>The step to the next bucket; None at the end of the last table.\<close>

definition nextBucket :: "'k dictIterator \<Rightarrow> ('k, 'v) dictRec \<Rightarrow> 'k dictIterator \<times> bool" where
  "nextBucket it d =
    (let it1 = it\<lparr>it_index := it_index it + 1\<rparr> in
     if it_index it1 \<ge> int (ht_size (htAt d (it_table it1)))
     then if dictIsRehashing d \<and> it_table it1 = 0 then (it1\<lparr>it_table := 1, it_index := 0\<rparr>, True) else (it1, False)
     else (it1, True))"

function dictNext ::
  "(('k, 'v) dictht \<Rightarrow> u64) \<Rightarrow> 'k dictIterator \<Rightarrow> ('k, 'v) dictRec \<Rightarrow>
   (('k dictIterator \<times> ('k, 'v) dictRec) \<times> ('k, 'v) dictEntry option) option" where
  "dictNext addr it d =
    (if it_entry it = None
     then let (it1, d1) = beginIteration addr it d; (it2, more) = nextBucket it1 d1 in
       if \<not> more then Some ((it2, d1), None)
       else do {
         chain \<leftarrow> iterChain it2 d1;
         (case chain of
            [] \<Rightarrow> dictNext addr it2 d1
          | e # es \<Rightarrow> giveEntry (de_key e) it2 d1)
       }
     else case it_nextEntry it of
       None \<Rightarrow> dictNext addr (it\<lparr>it_entry := None\<rparr>) d
     | Some k \<Rightarrow> giveEntry k it d)"
  by pat_completeness auto
termination
proof (relation "measures [\<lambda>(_, it, _). 1 - it_table it,
    \<lambda>(_, it, d). nat (int (ht_size (htAt d (it_table it))) - it_index it), \<lambda>(_, it, _). if it_entry it = None then 0 else 1]")
  fix addr :: "('k, 'v) dictht \<Rightarrow> u64" and it it1 it2 :: "'k dictIterator" and d d1 :: "('k, 'v) dictRec" and x y more chain
  assume "it_entry it = None" and x: "x = beginIteration addr it d" "(it1, d1) = x"
    and y: "y = nextBucket it1 d1" "(it2, more) = y" and more: "\<not> \<not> more"
  have "it_table it1 = it_table it" "it_index it1 = it_index it" "\<And>t. ht_size (htAt d1 t) = ht_size (htAt d t)"
    "it_entry it1 = it_entry it"
    using x by (auto simp: beginIteration_def htAt_def split: if_splits)
  then show "((addr, it2, d1), addr, it, d) \<in> measures [\<lambda>(_, it, _). 1 - it_table it,
    \<lambda>(_, it, d). nat (int (ht_size (htAt d (it_table it))) - it_index it), \<lambda>(_, it, _). if it_entry it = None then 0 else 1]"
    using y more by (auto simp: nextBucket_def Let_def split: if_splits)
qed auto

declare dictNext.simps [simp del]

definition dictReleaseIterator ::
  "(('k, 'v) dictht \<Rightarrow> u64) \<Rightarrow> 'k dictIterator \<Rightarrow> ('k, 'v) dictRec \<Rightarrow> ('k, 'v) dictRec option" where
  "dictReleaseIterator addr it d =
    (if iterBegins it then Some d
     else if it_safe it then Some (d\<lparr>d_pauserehash := d_pauserehash d - 1\<rparr>)
     else if it_fingerprint it = dictFingerprint addr d then Some d else None)"

section \<open>Iteration with deletion\<close>

text \<open>
  The loop \<^verbatim>\<open>while((de = dictNext(di)) != NULL)\<close> of the cluster code over a safe iterator, whose body
  deletes the current entry when \<open>del\<close> says so; the entries it has seen, and the state at the end.
\<close>

partial_function (option) safeLoop ::
  "('k, 'v) dictEnv \<Rightarrow> (('k, 'v) dictht \<Rightarrow> u64) \<Rightarrow> (('k, 'v) dictEntry \<Rightarrow> bool) \<Rightarrow>
   'k dictIterator \<Rightarrow> ('k, 'v) dictRec \<Rightarrow> (('k, 'v) dictEntry list \<times> 'k dictIterator \<times> ('k, 'v) dictRec) option" where
  "safeLoop E addr del it d = do {
     ((it1, d1), de) \<leftarrow> dictNext addr it d;
     (case de of
        None \<Rightarrow> Some ([], it1, d1)
      | Some e \<Rightarrow> do {
          d2 \<leftarrow> (if del e then map_option fst (dictRemove E d1 (de_key e)) else Some d1);
          (es, r) \<leftarrow> safeLoop E addr del it1 d2;
          Some (e # es, r)
        })
   }"

subsection \<open>Deletion in a paused dictionary\<close>

lemma drop_at_filter:
  assumes "distinct (map f xs)" and "p < length xs"
  shows "take p xs @ drop (Suc p) xs = filter (\<lambda>x. f x \<noteq> f (xs ! p)) xs"
proof -
  let ?a = "f (xs ! p)"
  have keep: "filter (\<lambda>x. f x \<noteq> ?a) ys = ys" if "?a \<notin> f ` set ys" for ys
    using that by (intro filter_True) (metis image_eqI)
  have xs: "xs = take p xs @ xs ! p # drop (Suc p) xs" by (rule id_take_nth_drop [OF assms(2)])
  then have "distinct (map f (take p xs @ xs ! p # drop (Suc p) xs))" using assms(1) by simp
  then have "?a \<notin> f ` set (take p xs)" "?a \<notin> f ` set (drop (Suc p) xs)" by auto
  then have "filter (\<lambda>x. f x \<noteq> ?a) (take p xs @ xs ! p # drop (Suc p) xs) = take p xs @ drop (Suc p) xs"
    by (simp add: keep)
  then show ?thesis using xs by simp
qed

definition dropKey :: "'k \<Rightarrow> ('k, 'v) dictEntry list \<Rightarrow> ('k, 'v) dictEntry list" where
  "dropKey k = filter (\<lambda>e. de_key e \<noteq> k)"

lemma dropKey_absent: "k \<notin> de_key ` set es \<Longrightarrow> dropKey k es = es"
  by (auto simp: dropKey_def filter_id_conv)

lemma dropKey_append: "dropKey k (xs @ ys) = dropKey k xs @ dropKey k ys"
  by (simp add: dropKey_def)

lemma dropKey_concat: "concat (map (dropKey k) bs) = dropKey k (concat bs)"
  by (simp add: dropKey_def filter_concat)

lemma bucket_in_entries:
  assumes "i < length (ht_table (htAt d t))"
  shows "set (ht_table (htAt d t) ! i) \<subseteq> set (entries d)"
  using assms by (auto simp: entries_def htAt_def split: if_splits intro!: bexI [OF _ nth_mem])

lemma distinct_bucket:
  assumes "distinct (map f (concat bs))" and "i < length bs"
  shows "distinct (map f (bs ! i))"
proof -
  have "concat bs = concat (take i bs) @ bs ! i @ concat (drop (Suc i) bs)"
    using id_take_nth_drop [OF assms(2)] by (metis concat.simps(2) concat_append)
  then show ?thesis using assms(1) by simp
qed

lemma unlink_drops:
  assumes inv: "dictInv E d" and r: "validRef d r" and k: "de_key (refEntry d r) = k"
    and d': "unlinkEntry r d = Some (d', e)"
  shows "ht_table (d_ht0 d') = map (dropKey k) (ht_table (d_ht0 d)) \<and>
    ht_table (d_ht1 d') = map (dropKey k) (ht_table (d_ht1 d)) \<and>
    ht_size (d_ht0 d') = ht_size (d_ht0 d) \<and> ht_size (d_ht1 d') = ht_size (d_ht1 d) \<and>
    dictIsRehashing d' = dictIsRehashing d"
proof -
  obtain t i p where r': "r = (t, i, p)" by (metis prod_cases3)
  let ?tb = "ht_table (htAt d t)" and ?c = "ht_table (htAt d t) ! i"
  have i: "i < length ?tb" "p < length ?c" "t = 0 \<or> t = 1" using r by (auto simp: r' validRef_def)
  have key: "de_key (?c ! p) = k" using k by (simp add: refEntry_def r')
  have ok: "tableOk E (htAt d t)" and dist: "distinct (map de_key (entries d))"
    using inv by (simp_all add: dictInv_def htAt_def)
  have dt: "distinct (map de_key (concat ?tb))"
    using dist by (simp add: entries_def htAt_def)
  have new: "take p ?c @ drop (Suc p) ?c = dropKey k ?c"
    using drop_at_filter [OF distinct_bucket [OF dt i(1)] i(2)] key by (simp add: dropKey_def)
  have own: "hashIndex E k (htAt d t) = i"
    using ok i key by (auto simp: tableOk_def)
  have other: "dropKey k (?tb ! j) = ?tb ! j" if "j < length ?tb" "j \<noteq> i" for j
    using ok own that by (intro dropKey_absent) (auto simp: tableOk_def)
  have upd: "?tb[i := dropKey k ?c] = map (dropKey k) ?tb"
    by (rule nth_equalityI) (auto simp: nth_list_update other i(1))
  have "?c ! p \<in> set ?c" "?c \<in> set ?tb" using i by simp_all
  then have "k \<in> de_key ` set (concat ?tb)" using key by force
  then have "k \<notin> de_key ` set (concat (ht_table (if t = 0 then d_ht1 d else d_ht0 d)))"
    using dist by (auto simp: entries_def htAt_def split: if_splits)
  then have "dropKey k es = es" if "es \<in> set (ht_table (if t = 0 then d_ht1 d else d_ht0 d))" for es
    using that by (intro dropKey_absent) auto
  then have rest: "map (dropKey k) (ht_table (if t = 0 then d_ht1 d else d_ht0 d)) =
      ht_table (if t = 0 then d_ht1 d else d_ht0 d)"
    by (rule map_idI)
  have "d' = updHt t (\<lambda>ht. (setBucket i (dropKey k ?c) ht)\<lparr>ht_used := ht_used ht - 1\<rparr>) d"
    using d' i by (simp add: unlinkEntry_def r' bucket_Some new)
  then show ?thesis
    using i(3) upd rest by (auto simp: updHt_def htAt_def dictIsRehashing_def)
qed

text \<open>With the rehashing paused, a deletion changes nothing but the chain of the key.\<close>

lemma paused_remove:
  assumes cmp: "byContent E" and inv: "dictInv E d" and pause: "0 < d_pauserehash d" and k: "k \<in> de_key ` set (entries d)"
  shows "\<exists>d'. dictRemove E d k = Some (d', DICT_OK) \<and> dictInv E d' \<and> d_pauserehash d' = d_pauserehash d \<and>
    ht_table (d_ht0 d') = map (dropKey k) (ht_table (d_ht0 d)) \<and>
    ht_table (d_ht1 d') = map (dropKey k) (ht_table (d_ht1 d)) \<and>
    ht_size (d_ht0 d') = ht_size (d_ht0 d) \<and> ht_size (d_ht1 d') = ht_size (d_ht1 d) \<and>
    dictIsRehashing d' = dictIsRehashing d"
proof -
  have "entries d \<noteq> []" using k by auto
  then have ne: "dictCount d \<noteq> 0" using dictCount_ents [OF inv] by simp
  have same: "stepIfRehashing E d = Some d" using pause by (simp add: stepIfRehashing_def dictRehashStep_def)
  obtain r idx where s: "searchKey E k d = Some (r, idx)" and
    found: "case r of Some e \<Rightarrow> validRef d e \<and> de_key (refEntry d e) = k | None \<Rightarrow> k \<notin> de_key ` set (entries d)"
    using searchKey_ok [OF cmp inv dictInv_size [OF inv ne], of k] by (force split: option.splits)
  then obtain e where e: "r = Some e" "validRef d e" "de_key (refEntry d e) = k"
    using k by (auto split: option.splits)
  obtain d' where d': "unlinkEntry e d = Some (d', refEntry d e)" "dictInv E d'" "d_pauserehash d' = d_pauserehash d"
    using unlinkEntry_ok [OF inv e(2)] by blast
  have "dictRemove E d k = Some (d', DICT_OK)"
    using ne same s e d' by (simp add: dictRemove_def dictGenericDelete_def dictCount_def)
  with d' unlink_drops [OF inv e(2,3) d'(1)] show ?thesis by blast
qed

subsection \<open>The order of an iteration\<close>

text \<open>What comes after the bucket of the iterator, and where the iterator stands after an entry.\<close>

definition bucketsLeft :: "'k dictIterator \<Rightarrow> ('k, 'v) dictRec \<Rightarrow> ('k, 'v) dictEntry list list" where
  "bucketsLeft it d = drop (nat (it_index it + 1)) (ht_table (htAt d (it_table it))) @
     (if it_table it = 0 \<and> dictIsRehashing d then ht_table (d_ht1 d) else [])"

definition validIter :: "'k dictIterator \<Rightarrow> ('k, 'v) dictRec \<Rightarrow> bool" where
  "validIter it d \<longleftrightarrow> it_safe it \<and> -1 \<le> it_index it \<and> (it_table it = 0 \<or> it_table it = 1 \<and> dictIsRehashing d)"

definition standsAfter ::
  "'k dictIterator \<Rightarrow> ('k, 'v) dictRec \<Rightarrow> ('k, 'v) dictEntry list \<Rightarrow> ('k, 'v) dictEntry list \<Rightarrow> bool" where
  "standsAfter it d pre rest \<longleftrightarrow> validIter it d \<and> it_entry it \<noteq> None \<and> 0 \<le> it_index it \<and>
     it_index it < int (ht_size (htAt d (it_table it))) \<and>
     ht_table (htAt d (it_table it)) ! nat (it_index it) = pre @ rest \<and>
     it_nextEntry it = (case rest of [] \<Rightarrow> None | e # _ \<Rightarrow> Some (de_key e))"

lemma table_length: "dictInv E d \<Longrightarrow> length (ht_table (htAt d t)) = ht_size (htAt d t)"
  by (simp add: dictInv_def tableOk_def htAt_def)

lemma entryNext_at:
  "distinct (map de_key (pre @ e # rest)) \<Longrightarrow>
   entryNext (de_key e) (pre @ e # rest) = Some (e, case rest of [] \<Rightarrow> None | e' # _ \<Rightarrow> Some (de_key e'))"
  by (induction pre) auto

lemma distinct_chain:
  assumes "dictInv E d" and "i < length (ht_table (htAt d t))"
  shows "distinct (map de_key (ht_table (htAt d t) ! i))"
proof (rule distinct_bucket [OF _ assms(2)])
  show "distinct (map de_key (concat (ht_table (htAt d t))))"
    using assms(1) by (simp add: dictInv_def entries_def htAt_def)
qed

lemma giveEntry_ok:
  assumes inv: "dictInv E d" and it: "validIter it d" "0 \<le> it_index it" "it_index it < int (ht_size (htAt d (it_table it)))"
    and chain: "ht_table (htAt d (it_table it)) ! nat (it_index it) = pre @ e # rest"
  shows "\<exists>it'. giveEntry (de_key e) it d = Some ((it', d), Some e) \<and> standsAfter it' d (pre @ [e]) rest \<and>
    bucketsLeft it' d = bucketsLeft it d"
proof -
  let ?n = "case rest of [] \<Rightarrow> None | e' # _ \<Rightarrow> Some (de_key e')"
  have i: "nat (it_index it) < length (ht_table (htAt d (it_table it)))"
    using it by (simp add: table_length [OF inv] nat_less_iff)
  have "entryNext (de_key e) (pre @ e # rest) = Some (e, ?n)"
    using distinct_chain [OF inv i] unfolding chain by (rule entryNext_at)
  then have "giveEntry (de_key e) it d = Some ((it\<lparr>it_entry := Some (de_key e), it_nextEntry := ?n\<rparr>, d), Some e)"
    using i chain by (simp add: giveEntry_def iterChain_def bucket_Some)
  then show ?thesis
    using it chain by (simp add: standsAfter_def validIter_def bucketsLeft_def)
qed

text \<open>From between two buckets: the next entry, or the end when there is none.\<close>

lemma nextBucket_cases:
  assumes inv: "dictInv E d" and it: "validIter it d"
  shows "(bucketsLeft it d = [] \<and> (\<exists>it'. nextBucket it d = (it', False) \<and> it_safe it' \<and> \<not> iterBegins it')) \<or>
    (\<exists>it' b. nextBucket it d = (it', True) \<and> validIter it' d \<and> 0 \<le> it_index it' \<and> it_entry it' = it_entry it \<and>
       it_index it' < int (ht_size (htAt d (it_table it'))) \<and>
       ht_table (htAt d (it_table it')) ! nat (it_index it') = b \<and> bucketsLeft it d = b # bucketsLeft it' d)"
proof -
  let ?tb = "ht_table (htAt d (it_table it))" and ?i = "nat (it_index it + 1)"
  have len: "length ?tb = ht_size (htAt d (it_table it))" by (rule table_length [OF inv])
  have nn: "0 \<le> it_index it + 1" using it by (simp add: validIter_def)
  consider "it_index it + 1 < int (ht_size (htAt d (it_table it)))"
    | "\<not> it_index it + 1 < int (ht_size (htAt d (it_table it)))" "it_table it = 0" "dictIsRehashing d"
    | "\<not> it_index it + 1 < int (ht_size (htAt d (it_table it)))" "\<not> (it_table it = 0 \<and> dictIsRehashing d)"
    by metis
  then show ?thesis
  proof cases
    case 1
    then have "?i < length ?tb" using nn len by simp
    then have "drop ?i ?tb = ?tb ! ?i # drop (Suc ?i) ?tb" by (rule Cons_nth_drop_Suc [symmetric])
    moreover have "Suc ?i = nat (it_index it + 1 + 1)" using nn by simp
    ultimately show ?thesis
      using 1 it nn by (intro disjI2) (simp add: nextBucket_def bucketsLeft_def validIter_def)
  next
    case 2
    have pos: "0 < ht_size (d_ht1 d)" "length (ht_table (d_ht1 d)) = ht_size (d_ht1 d)"
      using inv 2 by (simp_all add: dictInv_def tableOk_def)
    then have "ht_table (d_ht1 d) = ht_table (d_ht1 d) ! 0 # drop 1 (ht_table (d_ht1 d))"
      by (metis Cons_nth_drop_Suc One_nat_def drop0)
    moreover have "drop ?i ?tb = []" using 2 len by simp
    ultimately show ?thesis
      using 2 it pos by (intro disjI2) (simp add: nextBucket_def bucketsLeft_def validIter_def htAt_def)
  next
    case 3
    then have "bucketsLeft it d = []" using len by (auto simp: bucketsLeft_def)
    moreover have "\<not> iterBegins (it\<lparr>it_index := it_index it + 1\<rparr>)"
      using nn by (simp add: iterBegins_def)
    ultimately show ?thesis using 3 it by (auto simp: nextBucket_def validIter_def Let_def)
  qed
qed

lemma beginIteration_started: "0 \<le> it_index it \<Longrightarrow> beginIteration addr it d = (it, d)"
  by (simp add: beginIteration_def iterBegins_def)

lemma dictNext_between:
  assumes "beginIteration addr it d0 = (it, d)" and "dictInv E d" and "validIter it d" and "it_entry it = None"
  shows "case concat (bucketsLeft it d) of
      [] \<Rightarrow> \<exists>it'. dictNext addr it d0 = Some ((it', d), None) \<and> it_safe it' \<and> \<not> iterBegins it'
    | e # es \<Rightarrow> \<exists>it' pre rest. dictNext addr it d0 = Some ((it', d), Some e) \<and> standsAfter it' d (pre @ [e]) rest \<and>
        es = rest @ concat (bucketsLeft it' d)"
  using assms
proof (induction "length (bucketsLeft it d)" arbitrary: it d0 rule: less_induct)
  case less
  note inv = less.prems(2) and unfolded = dictNext.simps [of addr it d0]
  from nextBucket_cases [OF inv less.prems(3)] show ?case
  proof (elim disjE conjE exE)
    fix it'
    assume "bucketsLeft it d = []" "nextBucket it d = (it', False)" "it_safe it'" "\<not> iterBegins it'"
    then show ?thesis using less.prems(1,4) unfolded by simp
  next
    fix it' b
    assume n: "nextBucket it d = (it', True)" "validIter it' d" "0 \<le> it_index it'" "it_entry it' = it_entry it"
      "it_index it' < int (ht_size (htAt d (it_table it')))"
      "ht_table (htAt d (it_table it')) ! nat (it_index it') = b" "bucketsLeft it d = b # bucketsLeft it' d"
    have "nat (it_index it') < length (ht_table (htAt d (it_table it')))"
      using n(3,5) by (simp add: table_length [OF inv] nat_less_iff)
    then have chain: "iterChain it' d = Some b" using n(6) by (simp add: iterChain_def bucket_Some)
    show ?thesis
    proof (cases b)
      case Nil
      have "length (bucketsLeft it' d) < length (bucketsLeft it d)" using n(7) by simp
      moreover have "it_entry it' = None" using n(4) less.prems(4) by simp
      moreover have "dictNext addr it d0 = dictNext addr it' d"
        using less.prems(1,4) n(1) unfolded chain Nil by simp
      ultimately show ?thesis
        using less.hyps [OF _ beginIteration_started [OF n(3)] inv n(2)]
        by (simp only: n(7) Nil concat.simps append_Nil)
    next
      case (Cons e rest)
      with giveEntry_ok [OF inv n(2,3,5), of "[]" e rest] n(6) obtain it'' where
        "giveEntry (de_key e) it' d = Some ((it'', d), Some e)" "standsAfter it'' d [e] rest"
        "bucketsLeft it'' d = bucketsLeft it' d" by auto
      then show ?thesis
        using less.prems(1,4) n unfolded chain Cons
        by simp (metis append_Nil)
    qed
  qed
qed

text \<open>From an entry: the next one of the chain, or of a later bucket.\<close>

lemma dictNext_after:
  assumes inv: "dictInv E d" and stands: "standsAfter it d pre rest"
  shows "case rest @ concat (bucketsLeft it d) of
      [] \<Rightarrow> \<exists>it'. dictNext addr it d = Some ((it', d), None) \<and> it_safe it' \<and> \<not> iterBegins it'
    | e # es \<Rightarrow> \<exists>it' pre' rest'. dictNext addr it d = Some ((it', d), Some e) \<and> standsAfter it' d (pre' @ [e]) rest' \<and>
        es = rest' @ concat (bucketsLeft it' d)"
proof (cases rest)
  case Nil
  let ?it = "it\<lparr>it_entry := None\<rparr>"
  have it: "validIter ?it d" "0 \<le> it_index ?it" "it_entry ?it = None" and left: "bucketsLeft ?it d = bucketsLeft it d"
    using stands by (simp_all add: standsAfter_def validIter_def bucketsLeft_def)
  have "dictNext addr it d = dictNext addr ?it d"
    using stands Nil by (subst dictNext.simps) (auto simp: standsAfter_def)
  with dictNext_between [OF beginIteration_started [OF it(2)] inv it(1,3)] show ?thesis
    by (simp only: left Nil append_Nil)
next
  case (Cons e rest')
  have it: "validIter it d" "0 \<le> it_index it" "it_index it < int (ht_size (htAt d (it_table it)))"
    "ht_table (htAt d (it_table it)) ! nat (it_index it) = pre @ e # rest'"
    "it_entry it \<noteq> None" "it_nextEntry it = Some (de_key e)"
    using stands Cons by (simp_all add: standsAfter_def)
  have "dictNext addr it d = giveEntry (de_key e) it d"
    using it(5,6) by (subst dictNext.simps) auto
  with giveEntry_ok [OF inv it(1-4)] show ?thesis
    by (simp add: Cons) metis
qed

lemma entries_split:
  assumes inv: "dictInv E d" and stands: "standsAfter it d pre rest"
  shows "\<exists>front. entries d = front @ pre @ rest @ concat (bucketsLeft it d)"
proof -
  let ?tb = "ht_table (htAt d (it_table it))" and ?i = "nat (it_index it)"
  have i: "?i < length ?tb" "?tb ! ?i = pre @ rest" "nat (it_index it + 1) = Suc ?i"
    using stands by (simp_all add: standsAfter_def table_length [OF inv] nat_less_iff nat_add_distrib)
  have tb: "concat ?tb = concat (take ?i ?tb) @ pre @ rest @ concat (drop (Suc ?i) ?tb)"
    using id_take_nth_drop [OF i(1)] i(2) by (metis append.assoc concat.simps(2) concat_append)
  show ?thesis
  proof (cases "it_table it = 0")
    case True
    then have "entries d = concat ?tb @ concat (ht_table (d_ht1 d))" by (simp add: entries_def htAt_def)
    moreover have "\<not> dictIsRehashing d \<Longrightarrow> ht_table (d_ht1 d) = []"
      using inv by (simp add: dictInv_def dictReset_def)
    ultimately show ?thesis using tb i(3) True by (auto simp: bucketsLeft_def)
  next
    case False
    then have "entries d = concat (ht_table (d_ht0 d)) @ concat ?tb" by (simp add: entries_def htAt_def)
    then show ?thesis using tb i(3) False by (auto simp: bucketsLeft_def)
  qed
qed

lemma map_dropKey_absent:
  assumes "k \<notin> de_key ` set (concat bs)"
  shows "map (dropKey k) bs = bs"
  using assms by (intro map_idI dropKey_absent) auto

lemma standsAfter_remove:
  assumes stands: "standsAfter it d (pre @ [e]) rest" and k: "de_key e \<notin> de_key ` set (rest @ concat (bucketsLeft it d))"
    and t: "ht_table (d_ht0 d') = map (dropKey (de_key e)) (ht_table (d_ht0 d))"
      "ht_table (d_ht1 d') = map (dropKey (de_key e)) (ht_table (d_ht1 d))"
      "ht_size (d_ht0 d') = ht_size (d_ht0 d)" "ht_size (d_ht1 d') = ht_size (d_ht1 d)"
      "dictIsRehashing d' = dictIsRehashing d" and inv: "dictInv E d"
  shows "standsAfter it d' (dropKey (de_key e) (pre @ [e])) rest \<and> bucketsLeft it d' = bucketsLeft it d"
proof
  have tab: "ht_table (htAt d' u) = map (dropKey (de_key e)) (ht_table (htAt d u))"
    "ht_size (htAt d' u) = ht_size (htAt d u)" for u
    using t by (simp_all add: htAt_def)
  have i: "nat (it_index it) < length (ht_table (htAt d (it_table it)))"
    "ht_table (htAt d (it_table it)) ! nat (it_index it) = (pre @ [e]) @ rest"
    using stands by (simp_all add: standsAfter_def table_length [OF inv] nat_less_iff)
  have keep: "dropKey (de_key e) rest = rest" using k by (intro dropKey_absent) auto
  have "ht_table (htAt d' (it_table it)) ! nat (it_index it) = dropKey (de_key e) ((pre @ [e]) @ rest)"
    using i(1) by (simp only: tab nth_map i(2))
  then have "ht_table (htAt d' (it_table it)) ! nat (it_index it) = dropKey (de_key e) (pre @ [e]) @ rest"
    by (simp only: dropKey_append keep)
  with stands show "standsAfter it d' (dropKey (de_key e) (pre @ [e])) rest"
    by (simp add: standsAfter_def validIter_def tab t)
  have "map (dropKey (de_key e)) (bucketsLeft it d) = bucketsLeft it d"
    using k by (intro map_dropKey_absent) auto
  then show "bucketsLeft it d' = bucketsLeft it d"
    by (auto simp: bucketsLeft_def tab t drop_map split: if_splits)
qed

lemma dropKey_entries:
  assumes "dictInv E d" and "entries d = gone @ e # es"
  shows "dropKey (de_key e) (entries d) = gone @ es"
proof -
  have "distinct (map de_key (gone @ e # es))" using assms by (simp add: dictInv_def)
  then have "dropKey (de_key e) gone = gone" "dropKey (de_key e) es = es"
    by (auto intro!: dropKey_absent)
  then show ?thesis by (simp add: assms(2) dropKey_append) (simp add: dropKey_def)
qed

text \<open>The loop from an entry on: it sees what is left in its order, and deletes what it is to delete.\<close>

lemma safeLoop_after:
  assumes "byContent E" and "dictInv E d" and "0 < d_pauserehash d"
    and "case es of [] \<Rightarrow> \<exists>it'. dictNext addr it d0 = Some ((it', d), None) \<and> it_safe it' \<and> \<not> iterBegins it'
      | e # es' \<Rightarrow> \<exists>it' pre rest. dictNext addr it d0 = Some ((it', d), Some e) \<and> standsAfter it' d (pre @ [e]) rest \<and>
        es' = rest @ concat (bucketsLeft it' d)"
    and "entries d = gone @ es"
  shows "\<exists>it' d'. safeLoop E addr del it d0 = Some (es, it', d') \<and> it_safe it' \<and> \<not> iterBegins it' \<and>
    dictInv E d' \<and> d_pauserehash d' = d_pauserehash d \<and> entries d' = gone @ filter (\<lambda>e. \<not> del e) es"
  using assms
proof (induction es arbitrary: it d d0 gone)
  case Nil
  then obtain it' where "dictNext addr it d0 = Some ((it', d), None)" "it_safe it'" "\<not> iterBegins it'" by auto
  then show ?case using Nil.prems by (subst safeLoop.simps) simp
next
  case (Cons e es)
  note cmp = Cons.prems(1) and inv = Cons.prems(2) and pause = Cons.prems(3)
  obtain it1 pre rest where nxt: "dictNext addr it d0 = Some ((it1, d), Some e)"
    and stands: "standsAfter it1 d (pre @ [e]) rest" and es: "es = rest @ concat (bucketsLeft it1 d)"
    using Cons.prems(4) by auto
  show ?case
  proof (cases "del e")
    case False
    have "case es of [] \<Rightarrow> \<exists>it'. dictNext addr it1 d = Some ((it', d), None) \<and> it_safe it' \<and> \<not> iterBegins it'
      | e # es' \<Rightarrow> \<exists>it' pre rest. dictNext addr it1 d = Some ((it', d), Some e) \<and> standsAfter it' d (pre @ [e]) rest \<and>
        es' = rest @ concat (bucketsLeft it' d)"
      unfolding es by (rule dictNext_after [OF inv stands])
    from Cons.IH [OF cmp inv pause this, of "gone @ [e]"] Cons.prems(5) nxt False show ?thesis
      by (subst safeLoop.simps) auto
  next
    case True
    have e: "de_key e \<in> de_key ` set (entries d)" using Cons.prems(5) by simp
    obtain d2 where d2: "dictRemove E d (de_key e) = Some (d2, DICT_OK)" "dictInv E d2" "d_pauserehash d2 = d_pauserehash d"
      and t: "ht_table (d_ht0 d2) = map (dropKey (de_key e)) (ht_table (d_ht0 d))"
        "ht_table (d_ht1 d2) = map (dropKey (de_key e)) (ht_table (d_ht1 d))"
        "ht_size (d_ht0 d2) = ht_size (d_ht0 d)" "ht_size (d_ht1 d2) = ht_size (d_ht1 d)"
        "dictIsRehashing d2 = dictIsRehashing d"
      using paused_remove [OF cmp inv pause e] by blast
    have "distinct (map de_key (gone @ e # es))" using inv Cons.prems(5) by (simp add: dictInv_def)
    then have "de_key e \<notin> de_key ` set es" by auto
    then have s2: "standsAfter it1 d2 (dropKey (de_key e) (pre @ [e])) rest" and b2: "bucketsLeft it1 d2 = bucketsLeft it1 d"
      using standsAfter_remove [OF stands _ t inv] es by simp_all
    have "entries d2 = dropKey (de_key e) (entries d)"
      by (simp add: entries_def t dropKey_append dropKey_concat)
    then have ent: "entries d2 = gone @ es" using dropKey_entries [OF inv Cons.prems(5)] by simp
    have "case es of [] \<Rightarrow> \<exists>it'. dictNext addr it1 d2 = Some ((it', d2), None) \<and> it_safe it' \<and> \<not> iterBegins it'
      | e # es' \<Rightarrow> \<exists>it' pre rest. dictNext addr it1 d2 = Some ((it', d2), Some e) \<and> standsAfter it' d2 (pre @ [e]) rest \<and>
        es' = rest @ concat (bucketsLeft it' d2)"
      unfolding es b2 [symmetric] by (rule dictNext_after [OF d2(2) s2])
    from Cons.IH [OF cmp d2(2) _ this ent] pause d2(3) obtain it' d' where
      "safeLoop E addr del it1 d2 = Some (es, it', d')" "it_safe it'" "\<not> iterBegins it'" "dictInv E d'"
      "d_pauserehash d' = d_pauserehash d2" "entries d' = gone @ filter (\<lambda>e. \<not> del e) es"
      by auto
    then show ?thesis
      using nxt True d2(1,3) by (subst safeLoop.simps) simp
  qed
qed

text \<open>
  C18. A loop over a safe iterator that deletes any of the entries it gets sees every entry once, in the
  order of the tables, rehashing or not, and ends; afterwards exactly the deleted entries are gone,
  in the order that was, and the rehashing is as paused as before.
\<close>

theorem safe_iteration_sees_all:
  assumes "byContent E" and "dictInv E d" and "0 \<le> d_pauserehash d"
  shows "\<exists>it d1 d'. safeLoop E addr del dictGetSafeIterator d = Some (entries d, it, d1) \<and>
    dictReleaseIterator addr it d1 = Some d' \<and> dictInv E d' \<and> d_pauserehash d' = d_pauserehash d \<and>
    entries d' = filter (\<lambda>e. \<not> del e) (entries d)"
proof -
  let ?it = "dictGetSafeIterator :: 'a dictIterator" and ?d = "d\<lparr>d_pauserehash := d_pauserehash d + 1\<rparr>"
  have begun: "beginIteration addr ?it d = (?it, ?d)"
    by (simp add: beginIteration_def iterBegins_def dictGetSafeIterator_def dictGetIterator_def)
  have inv: "dictInv E ?d" using assms(2) by (simp add: dictInv_pause)
  have it: "validIter ?it ?d" "it_entry ?it = None"
    by (simp_all add: validIter_def dictGetSafeIterator_def dictGetIterator_def)
  have "dictIsRehashing d \<or> ht_table (d_ht1 d) = []" using assms(2) by (cases "dictIsRehashing d") (auto simp: dictInv_def dictReset_def)
  then have all: "concat (bucketsLeft ?it ?d) = entries d"
    by (auto simp: bucketsLeft_def entries_def htAt_def dictIsRehashing_def dictGetSafeIterator_def dictGetIterator_def)
  have ent: "entries ?d = [] @ entries d" by (simp add: entries_def)
  obtain it1 d1 where loop: "safeLoop E addr del ?it d = Some (entries d, it1, d1)" "it_safe it1" "\<not> iterBegins it1"
    "dictInv E d1" "d_pauserehash d1 = d_pauserehash d + 1" "entries d1 = filter (\<lambda>e. \<not> del e) (entries d)"
    using safeLoop_after [OF assms(1) inv _ dictNext_between [OF begun inv it, unfolded all] ent, of del] assms(3)
    by auto
  let ?d' = "d1\<lparr>d_pauserehash := d_pauserehash d1 - 1\<rparr>"
  have "dictReleaseIterator addr it1 d1 = Some ?d'" using loop by (simp add: dictReleaseIterator_def)
  moreover have "entries ?d' = entries d1" by (simp add: entries_def)
  ultimately show ?thesis using loop by (auto simp: dictInv_pause)
qed

theorem safe_iteration_sees_all_witness:
  "\<exists>it d1 d'. safeLoop modHash (\<lambda>_. 0) (\<lambda>e. de_key e = 1) dictGetSafeIterator growingTable =
      Some (entries growingTable, it, d1) \<and>
    dictReleaseIterator (\<lambda>_. 0) it d1 = Some d' \<and> dictInv modHash d' \<and>
    d_pauserehash d' = d_pauserehash growingTable \<and>
    entries d' = filter (\<lambda>e. \<not> de_key e = 1) (entries growingTable)"
  by (rule safe_iteration_sees_all)
    (simp_all only: growingTable_ok, simp_all add: byContent_def modHash_def growingTable_def)

end
