(* ===== verification/DictPick.thy ===== *)
theory DictPick
  imports DictMap
begin

text \<open>
  Random entries: \<^verbatim>\<open>dictGetRandomKey\<close>, whose loop draws buckets until one is not empty, the sample of
  \<^verbatim>\<open>dictGetSomeKeys\<close> in a bounded number of steps, and \<^verbatim>\<open>dictGetFairRandomKey\<close>, with which the cluster code
  chooses the peers of its gossip and the instance a client is sent to. No draw reads outside of the tables, and
  with a generator that gives every value again an entry of the dictionary is found.
\<close>

text \<open>The generators as streams: \<^verbatim>\<open>genrand64_int64\<close> and \<^verbatim>\<open>random\<close> (or \<^verbatim>\<open>rand\<close>), each with its next position.\<close>

record randomness =
  rn_ulong :: "nat \<Rightarrow> u64"
  rn_long :: "nat \<Rightarrow> nat"

definition dictSlots :: "('k, 'v) dictRec \<Rightarrow> nat" where
  "dictSlots d = ht_size (d_ht0 d) + ht_size (d_ht1 d)"

section \<open>A random entry\<close>

text \<open>The bucket that a draw selects.\<close>

definition drawBucket :: "('k, 'v) dictRec \<Rightarrow> u64 \<Rightarrow> ('k, 'v) dictEntry list option" where
  "drawBucket d x =
    (if dictIsRehashing d
     then let h = nat (d_rehashidx d) + unat x mod (dictSlots d - nat (d_rehashidx d)) in
       if h \<ge> ht_size (d_ht0 d) then bucket (d_ht1 d) (h - ht_size (d_ht0 d)) else bucket (d_ht0 d) h
     else bucket (d_ht0 d) (unat (x AND ht_sizemask (d_ht0 d))))"

partial_function (option) drawLoop ::
  "('k, 'v) dictRec \<Rightarrow> (nat \<Rightarrow> u64) \<Rightarrow> nat \<Rightarrow> (('k, 'v) dictEntry list \<times> nat) option" where
  "drawLoop d rnd n = do {
     he \<leftarrow> drawBucket d (rnd n);
     if he = [] then drawLoop d rnd (Suc n) else Some (he, Suc n)
   }"

text \<open>The result with the dictionary and the positions in the two streams.\<close>

definition dictGetRandomKey ::
  "('k, 'v) dictEnv \<Rightarrow> randomness \<Rightarrow> nat \<times> nat \<Rightarrow> ('k, 'v) dictRec \<Rightarrow>
   (('k, 'v) dictRec \<times> (nat \<times> nat) \<times> ('k, 'v) dictEntry option) option" where
  "dictGetRandomKey E R pos d =
    (if dictCount d = 0 then Some (d, pos, None)
     else do {
       d1 \<leftarrow> stepIfRehashing E d;
       (he, n) \<leftarrow> drawLoop d1 (rn_ulong R) (fst pos);
       (let listele = rn_long R (snd pos) mod length he in Some (d1, (n, Suc (snd pos)), Some (he ! listele)))
     })"

section \<open>A sample of entries\<close>

record ('k, 'v) sample =
  sm_i :: nat
  sm_emptylen :: nat
  sm_des :: "('k, 'v) dictEntry list"
  sm_pos :: nat

definition stored :: "('k, 'v) sample \<Rightarrow> nat" where
  "stored s = length (sm_des s)"

text \<open>
  One round of the for loop over the tables: the skip over the part of the first table that has
  been moved (None), otherwise the place to look at.
\<close>

definition samplePlace :: "('k, 'v) dictRec \<Rightarrow> nat \<Rightarrow> nat \<Rightarrow> nat \<Rightarrow> nat option" where
  "samplePlace d tables j i =
    (if tables = 2 \<and> j = 0 \<and> i < nat (d_rehashidx d)
     then if i \<ge> ht_size (d_ht1 d) then Some (nat (d_rehashidx d)) else None
     else Some i)"

definition sampleTable ::
  "('k, 'v) dictRec \<Rightarrow> (nat \<Rightarrow> u64) \<Rightarrow> nat \<Rightarrow> u64 \<Rightarrow> nat \<Rightarrow> nat \<Rightarrow> ('k, 'v) sample \<Rightarrow> ('k, 'v) sample option" where
  "sampleTable d rnd tables maxsizemask cnt j s =
    (case samplePlace d tables j (sm_i s) of
       None \<Rightarrow> Some s
     | Some i \<Rightarrow>
         let s1 = s\<lparr>sm_i := i\<rparr> in
         if i \<ge> ht_size (htAt d j) then Some s1
         else do {
           he \<leftarrow> bucket (htAt d j) i;
           (if he = []
            then let e = sm_emptylen s1 + 1 in
              if e \<ge> 5 \<and> e > cnt
              then Some (s1\<lparr>sm_i := unat (rnd (sm_pos s1) AND maxsizemask), sm_emptylen := 0, sm_pos := Suc (sm_pos s1)\<rparr>)
              else Some (s1\<lparr>sm_emptylen := e\<rparr>)
            else Some (s1\<lparr>sm_emptylen := 0, sm_des := take cnt (sm_des s1 @ he)\<rparr>))
         })"

primrec sampleLoop ::
  "('k, 'v) dictRec \<Rightarrow> (nat \<Rightarrow> u64) \<Rightarrow> nat \<Rightarrow> u64 \<Rightarrow> nat \<Rightarrow> nat \<Rightarrow> ('k, 'v) sample \<Rightarrow> ('k, 'v) sample option" where
  "sampleLoop d rnd tables maxsizemask cnt 0 s = Some s"
| "sampleLoop d rnd tables maxsizemask cnt (Suc maxsteps) s =
    (if stored s \<ge> cnt then Some s
     else do {
       s1 \<leftarrow> sampleTable d rnd tables maxsizemask cnt 0 s;
       if stored s1 = cnt then Some s1
       else do {
         s2 \<leftarrow> (if tables = 2 then sampleTable d rnd tables maxsizemask cnt 1 s1 else Some s1);
         if stored s2 = cnt then Some s2
         else sampleLoop d rnd tables maxsizemask cnt maxsteps
           (s2\<lparr>sm_i := unat (word_of_nat (sm_i s2 + 1) AND maxsizemask)\<rparr>)
       }
     })"

text \<open>\<open>count\<close> steps of rehashing, as long as it goes on.\<close>

primrec rehashSteps :: "('k, 'v) dictEnv \<Rightarrow> nat \<Rightarrow> ('k, 'v) dictRec \<Rightarrow> ('k, 'v) dictRec option" where
  "rehashSteps E 0 d = Some d"
| "rehashSteps E (Suc n) d =
    (if dictIsRehashing d then do { d1 \<leftarrow> dictRehashStep E d; rehashSteps E n d1 } else Some d)"

definition dictGetSomeKeys ::
  "('k, 'v) dictEnv \<Rightarrow> (nat \<Rightarrow> u64) \<Rightarrow> nat \<Rightarrow> nat \<Rightarrow> ('k, 'v) dictRec \<Rightarrow>
   (('k, 'v) dictRec \<times> nat \<times> ('k, 'v) dictEntry list) option" where
  "dictGetSomeKeys E rnd pos wanted d = do {
     (let cnt = min wanted (dictCount d); maxsteps = cnt * 10 in do {
       d1 \<leftarrow> rehashSteps E cnt d;
       (let tables = (if dictIsRehashing d1 then 2 else 1);
            maxsizemask = (if tables > 1 \<and> ht_sizemask (d_ht0 d1) < ht_sizemask (d_ht1 d1)
                           then ht_sizemask (d_ht1 d1) else ht_sizemask (d_ht0 d1));
            s = \<lparr>sm_i = unat (rnd pos AND maxsizemask), sm_emptylen = 0, sm_des = [], sm_pos = Suc pos\<rparr> in do {
         s1 \<leftarrow> sampleLoop d1 rnd tables maxsizemask cnt maxsteps s;
         Some (d1, sm_pos s1, sm_des s1)
       })
     })
   }"

definition GETFAIR_NUM_ENTRIES :: nat where "GETFAIR_NUM_ENTRIES = 15"

definition dictGetFairRandomKey ::
  "('k, 'v) dictEnv \<Rightarrow> randomness \<Rightarrow> nat \<times> nat \<Rightarrow> ('k, 'v) dictRec \<Rightarrow>
   (('k, 'v) dictRec \<times> (nat \<times> nat) \<times> ('k, 'v) dictEntry option) option" where
  "dictGetFairRandomKey E R pos d = do {
     (d1, n, es) \<leftarrow> dictGetSomeKeys E (rn_ulong R) (fst pos) GETFAIR_NUM_ENTRIES d;
     if es = [] then dictGetRandomKey E R (n, snd pos) d1
     else (let idx = rn_long R (snd pos) mod length es in Some (d1, (n, Suc (snd pos)), Some (es ! idx)))
   }"

section \<open>What is picked is in the dictionary\<close>

lemma rehashSteps_ok:
  "dictInv E d \<Longrightarrow> \<exists>d'. rehashSteps E n d = Some d' \<and> sameContents E d d'"
proof (induction n arbitrary: d)
  case 0
  then show ?case by (simp add: sameContents_def)
next
  case (Suc n)
  show ?case
  proof (cases "dictIsRehashing d")
    case False
    with Suc.prems show ?thesis by (simp add: sameContents_def)
  next
    case True
    obtain d1 where d1: "stepIfRehashing E d = Some d1" "sameContents E d d1"
      using stepIfRehashing_ok [OF Suc.prems] .
    then have "dictInv E d1" by (simp add: sameContents_def)
    from Suc.IH [OF this] d1 True show ?thesis
      by (auto simp: stepIfRehashing_def sameContents_def)
  qed
qed

lemma bucket_entries:
  assumes "dictInv E d" and "i < ht_size (htAt d t)"
  shows "\<exists>he. bucket (htAt d t) i = Some he \<and> set he \<subseteq> set (entries d)"
proof -
  have i: "i < length (ht_table (htAt d t))"
    using assms by (simp add: dictInv_def tableOk_def htAt_def split: if_splits)
  then have "ht_table (htAt d t) ! i \<in> set (ht_table (htAt d t))" by simp
  then have "set (ht_table (htAt d t) ! i) \<subseteq> set (entries d)"
    by (auto simp: entries_def htAt_def split: if_splits)
  with i show ?thesis by (simp add: bucket_Some)
qed

text \<open>The buckets of both tables in a row, as the draw numbers them.\<close>

definition slotBucket :: "('k, 'v) dictRec \<Rightarrow> nat \<Rightarrow> ('k, 'v) dictEntry list option" where
  "slotBucket d h = (if h \<ge> ht_size (d_ht0 d) then bucket (d_ht1 d) (h - ht_size (d_ht0 d)) else bucket (d_ht0 d) h)"

lemma drawBucket_slot:
  "dictIsRehashing d \<Longrightarrow>
   drawBucket d x = slotBucket d (nat (d_rehashidx d) + unat x mod (dictSlots d - nat (d_rehashidx d)))"
  by (simp add: drawBucket_def slotBucket_def Let_def)

lemma slotBucket_ok:
  assumes "dictInv E d" and "h < dictSlots d"
  shows "\<exists>he. slotBucket d h = Some he \<and> set he \<subseteq> set (entries d)"
proof (cases "h \<ge> ht_size (d_ht0 d)")
  case True
  then have "h - ht_size (d_ht0 d) < ht_size (htAt d 1)" using assms(2) by (simp add: htAt_def dictSlots_def)
  from bucket_entries [OF assms(1) this] True show ?thesis by (simp add: slotBucket_def htAt_def)
next
  case False
  then have "h < ht_size (htAt d 0)" by (simp add: htAt_def)
  from bucket_entries [OF assms(1) this] False show ?thesis by (simp add: slotBucket_def htAt_def)
qed

lemma drawBucket_ok:
  assumes inv: "dictInv E d" and ne: "dictCount d \<noteq> 0"
  shows "\<exists>he. drawBucket d x = Some he \<and> set he \<subseteq> set (entries d)"
proof (cases "dictIsRehashing d")
  case True
  then have "nat (d_rehashidx d) < dictSlots d" using inv by (simp add: dictInv_def dictSlots_def)
  then have "unat x mod (dictSlots d - nat (d_rehashidx d)) < dictSlots d - nat (d_rehashidx d)" by simp
  then have "nat (d_rehashidx d) + unat x mod (dictSlots d - nat (d_rehashidx d)) < dictSlots d" by linarith
  from slotBucket_ok [OF inv this] show ?thesis unfolding drawBucket_slot [OF True] .
next
  case False
  have "tableOk E (d_ht0 d)" using inv by (simp add: dictInv_def)
  then obtain n where n: "n \<le> 60" "ht_size (d_ht0 d) = 2 ^ n" "ht_sizemask (d_ht0 d) = mask n"
    using dictInv_size [OF inv ne] by (auto simp: tableOk_def)
  have "unat (x AND mask n) < 2 ^ n"
    using n by (simp flip: take_bit_eq_mask add: unsigned_take_bit_eq)
  then have "unat (x AND mask n) < ht_size (htAt d 0)" using n by (simp add: htAt_def)
  from bucket_entries [OF inv this] show ?thesis using False n by (simp add: drawBucket_def htAt_def)
qed

lemma drawLoop_ok:
  assumes inv: "dictInv E d" and ne: "dictCount d \<noteq> 0"
    and hit: "drawBucket d (rnd m) \<noteq> Some []" "n \<le> m"
  shows "\<exists>he n'. drawLoop d rnd n = Some (he, n') \<and> he \<noteq> [] \<and> set he \<subseteq> set (entries d)"
  using hit(2)
proof (induction "m - n" arbitrary: n)
  case 0
  then have "n = m" by simp
  with hit drawBucket_ok [OF inv ne, of "rnd m"] show ?case
    by (subst drawLoop.simps) auto
next
  case (Suc k)
  obtain he where he: "drawBucket d (rnd n) = Some he" "set he \<subseteq> set (entries d)"
    using drawBucket_ok [OF inv ne] by blast
  show ?case
  proof (cases "he = []")
    case False
    with he show ?thesis by (subst drawLoop.simps) simp
  next
    case True
    have "k = m - Suc n" "Suc n \<le> m" using Suc.hyps(2) by simp_all
    from Suc.hyps(1) [OF this] he True show ?thesis by (subst drawLoop.simps) simp
  qed
qed

lemma sampleTable_ok:
  assumes inv: "dictInv E d" and s: "set (sm_des s) \<subseteq> set (entries d)" "stored s \<le> cnt"
  shows "\<exists>s'. sampleTable d rnd tables msk cnt j s = Some s' \<and> set (sm_des s') \<subseteq> set (entries d) \<and> stored s' \<le> cnt"
proof (cases "samplePlace d tables j (sm_i s)")
  case None
  with s show ?thesis by (simp add: sampleTable_def)
next
  case (Some i)
  show ?thesis
  proof (cases "i \<ge> ht_size (htAt d j)")
    case True
    with s Some show ?thesis by (simp add: sampleTable_def stored_def)
  next
    case False
    then obtain he where he: "bucket (htAt d j) i = Some he" "set he \<subseteq> set (entries d)"
      using bucket_entries [OF inv, of i j] by auto
    have "set (take cnt (sm_des s @ he)) \<subseteq> set (entries d)"
      using s(1) he(2) by (auto dest: in_set_takeD)
    with s Some False he show ?thesis by (auto simp: sampleTable_def stored_def Let_def)
  qed
qed

lemma sampleLoop_ok:
  assumes inv: "dictInv E d" and s: "set (sm_des s) \<subseteq> set (entries d)" "stored s \<le> cnt"
  shows "\<exists>s'. sampleLoop d rnd tables msk cnt n s = Some s' \<and> set (sm_des s') \<subseteq> set (entries d) \<and> stored s' \<le> cnt"
  using s
proof (induction n arbitrary: s)
  case (Suc n)
  show ?case
  proof (cases "stored s \<ge> cnt")
    case False
    obtain s1 where s1: "sampleTable d rnd tables msk cnt 0 s = Some s1" "set (sm_des s1) \<subseteq> set (entries d)" "stored s1 \<le> cnt"
      using sampleTable_ok [OF inv Suc.prems] by blast
    obtain s2 where s2: "(if tables = 2 then sampleTable d rnd tables msk cnt 1 s1 else Some s1) = Some s2"
      "set (sm_des s2) \<subseteq> set (entries d)" "stored s2 \<le> cnt"
      using sampleTable_ok [OF inv s1(2,3), of rnd tables msk 1] s1 by (cases "tables = 2") auto
    let ?s = "s2\<lparr>sm_i := unat (word_of_nat (sm_i s2 + 1) AND msk)\<rparr>"
    have "set (sm_des ?s) \<subseteq> set (entries d)" "stored ?s \<le> cnt" using s2 by (simp_all add: stored_def)
    from Suc.IH [OF this] False s1 s2 show ?thesis by simp
  qed (use Suc.prems in simp)
qed simp

lemma dictGetSomeKeys_ok:
  assumes "dictInv E d"
  shows "\<exists>d' n es. dictGetSomeKeys E rnd pos cnt d = Some (d', n, es) \<and> sameContents E d d' \<and>
    set es \<subseteq> set (entries d) \<and> length es \<le> min cnt (dictCount d)"
proof -
  obtain d1 where d1: "rehashSteps E (min cnt (dictCount d)) d = Some d1" "sameContents E d d1"
    using rehashSteps_ok [OF assms] by blast
  then have inv: "dictInv E d1" and same: "set (entries d1) = set (entries d)"
    by (simp_all add: sameContents_def) (metis mset_eq_setD)
  define tables where "tables = (if dictIsRehashing d1 then 2 else 1 :: nat)"
  define msk where "msk = (if tables > 1 \<and> ht_sizemask (d_ht0 d1) < ht_sizemask (d_ht1 d1)
    then ht_sizemask (d_ht1 d1) else ht_sizemask (d_ht0 d1))"
  define s where "s = (\<lparr>sm_i = unat (rnd pos AND msk), sm_emptylen = 0, sm_des = [], sm_pos = Suc pos\<rparr> :: ('a, 'b) sample)"
  have "set (sm_des s) \<subseteq> set (entries d1)" "stored s \<le> min cnt (dictCount d)" by (simp_all add: s_def stored_def)
  from sampleLoop_ok [OF inv this] obtain s1 where
    s1: "sampleLoop d1 rnd tables msk (min cnt (dictCount d)) (min cnt (dictCount d) * 10) s = Some s1"
      "set (sm_des s1) \<subseteq> set (entries d1)" "stored s1 \<le> min cnt (dictCount d)" by blast
  have "dictGetSomeKeys E rnd pos cnt d = Some (d1, sm_pos s1, sm_des s1)"
    using d1(1) s1(1)
    by (simp only: dictGetSomeKeys_def Let_def tables_def [symmetric] msk_def [symmetric] s_def [symmetric] bind.bind_lunit)
  then show ?thesis using d1 s1 same by (simp add: stored_def)
qed

lemma nonempty_bucket:
  assumes "concat bs \<noteq> []"
  shows "\<exists>i < length bs. bs ! i \<noteq> []"
  using assms by (auto simp: in_set_conv_nth)

lemma tableOk_size: "tableOk E ht \<Longrightarrow> ht_size ht \<le> 2 ^ 60"
  using power_increasing [of _ 60 "2 :: nat"] by (fastforce simp: tableOk_def)

lemma unat_small: "n < 2 ^ 62 \<Longrightarrow> unat (word_of_nat n :: u64) = n"
  by (simp add: unat_of_nat)

lemma some_slot_full:
  assumes inv: "dictInv E d" and ne: "dictCount d \<noteq> 0" and re: "dictIsRehashing d"
  shows "\<exists>h. nat (d_rehashidx d) \<le> h \<and> h < dictSlots d \<and> slotBucket d h \<noteq> Some []"
proof -
  have len: "length (ht_table (d_ht0 d)) = ht_size (d_ht0 d)" "length (ht_table (d_ht1 d)) = ht_size (d_ht1 d)"
    and front: "nat (d_rehashidx d) \<le> ht_size (d_ht0 d)" "\<forall>i < nat (d_rehashidx d). ht_table (d_ht0 d) ! i = []"
    using inv re by (simp_all add: dictInv_def tableOk_def)
  have "entries d \<noteq> []" using ne dictCount_ents [OF inv] by auto
  then consider "concat (ht_table (d_ht0 d)) \<noteq> []" | "concat (ht_table (d_ht1 d)) \<noteq> []"
    by (fastforce simp: entries_def)
  then show ?thesis
  proof cases
    case 1
    then obtain i where i: "i < ht_size (d_ht0 d)" "ht_table (d_ht0 d) ! i \<noteq> []"
      using nonempty_bucket len by metis
    then have "nat (d_rehashidx d) \<le> i" using front by (meson not_less)
    with i len show ?thesis by (intro exI [of _ i]) (simp add: slotBucket_def bucket_Some dictSlots_def)
  next
    case 2
    then obtain i where i: "i < ht_size (d_ht1 d)" "ht_table (d_ht1 d) ! i \<noteq> []"
      using nonempty_bucket len by metis
    with front len show ?thesis
      by (intro exI [of _ "ht_size (d_ht0 d) + i"]) (simp add: slotBucket_def bucket_Some dictSlots_def)
  qed
qed

lemma some_draw_hits:
  assumes inv: "dictInv E d" and ne: "dictCount d \<noteq> 0"
  shows "\<exists>x. drawBucket d x \<noteq> Some []"
proof (cases "dictIsRehashing d")
  case True
  let ?r = "nat (d_rehashidx d)"
  obtain h where h: "?r \<le> h" "h < dictSlots d" "slotBucket d h \<noteq> Some []"
    using some_slot_full [OF inv ne True] by blast
  have "ht_size (d_ht0 d) \<le> 2 ^ 60" "ht_size (d_ht1 d) \<le> 2 ^ 60"
    using inv unfolding dictInv_def by (blast intro: tableOk_size)+
  then have "h - ?r < 2 ^ 62" using h(2) by (simp add: dictSlots_def)
  then have "unat (word_of_nat (h - ?r) :: u64) mod (dictSlots d - ?r) = h - ?r"
    using h by (simp only: unat_small) simp
  with h show ?thesis by (intro exI [of _ "word_of_nat (h - ?r)"]) (simp add: drawBucket_slot [OF True])
next
  case False
  obtain n0 where n0: "n0 \<le> 60" "ht_size (d_ht0 d) = 2 ^ n0" "ht_sizemask (d_ht0 d) = mask n0"
    "length (ht_table (d_ht0 d)) = 2 ^ n0"
    using dictInv_size [OF inv ne] inv by (auto simp: tableOk_def dictInv_def)
  have "entries d \<noteq> []" using ne dictCount_ents [OF inv] by auto
  then have "concat (ht_table (d_ht0 d)) \<noteq> []"
    using False inv by (simp add: entries_def dictInv_def dictReset_def)
  then obtain i where i: "i < 2 ^ n0" "ht_table (d_ht0 d) ! i \<noteq> []"
    using nonempty_bucket n0(4) by metis
  have "(2 :: nat) ^ n0 \<le> 2 ^ 60" using n0(1) by (rule power_increasing) simp
  then have "unat (word_of_nat i :: u64) = i" using i(1) by (intro unat_small) simp
  then have "unat (word_of_nat i AND mask n0 :: u64) = i"
    using i n0 by (simp flip: take_bit_eq_mask add: unsigned_take_bit_eq take_bit_nat_eq_self)
  then show ?thesis
    using False i n0 by (intro exI [of _ "word_of_nat i"]) (simp add: drawBucket_def bucket_Some)
qed

text \<open>A generator that gives every value again and again.\<close>

definition recurs :: "randomness \<Rightarrow> bool" where
  "recurs R \<longleftrightarrow> (\<forall>n x. \<exists>m \<ge> n. rn_ulong R m = x)"

lemma dictGetRandomKey_ok:
  assumes inv: "dictInv E d" and ne: "dictCount d \<noteq> 0" and R: "recurs R"
  shows "\<exists>d' p e. dictGetRandomKey E R pos d = Some (d', p, Some e) \<and> sameContents E d d' \<and> e \<in> set (entries d)"
proof -
  obtain d1 where d1: "stepIfRehashing E d = Some d1" and same: "sameContents E d d1"
    using stepIfRehashing_ok [OF inv] by blast
  have inv1: "dictInv E d1" and ents: "set (entries d1) = set (entries d)"
    using same by (simp_all add: sameContents_def) (metis mset_eq_setD)
  have ne1: "dictCount d1 \<noteq> 0" using sameContents_count [OF inv same] ne by simp
  obtain x m where m: "drawBucket d1 x \<noteq> Some []" "fst pos \<le> m" "rn_ulong R m = x"
    using some_draw_hits [OF inv1 ne1] R by (metis recurs_def)
  obtain he n where he: "drawLoop d1 (rn_ulong R) (fst pos) = Some (he, n)" "he \<noteq> []" "set he \<subseteq> set (entries d1)"
    using drawLoop_ok [OF inv1 ne1, of "rn_ulong R" m "fst pos"] m by auto
  have "he ! (rn_long R (snd pos) mod length he) \<in> set he" using he(2) by simp
  then show ?thesis using d1 same ne he ents by (auto simp: dictGetRandomKey_def Let_def)
qed

text \<open>
  C19. With a generator that gives every word again and again, a random choice from a dictionary that is
  not empty ends, with an entry of the dictionary, whose contents are not changed.
\<close>

theorem fair_random_key_exists:
  assumes "dictInv E d" and "dictCount d \<noteq> 0" and "recurs R"
  shows "\<exists>d' p e. dictGetFairRandomKey E R pos d = Some (d', p, Some e) \<and> sameContents E d d' \<and> e \<in> set (entries d)"
proof -
  obtain d1 n es where s: "dictGetSomeKeys E (rn_ulong R) (fst pos) GETFAIR_NUM_ENTRIES d = Some (d1, n, es)"
    "sameContents E d d1" "set es \<subseteq> set (entries d)"
    using dictGetSomeKeys_ok [OF assms(1)] by blast
  have inv1: "dictInv E d1" and ents: "set (entries d1) = set (entries d)"
    using s(2) by (simp_all add: sameContents_def) (metis mset_eq_setD)
  show ?thesis
  proof (cases "es = []")
    case False
    then have "es ! (rn_long R (snd pos) mod length es) \<in> set es" by simp
    with s False show ?thesis by (auto simp: dictGetFairRandomKey_def Let_def)
  next
    case True
    have "dictCount d1 \<noteq> 0" using sameContents_count [OF assms(1) s(2)] assms(2) by simp
    from dictGetRandomKey_ok [OF inv1 this assms(3), of "(n, snd pos)"] s True ents show ?thesis
      by (auto simp: dictGetFairRandomKey_def sameContents_def)
  qed
qed

text \<open>The stream that runs through the words again and again, one after another.\<close>

theorem fair_random_key_exists_witness:
  "\<exists>d' p e. dictGetFairRandomKey modHash \<lparr>rn_ulong = word_of_nat, rn_long = \<lambda>n. n\<rparr> (0, 0) growingTable = Some (d', p, Some e) \<and>
    sameContents modHash growingTable d' \<and> e \<in> set (entries growingTable)"
proof (rule fair_random_key_exists [OF growingTable_ok(1)])
  show "dictCount growingTable \<noteq> 0" by (simp add: dictCount_def growingTable_def)
  have "\<exists>m \<ge> n. word_of_nat m = x" for n and x :: u64
  proof (intro exI conjI)
    show "n \<le> n * 2 ^ 64 + unat x" by simp
    have "(2 :: u64) ^ 64 = 0" by (subst exp_eq_zero_iff) simp
    then have "word_of_nat (n * 2 ^ 64) = (0 :: u64)" by (simp only: of_nat_mult of_nat_power of_nat_numeral mult_zero_right)
    then show "word_of_nat (n * 2 ^ 64 + unat x) = x" by (simp only: of_nat_add add_0 of_nat_unat ucast_id)
  qed
  then show "recurs \<lparr>rn_ulong = word_of_nat, rn_long = \<lambda>n. n\<rparr>" by (simp add: recurs_def)
qed

end
