(* ===== verification/Spec2Isabelle.thy ===== *)
theory Spec2Isabelle
  imports KeySlot Restart DictScan DictIter DictPick
begin

text \<open>
  HPUCache is a fork of Redis 6.2 whose cluster copies hot hash slots to several instances and
  spreads the commands on such a slot over the instances that hold a copy. This library models
  the server under src/server, one instance of it: what it does with the packets, the commands
  and the ticks it gets, with everything that happens elsewhere (the other instances, the network,
  the clock, random numbers, the data types) as input of the model or as an event of its output.

  The parts of the program and the theories that model them, in the order of the imports:

  \<^item> \<open>HPrelude\<close>: word types, generic lemmas, the collections \<open>flag_simps\<close> and \<open>frame_simps\<close>, and the
    locale \<open>dictionary\<close>, the contract of \<^verbatim>\<open>dict.c\<close> that the cluster code relies on; it is
    interpreted on the entry lists the model of the cluster uses (\<open>dictFind\<close>, \<open>dictReplace\<close>,
    \<open>dictDelete\<close>) and, in \<open>DictMap\<close>, on the hash table of the code.
  \<^item> \<open>Dict\<close>, \<open>DictInv\<close>, \<open>DictMap\<close>: dict.c, the hash table with two tables and incremental rehashing;
    its invariant, that growth and rehashing keep the contents, that all calls together are those of
    a map and stay inside the tables. \<open>DictIter\<close>: iterators, and the loops that delete on the way;
    \<open>DictScan\<close>: the cursor of \<^verbatim>\<open>dictScan\<close>; \<open>DictPick\<close>: random entries.
  \<^item> \<open>CString\<close>: numbers and words of strings (\<^verbatim>\<open>string2ll\<close>, \<^verbatim>\<open>sdssplitargs\<close>, \<^verbatim>\<open>atoi\<close>, \<^verbatim>\<open>strtoull\<close>).
  \<^item> \<open>Bitmap\<close>: \<^verbatim>\<open>bitmapTestBit\<close>, \<^verbatim>\<open>bitmapSetBit\<close>, \<^verbatim>\<open>bitmapClearBit\<close> of cluster.c on arrays of bytes;
    the locale \<open>bit_array\<close> with the counting lemmas, interpreted on them.
  \<^item> \<open>KeySlot\<close>: crc16.c and \<^verbatim>\<open>keyHashSlot\<close>; the table is proved equal to the bitwise XMODEM
    polynomial, and keys with the same hash tag are proved to share a slot.
  \<^item> \<open>ClusterTypes\<close>: the structures and constants of cluster.h and the fields of \<^verbatim>\<open>redisServer\<close> that
    the cluster uses, the header \<^verbatim>\<open>clusterMsg\<close>, the events and the ways a process can die.
  \<^item> \<open>ClusterNodes\<close>: the node table, slave lists, failure reports and the slot table. It has the
    invariant \<open>cluster_ok\<close>: names in the table are those of the nodes and unique, this node is in
    it, and the slot table, the bitmaps and the counters of the nodes agree.
  \<^item> \<open>ClusterSend\<close>: headers and messages (\<^verbatim>\<open>clusterBuildMessageHdr\<close> to \<^verbatim>\<open>clusterSendUpdate\<close>),
    the choice of the gossip entries and the size of the buffer they are written to.
  \<^item> \<open>ClusterConfig\<close>: epochs and their collisions, the black list, the FAIL state, the handshake,
    \<^verbatim>\<open>clusterUpdateSlotsConfigWith\<close>, \<^verbatim>\<open>clusterInit\<close> and \<^verbatim>\<open>clusterReset\<close>.
  \<^item> \<open>ClusterHealth\<close>: \<^verbatim>\<open>clusterUpdateState\<close> and \<^verbatim>\<open>verifyClusterConfigWithData\<close>.
  \<^item> \<open>ClusterElection\<close>: votes, elections, takeover, replica migration, manual failover.
  \<^item> \<open>ClusterPacket\<close>: \<^verbatim>\<open>clusterProcessPacket\<close> in the phases of the C function.
  \<^item> \<open>HotGroup\<close>: the measurement of the heat of slots, the instances that hold a copy of a slot
    (\<^verbatim>\<open>related_ins\<close>), the cache of write commands and its broadcast.
  \<^item> \<open>ClusterCron\<close>: links, \<^verbatim>\<open>clusterCron\<close> in its phases, \<^verbatim>\<open>clusterBeforeSleep\<close>.
  \<^item> \<open>LinkIO\<close>: \<^verbatim>\<open>clusterReadHandler\<close> and \<^verbatim>\<open>clusterWriteHandler\<close> over arbitrary segments of bytes.
  \<^item> \<open>Query\<close>: \<^verbatim>\<open>getNodeByQuery\<close> and the redirections of clients.
  \<^item> \<open>Forward\<close>: \<^verbatim>\<open>getForwardAim\<close> and \<^verbatim>\<open>processCommand\<close> of server.c up to the execution of the command.
  \<^item> \<open>NodesText\<close>: the text of the nodes, as in nodes.conf and CLUSTER NODES, and the reply of CLUSTER SLOTS.
  \<^item> \<open>ClusterCommand\<close>: \<^verbatim>\<open>clusterCommand\<close> with all its subcommands and replies.
  \<^item> \<open>Steady\<close>: what no input of a node undoes. The locales \<open>calm\<close>, \<open>steady\<close> and \<open>steadfast\<close> state it for a class of
    states and are interpreted on the handlers.
  \<^item> \<open>NodesConf\<close>: \<^verbatim>\<open>clusterLoadConfig\<close>; \<open>SavedText\<close> and \<open>SavedConfig\<close>: the text that \<^verbatim>\<open>clusterSaveConfig\<close> writes, and that
    it is read back to the same configuration.
  \<^item> \<open>Node\<close>: a whole node as a step relation over the handlers above, its reachable states and the votes
    of a run; \<open>Restart\<close>: a node that starts from what an earlier one saved.

  How the state corresponds. The record \<open>redisServer\<close> holds the fields of \<^verbatim>\<open>server.cluster\<close> (prefix
  \<open>c_\<close>) and of \<^verbatim>\<open>server\<close> (prefix \<open>s_\<close>). A pointer to a node is an address; \<open>c_mem\<close> maps addresses to
  \<^verbatim>\<open>clusterNode\<close> structures, so that aliasing is kept: the same node is reached through the table,
  the slot table, the slave lists and the hot groups. The addresses in use are \<open>live\<close>, the values of
  the node table. Every C function that changes state is a function from the state to the state; a
  failed assertion, a NULL or dangling pointer and \<^verbatim>\<open>exit\<close> set the field \<open>s_panic\<close>, which no
  operation clears. Messages, saved files and commands to other instances are appended to \<open>s_out\<close>.

  What the lemmas show, from the bottom up. Each operation has a frame lemma (which fields it
  leaves alone, in \<open>frame_simps\<close>), a lemma that it keeps \<open>cluster_ok\<close>, and for the operations
  that matter an exact description of its effect. From these follow the properties: what a vote,
  a promotion, a takeover and a new configuration do; that whole packets, whole rounds of the cron
  and whole streams of bytes keep the tables consistent; that the judgement of the cluster state,
  the routing of a query, the failure reports, the hot groups and the send buffer equal abstract
  specifications over sets, maps and queues; that a cached write arrives at another instance as it
  was sent; and when the code goes wrong (the theorems that carry a finding). Over whole runs of a
  node, with its packets, ticks, commands and answers in any order, the tables stay consistent
  and the votes have increasing epochs, also across a restart from the saved file. Under all
  of it the hash table is proved to keep the contract that the model of the cluster has of a
  dictionary: a loop over a dictionary is a fold over its entries as they are at its begin, which is
  what \<open>safe_iteration_sees_all\<close> shows of the iterators of the code.

  Bounds, fuel and termination. Loops over slots are folds over \<open>[0..<CLUSTER_SLOTS]\<close>, loops over a
  dictionary are folds over its entries. The loop of \<^verbatim>\<open>getForwardAim\<close>, which can run for ever, is
  \<open>pickOther\<close>, a \<open>partial_function (option)\<close>, and the property \<open>forward_aim_ends_iff\<close> says when it
  ends. The loop of \<^verbatim>\<open>clusterReadHandler\<close> is a \<open>function\<close> whose termination is proved with the bytes
  that are left; those of \<^verbatim>\<open>dictNext\<close> and \<^verbatim>\<open>dictScan\<close> end by the buckets and by the places of the
  cursor that are left. The loops that wait for a lucky draw (\<open>drawLoop\<close>) or for the clock
  (\<open>rehashRounds\<close>) are \<open>partial_function (option)\<close>, with theorems on when they return. A hash
  table holds fewer than \<open>2 ^ 60\<close> entries, as its memory does. The results on the votes of a run
  are for at most \<open>2 ^ 62\<close> steps, for epochs below \<open>2 ^ 63\<close> in packets and at the start, and without
  CLUSTER RESET HARD, which sets the epochs back.

  Errors are values: a loader of nodes.conf gives Inl with the way it ended the process or left a
  buffer, commands give their error reply, and the operations of a hash table give None for an access
  outside of its memory.

  Parameters of the model: the functions that read a structure off the bytes of a packet
  (\<open>decode\<close>), that normalise an address (\<^verbatim>\<open>inet_pton\<close>), that say whether a connection can be started
  (\<open>dial\<close>), the position of the keys of a command, the tables of commands and users, the value
  \<open>junk\<close> of the variable \<^verbatim>\<open>hashslot\<close> that \<^verbatim>\<open>processCommand\<close> does not initialise, and for a dictionary its
  hash function (siphash) and the random numbers and clock it reads.

  Not modelled: opening, locking and syncing the file of the cluster configuration (its text is, and
  that it is saved is an event), DUMP, RESTORE and MIGRATE, replication and persistence, the data
  types, scripting, modules, the event loop and sockets, sentinel and the command line tools, which are
  the code of Redis and which the cluster code reaches only through the events and fields above; the
  further copies of the server under src/monitorcode and src/consistcode; the benchmark clients.
\<close>

end
